(* ===== verification/RDP_Prelude.thy ===== *)
theory RDP_Prelude
  imports "HOL-Library.Word"
begin

text \<open>
  Shared vocabulary of the development: the machine types of the C++ sources, the
  shift-and-mask idiom their decoders are written in, a bounds-checked array read, and the
  generic lemmas on words, lists and association lists that the component theories rely on.

  The collections: \<open>word_field\<close> holds the equations that turn masks and tests of single
  bits into arithmetic and \<open>bit\<close>; \<open>rdp_defs\<close> the unfolding equations of small policy
  functions that every proof about their callers needs.
\<close>

unbundle bit_operations_syntax

named_theorems word_field \<open>masks, shifts and single-bit tests\<close>
named_theorems rdp_defs \<open>unfolding equations of small helper functions\<close>

section \<open>Machine types\<close>

type_synonym u8 = "8 word"
type_synonym u16 = "16 word"
type_synonym u32 = "32 word"
type_synonym u64 = "64 word"

text \<open>
  A signed C++ integer is kept as the word that holds its two's complement bits and read with
  \<open>sint\<close>; \<open>size_t\<close> and \<open>uintptr_t\<close> are 64 bits wide. A byte array is a list of
  bytes; a possibly null pointer to one is an \<open>option\<close>.
\<close>

type_synonym i16 = "16 word"
type_synonym i32 = "32 word"
type_synonym bytes = "u8 list"

section \<open>The shift-and-mask idiom\<close>

abbreviation shr :: "'a::len word \<Rightarrow> nat \<Rightarrow> 'a word" where
  "shr w n \<equiv> drop_bit n w"

abbreviation shl :: "'a::len word \<Rightarrow> nat \<Rightarrow> 'a word" where
  "shl w n \<equiv> push_bit n w"

text \<open>\<open>(w >> s) & m\<close>, the field extraction of every decoder.\<close>

abbreviation field :: "'a::len word \<Rightarrow> nat \<Rightarrow> 'a word \<Rightarrow> 'a word" where
  "field w s m \<equiv> drop_bit s w AND m"

text \<open>\<open>(w & m) != 0\<close>.\<close>

definition flag_set :: "'a::len word \<Rightarrow> 'a word \<Rightarrow> bool" where
  "flag_set w m \<longleftrightarrow> w AND m \<noteq> 0"

lemma flag_set_single [word_field]:
  "n < LENGTH('a) \<Longrightarrow> flag_set (w :: 'a::len word) (push_bit n 1) = bit w n"
  by (auto simp: flag_set_def bit_eq_iff [of "w AND 2 ^ n"] bit_and_iff bit_exp_iff)

lemma flag_set_or [word_field]:
  "flag_set w (a OR b) \<longleftrightarrow> flag_set w a \<or> flag_set w b"
  by (auto simp: flag_set_def bit_eq_iff bit_and_iff bit_or_iff)

lemma flag_set_or_left [word_field]:
  "flag_set (w OR v) a \<longleftrightarrow> flag_set w a \<or> flag_set v a"
  by (auto simp: flag_set_def bit_eq_iff bit_and_iff bit_or_iff)

lemma flag_set_zero [simp]: "\<not> flag_set 0 m" "\<not> flag_set w 0"
  by (simp_all add: flag_set_def)

section \<open>Bounds of masked values\<close>

lemma unat_and_le: "unat (w AND m) \<le> unat (m :: 'a::len word)"
  using word_and_le1 [of w m] by (simp add: word_le_nat_alt)

lemma and_mask_mod: "unat (w AND mask k) = unat (w :: 'a::len word) mod 2 ^ k"
proof -
  have "unat (take_bit k w) = take_bit k (unat w)" by (rule unsigned_take_bit_eq)
  then show ?thesis by (simp only: take_bit_eq_mask [symmetric] take_bit_eq_mod [of k "unat w"])
qed

lemma and_mask_fixed: "unat v < 2 ^ k \<Longrightarrow> v AND mask k = (v :: 'a::len word)"
  by (simp only: word_unat_eq_iff and_mask_mod) simp

lemma unat_field_le: "unat (field w s m) \<le> unat (m :: 'a::len word)"
  by (rule unat_and_le)

lemma unat_field_less: "unat m < n \<Longrightarrow> unat (field w s (m :: 'a::len word)) < n"
  using unat_field_le [of s w m] by simp

lemma unat_field_mask: "unat (field w s (mask k)) = unat (w :: 'a::len word) div 2 ^ s mod 2 ^ k"
  by (simp only: and_mask_mod unat_drop_bit_eq) (simp add: drop_bit_eq_div)

lemma unat_shr: "unat (shr w s) = unat (w :: 'a::len word) div 2 ^ s"
  by (simp only: unat_drop_bit_eq) (simp add: drop_bit_eq_div)

lemma of_nat_unat_word: "of_nat (unat w) = (w :: 'a::len word)"
  by (simp add: word_unat_eq_iff unsigned_of_nat)

text \<open>Deciding a statement about a word of few bits by trying all its values.\<close>

lemma word_small_cases:
  assumes "\<forall>n \<in> set [0..<k]. P (of_nat n :: 'a::len word)" "unat v < k"
  shows "P v"
  using assms of_nat_unat_word [of v] by (metis atLeastLessThan_iff le0 set_upt)

lemma unat_ucast_u32_u64 [simp]: "unat (ucast (w :: u32) :: u64) = unat w"
  using unsigned_less [of w, where 'a = nat] by (simp add: unsigned_ucast_eq take_bit_nat_eq_self)

lemma unat_u32_less: "unat (w :: u32) < 4294967296"
proof -
  have "unat w < 2 ^ LENGTH(32)" by (rule unsigned_less)
  then show ?thesis by simp
qed

lemma unat_of_nat_u32: "n < 2 ^ 32 \<Longrightarrow> unat (of_nat n :: u32) = n"
  by (simp add: unsigned_of_nat take_bit_nat_eq_self)

lemma unat_of_nat_u64: "n < 2 ^ 64 \<Longrightarrow> unat (of_nat n :: u64) = n"
  by (simp add: unsigned_of_nat take_bit_nat_eq_self)

section \<open>Bounds-checked reads\<close>

text \<open>
  \<open>p[i]\<close> through a pointer to an array of known length: \<open>None\<close> is the read the
  language leaves undefined.
\<close>

definition rd :: "'a list \<Rightarrow> nat \<Rightarrow> 'a option" where
  "rd xs i = (if i < length xs then Some (xs ! i) else None)"

lemma rd_Some_iff: "rd xs i = Some x \<longleftrightarrow> i < length xs \<and> x = xs ! i"
  by (auto simp: rd_def)

lemma rd_None_iff [simp]: "rd xs i = None \<longleftrightarrow> length xs \<le> i"
  by (auto simp: rd_def)

lemma rd_in_range [simp]: "i < length xs \<Longrightarrow> rd xs i = Some (xs ! i)"
  by (simp add: rd_def)

text \<open>\<open>p[i] = x\<close>, with the same reading of \<open>None\<close>.\<close>

definition wr :: "'a list \<Rightarrow> nat \<Rightarrow> 'a \<Rightarrow> 'a list option" where
  "wr xs i x = (if i < length xs then Some (xs[i := x]) else None)"

lemma wr_Some_iff: "wr xs i x = Some ys \<longleftrightarrow> i < length xs \<and> ys = xs[i := x]"
  by (auto simp: wr_def)

lemma wr_in_range [simp]: "i < length xs \<Longrightarrow> wr xs i x = Some (xs[i := x])"
  by (simp add: wr_def)

section \<open>Searching lists\<close>

text \<open>A loop that scans a vector from its last element to its first.\<close>

definition find_last :: "('a \<Rightarrow> bool) \<Rightarrow> 'a list \<Rightarrow> 'a option" where
  "find_last P xs = find P (rev xs)"

lemma find_None_iff': "find P xs = None \<longleftrightarrow> (\<forall>x \<in> set xs. \<not> P x)"
  by (auto simp: find_None_iff)

lemma find_SomeD: "find P xs = Some x \<Longrightarrow> x \<in> set xs \<and> P x"
  by (induction xs) (auto split: if_splits)

lemma find_last_Nil [simp]: "find_last P [] = None"
  by (simp add: find_last_def)

lemma find_append: "find P (xs @ ys) = (case find P xs of None \<Rightarrow> find P ys | Some x \<Rightarrow> Some x)"
  by (induction xs) (auto split: option.splits)

lemma find_last_snoc [simp]:
  "find_last P (xs @ [x]) = (if P x then Some x else find_last P xs)"
  by (simp add: find_last_def)

lemma find_last_None_iff: "find_last P xs = None \<longleftrightarrow> (\<forall>x \<in> set xs. \<not> P x)"
  by (simp add: find_last_def find_None_iff')

lemma find_last_SomeD: "find_last P xs = Some x \<Longrightarrow> x \<in> set xs \<and> P x"
  unfolding find_last_def by (drule find_SomeD) simp

text \<open>The element a backward scan stops at is the last one that satisfies the test.\<close>

lemma find_last_split:
  "find_last P xs = Some x \<longleftrightarrow>
     (\<exists>ys zs. xs = ys @ x # zs \<and> P x \<and> (\<forall>z \<in> set zs. \<not> P z))"
proof (induction xs rule: rev_induct)
  case Nil
  then show ?case by simp
next
  case (snoc y xs)
  show ?case
  proof (cases "P y")
    case True
    show ?thesis
    proof
      assume "find_last P (xs @ [y]) = Some x"
      with True have "x = y" by simp
      with True show "\<exists>ys zs. xs @ [y] = ys @ x # zs \<and> P x \<and> (\<forall>z \<in> set zs. \<not> P z)"
        by (intro exI [of _ xs] exI [of _ "[]"]) simp
    next
      assume "\<exists>ys zs. xs @ [y] = ys @ x # zs \<and> P x \<and> (\<forall>z \<in> set zs. \<not> P z)"
      then obtain ys zs where e: "xs @ [y] = ys @ x # zs" and n: "\<forall>z \<in> set zs. \<not> P z"
        by blast
      from e True n have "zs = []" by (cases zs rule: rev_cases) auto
      with e True show "find_last P (xs @ [y]) = Some x" by simp
    qed
  next
    case False
    show ?thesis
    proof
      assume "find_last P (xs @ [y]) = Some x"
      with False snoc obtain ys zs where
        "xs = ys @ x # zs" "P x" "\<forall>z \<in> set zs. \<not> P z"
        by auto
      with False show "\<exists>ys zs. xs @ [y] = ys @ x # zs \<and> P x \<and> (\<forall>z \<in> set zs. \<not> P z)"
        by (intro exI [of _ ys] exI [of _ "zs @ [y]"]) simp
    next
      assume "\<exists>ys zs. xs @ [y] = ys @ x # zs \<and> P x \<and> (\<forall>z \<in> set zs. \<not> P z)"
      then obtain ys zs where e: "xs @ [y] = ys @ x # zs" and "P x" "\<forall>z \<in> set zs. \<not> P z"
        by blast
      with False obtain zs' where "zs = zs' @ [y]" by (cases zs rule: rev_cases) auto
      with e \<open>P x\<close> \<open>\<forall>z \<in> set zs. \<not> P z\<close>
      have "\<exists>ys zs. xs = ys @ x # zs \<and> P x \<and> (\<forall>z \<in> set zs. \<not> P z)"
        by (intro exI [of _ ys] exI [of _ zs']) simp
      with False snoc show "find_last P (xs @ [y]) = Some x" by simp
    qed
  qed
qed

text \<open>A cascade of lookups that stops at the first hit.\<close>

definition or_else :: "'a option \<Rightarrow> 'a option \<Rightarrow> 'a option" where
  "or_else a b = (case a of None \<Rightarrow> b | Some x \<Rightarrow> Some x)"

lemma or_else_simps [simp]:
  "or_else None b = b" "or_else (Some x) b = Some x" "or_else a None = a"
  by (simp_all add: or_else_def split: option.splits)

lemma or_else_assoc: "or_else (or_else a b) c = or_else a (or_else b c)"
  by (cases a) simp_all

lemma or_else_None_iff [simp]: "or_else a b = None \<longleftrightarrow> a = None \<and> b = None"
  by (cases a) simp_all

lemma or_else_SomeD: "or_else a b = Some x \<Longrightarrow> a = Some x \<or> b = Some x"
  by (cases a) simp_all

lemma or_else_SomeE:
  assumes "or_else a b = Some x"
  obtains "a = Some x" | "a = None" "b = Some x"
  using assms by (cases a) simp_all

lemma find_last_map: "find_last P (map f xs) = map_option f (find_last (P \<circ> f) xs)"
  by (induction xs rule: rev_induct) simp_all

section \<open>Vectors without repetitions\<close>

text \<open>\<open>push_unique\<close> of \<open>texture_replacement.cpp\<close>: append unless already present.\<close>

definition push_unique :: "'a list \<Rightarrow> 'a \<Rightarrow> 'a list" where
  "push_unique values value = (if value \<in> set values then values else values @ [value])"

lemma set_push_unique [simp]: "set (push_unique xs x) = insert x (set xs)"
  by (auto simp: push_unique_def)

lemma push_unique_new: "x \<notin> set xs \<Longrightarrow> push_unique xs x = xs @ [x]"
  by (simp add: push_unique_def)

lemma distinct_push_unique [simp]: "distinct xs \<Longrightarrow> distinct (push_unique xs x)"
  by (auto simp: push_unique_def)

lemma set_foldl_push_unique [simp]: "set (foldl push_unique acc xs) = set acc \<union> set xs"
  by (induction xs arbitrary: acc) auto

lemma distinct_foldl_push_unique [simp]: "distinct acc \<Longrightarrow> distinct (foldl push_unique acc xs)"
  by (induction xs arbitrary: acc) auto

lemma length_foldl_push_unique: "length (foldl push_unique [] xs) = card (set xs)"
  using distinct_card [of "foldl push_unique [] xs"] by simp

end
