(* ===== verification/Command_Ring.thy ===== *)
theory Command_Ring
  imports RDP_Prelude "HOL-Library.Sublist"
begin

text \<open>
  The command ring between the emulator thread and the RDP worker thread:
  \<open>command_ring_policy.hpp\<close> (the counters and the circular buffer) and
  \<open>command_ring.cpp\<close> (the producer, the worker loop, drain and initialisation).

  The functions of the policy header are translated on 64-bit counters that wrap. The two
  threads are a step relation: every critical section of the mutex is one step, and the
  processing of a fetched command, which runs outside the mutex, is a step of its own. The
  state carries logs of what was enqueued, fetched and handed to the processor, so that the
  order of delivery can be stated. Thread and condition-variable primitives themselves are not
  modelled: a wait is the guard of the step that follows it.
\<close>

section \<open>The ring buffer\<close>

record command_ring =
  ring :: "u32 list"
  write_count :: u64
  read_count :: u64
  completed_count :: u64

definition can_enqueue_ring_words :: "u64 \<Rightarrow> u64 \<Rightarrow> u64 \<Rightarrow> u32 \<Rightarrow> bool" where
  "can_enqueue_ring_words wc rc ring_size num_words \<longleftrightarrow>
     wc + ucast num_words + 1 \<le> rc + ring_size"

text \<open>The store \<open>ring[write_count++ & mask] = w\<close>, repeated.\<close>

fun put_ring_words :: "u32 list \<Rightarrow> u64 \<Rightarrow> u64 \<Rightarrow> u32 list \<Rightarrow> u32 list \<times> u64" where
  "put_ring_words rg msk wc [] = (rg, wc)"
| "put_ring_words rg msk wc (w # ws) = put_ring_words (rg[unat (wc AND msk) := w]) msk (wc + 1) ws"

definition write_ring_command :: "u32 list \<Rightarrow> u64 \<Rightarrow> u64 \<Rightarrow> u32 \<Rightarrow> u32 list \<Rightarrow> u32 list \<times> u64" where
  "write_ring_command rg msk wc num_words words =
     put_ring_words rg msk wc (num_words # take (unat num_words) words)"

text \<open>The load \<open>ring[read_count++ & mask]\<close>, repeated.\<close>

fun get_ring_words :: "u32 list \<Rightarrow> u64 \<Rightarrow> u64 \<Rightarrow> nat \<Rightarrow> u32 list \<times> u64" where
  "get_ring_words rg msk rc 0 = ([], rc)"
| "get_ring_words rg msk rc (Suc n) =
     (let (ws, rc') = get_ring_words rg msk (rc + 1) n in (rg ! unat (rc AND msk) # ws, rc'))"

definition read_ring_command :: "u32 list \<Rightarrow> u64 \<Rightarrow> u64 \<Rightarrow> u32 \<times> u32 list \<times> u64" where
  "read_ring_command rg msk rc =
     (let num_words = rg ! unat (rc AND msk);
          (out_words, rc') = get_ring_words rg msk (rc + 1) (unat num_words)
      in (num_words, out_words, rc'))"

definition ring_mask :: "command_ring \<Rightarrow> u64" where
  "ring_mask r = of_nat (length (ring r)) - 1"

definition can_enqueue :: "command_ring \<Rightarrow> u32 list \<Rightarrow> bool" where
  "can_enqueue r words \<longleftrightarrow>
     can_enqueue_ring_words (write_count r) (read_count r) (of_nat (length (ring r)))
       (of_nat (length words))"

text \<open>The body of \<open>CommandRing::enqueue_command\<close> once its wait has returned.\<close>

definition enqueue_command :: "command_ring \<Rightarrow> u32 list \<Rightarrow> command_ring" where
  "enqueue_command r words =
     (let (rg, wc) = write_ring_command (ring r) (ring_mask r) (write_count r)
                       (of_nat (length words)) words
      in r\<lparr>ring := rg, write_count := wc\<rparr>)"

text \<open>The read of the worker loop, and the wait condition that guards it.\<close>

definition ring_has_data :: "command_ring \<Rightarrow> bool" where
  "ring_has_data r \<longleftrightarrow> write_count r > read_count r"

definition fetch_command :: "command_ring \<Rightarrow> u32 list \<times> command_ring" where
  "fetch_command r =
     (let (_, ws, rc) = read_ring_command (ring r) (ring_mask r) (read_count r)
      in (ws, r\<lparr>read_count := rc\<rparr>))"

text \<open>\<open>drain\<close> returns exactly when this holds.\<close>

definition drained :: "command_ring \<Rightarrow> bool" where
  "drained r \<longleftrightarrow> write_count r = completed_count r"

text \<open>
  \<open>CommandRing::init\<close> after the old thread is torn down: \<open>resize\<close> keeps the old words
  and zero-fills, and \<open>completed_count\<close> keeps its old value.
\<close>

definition ring_init :: "command_ring \<Rightarrow> u32 \<Rightarrow> command_ring" where
  "ring_init r count =
     r\<lparr>ring := take (unat count) (ring r) @ replicate (unat count - length (ring r)) 0,
       write_count := 0, read_count := 0\<rparr>"

definition fresh_ring :: command_ring where
  "fresh_ring = \<lparr>ring = [], write_count = 0, read_count = 0, completed_count = 0\<rparr>"

section \<open>The two threads\<close>

text \<open>
  Where the worker is: waiting at the top of its loop; holding \<open>tmp_buffer\<close> and
  \<open>is_idle\<close> outside the mutex; done processing and about to publish
  \<open>completed_count\<close>; returned.
\<close>

datatype worker = Waiting | Running "u32 list" bool | Finishing bool | Exited

record ring_sys =
  cr :: command_ring
  wrk :: worker
  enq_log :: "u32 list list"
  deq_log :: "u32 list list"
  exec_log :: "(u32 list \<times> bool) list"

definition meta_idle_words :: "u32 list" where
  "meta_idle_words = [push_bit 24 3]"

definition ring_start :: "command_ring \<Rightarrow> ring_sys" where
  "ring_start r = \<lparr>cr = r, wrk = Waiting, enq_log = [], deq_log = [], exec_log = []\<rparr>"

inductive ring_step :: "ring_sys \<Rightarrow> ring_sys \<Rightarrow> bool" where
  enqueue: "length words < 2 ^ 32 \<Longrightarrow> can_enqueue (cr s) words \<Longrightarrow>
     ring_step s (s\<lparr>cr := enqueue_command (cr s) words, enq_log := enq_log s @ [words]\<rparr>)"
| fetch: "wrk s = Waiting \<Longrightarrow> ring_has_data (cr s) \<Longrightarrow> fetch_command (cr s) = (ws, r') \<Longrightarrow>
     ring_step s (s\<lparr>cr := r', wrk := Running ws False, deq_log := deq_log s @ [ws]\<rparr>)"
| timeout: "wrk s = Waiting \<Longrightarrow> \<not> ring_has_data (cr s) \<Longrightarrow>
     ring_step s (s\<lparr>wrk := Running meta_idle_words True\<rparr>)"
| break: "wrk s = Running [] idle \<Longrightarrow> ring_step s (s\<lparr>wrk := Exited\<rparr>)"
| process: "wrk s = Running ws idle \<Longrightarrow> ws \<noteq> [] \<Longrightarrow>
     ring_step s (s\<lparr>wrk := Finishing idle, exec_log := exec_log s @ [(ws, idle)]\<rparr>)"
| complete: "wrk s = Finishing False \<Longrightarrow>
     ring_step s (s\<lparr>cr := (cr s)\<lparr>completed_count := read_count (cr s)\<rparr>, wrk := Waiting\<rparr>)"
| complete_idle: "wrk s = Finishing True \<Longrightarrow> ring_step s (s\<lparr>wrk := Waiting\<rparr>)"

inductive_cases ring_stepE: "ring_step s t"

inductive ring_reachable :: "command_ring \<Rightarrow> ring_sys \<Rightarrow> bool" for r0 where
  start: "ring_reachable r0 (ring_start r0)"
| step: "ring_reachable r0 s \<Longrightarrow> ring_step s t \<Longrightarrow> ring_reachable r0 t"

section \<open>The buffer as a window of a sequence of words\<close>

text \<open>
  A command occupies one word for its length and its own words. \<open>ring_words\<close> is the
  counter value after a list of commands.
\<close>

definition frame :: "u32 list \<Rightarrow> u32 list" where
  "frame c = of_nat (length c) # c"

definition frames :: "u32 list list \<Rightarrow> u32 list" where
  "frames cs = concat (map frame cs)"

definition ring_words :: "u32 list list \<Rightarrow> nat" where
  "ring_words cs = length (frames cs)"

lemma frames_simps [simp]:
  "frames [] = []" "frames (c # cs) = frame c @ frames cs"
  "frames (as @ bs) = frames as @ frames bs"
  by (simp_all add: frames_def)

lemma length_frame [simp]: "length (frame c) = Suc (length c)"
  by (simp add: frame_def)

lemma ring_words_simps [simp]:
  "ring_words [] = 0" "ring_words (c # cs) = Suc (length c) + ring_words cs"
  "ring_words (as @ bs) = ring_words as + ring_words bs"
  by (simp_all add: ring_words_def)

text \<open>The word at counter value \<open>i\<close>, and the words of a range of counter values.\<close>

definition slot :: "u32 list \<Rightarrow> nat \<Rightarrow> u32" where
  "slot rg i = rg ! (i mod length rg)"

definition window :: "u32 list \<Rightarrow> nat \<Rightarrow> nat \<Rightarrow> u32 list" where
  "window rg a n = map (slot rg) [a..<a + n]"

lemma length_window [simp]: "length (window rg a n) = n"
  by (simp add: window_def)

lemma window_append: "window rg a (m + n) = window rg a m @ window rg (a + m) n"
proof -
  have "[a..<a + (m + n)] = [a..<a + m] @ [a + m..<a + m + n]"
    by (metis add.assoc le_add1 upt_add_eq_append)
  then show ?thesis by (simp add: window_def)
qed

lemma window_Suc: "window rg a (Suc n) = slot rg a # window rg (Suc a) n"
  by (simp add: window_def upt_conv_Cons del: upt_Suc)

fun put_at :: "u32 list \<Rightarrow> nat \<Rightarrow> u32 list \<Rightarrow> u32 list" where
  "put_at rg i [] = rg"
| "put_at rg i (w # ws) = put_at (rg[i mod length rg := w]) (Suc i) ws"

lemma length_put_at [simp]: "length (put_at rg i ws) = length rg"
  by (induction ws arbitrary: rg i) auto

lemma mod_eq_in_window:
  fixes i j lo n :: nat
  assumes "lo \<le> i" "i < lo + n" "lo \<le> j" "j < lo + n" "i mod n = j mod n"
  shows "i = j"
proof -
  have "int i mod int n = int j mod int n" using assms(5) by (metis of_nat_mod)
  then have "int n dvd int i - int j" by (simp add: mod_eq_dvd_iff)
  moreover have "\<bar>int i - int j\<bar> < int n" using assms(1-4) by linarith
  ultimately show ?thesis using dvd_imp_le_int [of "int i - int j" "int n"] by linarith
qed

lemma slot_update:
  assumes "lo \<le> i" "i < lo + length rg" "lo \<le> j" "j < lo + length rg"
  shows "slot (rg[i mod length rg := w]) j = (if i = j then w else slot rg j)"
proof (cases "i = j")
  case True
  from assms have "j mod length rg < length rg" by (intro mod_less_divisor) linarith
  with True show ?thesis by (simp add: slot_def)
next
  case False
  with mod_eq_in_window [OF assms] have "i mod length rg \<noteq> j mod length rg" by blast
  with False show ?thesis by (simp add: slot_def)
qed

lemma slot_put_at:
  assumes "lo \<le> i" "i + length ws \<le> lo + length rg" "lo \<le> j" "j < lo + length rg"
  shows "slot (put_at rg i ws) j =
    (if i \<le> j \<and> j < i + length ws then ws ! (j - i) else slot rg j)"
  using assms
proof (induction ws arbitrary: rg i)
  case Nil
  then show ?case by auto
next
  case (Cons w ws)
  have "slot (rg[i mod length rg := w]) j = (if i = j then w else slot rg j)"
    using Cons.prems by (intro slot_update [of lo]) auto
  moreover have "slot (put_at (rg[i mod length rg := w]) (Suc i) ws) j =
      (if Suc i \<le> j \<and> j < Suc i + length ws then ws ! (j - Suc i)
       else slot (rg[i mod length rg := w]) j)"
    using Cons.prems by (intro Cons.IH) auto
  moreover have "i \<le> j \<Longrightarrow> i \<noteq> j \<Longrightarrow> (w # ws) ! (j - i) = ws ! (j - Suc i)"
    by (simp add: nth_Cons' Suc_diff_Suc le_neq_implies_less)
  ultimately show ?case by auto
qed

text \<open>Words stored behind a window extend it and leave it as it was.\<close>

lemma window_put_at:
  assumes "n + length ws \<le> length rg"
  shows "window (put_at rg (a + n) ws) a (n + length ws) = window rg a n @ ws"
proof (rule nth_equalityI)
  fix k assume "k < length (window (put_at rg (a + n) ws) a (n + length ws))"
  then have k: "k < n + length ws" by simp
  have "slot (put_at rg (a + n) ws) (a + k) =
      (if a + n \<le> a + k \<and> a + k < a + n + length ws then ws ! (a + k - (a + n)) else slot rg (a + k))"
    using assms k by (intro slot_put_at [of a]) auto
  with k show "window (put_at rg (a + n) ws) a (n + length ws) ! k = (window rg a n @ ws) ! k"
    by (auto simp: window_def nth_append)
qed simp

section \<open>The word-level operations on the window\<close>

definition ring_size_ok :: "command_ring \<Rightarrow> bool" where
  "ring_size_ok r \<longleftrightarrow> (\<exists>k < 32. length (ring r) = 2 ^ k)"

lemma ring_mask_index:
  assumes "ring_size_ok r"
  shows "unat (c AND ring_mask r) = unat c mod length (ring r)"
proof -
  from assms obtain k where k: "k < 32" "length (ring r) = 2 ^ k"
    by (auto simp: ring_size_ok_def)
  then have "ring_mask r = mask k" by (simp add: ring_mask_def mask_eq_decr_exp)
  with k show ?thesis by (simp add: and_mask_mod)
qed

lemma ring_size_ok_pos: "ring_size_ok r \<Longrightarrow> 0 < length (ring r)"
  by (auto simp: ring_size_ok_def)

lemma ring_size_ok_less: "ring_size_ok r \<Longrightarrow> length (ring r) < 2 ^ 32"
  unfolding ring_size_ok_def using power_strict_increasing [of _ 32 "2::nat"] by auto

lemma unat_succ_u64: "unat (c :: u64) + 1 < 2 ^ 64 \<Longrightarrow> unat (c + 1) = Suc (unat c)"
  by (subst unat_add_lem [THEN iffD1]) auto

lemma put_ring_words_put_at:
  assumes "ring_size_ok r" "length rg = length (ring r)" "unat wc + length ws < 2 ^ 64"
  shows "put_ring_words rg (ring_mask r) wc ws = (put_at rg (unat wc) ws, wc + of_nat (length ws))"
  using assms(2,3)
proof (induction ws arbitrary: rg wc)
  case Nil
  then show ?case by simp
next
  case (Cons w ws)
  then have s: "unat (wc + 1) = Suc (unat wc)" by (intro unat_succ_u64) auto
  from Cons have "put_ring_words (rg[unat (wc AND ring_mask r) := w]) (ring_mask r) (wc + 1) ws =
      (put_at (rg[unat (wc AND ring_mask r) := w]) (unat (wc + 1)) ws, wc + 1 + of_nat (length ws))"
    by (intro Cons.IH) (auto simp: s)
  with Cons.prems show ?case by (simp add: s ring_mask_index [OF assms(1)] add.assoc)
qed

lemma get_ring_words_window:
  assumes "ring_size_ok r" "unat rc + n < 2 ^ 64"
  shows "get_ring_words (ring r) (ring_mask r) rc n =
    (window (ring r) (unat rc) n, rc + of_nat n)"
  using assms(2)
proof (induction n arbitrary: rc)
  case 0
  then show ?case by (simp add: window_def)
next
  case (Suc n)
  then have s: "unat (rc + 1) = Suc (unat rc)" by (intro unat_succ_u64) auto
  with Suc have "get_ring_words (ring r) (ring_mask r) (rc + 1) n =
      (window (ring r) (unat (rc + 1)) n, rc + 1 + of_nat n)"
    by (intro Suc.IH) simp
  then show ?case
    by (simp add: s window_Suc slot_def ring_mask_index [OF assms(1)] add.assoc)
qed


section \<open>The ring as a first-in first-out channel\<close>

text \<open>
  What the two threads rely on. \<open>holds q cs\<close> says that the channel stores exactly the
  commands \<open>cs\<close>, oldest first.
\<close>

fun recv_n :: "('q \<Rightarrow> 'a \<times> 'q) \<Rightarrow> nat \<Rightarrow> 'q \<Rightarrow> 'a list \<times> 'q" where
  "recv_n rcv 0 q = ([], q)"
| "recv_n rcv (Suc n) q = (let (c, q') = rcv q; (cs, q'') = recv_n rcv n q' in (c # cs, q''))"

locale fifo_channel =
  fixes holds :: "'q \<Rightarrow> 'a list \<Rightarrow> bool"
    and can_send :: "'q \<Rightarrow> 'a \<Rightarrow> bool"
    and send :: "'q \<Rightarrow> 'a \<Rightarrow> 'q"
    and has_data :: "'q \<Rightarrow> bool"
    and recv :: "'q \<Rightarrow> 'a \<times> 'q"
  assumes holds_send: "holds q cs \<Longrightarrow> can_send q c \<Longrightarrow> holds (send q c) (cs @ [c])"
    and holds_recv: "holds q (c # cs) \<Longrightarrow> fst (recv q) = c \<and> holds (snd (recv q)) cs"
    and has_data_iff: "holds q cs \<Longrightarrow> has_data q \<longleftrightarrow> cs \<noteq> []"
begin

lemma recv_n_holds:
  "holds q (cs @ ds) \<Longrightarrow> fst (recv_n recv (length cs) q) = cs \<and> holds (snd (recv_n recv (length cs) q)) ds"
proof (induction cs arbitrary: q)
  case Nil
  then show ?case by simp
next
  case (Cons c cs)
  then have "fst (recv q) = c" "holds (snd (recv q)) (cs @ ds)"
    using holds_recv [of q c "cs @ ds"] by simp_all
  with Cons.IH [of "snd (recv q)"] show ?case by (simp add: case_prod_beta)
qed

text \<open>A channel has one content only, so the representation is a function.\<close>

lemma holds_unique: "holds q cs \<Longrightarrow> holds q ds \<Longrightarrow> cs = ds"
proof (induction cs arbitrary: q ds)
  case Nil
  then show ?case using has_data_iff by blast
next
  case (Cons c cs)
  then have "ds \<noteq> []" using has_data_iff by blast
  then obtain d ds' where ds: "ds = d # ds'" by (cases ds) auto
  from Cons.prems ds show ?case
    using holds_recv [of q c cs] holds_recv [of q d ds'] Cons.IH by blast
qed

lemma recv_after_send:
  assumes "holds q cs" "can_send q c"
  shows "fst (recv_n recv (Suc (length cs)) (send q c)) = cs @ [c]"
proof -
  from assms have "holds (send q c) ((cs @ [c]) @ [])" using holds_send by simp
  from recv_n_holds [OF this] show ?thesis by simp
qed

end

definition ring_holds :: "command_ring \<Rightarrow> u32 list list \<Rightarrow> bool" where
  "ring_holds r cs \<longleftrightarrow>
     ring_size_ok r \<and> (\<forall>c \<in> set cs. length c < 2 ^ 32) \<and>
     unat (write_count r) = unat (read_count r) + ring_words cs \<and>
     ring_words cs \<le> length (ring r) \<and>
     window (ring r) (unat (read_count r)) (ring_words cs) = frames cs"

text \<open>The guard of the producer, as long as the 64-bit counters do not overflow.\<close>

definition ring_can_send :: "command_ring \<Rightarrow> u32 list \<Rightarrow> bool" where
  "ring_can_send r c \<longleftrightarrow>
     can_enqueue r c \<and> length c < 2 ^ 32 \<and>
     unat (write_count r) + Suc (length c) + length (ring r) < 2 ^ 64"

lemma can_enqueue_nat:
  assumes "length c < 2 ^ 32" "unat (write_count r) + Suc (length c) < 2 ^ 64"
    "unat (read_count r) + length (ring r) < 2 ^ 64"
  shows "can_enqueue r c \<longleftrightarrow>
    unat (write_count r) + Suc (length c) \<le> unat (read_count r) + length (ring r)"
proof -
  have l: "ucast (of_nat (length c) :: u32) = (of_nat (length c) :: u64)"
    using assms(1) by (simp add: unsigned_of_nat take_bit_nat_eq_self)
  have "unat (write_count r + of_nat (length c) + 1) = unat (write_count r) + Suc (length c)"
    using assms(2) by (simp add: unat_word_ariths unsigned_of_nat take_bit_eq_mod mod_simps add.assoc)
  moreover have "unat (read_count r + of_nat (length (ring r))) = unat (read_count r) + length (ring r)"
    using assms(3) by (simp add: unat_word_ariths unsigned_of_nat take_bit_eq_mod mod_simps)
  ultimately show ?thesis
    by (simp add: can_enqueue_def can_enqueue_ring_words_def l word_le_nat_alt)
qed

lemma enqueue_command_put_at:
  assumes "ring_size_ok r" "length c < 2 ^ 32" "unat (write_count r) + Suc (length c) < 2 ^ 64"
  shows "enqueue_command r c =
    r\<lparr>ring := put_at (ring r) (unat (write_count r)) (frame c),
      write_count := write_count r + of_nat (Suc (length c))\<rparr>"
proof -
  have u: "unat (of_nat (length c) :: u32) = length c"
    using assms(2) by (simp add: unsigned_of_nat take_bit_nat_eq_self)
  have "put_ring_words (ring r) (ring_mask r) (write_count r) (frame c) =
      (put_at (ring r) (unat (write_count r)) (frame c), write_count r + of_nat (length (frame c)))"
    using assms by (intro put_ring_words_put_at) auto
  then show ?thesis
    by (simp add: enqueue_command_def write_ring_command_def u frame_def)
qed

lemma unat_add_of_nat_u64: "unat (w :: u64) + n < 2 ^ 64 \<Longrightarrow> unat (w + of_nat n) = unat w + n"
  by (simp add: unat_word_ariths unsigned_of_nat take_bit_eq_mod mod_simps)

lemma ring_holds_enqueue:
  assumes h: "ring_holds r cs" and s: "ring_can_send r c"
  shows "ring_holds (enqueue_command r c) (cs @ [c])"
proof -
  from h s have wc: "unat (write_count r) = unat (read_count r) + ring_words cs"
    and ok: "ring_size_ok r" and len: "length c < 2 ^ 32"
    and nw: "unat (write_count r) + Suc (length c) + length (ring r) < 2 ^ 64"
    by (auto simp: ring_holds_def ring_can_send_def)
  have "unat (write_count r) + Suc (length c) \<le> unat (read_count r) + length (ring r)"
    using s wc nw len by (subst can_enqueue_nat [symmetric]) (auto simp: ring_can_send_def)
  with wc have fits: "ring_words cs + Suc (length c) \<le> length (ring r)" by simp
  let ?r = "enqueue_command r c"
  from ok len nw have r: "?r = r\<lparr>ring := put_at (ring r) (unat (write_count r)) (frame c),
      write_count := write_count r + of_nat (Suc (length c))\<rparr>"
    by (intro enqueue_command_put_at) auto
  have "unat (write_count r + of_nat (Suc (length c))) = unat (write_count r) + Suc (length c)"
    using nw by (intro unat_add_of_nat_u64) simp
  moreover have "window (put_at (ring r) (unat (read_count r) + ring_words cs) (frame c))
      (unat (read_count r)) (ring_words cs + length (frame c)) = window (ring r) (unat (read_count r)) (ring_words cs) @ frame c"
    using fits by (intro window_put_at) simp
  ultimately show ?thesis
    using h fits len wc ok unfolding r ring_holds_def by (auto simp: ring_size_ok_def)
qed

lemma ring_holds_fetch:
  assumes "ring_holds r (c # cs)"
  shows "fst (fetch_command r) = c"
    and "ring_holds (snd (fetch_command r)) cs"
    and "snd (fetch_command r) = r\<lparr>read_count := read_count r + of_nat (Suc (length c))\<rparr>"
proof -
  from assms have ok: "ring_size_ok r" and len: "length c < 2 ^ 32"
    and wc: "unat (write_count r) = unat (read_count r) + (Suc (length c) + ring_words cs)"
    and win: "window (ring r) (unat (read_count r)) (Suc (length c) + ring_words cs) = frame c @ frames cs"
    by (auto simp: ring_holds_def)
  have lt: "unat (read_count r) + Suc (length c) < 2 ^ 64"
    using wc unsigned_less [of "write_count r", where 'a = nat] by simp
  then have s: "unat (read_count r + 1) = Suc (unat (read_count r))"
    by (intro unat_succ_u64) simp
  have "window (ring r) (unat (read_count r)) (Suc (length c)) = frame c \<and>
      window (ring r) (unat (read_count r) + Suc (length c)) (ring_words cs) = frames cs"
    using win [unfolded window_append]
    by (rule append_eq_append_conv [THEN iffD1, rotated]) simp
  then have w1: "window (ring r) (unat (read_count r)) (Suc (length c)) = frame c"
    and w2: "window (ring r) (unat (read_count r) + Suc (length c)) (ring_words cs) = frames cs"
    by blast+
  from w1 have hd: "slot (ring r) (unat (read_count r)) = of_nat (length c)"
    and tl: "window (ring r) (Suc (unat (read_count r))) (length c) = c"
    by (simp_all add: window_Suc frame_def)
  have n: "unat (of_nat (length c) :: u32) = length c"
    using len by (simp add: unsigned_of_nat take_bit_nat_eq_self)
  have "get_ring_words (ring r) (ring_mask r) (read_count r + 1) (length c) =
      (c, read_count r + 1 + of_nat (length c))"
    using lt s tl get_ring_words_window [OF ok, of "read_count r + 1" "length c"] by simp
  with hd have f: "fetch_command r = (c, r\<lparr>read_count := read_count r + of_nat (Suc (length c))\<rparr>)"
    by (simp add: fetch_command_def read_ring_command_def ring_mask_index [OF ok] slot_def n add.assoc)
  then show "fst (fetch_command r) = c"
    and "snd (fetch_command r) = r\<lparr>read_count := read_count r + of_nat (Suc (length c))\<rparr>"
    by simp_all
  have "unat (read_count r + of_nat (Suc (length c))) = unat (read_count r) + Suc (length c)"
    using lt by (rule unat_add_of_nat_u64)
  with f w2 wc assms show "ring_holds (snd (fetch_command r)) cs"
    by (auto simp: ring_holds_def ring_size_ok_def)
qed

lemma ring_holds_has_data: "ring_holds r cs \<Longrightarrow> ring_has_data r \<longleftrightarrow> cs \<noteq> []"
  by (cases cs) (auto simp: ring_holds_def ring_has_data_def word_less_nat_alt)

interpretation ring_chan: fifo_channel ring_holds ring_can_send enqueue_command ring_has_data fetch_command
proof unfold_locales
  fix q cs c assume "ring_holds q cs" "ring_can_send q c"
  then show "ring_holds (enqueue_command q c) (cs @ [c])" by (rule ring_holds_enqueue)
next
  fix q c cs assume "ring_holds q (c # cs)"
  then show "fst (fetch_command q) = c \<and> ring_holds (snd (fetch_command q)) cs"
    using ring_holds_fetch(1,2) by blast
next
  fix q cs assume "ring_holds q cs"
  then show "ring_has_data q = (cs \<noteq> [])" by (rule ring_holds_has_data)
qed


section \<open>Invariant of the two threads\<close>

text \<open>The commands of the emulator thread that the processor has been given.\<close>

definition executed :: "ring_sys \<Rightarrow> u32 list list" where
  "executed s = map fst (filter (\<lambda>p. \<not> snd p) (exec_log s))"

fun worker_inv :: "worker \<Rightarrow> u32 list list \<Rightarrow> u32 list list \<Rightarrow> nat \<Rightarrow> bool" where
  "worker_inv Waiting dl ex cc \<longleftrightarrow> ex = dl \<and> cc = ring_words dl"
| "worker_inv (Running ws False) dl ex cc \<longleftrightarrow> dl = ex @ [ws] \<and> cc = ring_words ex"
| "worker_inv (Running ws True) dl ex cc \<longleftrightarrow>
     ws = meta_idle_words \<and> ex = dl \<and> cc = ring_words dl"
| "worker_inv (Finishing False) dl ex cc \<longleftrightarrow> ex = dl \<and> dl \<noteq> [] \<and> cc = ring_words (butlast dl)"
| "worker_inv (Finishing True) dl ex cc \<longleftrightarrow> ex = dl \<and> cc = ring_words dl"
| "worker_inv Exited dl ex cc \<longleftrightarrow> dl = ex @ [[]] \<and> cc = ring_words ex"

definition ring_inv :: "ring_sys \<Rightarrow> u32 list list \<Rightarrow> bool" where
  "ring_inv s pending \<longleftrightarrow>
     ring_holds (cr s) pending \<and> enq_log s = deq_log s @ pending \<and>
     unat (read_count (cr s)) = ring_words (deq_log s) \<and>
     worker_inv (wrk s) (deq_log s) (executed s) (unat (completed_count (cr s)))"

text \<open>The counters have room for everything enqueued so far.\<close>

definition no_overflow :: "ring_sys \<Rightarrow> bool" where
  "no_overflow s \<longleftrightarrow> ring_words (enq_log s) + length (ring (cr s)) < 2 ^ 64"

text \<open>A freshly constructed ring after \<open>init\<close> with a power of two.\<close>

definition initialised :: "nat \<Rightarrow> command_ring" where
  "initialised k = ring_init fresh_ring (2 ^ k)"

lemma unat_two_power_u32: "k < 32 \<Longrightarrow> unat ((2 :: u32) ^ k) = 2 ^ k"
proof -
  assume "k < 32"
  have "unat (of_nat (2 ^ k) :: u32) = 2 ^ k mod 2 ^ 32"
    by (simp only: unsigned_of_nat take_bit_eq_mod) simp
  with \<open>k < 32\<close> power_strict_increasing [of k 32 "2::nat"] show ?thesis by simp
qed

lemma length_initialised: "k < 32 \<Longrightarrow> length (ring (initialised k)) = 2 ^ k"
  by (simp add: initialised_def ring_init_def fresh_ring_def unat_two_power_u32)

lemma ring_inv_start:
  assumes "k < 32"
  shows "ring_inv (ring_start (initialised k)) []"
proof -
  have "ring_size_ok (initialised k)"
    using assms length_initialised by (auto simp: ring_size_ok_def)
  then show ?thesis
    by (simp add: ring_inv_def ring_start_def ring_holds_def executed_def window_def
        initialised_def ring_init_def fresh_ring_def)
qed

lemma length_ring_enqueue [simp]: "length (ring (enqueue_command r c)) = length (ring r)"
proof -
  have "length (fst (put_ring_words rg m wc ws)) = length rg" for rg m wc ws
    by (induction ws arbitrary: rg wc) auto
  then show ?thesis
    by (simp add: enqueue_command_def write_ring_command_def case_prod_beta del: put_ring_words.simps)
qed

lemma enqueue_command_frame [simp]:
  "read_count (enqueue_command r c) = read_count r"
  "completed_count (enqueue_command r c) = completed_count r"
  by (simp_all add: enqueue_command_def case_prod_beta)

lemma fetch_command_frame:
  "fetch_command r = (ws, r') \<Longrightarrow>
     ring r' = ring r \<and> write_count r' = write_count r \<and> completed_count r' = completed_count r"
  by (auto simp: fetch_command_def case_prod_beta)

lemma ring_step_logs:
  assumes "ring_step s t"
  shows "prefix (enq_log s) (enq_log t) \<and> length (ring (cr t)) = length (ring (cr s))"
  using assms by cases (auto dest: fetch_command_frame)

lemma no_overflow_step:
  assumes "ring_step s t" "no_overflow t"
  shows "no_overflow s"
proof -
  from ring_step_logs [OF assms(1)] obtain zs where
    "enq_log t = enq_log s @ zs" "length (ring (cr t)) = length (ring (cr s))"
    by (auto simp: prefix_def)
  with assms(2) show ?thesis by (simp add: no_overflow_def)
qed

lemma ring_inv_write_count:
  "ring_inv s pending \<Longrightarrow> unat (write_count (cr s)) = ring_words (enq_log s)"
  by (auto simp: ring_inv_def ring_holds_def)

lemma ring_inv_enqueue:
  assumes inv: "ring_inv s pending" and "length words < 2 ^ 32" "can_enqueue (cr s) words"
    and "no_overflow (s\<lparr>cr := enqueue_command (cr s) words, enq_log := enq_log s @ [words]\<rparr>)"
  shows "ring_inv (s\<lparr>cr := enqueue_command (cr s) words, enq_log := enq_log s @ [words]\<rparr>) (pending @ [words])"
proof -
  have "ring_can_send (cr s) words"
    using assms ring_inv_write_count [OF inv] by (auto simp: ring_can_send_def no_overflow_def)
  with inv have "ring_holds (enqueue_command (cr s) words) (pending @ [words])"
    by (intro ring_chan.holds_send) (auto simp: ring_inv_def)
  with inv show ?thesis by (simp add: ring_inv_def executed_def)
qed

lemma ring_inv_fetch:
  assumes inv: "ring_inv s pending" and w: "wrk s = Waiting" and d: "ring_has_data (cr s)"
    and f: "fetch_command (cr s) = (ws, r')"
  shows "\<exists>pending'. ring_inv (s\<lparr>cr := r', wrk := Running ws False, deq_log := deq_log s @ [ws]\<rparr>) pending'"
proof -
  from inv d obtain cs where p: "pending = ws # cs"
    using ring_chan.has_data_iff [of "cr s" pending] ring_holds_fetch(1) [of "cr s"] f
    by (cases pending) (auto simp: ring_inv_def)
  with inv have h: "ring_holds (cr s) (ws # cs)" by (simp add: ring_inv_def)
  from ring_holds_fetch(2,3) [OF h] f
  have r: "ring_holds r' cs" and rc: "read_count r' = read_count (cr s) + of_nat (Suc (length ws))"
    by simp_all
  have "unat (read_count (cr s)) + Suc (length ws) < 2 ^ 64"
    using h unsigned_less [of "write_count (cr s)", where 'a = nat] by (simp add: ring_holds_def)
  then have "unat (read_count r') = unat (read_count (cr s)) + Suc (length ws)"
    unfolding rc by (rule unat_add_of_nat_u64)
  with inv w p r f show ?thesis
    by (intro exI [of _ cs]) (auto simp: ring_inv_def executed_def dest: fetch_command_frame)
qed

lemma ring_inv_step:
  assumes "ring_step s t" "ring_inv s pending" "no_overflow t"
  shows "\<exists>pending'. ring_inv t pending'"
  using assms
proof cases
  case (enqueue words)
  with assms show ?thesis using ring_inv_enqueue by blast
next
  case (fetch ws r')
  with assms show ?thesis using ring_inv_fetch by blast
next
  case (break idle)
  with assms show ?thesis
    by (intro exI [of _ pending], cases idle) (auto simp: ring_inv_def executed_def meta_idle_words_def)
next
  case (process ws idle)
  with assms show ?thesis
    by (intro exI [of _ pending], cases idle) (auto simp: ring_inv_def executed_def)
qed (auto simp: ring_inv_def executed_def ring_holds_def ring_size_ok_def)

lemma ring_reachable_inv:
  assumes "ring_reachable (initialised k) s" "k < 32" "no_overflow s"
  shows "\<exists>pending. ring_inv s pending"
  using assms
proof (induction rule: ring_reachable.induct)
  case start
  then show ?case using ring_inv_start by blast
next
  case (step s t)
  then show ?case using no_overflow_step ring_inv_step by blast
qed


text \<open>The worker alone brings the ring to rest.\<close>

lemma worker_to_waiting:
  assumes "ring_inv s pending" "[] \<notin> set (enq_log s)"
  shows "\<exists>t. ring_step\<^sup>*\<^sup>* s t \<and> wrk t = Waiting \<and> enq_log t = enq_log s \<and>
    deq_log t = deq_log s \<and> ring_inv t pending \<and> length (ring (cr t)) = length (ring (cr s))"
proof -
  let ?fin = "\<lambda>i. s\<lparr>cr := (if i then cr s else (cr s)\<lparr>completed_count := read_count (cr s)\<rparr>), wrk := Waiting\<rparr>"
  note inv = assms [unfolded ring_inv_def ring_holds_def ring_size_ok_def]
  show ?thesis
  proof (cases "wrk s")
    case Waiting
    with assms show ?thesis by blast
  next
    case (Running ws idle)
    have ne: "ws \<noteq> []" using inv Running by (cases idle) (auto simp: meta_idle_words_def)
    let ?m = "s\<lparr>wrk := Finishing idle, exec_log := exec_log s @ [(ws, idle)]\<rparr>"
    let ?t = "?m\<lparr>cr := (if idle then cr s else (cr s)\<lparr>completed_count := read_count (cr s)\<rparr>), wrk := Waiting\<rparr>"
    have "ring_step s ?m" using Running ne by (rule ring_step.process)
    moreover have "ring_step ?m ?t"
      using ring_step.complete [of ?m] ring_step.complete_idle [of ?m] by (cases idle) simp_all
    ultimately have "ring_step\<^sup>*\<^sup>* s ?t" by simp
    moreover have "ring_inv ?t pending"
      using inv Running by (cases idle) (auto simp: ring_inv_def ring_holds_def ring_size_ok_def executed_def)
    ultimately show ?thesis by (intro exI [of _ ?t]) auto
  next
    case (Finishing idle)
    have "ring_step s (?fin idle)"
      using Finishing ring_step.complete [of s] ring_step.complete_idle [of s] by (cases idle) simp_all
    moreover have "ring_inv (?fin idle) pending"
      using inv Finishing by (cases idle) (auto simp: ring_inv_def ring_holds_def ring_size_ok_def executed_def)
    ultimately show ?thesis by (intro exI [of _ "?fin idle"]) auto
  next
    case Exited
    with inv show ?thesis by auto
  qed
qed

lemma worker_drains:
  assumes "ring_inv s pending" "[] \<notin> set (enq_log s)" "no_overflow s"
  shows "\<exists>t. ring_step\<^sup>*\<^sup>* s t \<and> wrk t = Waiting \<and> enq_log t = enq_log s \<and> ring_inv t []"
  using assms
proof (induction pending arbitrary: s)
  case Nil
  then show ?case using worker_to_waiting by blast
next
  case (Cons c cs)
  obtain u where u: "ring_step\<^sup>*\<^sup>* s u" "wrk u = Waiting" "enq_log u = enq_log s"
    "ring_inv u (c # cs)" "length (ring (cr u)) = length (ring (cr s))"
    using worker_to_waiting [OF Cons.prems(1,2)] by blast
  have "fst (fetch_command (cr u)) = c"
    using u(4) ring_holds_fetch(1) by (auto simp: ring_inv_def)
  then obtain r' where f: "fetch_command (cr u) = (c, r')" by (cases "fetch_command (cr u)") auto
  let ?v = "u\<lparr>cr := r', wrk := Running c False, deq_log := deq_log u @ [c]\<rparr>"
  have d: "ring_has_data (cr u)" using u(4) ring_holds_has_data by (auto simp: ring_inv_def)
  with u(2) f have st: "ring_step u ?v" by (intro ring_step.fetch)
  obtain p where p: "ring_inv ?v p" using ring_inv_fetch [OF u(4) u(2) d f] by blast
  with u(4) have "p = cs" by (auto simp: ring_inv_def)
  with p have "ring_inv ?v cs" by simp
  moreover have "no_overflow ?v"
    using Cons.prems(3) u(3,5) fetch_command_frame [OF f] by (simp add: no_overflow_def)
  ultimately obtain t where "ring_step\<^sup>*\<^sup>* ?v t" "wrk t = Waiting" "enq_log t = enq_log ?v" "ring_inv t []"
    using Cons.IH [of ?v] Cons.prems(2) u(3) by auto
  moreover have "ring_step\<^sup>*\<^sup>* s ?v" using u(1) st by (rule rtranclp.rtrancl_into_rtrancl)
  ultimately show ?case using u(3) by (intro exI [of _ t]) auto
qed

text \<open>What the invariant says of the commands the processor has been given.\<close>

lemma executed_prefix:
  assumes "ring_reachable (initialised k) s" "k < 32" "no_overflow s"
  shows "prefix (executed s) (enq_log s)"
proof -
  obtain pending where "ring_inv s pending" using ring_reachable_inv [OF assms] by blast
  then have "worker_inv (wrk s) (deq_log s) (executed s) (unat (completed_count (cr s)))"
    and "enq_log s = deq_log s @ pending" by (auto simp: ring_inv_def)
  moreover from this(1) have "prefix (executed s) (deq_log s)"
    by (cases "(wrk s, deq_log s, executed s, unat (completed_count (cr s)))" rule: worker_inv.cases)
       (auto simp: prefix_def)
  ultimately show ?thesis by (simp add: prefix_prefix)
qed

lemma drained_executed:
  assumes "ring_reachable (initialised k) s" "k < 32" "no_overflow s" "drained (cr s)"
  shows "executed s = enq_log s \<and> \<not> ring_has_data (cr s)"
proof -
  obtain pending where inv: "ring_inv s pending" using ring_reachable_inv [OF assms(1-3)] by blast
  then have w: "worker_inv (wrk s) (deq_log s) (executed s) (ring_words (enq_log s))"
    and e: "enq_log s = deq_log s @ pending"
    using assms(4) ring_inv_write_count [OF inv] by (auto simp: ring_inv_def drained_def)
  have nz: "dl \<noteq> [] \<Longrightarrow> ring_words (butlast dl) < ring_words dl" for dl :: "u32 list list"
    by (cases dl rule: rev_cases) auto
  have z: "ring_words cs = 0 \<Longrightarrow> cs = []" for cs by (cases cs) auto
  from w e have "executed s = deq_log s \<and> ring_words pending = 0"
    by (cases "(wrk s, deq_log s, executed s, ring_words (enq_log s))" rule: worker_inv.cases)
       (auto dest: nz)
  with z e inv show ?thesis
    using ring_chan.has_data_iff [of "cr s" pending] by (auto simp: ring_inv_def)
qed

section \<open>Properties\<close>

text \<open>
  C37. First-in first-out, exactly once: in every state the two threads can reach, whatever the
  interleaving, the commands handed to the processor are a prefix of the commands enqueued, in
  the same order, with their words unchanged.
\<close>

theorem ring_fifo_exactly_once:
  assumes "ring_reachable (initialised k) s" "k < 32" "no_overflow s"
  shows "prefix (executed s) (enq_log s)"
  using assms by (rule executed_prefix)

lemma enqueue_reachable:
  "ring_reachable (initialised 2)
     ((ring_start (initialised 2))\<lparr>cr := enqueue_command (initialised 2) [7], enq_log := [[7]]\<rparr>)"
proof -
  have "ring_step (ring_start (initialised 2))
      ((ring_start (initialised 2))\<lparr>cr := enqueue_command (cr (ring_start (initialised 2))) [7],
        enq_log := enq_log (ring_start (initialised 2)) @ [[7]]\<rparr>)"
    by (rule ring_step.enqueue)
       (simp_all add: can_enqueue_def can_enqueue_ring_words_def ring_start_def initialised_def
          ring_init_def fresh_ring_def)
  with ring_reachable.start [of "initialised 2"]
  show ?thesis by (rule ring_reachable.step [THEN back_subst [of "ring_reachable _"]]) (simp add: ring_start_def)
qed

theorem ring_fifo_exactly_once_witness:
  "prefix (executed ((ring_start (initialised 2))\<lparr>cr := enqueue_command (initialised 2) [7], enq_log := [[7]]\<rparr>))
     [[7]]"
  using ring_fifo_exactly_once [OF enqueue_reachable]
  by (simp add: no_overflow_def length_initialised)


text \<open>
  C38. \<open>drain\<close> is a barrier: when its wait condition holds, every command enqueued so far has
  been processed, none is in flight, and the ring is empty.
\<close>

theorem ring_drain_barrier:
  assumes "ring_reachable (initialised k) s" "k < 32" "no_overflow s" "drained (cr s)"
  shows "executed s = enq_log s \<and> \<not> ring_has_data (cr s)"
  using assms by (rule drained_executed)

theorem ring_drain_barrier_witness:
  "executed (ring_start (initialised 2)) = enq_log (ring_start (initialised 2)) \<and>
   \<not> ring_has_data (cr (ring_start (initialised 2)))"
  using ring_drain_barrier [OF ring_reachable.start, of 2]
  by (simp add: no_overflow_def length_initialised ring_start_def drained_def initialised_def
      ring_init_def fresh_ring_def)

text \<open>
  C39. The worker cannot be stuck behind queued work: from every reachable state in which no
  shutdown command was enqueued there is a run of the worker after which \<open>drain\<close> returns and
  all enqueued commands have been processed.
\<close>

theorem ring_drain_progress:
  assumes "ring_reachable (initialised k) s" "k < 32" "no_overflow s" "[] \<notin> set (enq_log s)"
  shows "\<exists>t. ring_step\<^sup>*\<^sup>* s t \<and> drained (cr t) \<and> enq_log t = enq_log s \<and> executed t = enq_log s"
proof -
  obtain pending where "ring_inv s pending" using ring_reachable_inv [OF assms(1-3)] by blast
  from worker_drains [OF this assms(4,3)] obtain t where
    t: "ring_step\<^sup>*\<^sup>* s t" "wrk t = Waiting" "enq_log t = enq_log s" "ring_inv t []" by blast
  then have "unat (completed_count (cr t)) = unat (write_count (cr t))" "executed t = enq_log s"
    using ring_inv_write_count [OF t(4)] by (simp_all add: ring_inv_def)
  then have "drained (cr t)" by (simp add: drained_def word_unat_eq_iff)
  with t \<open>executed t = enq_log s\<close> show ?thesis by blast
qed

theorem ring_drain_progress_witness:
  "\<exists>t. ring_step\<^sup>*\<^sup>* ((ring_start (initialised 2))\<lparr>cr := enqueue_command (initialised 2) [7], enq_log := [[7]]\<rparr>) t \<and>
     drained (cr t) \<and> enq_log t = [[7]] \<and> executed t = [[7]]"
  using ring_drain_progress [OF enqueue_reachable]
  by (simp add: no_overflow_def length_initialised)

text \<open>
  The producer's guard is exact: a command is accepted if and only if its length word and
  its words fit into the part of the ring that the worker has already read. A command longer
  than the ring minus one word is therefore never accepted.
\<close>

theorem ring_accepts_iff_fits:
  assumes "ring_reachable (initialised k) s" "k < 32" "no_overflow s" "length c < 2 ^ 32"
    "ring_words (enq_log s) + Suc (length c) < 2 ^ 64"
  shows "can_enqueue (cr s) c \<longleftrightarrow>
    ring_words (enq_log s) - ring_words (deq_log s) + Suc (length c) \<le> length (ring (cr s))"
proof -
  obtain pending where inv: "ring_inv s pending" using ring_reachable_inv [OF assms(1-3)] by blast
  from inv have rc: "unat (read_count (cr s)) = ring_words (deq_log s)"
    and e: "enq_log s = deq_log s @ pending" by (auto simp: ring_inv_def)
  have "can_enqueue (cr s) c \<longleftrightarrow>
      unat (write_count (cr s)) + Suc (length c) \<le> unat (read_count (cr s)) + length (ring (cr s))"
    using assms(3-5) ring_inv_write_count [OF inv] rc e
    by (intro can_enqueue_nat) (auto simp: no_overflow_def)
  then show ?thesis using ring_inv_write_count [OF inv] rc e by auto
qed

theorem ring_accepts_iff_fits_witness:
  "can_enqueue (cr (ring_start (initialised 2))) [1, 2, 3] \<and>
   \<not> can_enqueue (cr (ring_start (initialised 2))) [1, 2, 3, 4]"
  using ring_accepts_iff_fits [OF ring_reachable.start, of 2 "[1, 2, 3]"]
    ring_accepts_iff_fits [OF ring_reachable.start, of 2 "[1, 2, 3, 4]"]
  by (simp add: no_overflow_def length_initialised ring_start_def)

text \<open>
  What is read is what was written: a command enqueued behind the commands \<open>cs\<close> is the
  one that \<open>length cs + 1\<close> reads end with, word for word, wherever the counters stand.
\<close>

theorem ring_write_read_roundtrip:
  assumes "ring_holds r cs" "ring_can_send r c"
  shows "fst (recv_n fetch_command (Suc (length cs)) (enqueue_command r c)) = cs @ [c]"
  using assms by (rule ring_chan.recv_after_send)

theorem ring_write_read_roundtrip_witness:
  "fst (recv_n fetch_command 1 (enqueue_command (initialised 2) [5, 6])) = [[5, 6]]"
proof -
  have "ring_holds (initialised 2) []"
    using ring_inv_start [of 2] by (simp add: ring_inv_def ring_start_def)
  moreover have "ring_can_send (initialised 2) [5, 6]"
    by (simp add: ring_can_send_def can_enqueue_def can_enqueue_ring_words_def initialised_def
        ring_init_def fresh_ring_def)
  ultimately show ?thesis using ring_write_read_roundtrip [of "initialised 2" "[]"] by simp
qed

text \<open>
  \<open>init\<close> leaves \<open>completed_count\<close> of the previous life of the ring in place: after a
  second \<open>init\<close> of a ring that has completed commands, the drain condition is false as long
  as nothing is enqueued, although nothing is pending, so a \<open>drain\<close> at that point waits
  for a command that nobody sent.
\<close>

theorem ring_reinit_blocks_drain:
  assumes "completed_count r \<noteq> 0" "ring_reachable (ring_init r count) s" "enq_log s = []"
  shows "\<not> drained (cr s)"
proof -
  have "enq_log s = [] \<longrightarrow> write_count (cr s) = 0 \<and> read_count (cr s) = 0 \<and>
      completed_count (cr s) = completed_count r \<and> wrk s \<noteq> Finishing False \<and> (\<forall>ws. wrk s \<noteq> Running ws False)"
    using assms(2)
  proof (induction rule: ring_reachable.induct)
    case start
    then show ?case by (simp add: ring_start_def ring_init_def)
  next
    case (step s t)
    from step(2,1,3) show ?case
      by cases (auto simp: ring_has_data_def)
  qed
  with assms(1,3) show ?thesis by (simp add: drained_def)
qed

theorem ring_reinit_blocks_drain_witness:
  "\<not> drained (cr (ring_start (ring_init (fresh_ring\<lparr>completed_count := 4\<rparr>) 8)))"
  using ring_reinit_blocks_drain [OF _ ring_reachable.start, of "fresh_ring\<lparr>completed_count := 4\<rparr>" 8]
  by (simp add: ring_start_def)

end
