(* ===== verification/RDP_Common.thy ===== *)
theory RDP_Common
  imports RDP_Prelude
begin

text \<open>
  The shared declarations of the renderer: \<open>rdp_common.hpp\<close> and
  \<open>rdp_data_structures.hpp\<close>. An enumeration that the code reaches by casting a bit field
  which can hold more values than it has names (\<open>TextureFormat\<close>, the combiner inputs) is the
  underlying byte with named constants; one whose field has exactly its names is a datatype.
  The caches of \<open>rdp_data_structures.hpp\<close> (\<open>StateCache\<close>, \<open>StreamCache\<close>) come with
  their laws.
\<close>

section \<open>Texture formats and sizes\<close>

datatype texture_size = Bpp4 | Bpp8 | Bpp16 | Bpp32

fun texture_size_value :: "texture_size \<Rightarrow> u8" where
  "texture_size_value Bpp4 = 0"
| "texture_size_value Bpp8 = 1"
| "texture_size_value Bpp16 = 2"
| "texture_size_value Bpp32 = 3"

definition texture_size_of :: "u32 \<Rightarrow> texture_size" where
  "texture_size_of w =
     (if w AND 3 = 0 then Bpp4 else if w AND 3 = 1 then Bpp8 else if w AND 3 = 2 then Bpp16 else Bpp32)"

type_synonym texture_format_t = u8

definition TextureFormat_RGBA :: texture_format_t where "TextureFormat_RGBA = 0"
definition TextureFormat_YUV :: texture_format_t where "TextureFormat_YUV = 1"
definition TextureFormat_CI :: texture_format_t where "TextureFormat_CI = 2"
definition TextureFormat_IA :: texture_format_t where "TextureFormat_IA = 3"
definition TextureFormat_I :: texture_format_t where "TextureFormat_I = 4"

section \<open>Tiles\<close>

definition TILE_INFO_CLAMP_S_BIT :: u8 where "TILE_INFO_CLAMP_S_BIT = 1"
definition TILE_INFO_MIRROR_S_BIT :: u8 where "TILE_INFO_MIRROR_S_BIT = 2"
definition TILE_INFO_CLAMP_T_BIT :: u8 where "TILE_INFO_CLAMP_T_BIT = 4"
definition TILE_INFO_MIRROR_T_BIT :: u8 where "TILE_INFO_MIRROR_T_BIT = 8"

record tile_meta =
  tm_offset :: u32
  tm_stride :: u32
  tm_fmt :: texture_format_t
  tm_size :: texture_size
  tm_palette :: u8
  tm_mask_s :: u8
  tm_shift_s :: u8
  tm_mask_t :: u8
  tm_shift_t :: u8
  tm_flags :: u8

section \<open>Rasterization flags\<close>

definition TRIANGLE_SETUP_FLIP_BIT :: u8 where "TRIANGLE_SETUP_FLIP_BIT = 1"
definition TRIANGLE_SETUP_DO_OFFSET_BIT :: u8 where "TRIANGLE_SETUP_DO_OFFSET_BIT = 2"
definition TRIANGLE_SETUP_SKIP_XFRAC_BIT :: u8 where "TRIANGLE_SETUP_SKIP_XFRAC_BIT = 4"
definition TRIANGLE_SETUP_DISABLE_UPSCALING_BIT :: u8 where "TRIANGLE_SETUP_DISABLE_UPSCALING_BIT = 32"
definition TRIANGLE_SETUP_NATIVE_LOD_BIT :: u8 where "TRIANGLE_SETUP_NATIVE_LOD_BIT = 64"

definition RASTERIZATION_INTERLACE_FIELD_BIT :: u32 where "RASTERIZATION_INTERLACE_FIELD_BIT = push_bit 0 1"
definition RASTERIZATION_INTERLACE_KEEP_ODD_BIT :: u32 where "RASTERIZATION_INTERLACE_KEEP_ODD_BIT = push_bit 1 1"
definition RASTERIZATION_AA_BIT :: u32 where "RASTERIZATION_AA_BIT = push_bit 2 1"
definition RASTERIZATION_PERSPECTIVE_CORRECT_BIT :: u32 where "RASTERIZATION_PERSPECTIVE_CORRECT_BIT = push_bit 3 1"
definition RASTERIZATION_TLUT_BIT :: u32 where "RASTERIZATION_TLUT_BIT = push_bit 4 1"
definition RASTERIZATION_TLUT_TYPE_BIT :: u32 where "RASTERIZATION_TLUT_TYPE_BIT = push_bit 5 1"
definition RASTERIZATION_CVG_TIMES_ALPHA_BIT :: u32 where "RASTERIZATION_CVG_TIMES_ALPHA_BIT = push_bit 6 1"
definition RASTERIZATION_ALPHA_CVG_SELECT_BIT :: u32 where "RASTERIZATION_ALPHA_CVG_SELECT_BIT = push_bit 7 1"
definition RASTERIZATION_MULTI_CYCLE_BIT :: u32 where "RASTERIZATION_MULTI_CYCLE_BIT = push_bit 8 1"
definition RASTERIZATION_TEX_LOD_ENABLE_BIT :: u32 where "RASTERIZATION_TEX_LOD_ENABLE_BIT = push_bit 9 1"
definition RASTERIZATION_SHARPEN_LOD_ENABLE_BIT :: u32 where "RASTERIZATION_SHARPEN_LOD_ENABLE_BIT = push_bit 10 1"
definition RASTERIZATION_DETAIL_LOD_ENABLE_BIT :: u32 where "RASTERIZATION_DETAIL_LOD_ENABLE_BIT = push_bit 11 1"
definition RASTERIZATION_FILL_BIT :: u32 where "RASTERIZATION_FILL_BIT = push_bit 12 1"
definition RASTERIZATION_COPY_BIT :: u32 where "RASTERIZATION_COPY_BIT = push_bit 13 1"
definition RASTERIZATION_SAMPLE_MODE_BIT :: u32 where "RASTERIZATION_SAMPLE_MODE_BIT = push_bit 14 1"
definition RASTERIZATION_ALPHA_TEST_BIT :: u32 where "RASTERIZATION_ALPHA_TEST_BIT = push_bit 15 1"
definition RASTERIZATION_ALPHA_TEST_DITHER_BIT :: u32 where "RASTERIZATION_ALPHA_TEST_DITHER_BIT = push_bit 16 1"
definition RASTERIZATION_SAMPLE_MID_TEXEL_BIT :: u32 where "RASTERIZATION_SAMPLE_MID_TEXEL_BIT = push_bit 17 1"
definition RASTERIZATION_CONVERT_ONE_BIT :: u32 where "RASTERIZATION_CONVERT_ONE_BIT = push_bit 22 1"
definition RASTERIZATION_BILERP_0_BIT :: u32 where "RASTERIZATION_BILERP_0_BIT = push_bit 23 1"
definition RASTERIZATION_BILERP_1_BIT :: u32 where "RASTERIZATION_BILERP_1_BIT = push_bit 24 1"

lemmas raster_flag_defs =
  RASTERIZATION_INTERLACE_FIELD_BIT_def RASTERIZATION_INTERLACE_KEEP_ODD_BIT_def
  RASTERIZATION_AA_BIT_def RASTERIZATION_PERSPECTIVE_CORRECT_BIT_def RASTERIZATION_TLUT_BIT_def
  RASTERIZATION_TLUT_TYPE_BIT_def RASTERIZATION_CVG_TIMES_ALPHA_BIT_def
  RASTERIZATION_ALPHA_CVG_SELECT_BIT_def RASTERIZATION_MULTI_CYCLE_BIT_def
  RASTERIZATION_TEX_LOD_ENABLE_BIT_def RASTERIZATION_SHARPEN_LOD_ENABLE_BIT_def
  RASTERIZATION_DETAIL_LOD_ENABLE_BIT_def RASTERIZATION_FILL_BIT_def RASTERIZATION_COPY_BIT_def
  RASTERIZATION_SAMPLE_MODE_BIT_def RASTERIZATION_ALPHA_TEST_BIT_def
  RASTERIZATION_ALPHA_TEST_DITHER_BIT_def RASTERIZATION_SAMPLE_MID_TEXEL_BIT_def
  RASTERIZATION_CONVERT_ONE_BIT_def RASTERIZATION_BILERP_0_BIT_def RASTERIZATION_BILERP_1_BIT_def

definition DEPTH_BLEND_DEPTH_TEST_BIT :: u32 where "DEPTH_BLEND_DEPTH_TEST_BIT = push_bit 0 1"
definition DEPTH_BLEND_DEPTH_UPDATE_BIT :: u32 where "DEPTH_BLEND_DEPTH_UPDATE_BIT = push_bit 1 1"
definition DEPTH_BLEND_FORCE_BLEND_BIT :: u32 where "DEPTH_BLEND_FORCE_BLEND_BIT = push_bit 3 1"
definition DEPTH_BLEND_IMAGE_READ_ENABLE_BIT :: u32 where "DEPTH_BLEND_IMAGE_READ_ENABLE_BIT = push_bit 4 1"
definition DEPTH_BLEND_COLOR_ON_COVERAGE_BIT :: u32 where "DEPTH_BLEND_COLOR_ON_COVERAGE_BIT = push_bit 5 1"
definition DEPTH_BLEND_MULTI_CYCLE_BIT :: u32 where "DEPTH_BLEND_MULTI_CYCLE_BIT = push_bit 6 1"
definition DEPTH_BLEND_AA_BIT :: u32 where "DEPTH_BLEND_AA_BIT = push_bit 7 1"
definition DEPTH_BLEND_DITHER_ENABLE_BIT :: u32 where "DEPTH_BLEND_DITHER_ENABLE_BIT = push_bit 8 1"

lemmas depth_blend_flag_defs =
  DEPTH_BLEND_DEPTH_TEST_BIT_def DEPTH_BLEND_DEPTH_UPDATE_BIT_def DEPTH_BLEND_FORCE_BLEND_BIT_def
  DEPTH_BLEND_IMAGE_READ_ENABLE_BIT_def DEPTH_BLEND_COLOR_ON_COVERAGE_BIT_def
  DEPTH_BLEND_MULTI_CYCLE_BIT_def DEPTH_BLEND_AA_BIT_def DEPTH_BLEND_DITHER_ENABLE_BIT_def

section \<open>Primitive setup and raster state\<close>

record triangle_setup =
  ts_xh :: i32
  ts_xm :: i32
  ts_xl :: i32
  ts_yh :: i16
  ts_ym :: i16
  ts_dxhdy :: i32
  ts_dxmdy :: i32
  ts_dxldy :: i32
  ts_yl :: i16
  ts_flags :: u8
  ts_tile :: u8

definition zero_triangle_setup :: triangle_setup where
  "zero_triangle_setup =
     \<lparr>ts_xh = 0, ts_xm = 0, ts_xl = 0, ts_yh = 0, ts_ym = 0, ts_dxhdy = 0, ts_dxmdy = 0,
      ts_dxldy = 0, ts_yl = 0, ts_flags = 0, ts_tile = 0\<rparr>"

record attr_setup =
  at_r :: i32
  at_g :: i32
  at_b :: i32
  at_a :: i32
  at_drdx :: i32
  at_dgdx :: i32
  at_dbdx :: i32
  at_dadx :: i32
  at_drde :: i32
  at_dgde :: i32
  at_dbde :: i32
  at_dade :: i32
  at_drdy :: i32
  at_dgdy :: i32
  at_dbdy :: i32
  at_dady :: i32
  at_s :: i32
  at_t :: i32
  at_z :: i32
  at_w :: i32
  at_dsdx :: i32
  at_dtdx :: i32
  at_dzdx :: i32
  at_dwdx :: i32
  at_dsde :: i32
  at_dtde :: i32
  at_dzde :: i32
  at_dwde :: i32
  at_dsdy :: i32
  at_dtdy :: i32
  at_dzdy :: i32
  at_dwdy :: i32

definition zero_attr_setup :: attr_setup where
  "zero_attr_setup =
     \<lparr>at_r = 0, at_g = 0, at_b = 0, at_a = 0, at_drdx = 0, at_dgdx = 0, at_dbdx = 0, at_dadx = 0,
      at_drde = 0, at_dgde = 0, at_dbde = 0, at_dade = 0, at_drdy = 0, at_dgdy = 0, at_dbdy = 0,
      at_dady = 0, at_s = 0, at_t = 0, at_z = 0, at_w = 0, at_dsdx = 0, at_dtdx = 0, at_dzdx = 0,
      at_dwdx = 0, at_dsde = 0, at_dtde = 0, at_dzde = 0, at_dwde = 0, at_dsdy = 0, at_dtdy = 0,
      at_dzdy = 0, at_dwdy = 0\<rparr>"

record scissor_state =
  sc_xlo :: u32
  sc_ylo :: u32
  sc_xhi :: u32
  sc_yhi :: u32

record combiner_inputs =
  rgb_muladd :: u8
  rgb_mulsub :: u8
  rgb_mul :: u8
  rgb_add :: u8
  alpha_muladd :: u8
  alpha_mulsub :: u8
  alpha_mul :: u8
  alpha_add :: u8

record static_state =
  combiner0 :: combiner_inputs
  combiner1 :: combiner_inputs
  st_flags :: u32
  st_dither :: u32
  st_texture_size :: u32
  st_texture_fmt :: u32

record blend_modes =
  blend_1a :: u8
  blend_1b :: u8
  blend_2a :: u8
  blend_2b :: u8

record depth_blend_state =
  blend_cycle0 :: blend_modes
  blend_cycle1 :: blend_modes
  db_flags :: u32
  coverage_mode :: u8
  z_mode :: u8

text \<open>\<open>sext<bits>\<close>: assignment to a signed bit field of that width.\<close>

definition sext :: "nat \<Rightarrow> i32 \<Rightarrow> i32" where
  "sext bits v = signed_take_bit (bits - 1) v"

section \<open>Caches\<close>

text \<open>
  \<open>StateCache<T, N>\<close>: the used prefix of its array, the index it answered last (or none) and
  the capacity. Adding to a full cache is the failed assertion, \<open>None\<close>.
\<close>

record 'a state_cache =
  sc_elements :: "'a list"
  sc_cached_index :: "nat option"
  sc_capacity :: nat

definition state_cache_empty :: "nat \<Rightarrow> 'a state_cache" where
  "state_cache_empty n = \<lparr>sc_elements = [], sc_cached_index = None, sc_capacity = n\<rparr>"

definition state_cache_reset :: "'a state_cache \<Rightarrow> 'a state_cache" where
  "state_cache_reset c = c\<lparr>sc_elements := [], sc_cached_index := None\<rparr>"

definition state_cache_full :: "'a state_cache \<Rightarrow> bool" where
  "state_cache_full c \<longleftrightarrow> length (sc_elements c) = sc_capacity c"

definition cached_hit :: "'a state_cache \<Rightarrow> 'a \<Rightarrow> nat option" where
  "cached_hit c t =
     (case sc_cached_index c of
        Some i \<Rightarrow> if sc_elements c ! i = t then Some i else None
      | None \<Rightarrow> None)"

definition state_cache_add :: "'a state_cache \<Rightarrow> 'a \<Rightarrow> ('a state_cache \<times> nat) option" where
  "state_cache_add c t =
     (case cached_hit c t of
        Some i \<Rightarrow> Some (c, i)
      | None \<Rightarrow>
          (case find_last (\<lambda>i. sc_elements c ! i = t) [0..<length (sc_elements c)] of
             Some i \<Rightarrow> Some (c\<lparr>sc_cached_index := Some i\<rparr>, i)
           | None \<Rightarrow>
               if \<not> length (sc_elements c) < sc_capacity c then None
               else let i = length (sc_elements c) in
                    Some (c\<lparr>sc_elements := sc_elements c @ [t], sc_cached_index := Some i\<rparr>, i)))"

text \<open>No state is stored twice, and the remembered index is one of the used ones.\<close>

definition state_cache_inv :: "'a state_cache \<Rightarrow> bool" where
  "state_cache_inv c \<longleftrightarrow>
     distinct (sc_elements c) \<and> length (sc_elements c) \<le> sc_capacity c \<and>
     (case sc_cached_index c of None \<Rightarrow> True | Some i \<Rightarrow> i < length (sc_elements c))"

lemma state_cache_inv_empty [simp]: "state_cache_inv (state_cache_empty n)"
  by (simp add: state_cache_inv_def state_cache_empty_def)

lemma state_cache_inv_reset: "state_cache_inv (state_cache_reset c)"
  by (simp add: state_cache_inv_def state_cache_reset_def)

lemma state_cache_add_cases:
  assumes "state_cache_inv c" "state_cache_add c t = Some (c', i)"
  shows "state_cache_inv c' \<and> i < length (sc_elements c') \<and> sc_elements c' ! i = t \<and>
    sc_capacity c' = sc_capacity c \<and>
    sc_elements c' = (if t \<in> set (sc_elements c) then sc_elements c else sc_elements c @ [t])"
proof -
  let ?f = "find_last (\<lambda>i. sc_elements c ! i = t) [0..<length (sc_elements c)]"
  show ?thesis
  proof (cases "cached_hit c t")
    case (Some j)
    with assms(2) have "c' = c" "i = j" by (simp_all add: state_cache_add_def)
    moreover from Some have "sc_cached_index c = Some j" "sc_elements c ! j = t"
      by (auto simp: cached_hit_def split: option.splits if_splits)
    ultimately show ?thesis using assms(1) by (auto simp: state_cache_inv_def)
  next
    case miss: None
    show ?thesis
    proof (cases ?f)
      case (Some j)
      with miss assms(2) have "c' = c\<lparr>sc_cached_index := Some j\<rparr>" "i = j"
        by (auto simp: state_cache_add_def)
      moreover from Some have "j < length (sc_elements c)" "sc_elements c ! j = t"
        by (auto dest: find_last_SomeD)
      ultimately show ?thesis using assms(1) by (auto simp: state_cache_inv_def)
    next
      case None
      with miss assms(2) have "length (sc_elements c) < sc_capacity c" "i = length (sc_elements c)"
        "c' = c\<lparr>sc_elements := sc_elements c @ [t], sc_cached_index := Some i\<rparr>"
        by (auto simp: state_cache_add_def Let_def split: if_splits)
      moreover from None have "t \<notin> set (sc_elements c)"
        by (auto simp: find_last_None_iff in_set_conv_nth)
      ultimately show ?thesis using assms(1) by (auto simp: state_cache_inv_def)
    qed
  qed
qed

lemma state_cache_add_Some_iff:
  assumes "state_cache_inv c"
  shows "state_cache_add c t = None \<longleftrightarrow> state_cache_full c \<and> t \<notin> set (sc_elements c)"
proof -
  have "find_last (\<lambda>i. sc_elements c ! i = t) [0..<length (sc_elements c)] = None \<longleftrightarrow>
      t \<notin> set (sc_elements c)"
    by (auto simp: find_last_None_iff in_set_conv_nth)
  moreover have "cached_hit c t = Some i \<Longrightarrow> t \<in> set (sc_elements c)" for i
    using assms by (auto simp: cached_hit_def state_cache_inv_def split: option.splits if_splits)
  ultimately show ?thesis
    using assms
    by (cases "cached_hit c t";
        cases "find_last (\<lambda>i. sc_elements c ! i = t) [0..<length (sc_elements c)]")
      (auto simp: state_cache_add_def Let_def state_cache_inv_def state_cache_full_def)
qed

text \<open>\<open>StreamCache<T, N>\<close>: append only.\<close>

record 'a stream_cache =
  str_elements :: "'a list"
  str_capacity :: nat

definition stream_cache_add :: "'a stream_cache \<Rightarrow> 'a \<Rightarrow> 'a stream_cache option" where
  "stream_cache_add c t =
     (if \<not> length (str_elements c) < str_capacity c then None
      else Some (c\<lparr>str_elements := str_elements c @ [t]\<rparr>))"

definition stream_cache_full :: "'a stream_cache \<Rightarrow> bool" where
  "stream_cache_full c \<longleftrightarrow> length (str_elements c) = str_capacity c"

definition stream_cache_reset :: "'a stream_cache \<Rightarrow> 'a stream_cache" where
  "stream_cache_reset c = c\<lparr>str_elements := []\<rparr>"

section \<open>Properties\<close>

text \<open>The states added in order, with the index each got; a failed assertion ends the run.\<close>

fun state_cache_adds :: "'a state_cache \<Rightarrow> 'a list \<Rightarrow> ('a state_cache \<times> nat list) option" where
  "state_cache_adds c [] = Some (c, [])"
| "state_cache_adds c (t # ts) =
     (case state_cache_add c t of
        None \<Rightarrow> None
      | Some (c', i) \<Rightarrow> map_option (\<lambda>(c'', is). (c'', i # is)) (state_cache_adds c' ts))"

lemma state_cache_adds_spec:
  "state_cache_inv c \<Longrightarrow>
     (state_cache_adds c ts = None \<longleftrightarrow> sc_capacity c < length (foldl push_unique (sc_elements c) ts)) \<and>
     (\<forall>c' is. state_cache_adds c ts = Some (c', is) \<longrightarrow>
        sc_elements c' = foldl push_unique (sc_elements c) ts \<and> length is = length ts \<and>
        (\<forall>k < length ts. is ! k < length (sc_elements c') \<and> sc_elements c' ! (is ! k) = ts ! k))"
proof (induction ts arbitrary: c)
  case Nil
  then show ?case by (auto simp: state_cache_inv_def)
next
  case (Cons t ts)
  have mono: "\<exists>zs. foldl push_unique xs ys = xs @ zs" for xs ys :: "'a list"
    by (induction ys arbitrary: xs) (auto simp: push_unique_def, metis append.assoc)
  show ?case
  proof (cases "state_cache_add c t")
    case None
    with Cons.prems have "length (sc_elements c) = sc_capacity c" "t \<notin> set (sc_elements c)"
      by (auto simp: state_cache_add_Some_iff state_cache_full_def)
    moreover obtain zs where "foldl push_unique (sc_elements c @ [t]) ts = (sc_elements c @ [t]) @ zs"
      using mono by blast
    ultimately show ?thesis using None by (simp add: push_unique_new)
  next
    case (Some ci)
    obtain c' i where ci: "ci = (c', i)" by (cases ci)
    note step = state_cache_add_cases [OF Cons.prems Some [unfolded ci]]
    then have el: "sc_elements c' = push_unique (sc_elements c) t" by (simp add: push_unique_def)
    obtain zs where zs: "foldl push_unique (sc_elements c') ts = sc_elements c' @ zs" using mono by blast
    have ih: "(state_cache_adds c' ts = None \<longleftrightarrow> sc_capacity c' < length (foldl push_unique (sc_elements c') ts)) \<and>
     (\<forall>c'' is. state_cache_adds c' ts = Some (c'', is) \<longrightarrow>
        sc_elements c'' = foldl push_unique (sc_elements c') ts \<and> length is = length ts \<and>
        (\<forall>k < length ts. is ! k < length (sc_elements c'') \<and> sc_elements c'' ! (is ! k) = ts ! k))"
      using Cons.IH step by blast
    have "is ! k < length (sc_elements c'') \<and> sc_elements c'' ! (is ! k) = (t # ts) ! k"
      if "k < length (t # ts)" "is = i # is'" "state_cache_adds c' ts = Some (c'', is')" for k "is" is' c''
    proof -
      have "sc_elements c'' = sc_elements c' @ zs" using ih that(3) zs by auto
      moreover have "i < length (sc_elements c')" "sc_elements c' ! i = t" using step by blast+
      ultimately have "i < length (sc_elements c'')" "sc_elements c'' ! i = t" by (auto simp: nth_append)
      with that ih show ?thesis by (cases k) auto
    qed
    note entry = this
    have cap: "sc_capacity c' = sc_capacity c" using step by blast
    show ?thesis
    proof (cases "state_cache_adds c' ts")
      case None
      with ih have "sc_capacity c < length (foldl push_unique (sc_elements c') ts)" by (simp add: cap)
      with None Some ci show ?thesis by (simp add: el)
    next
      case (Some r)
      obtain c'' is' where r: "r = (c'', is')" by (cases r)
      with Some ih have "\<not> sc_capacity c < length (foldl push_unique (sc_elements c') ts)"
        "sc_elements c'' = foldl push_unique (sc_elements c') ts" "length is' = length ts"
        by (simp_all add: cap)
      with Some r \<open>state_cache_add c t = Some ci\<close> ci entry show ?thesis by (simp add: el)
    qed
  qed
qed

text \<open>
  Deduplication of raster states: adding a sequence of states to an empty cache succeeds
  exactly if the number of different states fits its capacity; each state gets an index under
  which exactly that state is stored, and the cache holds the different states in the order
  of their first occurrence.
\<close>

theorem state_cache_dedups:
  "case state_cache_adds (state_cache_empty n) ts of
     None \<Rightarrow> n < card (set ts)
   | Some (c, is) \<Rightarrow>
       card (set ts) \<le> n \<and> sc_elements c = foldl push_unique [] ts \<and> distinct (sc_elements c) \<and>
       length is = length ts \<and> map ((!) (sc_elements c)) is = ts"
proof -
  note spec = state_cache_adds_spec [OF state_cache_inv_empty, of n ts]
  have e: "sc_elements (state_cache_empty n) = []" "sc_capacity (state_cache_empty n) = n"
    by (simp_all add: state_cache_empty_def)
  show ?thesis
  proof (cases "state_cache_adds (state_cache_empty n) ts")
    case None
    with spec show ?thesis by (simp add: e length_foldl_push_unique)
  next
    case (Some r)
    obtain c "is" where r: "r = (c, is)" by (cases r)
    with Some spec have "card (set ts) \<le> n" "sc_elements c = foldl push_unique [] ts" "length is = length ts"
      "\<forall>k < length ts. is ! k < length (sc_elements c) \<and> sc_elements c ! (is ! k) = ts ! k"
      by (auto simp: e length_foldl_push_unique)
    then show ?thesis using Some r by (auto intro: nth_equalityI)
  qed
qed

end
