(* ===== verification/Setup_Policy.thy ===== *)
theory Setup_Policy
  imports RDP_Common
begin

text \<open>
  The decoding policies of the command processor: \<open>rdp_scissor_policy.hpp\<close>,
  \<open>rdp_triangle_setup_policy.hpp\<close>, \<open>rdp_rect_setup_policy.hpp\<close>,
  \<open>rdp_tex_rect_policy.hpp\<close> and \<open>rdp_other_modes_policy.hpp\<close>, and the attribute decoders
  of \<open>rdp_device.cpp\<close>. A decoder that is given a pointer into the command reads it with
  bounds checks; \<open>None\<close> is a read behind the end of the command. Left shifts of signed
  values are shifts of their two's complement words.
\<close>

section \<open>Reading command words\<close>

text \<open>The words \<open>0..<n\<close> of a command that is passed by pointer.\<close>

definition words_at :: "u32 list \<Rightarrow> nat \<Rightarrow> nat \<Rightarrow> u32 list option" where
  "words_at words off n = (if off + n \<le> length words then Some (take n (drop off words)) else None)"

lemma words_at_Some [simp]:
  "off + n \<le> length words \<Longrightarrow> words_at words off n = Some (take n (drop off words))"
  by (simp add: words_at_def)

lemma words_at_SomeD:
  "words_at words off n = Some ws \<Longrightarrow>
     off + n \<le> length words \<and> length ws = n \<and> (\<forall>i < n. ws ! i = words ! (off + i))"
  by (auto simp: words_at_def split: if_splits)

section \<open>Scissor\<close>

definition apply_set_scissor_words ::
  "static_state \<Rightarrow> u32 \<Rightarrow> u32 \<Rightarrow> scissor_state \<times> static_state" where
  "apply_set_scissor_words st word0 word1 =
     (let flags = st_flags st AND NOT (RASTERIZATION_INTERLACE_FIELD_BIT OR
                                       RASTERIZATION_INTERLACE_KEEP_ODD_BIT);
          flags = (if flag_set word1 (push_bit 25 1)
                   then flags OR RASTERIZATION_INTERLACE_FIELD_BIT else flags);
          flags = (if flag_set word1 (push_bit 24 1)
                   then flags OR RASTERIZATION_INTERLACE_KEEP_ODD_BIT else flags)
      in (\<lparr>sc_xlo = field word0 12 0xfff, sc_ylo = field word0 0 0xfff,
           sc_xhi = field word1 12 0xfff, sc_yhi = field word1 0 0xfff\<rparr>,
          st\<lparr>st_flags := flags\<rparr>))"

section \<open>Triangle setup\<close>

definition or_flag :: "u8 \<Rightarrow> bool \<Rightarrow> u8 \<Rightarrow> u8" where
  "or_flag flags b m = flags OR (if b then m else 0)"

definition decode_triangle_setup_words ::
  "triangle_setup \<Rightarrow> u32 list \<Rightarrow> bool \<Rightarrow> bool \<Rightarrow> triangle_setup" where
  "decode_triangle_setup_words setup words copy_cycle native_texture_lod =
     (let flip = flag_set (words ! 0) 0x800000;
          sign_dxhdy = flag_set (words ! 5) 0x80000000;
          do_offset = (flip = sign_dxhdy);
          flags = or_flag (ts_flags setup) flip TRIANGLE_SETUP_FLIP_BIT;
          flags = or_flag flags do_offset TRIANGLE_SETUP_DO_OFFSET_BIT;
          flags = or_flag flags copy_cycle TRIANGLE_SETUP_SKIP_XFRAC_BIT;
          flags = or_flag flags native_texture_lod TRIANGLE_SETUP_NATIVE_LOD_BIT
      in setup\<lparr>ts_flags := flags,
               ts_tile := ucast (field (words ! 0) 16 63),
               ts_yl := ucast (sext 14 (words ! 0)),
               ts_ym := ucast (sext 14 (shr (words ! 1) 16)),
               ts_yh := ucast (sext 14 (words ! 1)),
               ts_xl := signed_drop_bit 1 (sext 28 (words ! 2)),
               ts_xh := signed_drop_bit 1 (sext 28 (words ! 4)),
               ts_xm := signed_drop_bit 1 (sext 28 (words ! 6)),
               ts_dxldy := signed_drop_bit 1 (sext 28 (shr (words ! 3) 2)),
               ts_dxhdy := signed_drop_bit 1 (sext 28 (shr (words ! 5) 2)),
               ts_dxmdy := signed_drop_bit 1 (sext 28 (shr (words ! 7) 2))\<rparr>)"

section \<open>Rectangles\<close>

record rectangle_coordinates =
  rc_xl :: u32
  rc_yl :: u32
  rc_xh :: u32
  rc_yh :: u32

definition decode_rectangle_coordinates :: "u32 \<Rightarrow> u32 \<Rightarrow> rectangle_coordinates" where
  "decode_rectangle_coordinates word0 word1 =
     \<lparr>rc_xl = field word0 12 0xfff, rc_yl = field word0 0 0xfff,
      rc_xh = field word1 12 0xfff, rc_yh = field word1 0 0xfff\<rparr>"

definition apply_copy_fill_y_adjust :: "rectangle_coordinates \<Rightarrow> u32 \<Rightarrow> rectangle_coordinates" where
  "apply_copy_fill_y_adjust rect raster_flags =
     (if flag_set raster_flags (RASTERIZATION_COPY_BIT OR RASTERIZATION_FILL_BIT)
      then rect\<lparr>rc_yl := rc_yl rect OR 3\<rparr> else rect)"

definition build_fill_rectangle_setup :: "rectangle_coordinates \<Rightarrow> triangle_setup" where
  "build_fill_rectangle_setup rect = zero_triangle_setup
     \<lparr>ts_xh := shl (rc_xh rect) 13, ts_xl := shl (rc_xl rect) 13, ts_xm := shl (rc_xl rect) 13,
      ts_ym := ucast (rc_yl rect), ts_yl := ucast (rc_yl rect), ts_yh := ucast (rc_yh rect),
      ts_flags := TRIANGLE_SETUP_FLIP_BIT OR TRIANGLE_SETUP_DISABLE_UPSCALING_BIT\<rparr>"

record tex_rect_input =
  tr_rect :: rectangle_coordinates
  tr_word1 :: u32
  tr_word2 :: u32
  tr_word3 :: u32
  tr_raster_flags :: u32
  tr_flip :: bool
  tr_native_resolution_tex_rect :: bool
  tr_native_texture_lod :: bool

definition build_texture_rectangle_policy :: "tex_rect_input \<Rightarrow> triangle_setup \<times> attr_setup" where
  "build_texture_rectangle_policy inp =
     (let rect = tr_rect inp;
          flags = TRIANGLE_SETUP_FLIP_BIT;
          flags = (if tr_flip inp \<or> tr_native_resolution_tex_rect inp
                   then flags OR TRIANGLE_SETUP_DISABLE_UPSCALING_BIT else flags);
          flags = (if tr_native_texture_lod inp then flags OR TRIANGLE_SETUP_NATIVE_LOD_BIT else flags);
          flags = (if flag_set (tr_raster_flags inp) RASTERIZATION_COPY_BIT
                   then flags OR TRIANGLE_SETUP_SKIP_XFRAC_BIT else flags);
          setup = zero_triangle_setup
            \<lparr>ts_xh := shl (rc_xh rect) 13, ts_xl := shl (rc_xl rect) 13, ts_xm := shl (rc_xl rect) 13,
             ts_ym := ucast (rc_yl rect), ts_yl := ucast (rc_yl rect), ts_yh := ucast (rc_yh rect),
             ts_tile := ucast (field (tr_word1 inp) 24 0x7), ts_flags := flags\<rparr>;
          s = field (tr_word2 inp) 16 0xffff;
          t = field (tr_word2 inp) 0 0xffff;
          dsdx = sext 16 (field (tr_word3 inp) 16 0xffff);
          dtdy = sext 16 (field (tr_word3 inp) 0 0xffff);
          attr = zero_attr_setup\<lparr>at_s := shl s 16, at_t := shl t 16\<rparr>;
          attr = (if tr_flip inp
                  then attr\<lparr>at_dtdx := shl dtdy 11, at_dsde := shl dsdx 11, at_dsdy := shl dsdx 11\<rparr>
                  else attr\<lparr>at_dsdx := shl dsdx 11, at_dtde := shl dtdy 11, at_dtdy := shl dtdy 11\<rparr>)
      in (setup, attr))"

section \<open>Attributes\<close>

text \<open>
  An attribute is 32 bits wide; the command keeps its integer half and its fractional half
  four words apart. \<open>hi_part\<close> and \<open>lo_part\<close> combine the upper and the lower halves of the
  two words.
\<close>

definition hi_part :: "u32 \<Rightarrow> u32 \<Rightarrow> i32" where
  "hi_part a b = (a AND 0xffff0000) OR (shr b 16 AND 0x0000ffff)"

definition lo_part :: "u32 \<Rightarrow> u32 \<Rightarrow> i32" where
  "lo_part a b = (shl a 16 AND 0xffff0000) OR (b AND 0x0000ffff)"

definition lo_part_unmasked :: "u32 \<Rightarrow> u32 \<Rightarrow> i32" where
  "lo_part_unmasked a b = shl a 16 OR (b AND 0xffff)"

definition decode_tex_setup :: "attr_setup \<Rightarrow> u32 list \<Rightarrow> attr_setup" where
  "decode_tex_setup attr words = attr
     \<lparr>at_s := hi_part (words ! 0) (words ! 4),
      at_t := lo_part (words ! 0) (words ! 4),
      at_w := hi_part (words ! 1) (words ! 5),
      at_dsdx := hi_part (words ! 2) (words ! 6),
      at_dtdx := lo_part (words ! 2) (words ! 6),
      at_dwdx := hi_part (words ! 3) (words ! 7),
      at_dsde := hi_part (words ! 8) (words ! 12),
      at_dtde := lo_part (words ! 8) (words ! 12),
      at_dwde := hi_part (words ! 9) (words ! 13),
      at_dsdy := hi_part (words ! 10) (words ! 14),
      at_dtdy := lo_part (words ! 10) (words ! 14),
      at_dwdy := hi_part (words ! 11) (words ! 15)\<rparr>"

definition decode_rgba_setup :: "attr_setup \<Rightarrow> u32 list \<Rightarrow> attr_setup" where
  "decode_rgba_setup attr words = attr
     \<lparr>at_r := hi_part (words ! 0) (words ! 4),
      at_g := lo_part_unmasked (words ! 0) (words ! 4),
      at_b := hi_part (words ! 1) (words ! 5),
      at_a := lo_part_unmasked (words ! 1) (words ! 5),
      at_drdx := hi_part (words ! 2) (words ! 6),
      at_dgdx := lo_part_unmasked (words ! 2) (words ! 6),
      at_dbdx := hi_part (words ! 3) (words ! 7),
      at_dadx := lo_part_unmasked (words ! 3) (words ! 7),
      at_drde := hi_part (words ! 8) (words ! 12),
      at_dgde := lo_part_unmasked (words ! 8) (words ! 12),
      at_dbde := hi_part (words ! 9) (words ! 13),
      at_dade := lo_part_unmasked (words ! 9) (words ! 13),
      at_drdy := hi_part (words ! 10) (words ! 14),
      at_dgdy := lo_part_unmasked (words ! 10) (words ! 14),
      at_dbdy := hi_part (words ! 11) (words ! 15),
      at_dady := lo_part_unmasked (words ! 11) (words ! 15)\<rparr>"

definition decode_z_setup :: "attr_setup \<Rightarrow> u32 list \<Rightarrow> attr_setup" where
  "decode_z_setup attr words = attr
     \<lparr>at_z := words ! 0, at_dzdx := words ! 1, at_dzde := words ! 2, at_dzdy := words ! 3\<rparr>"

section \<open>Other modes\<close>

definition update_masked_flag :: "u32 \<Rightarrow> bool \<Rightarrow> u32 \<Rightarrow> u32" where
  "update_masked_flag flags enabled m =
     (let flags = flags AND NOT m in if enabled then flags OR m else flags)"

definition RGBDitherMode_Off :: u32 where "RGBDitherMode_Off = 3"

datatype cycle_type = Cycle1 | Cycle2 | Copy | Fill

definition cycle_type_of :: "u32 \<Rightarrow> cycle_type" where
  "cycle_type_of w =
     (if w AND 3 = 0 then Cycle1 else if w AND 3 = 1 then Cycle2 else if w AND 3 = 2 then Copy else Fill)"

definition other_modes_raster_flags :: "u32 \<Rightarrow> u32 \<Rightarrow> u32 \<Rightarrow> u32" where
  "other_modes_raster_flags flags word0 word1 =
     (let f = update_masked_flag flags (flag_set word0 (push_bit 19 1)) RASTERIZATION_PERSPECTIVE_CORRECT_BIT;
          f = update_masked_flag f (flag_set word0 (push_bit 18 1)) RASTERIZATION_DETAIL_LOD_ENABLE_BIT;
          f = update_masked_flag f (flag_set word0 (push_bit 17 1)) RASTERIZATION_SHARPEN_LOD_ENABLE_BIT;
          f = update_masked_flag f (flag_set word0 (push_bit 16 1)) RASTERIZATION_TEX_LOD_ENABLE_BIT;
          f = update_masked_flag f (flag_set word0 (push_bit 15 1)) RASTERIZATION_TLUT_BIT;
          f = update_masked_flag f (flag_set word0 (push_bit 14 1)) RASTERIZATION_TLUT_TYPE_BIT;
          f = update_masked_flag f (flag_set word0 (push_bit 13 1)) RASTERIZATION_SAMPLE_MODE_BIT;
          f = update_masked_flag f (flag_set word0 (push_bit 12 1)) RASTERIZATION_SAMPLE_MID_TEXEL_BIT;
          f = update_masked_flag f (flag_set word0 (push_bit 11 1)) RASTERIZATION_BILERP_0_BIT;
          f = update_masked_flag f (flag_set word0 (push_bit 10 1)) RASTERIZATION_BILERP_1_BIT;
          f = update_masked_flag f (flag_set word0 (push_bit 9 1)) RASTERIZATION_CONVERT_ONE_BIT;
          f = update_masked_flag f (flag_set word1 (push_bit 13 1)) RASTERIZATION_ALPHA_CVG_SELECT_BIT;
          f = update_masked_flag f (flag_set word1 (push_bit 12 1)) RASTERIZATION_CVG_TIMES_ALPHA_BIT;
          f = update_masked_flag f (flag_set word1 (push_bit 3 1)) RASTERIZATION_AA_BIT;
          f = update_masked_flag f (flag_set word1 (push_bit 1 1)) RASTERIZATION_ALPHA_TEST_DITHER_BIT;
          f = update_masked_flag f (flag_set word1 (push_bit 0 1)) RASTERIZATION_ALPHA_TEST_BIT;
          f = f AND NOT (RASTERIZATION_MULTI_CYCLE_BIT OR RASTERIZATION_FILL_BIT OR RASTERIZATION_COPY_BIT)
      in case cycle_type_of (field word0 20 3) of
           Cycle2 \<Rightarrow> f OR RASTERIZATION_MULTI_CYCLE_BIT
         | Fill \<Rightarrow> f OR RASTERIZATION_FILL_BIT
         | Copy \<Rightarrow> f OR RASTERIZATION_COPY_BIT
         | Cycle1 \<Rightarrow> f)"

definition other_modes_blend_flags :: "u32 \<Rightarrow> u32 \<Rightarrow> u32 \<Rightarrow> u32 \<Rightarrow> u32" where
  "other_modes_blend_flags flags dither word0 word1 =
     (let f = update_masked_flag flags (flag_set word1 (push_bit 14 1)) DEPTH_BLEND_FORCE_BLEND_BIT;
          f = update_masked_flag f (flag_set word1 (push_bit 7 1)) DEPTH_BLEND_COLOR_ON_COVERAGE_BIT;
          f = update_masked_flag f (flag_set word1 (push_bit 6 1)) DEPTH_BLEND_IMAGE_READ_ENABLE_BIT;
          f = update_masked_flag f (flag_set word1 (push_bit 5 1)) DEPTH_BLEND_DEPTH_UPDATE_BIT;
          f = update_masked_flag f (flag_set word1 (push_bit 4 1)) DEPTH_BLEND_DEPTH_TEST_BIT;
          f = update_masked_flag f (flag_set word1 (push_bit 3 1)) DEPTH_BLEND_AA_BIT;
          f = update_masked_flag f (shr dither 2 \<noteq> RGBDitherMode_Off) DEPTH_BLEND_DITHER_ENABLE_BIT;
          f = f AND NOT DEPTH_BLEND_MULTI_CYCLE_BIT
      in case cycle_type_of (field word0 20 3) of
           Cycle2 \<Rightarrow> f OR DEPTH_BLEND_MULTI_CYCLE_BIT
         | _ \<Rightarrow> f)"

text \<open>
  \<open>apply_set_other_modes_words\<close>; the updates of the two flag words do not depend on each
  other and are collected above, in the order of the code.
\<close>

definition apply_set_other_modes_words ::
  "static_state \<Rightarrow> depth_blend_state \<Rightarrow> u32 \<Rightarrow> u32 \<Rightarrow> static_state \<times> depth_blend_state \<times> bool" where
  "apply_set_other_modes_words st db word0 word1 =
     (let dither = field word0 4 0x0f in
      (st\<lparr>st_flags := other_modes_raster_flags (st_flags st) word0 word1, st_dither := dither\<rparr>,
       db\<lparr>db_flags := other_modes_blend_flags (db_flags db) dither word0 word1,
          coverage_mode := ucast (field word1 8 3),
          z_mode := ucast (field word1 10 3),
          blend_cycle0 := \<lparr>blend_1a = ucast (field word1 30 3), blend_1b = ucast (field word1 26 3),
                           blend_2a = ucast (field word1 22 3), blend_2b = ucast (field word1 18 3)\<rparr>,
          blend_cycle1 := \<lparr>blend_1a = ucast (field word1 28 3), blend_1b = ucast (field word1 24 3),
                           blend_2a = ucast (field word1 20 3), blend_2b = ucast (field word1 16 3)\<rparr>\<rparr>,
       flag_set word1 (push_bit 2 1)))"

end
