(* ===== verification/Step_Machine.thy ===== *)
theory Step_Machine
  imports RDP_Prelude "HOL-Library.Monad_Syntax"
begin

text \<open>
  The contract between a component that consumes inputs one at a time, in a state, with
  outputs (a command processor, the command ingest), and its clients: \<open>step_machine\<close> says
  that acceptable inputs never fault, that the invariant is kept and that every output is
  acceptable; \<open>observed_machine\<close> adds an observer who sees the outputs only and still knows a
  part of the state. The lemmas on runs are proved here once.
\<close>

fun run_all :: "('s \<Rightarrow> 'i \<Rightarrow> ('s \<times> 'o list) option) \<Rightarrow> 's \<Rightarrow> 'i list \<Rightarrow> ('s \<times> 'o list) option" where
  "run_all step s [] = Some (s, [])"
| "run_all step s (i # is) =
     do { (s', os) \<leftarrow> step s i;
          (s'', os') \<leftarrow> run_all step s' is;
          Some (s'', os @ os') }"

lemma run_all_append:
  "run_all step s (is @ js) =
     do { (s', os) \<leftarrow> run_all step s is;
          (s'', os') \<leftarrow> run_all step s' js;
          Some (s'', os @ os') }"
  by (induction "is" arbitrary: s) (auto split: bind_splits prod.splits)

locale step_machine =
  fixes step :: "'s \<Rightarrow> 'i \<Rightarrow> ('s \<times> 'o list) option"
    and inv :: "'s \<Rightarrow> bool"
    and input_ok :: "'i \<Rightarrow> bool"
    and output_ok :: "'o \<Rightarrow> bool"
  assumes step_ok: "inv s \<Longrightarrow> input_ok i \<Longrightarrow>
    \<exists>s' os. step s i = Some (s', os) \<and> inv s' \<and> list_all output_ok os"
begin

lemma run_ok:
  assumes "inv s" "list_all input_ok is"
  shows "\<exists>s' os. run_all step s is = Some (s', os) \<and> inv s' \<and> list_all output_ok os"
  using assms
proof (induction "is" arbitrary: s)
  case (Cons i "is")
  then obtain s1 os where "step s i = Some (s1, os)" "inv s1" "list_all output_ok os"
    using step_ok [of s i] by auto
  moreover from Cons.IH [OF this(2)] Cons.prems obtain s2 os' where
    "run_all step s1 is = Some (s2, os')" "inv s2" "list_all output_ok os'" by auto
  ultimately show ?case by auto
qed simp

lemma run_inv:
  assumes "inv s" "list_all input_ok is" "run_all step s is = Some (s', os)"
  shows "inv s'" "list_all output_ok os"
  using run_ok [OF assms(1,2)] assms(3) by auto

end

locale observed_machine = step_machine step inv input_ok output_ok
  for step :: "'s \<Rightarrow> 'i \<Rightarrow> ('s \<times> 'o list) option" and inv input_ok output_ok +
  fixes view :: "'s \<Rightarrow> 'v"
    and observe :: "'v \<Rightarrow> 'o \<Rightarrow> 'v"
  assumes step_view: "inv s \<Longrightarrow> input_ok i \<Longrightarrow> step s i = Some (s', os) \<Longrightarrow>
    foldl observe (view s) os = view s'"
begin

lemma run_view:
  assumes "inv s" "list_all input_ok is" "run_all step s is = Some (s', os)"
  shows "foldl observe (view s) os = view s'"
  using assms
proof (induction "is" arbitrary: s os)
  case (Cons i "is")
  from Cons.prems obtain s1 os1 os2 where r: "step s i = Some (s1, os1)"
    "run_all step s1 is = Some (s', os2)" "os = os1 @ os2"
    by (auto split: bind_splits)
  with Cons.prems step_ok [of s i] have "inv s1" by auto
  with Cons r step_view [of s i s1 os1] show ?case by simp
qed simp

end

text \<open>
  A monitor judges the outputs one by one and may refuse one. \<open>monitored_machine\<close> says that
  machine and monitor share an invariant under which no step produces a refused output.
\<close>

fun monitor_all :: "('m \<Rightarrow> 'o \<Rightarrow> 'm option) \<Rightarrow> 'm \<Rightarrow> 'o list \<Rightarrow> 'm option" where
  "monitor_all judge m [] = Some m"
| "monitor_all judge m (e # es) = do { m' \<leftarrow> judge m e; monitor_all judge m' es }"

lemma monitor_all_append:
  "monitor_all judge m (as @ bs) = do { m' \<leftarrow> monitor_all judge m as; monitor_all judge m' bs }"
  by (induction as arbitrary: m) (auto split: bind_splits)

locale monitored_machine =
  fixes step :: "'s \<Rightarrow> 'i \<Rightarrow> ('s \<times> 'o list) option"
    and judge :: "'m \<Rightarrow> 'o \<Rightarrow> 'm option"
    and related :: "'s \<Rightarrow> 'm \<Rightarrow> bool"
  assumes step_judged: "related s m \<Longrightarrow>
    \<exists>s' os m'. step s i = Some (s', os) \<and> monitor_all judge m os = Some m' \<and> related s' m'"
begin

lemma run_judged:
  assumes "related s m"
  shows "\<exists>s' os m'. run_all step s is = Some (s', os) \<and> monitor_all judge m os = Some m' \<and> related s' m'"
  using assms
proof (induction "is" arbitrary: s m)
  case (Cons i "is")
  obtain s1 os m1 where 1: "step s i = Some (s1, os)" "monitor_all judge m os = Some m1" "related s1 m1"
    using step_judged [OF Cons.prems] by blast
  obtain s2 os' m2 where "run_all step s1 is = Some (s2, os')" "monitor_all judge m1 os' = Some m2" "related s2 m2"
    using Cons.IH [OF 1(3)] by blast
  with 1 show ?case by (auto simp: monitor_all_append)
qed simp

end

text \<open>
  \<open>refined_machine\<close>: what the specification can do, the machine does with the same outputs,
  and the two stay related.
\<close>

locale refined_machine =
  fixes step :: "'s \<Rightarrow> 'i \<Rightarrow> ('s \<times> 'o list) option"
    and spec :: "'a \<Rightarrow> 'i \<Rightarrow> ('a \<times> 'o list) option"
    and abstracts :: "'s \<Rightarrow> 'a \<Rightarrow> bool"
  assumes step_refines: "abstracts s a \<Longrightarrow> spec a i = Some (a', os) \<Longrightarrow>
    \<exists>s'. step s i = Some (s', os) \<and> abstracts s' a'"
begin

lemma run_refines:
  assumes "abstracts s a" "run_all spec a is = Some (a', os)"
  shows "\<exists>s'. run_all step s is = Some (s', os) \<and> abstracts s' a'"
  using assms
proof (induction "is" arbitrary: s a os)
  case (Cons i "is")
  from Cons.prems(2) obtain a1 os1 os2 where a: "spec a i = Some (a1, os1)" "run_all spec a1 is = Some (a', os2)"
    "os = os1 @ os2" by (auto split: bind_splits)
  obtain s1 where "step s i = Some (s1, os1)" "abstracts s1 a1" using step_refines [OF Cons.prems(1) a(1)] by blast
  moreover from Cons.IH [OF this(2) a(2)] obtain s' where "run_all step s1 is = Some (s', os2)" "abstracts s' a'" by blast
  ultimately show ?case using a(3) by auto
qed simp

end

end
