(* ===== verification/Command_Processor.thy ===== *)
theory Command_Processor
  imports Setup_Policy Step_Machine
begin

text \<open>
  The command processor of \<open>rdp_device.cpp\<close>: its decoding state, one definition per command
  handler (\<open>op_*\<close>), the dispatch table and the meta commands. The calls a handler makes to
  the renderer and to the timeline worker are returned in order as a list of
  \<open>render_call\<close>s. A handler receives the words of one command and reads them with bounds
  checks: \<open>None\<close> is a read outside the command.
\<close>

section \<open>State and calls\<close>

datatype fb_format = FB_I4 | FB_I8 | FB_RGBA5551 | FB_IA88 | FB_RGBA8888

datatype upload_mode = UM_Tile | UM_TLUT | UM_Block

datatype draw_class = DC_Triangle | DC_TexRect | DC_TexRectFlip | DC_FillRect | DC_FillTriangle

record load_tile_info =
  li_tex_addr :: u32
  li_tex_width :: u32
  li_slo :: u16
  li_tlo :: u16
  li_shi :: u16
  li_thi :: u16
  li_fmt :: texture_format_t
  li_size :: texture_size
  li_mode :: upload_mode

record texture_image =
  ti_addr :: u32
  ti_width :: u32
  ti_fmt :: texture_format_t
  ti_size :: texture_size

record command_processor =
  cp_scissor :: scissor_state
  cp_static :: static_state
  cp_depth_blend :: depth_blend_state
  cp_texture_image :: texture_image
  cp_quirks :: u32

datatype render_call =
    Flush_And_Signal
  | Notify_Idle_Command_Thread
  | Draw_Flat_Primitive triangle_setup draw_class
  | Draw_Shaded_Primitive triangle_setup attr_setup draw_class
  | Set_Color_Framebuffer u32 u32 fb_format
  | Set_Depth_Framebuffer u32
  | Set_Scissor_State scissor_state
  | Set_Static_Rasterization_State static_state
  | Set_Depth_Blend_State depth_blend_state
  | Set_Enable_Primitive_Depth bool
  | Set_Tile u32 tile_meta
  | Set_Tile_Size u32 u32 u32 u32 u32
  | Load_Tile u32 load_tile_info
  | Set_Blend_Color u32
  | Set_Env_Color u32
  | Set_Fog_Color u32
  | Set_Fill_Color u32
  | Set_Primitive_Color u8 u8 u32
  | Set_Primitive_Depth u16 u16
  | Set_Convert u16 u16 u16 u16 u16 u16
  | Set_Color_Key u32 u32 u32 u32
  | Push_Timeline u64

type_synonym command_result = "(command_processor \<times> render_call list) option"
type_synonym command_func = "command_processor \<Rightarrow> u32 list \<Rightarrow> command_result"

text \<open>
  The members of the union \<open>Quirks::u\<close>: two bytes of the word that travels in a command.
  The constructor sets the first option and clears the second.
\<close>

definition native_resolution_tex_rect :: "u32 \<Rightarrow> bool" where
  "native_resolution_tex_rect quirks = flag_set quirks 0xff"

definition native_texture_lod :: "u32 \<Rightarrow> bool" where
  "native_texture_lod quirks = flag_set quirks 0xff00"

definition default_quirks :: u32 where "default_quirks = 1"

definition zero_combiner_inputs :: combiner_inputs where
  "zero_combiner_inputs =
     \<lparr>rgb_muladd = 0, rgb_mulsub = 0, rgb_mul = 0, rgb_add = 0,
      alpha_muladd = 0, alpha_mulsub = 0, alpha_mul = 0, alpha_add = 0\<rparr>"

definition zero_static_state :: static_state where
  "zero_static_state =
     \<lparr>combiner0 = zero_combiner_inputs, combiner1 = zero_combiner_inputs, st_flags = 0,
      st_dither = 0, st_texture_size = 0, st_texture_fmt = 0\<rparr>"

definition zero_depth_blend_state :: depth_blend_state where
  "zero_depth_blend_state =
     (let z = \<lparr>blend_1a = 0, blend_1b = 0, blend_2a = 0, blend_2b = 0\<rparr> in
      \<lparr>blend_cycle0 = z, blend_cycle1 = z, db_flags = 0, coverage_mode = 0, z_mode = 0\<rparr>)"

definition zero_scissor_state :: scissor_state where
  "zero_scissor_state = \<lparr>sc_xlo = 0, sc_ylo = 0, sc_xhi = 0, sc_yhi = 0\<rparr>"

definition initial_command_processor :: command_processor where
  "initial_command_processor =
     \<lparr>cp_scissor = zero_scissor_state, cp_static = zero_static_state,
      cp_depth_blend = zero_depth_blend_state,
      cp_texture_image = \<lparr>ti_addr = 0, ti_width = 0, ti_fmt = 0, ti_size = Bpp4\<rparr>,
      cp_quirks = default_quirks\<rparr>"

section \<open>Triangles\<close>

definition decode_triangle_setup :: "command_processor \<Rightarrow> u32 list \<Rightarrow> triangle_setup option" where
  "decode_triangle_setup st words =
     do { ws \<leftarrow> words_at words 0 8;
          Some (decode_triangle_setup_words zero_triangle_setup ws
                  (flag_set (st_flags (cp_static st)) RASTERIZATION_COPY_BIT)
                  (native_texture_lod (cp_quirks st))) }"

definition op_fill_triangle :: command_func where
  "op_fill_triangle st words =
     do { setup \<leftarrow> decode_triangle_setup st words;
          Some (st, [Draw_Flat_Primitive setup DC_FillTriangle]) }"

definition op_shade_triangle :: command_func where
  "op_shade_triangle st words =
     do { setup \<leftarrow> decode_triangle_setup st words;
          rgba \<leftarrow> words_at words 8 16;
          Some (st, [Draw_Shaded_Primitive setup (decode_rgba_setup zero_attr_setup rgba) DC_Triangle]) }"

definition op_shade_z_buffer_triangle :: command_func where
  "op_shade_z_buffer_triangle st words =
     do { setup \<leftarrow> decode_triangle_setup st words;
          rgba \<leftarrow> words_at words 8 16;
          z \<leftarrow> words_at words 24 4;
          Some (st, [Draw_Shaded_Primitive setup
                       (decode_z_setup (decode_rgba_setup zero_attr_setup rgba) z) DC_Triangle]) }"

definition op_shade_texture_z_buffer_triangle :: command_func where
  "op_shade_texture_z_buffer_triangle st words =
     do { setup \<leftarrow> decode_triangle_setup st words;
          rgba \<leftarrow> words_at words 8 16;
          tex \<leftarrow> words_at words 24 16;
          z \<leftarrow> words_at words 40 4;
          Some (st, [Draw_Shaded_Primitive setup
                       (decode_z_setup (decode_tex_setup (decode_rgba_setup zero_attr_setup rgba) tex) z)
                       DC_Triangle]) }"

definition op_fill_z_buffer_triangle :: command_func where
  "op_fill_z_buffer_triangle st words =
     do { setup \<leftarrow> decode_triangle_setup st words;
          z \<leftarrow> words_at words 8 4;
          Some (st, [Draw_Shaded_Primitive setup (decode_z_setup zero_attr_setup z) DC_Triangle]) }"

definition op_texture_triangle :: command_func where
  "op_texture_triangle st words =
     do { setup \<leftarrow> decode_triangle_setup st words;
          tex \<leftarrow> words_at words 8 16;
          Some (st, [Draw_Shaded_Primitive setup (decode_tex_setup zero_attr_setup tex) DC_Triangle]) }"

definition op_texture_z_buffer_triangle :: command_func where
  "op_texture_z_buffer_triangle st words =
     do { setup \<leftarrow> decode_triangle_setup st words;
          tex \<leftarrow> words_at words 8 16;
          z \<leftarrow> words_at words 24 4;
          Some (st, [Draw_Shaded_Primitive setup
                       (decode_z_setup (decode_tex_setup zero_attr_setup tex) z) DC_Triangle]) }"

definition op_shade_texture_triangle :: command_func where
  "op_shade_texture_triangle st words =
     do { setup \<leftarrow> decode_triangle_setup st words;
          rgba \<leftarrow> words_at words 8 16;
          tex \<leftarrow> words_at words 24 16;
          Some (st, [Draw_Shaded_Primitive setup
                       (decode_tex_setup (decode_rgba_setup zero_attr_setup rgba) tex) DC_Triangle]) }"

section \<open>Images, scissor and modes\<close>

text \<open>The switch over the two-bit pixel size never reaches its default branch.\<close>

definition fb_format_of :: "u32 \<Rightarrow> u32 \<Rightarrow> fb_format option" where
  "fb_format_of fmt sz =
     (if sz = 0 then Some FB_I4
      else if sz = 1 then Some FB_I8
      else if sz = 2 then Some (if fmt \<noteq> 0 then FB_IA88 else FB_RGBA5551)
      else if sz = 3 then Some FB_RGBA8888
      else None)"

definition op_set_color_image :: command_func where
  "op_set_color_image st words =
     do { w0 \<leftarrow> rd words 0;
          w1 \<leftarrow> rd words 1;
          Some (st, (case fb_format_of (field w0 21 7) (field w0 19 3) of
                       Some fbfmt \<Rightarrow> [Set_Color_Framebuffer (w1 AND 0xffffff) ((w0 AND 1023) + 1) fbfmt]
                     | None \<Rightarrow> [])) }"

definition op_set_mask_image :: command_func where
  "op_set_mask_image st words =
     do { w1 \<leftarrow> rd words 1; Some (st, [Set_Depth_Framebuffer (w1 AND 0xffffff)]) }"

definition op_set_scissor :: command_func where
  "op_set_scissor st words =
     do { w0 \<leftarrow> rd words 0;
          w1 \<leftarrow> rd words 1;
          let (sc, ss) = apply_set_scissor_words (cp_static st) w0 w1 in
          Some (st\<lparr>cp_scissor := sc, cp_static := ss\<rparr>,
                [Set_Scissor_State sc, Set_Static_Rasterization_State ss]) }"

definition op_set_other_modes :: command_func where
  "op_set_other_modes st words =
     do { w0 \<leftarrow> rd words 0;
          w1 \<leftarrow> rd words 1;
          let (ss, db, prim_depth) = apply_set_other_modes_words (cp_static st) (cp_depth_blend st) w0 w1 in
          Some (st\<lparr>cp_static := ss, cp_depth_blend := db\<rparr>,
                [Set_Static_Rasterization_State ss, Set_Depth_Blend_State db,
                 Set_Enable_Primitive_Depth prim_depth]) }"

definition op_set_texture_image :: command_func where
  "op_set_texture_image st words =
     do { w0 \<leftarrow> rd words 0;
          w1 \<leftarrow> rd words 1;
          Some (st\<lparr>cp_texture_image :=
                     \<lparr>ti_addr = w1 AND 0x00ffffff, ti_width = (w0 AND 0x3ff) + 1,
                      ti_fmt = ucast (field w0 21 7), ti_size = texture_size_of (field w0 19 3)\<rparr>\<rparr>,
                []) }"

section \<open>Tiles\<close>

definition clamp_mask :: "u8 \<Rightarrow> u8 \<Rightarrow> u8 \<Rightarrow> u8 \<times> u8" where
  "clamp_mask m flags clamp_bit =
     (if m > 10 then (10, flags) else if m = 0 then (m, flags OR clamp_bit) else (m, flags))"

definition tile_info_of :: "u32 \<Rightarrow> u32 \<Rightarrow> tile_meta" where
  "tile_info_of w0 w1 =
     (let flags = 0;
          flags = or_flag flags (flag_set w1 (push_bit 8 1)) TILE_INFO_MIRROR_S_BIT;
          flags = or_flag flags (flag_set w1 (push_bit 9 1)) TILE_INFO_CLAMP_S_BIT;
          flags = or_flag flags (flag_set w1 (push_bit 18 1)) TILE_INFO_MIRROR_T_BIT;
          flags = or_flag flags (flag_set w1 (push_bit 19 1)) TILE_INFO_CLAMP_T_BIT;
          (mask_s, flags) = clamp_mask (ucast (field w1 4 15)) flags TILE_INFO_CLAMP_S_BIT;
          (mask_t, flags) = clamp_mask (ucast (field w1 14 15)) flags TILE_INFO_CLAMP_T_BIT
      in \<lparr>tm_offset = shl (field w0 0 511) 3, tm_stride = shl (field w0 9 511) 3,
          tm_fmt = ucast (field w0 21 7), tm_size = texture_size_of (field w0 19 3),
          tm_palette = ucast (field w1 20 15),
          tm_mask_s = mask_s, tm_shift_s = ucast (field w1 0 15),
          tm_mask_t = mask_t, tm_shift_t = ucast (field w1 10 15),
          tm_flags = flags\<rparr>)"

definition op_set_tile :: command_func where
  "op_set_tile st words =
     do { w0 \<leftarrow> rd words 0;
          w1 \<leftarrow> rd words 1;
          Some (st, [Set_Tile (field w1 24 7) (tile_info_of w0 w1)]) }"

text \<open>The three loads differ in the mode only.\<close>

definition load_tile_command :: "upload_mode \<Rightarrow> command_func" where
  "load_tile_command mode st words =
     do { w0 \<leftarrow> rd words 0;
          w1 \<leftarrow> rd words 1;
          Some (st, [Load_Tile (field w1 24 7)
            \<lparr>li_tex_addr = ti_addr (cp_texture_image st), li_tex_width = ti_width (cp_texture_image st),
             li_slo = ucast (field w0 12 0xfff), li_tlo = ucast (field w0 0 0xfff),
             li_shi = ucast (field w1 12 0xfff), li_thi = ucast (field w1 0 0xfff),
             li_fmt = ti_fmt (cp_texture_image st), li_size = ti_size (cp_texture_image st),
             li_mode = mode\<rparr>]) }"

definition op_load_tile :: command_func where "op_load_tile = load_tile_command UM_Tile"

definition op_load_tlut :: command_func where "op_load_tlut = load_tile_command UM_TLUT"

definition op_load_block :: command_func where "op_load_block = load_tile_command UM_Block"

definition op_set_tile_size :: command_func where
  "op_set_tile_size st words =
     do { w0 \<leftarrow> rd words 0;
          w1 \<leftarrow> rd words 1;
          Some (st, [Set_Tile_Size (field w1 24 7) (field w0 12 0xfff) (field w1 12 0xfff)
                       (field w0 0 0xfff) (field w1 0 0xfff)]) }"

section \<open>Combiner and colours\<close>

definition op_set_combine :: command_func where
  "op_set_combine st words =
     do { w0 \<leftarrow> rd words 0;
          w1 \<leftarrow> rd words 1;
          let ss = (cp_static st)
            \<lparr>combiner0 :=
               \<lparr>rgb_muladd = ucast (field w0 20 0xf), rgb_mulsub = ucast (field w1 28 0xf),
                rgb_mul = ucast (field w0 15 0x1f), rgb_add = ucast (field w1 15 0x7),
                alpha_muladd = ucast (field w0 12 0x7), alpha_mulsub = ucast (field w1 12 0x7),
                alpha_mul = ucast (field w0 9 0x7), alpha_add = ucast (field w1 9 0x7)\<rparr>,
             combiner1 :=
               \<lparr>rgb_muladd = ucast (field w0 5 0xf), rgb_mulsub = ucast (field w1 24 0xf),
                rgb_mul = ucast (field w0 0 0x1f), rgb_add = ucast (field w1 6 0x7),
                alpha_muladd = ucast (field w1 21 0x7), alpha_mulsub = ucast (field w1 3 0x7),
                alpha_mul = ucast (field w1 18 0x7), alpha_add = ucast (field w1 0 0x7)\<rparr>\<rparr> in
          Some (st\<lparr>cp_static := ss\<rparr>, [Set_Static_Rasterization_State ss]) }"

definition op_set_blend_color :: command_func where
  "op_set_blend_color st words = do { w1 \<leftarrow> rd words 1; Some (st, [Set_Blend_Color w1]) }"

definition op_set_env_color :: command_func where
  "op_set_env_color st words = do { w1 \<leftarrow> rd words 1; Some (st, [Set_Env_Color w1]) }"

definition op_set_fog_color :: command_func where
  "op_set_fog_color st words = do { w1 \<leftarrow> rd words 1; Some (st, [Set_Fog_Color w1]) }"

definition op_set_prim_color :: command_func where
  "op_set_prim_color st words =
     do { w0 \<leftarrow> rd words 0;
          w1 \<leftarrow> rd words 1;
          Some (st, [Set_Primitive_Color (ucast (field w0 8 31)) (ucast (field w0 0 0xff)) w1]) }"

definition op_set_fill_color :: command_func where
  "op_set_fill_color st words = do { w1 \<leftarrow> rd words 1; Some (st, [Set_Fill_Color w1]) }"

definition op_set_prim_depth :: command_func where
  "op_set_prim_depth st words =
     do { w1 \<leftarrow> rd words 1;
          Some (st, [Set_Primitive_Depth (ucast (field w1 16 0xffff)) (ucast (w1 AND 0xffff))]) }"

definition op_set_convert :: command_func where
  "op_set_convert st words =
     do { w0 \<leftarrow> rd words 0;
          w1 \<leftarrow> rd words 1;
          let merged = (shl (ucast w0) 32 OR ucast w1 :: u64) in
          Some (st, [Set_Convert (ucast (field merged 45 0x1ff)) (ucast (field merged 36 0x1ff))
                       (ucast (field merged 27 0x1ff)) (ucast (field merged 18 0x1ff))
                       (ucast (field merged 9 0x1ff)) (ucast (field merged 0 0x1ff))]) }"

definition op_set_key_gb :: command_func where
  "op_set_key_gb st words =
     do { w0 \<leftarrow> rd words 0;
          w1 \<leftarrow> rd words 1;
          Some (st, [Set_Color_Key 1 (field w0 12 0xfff) (field w1 24 0xff) (field w1 16 0xff),
                     Set_Color_Key 2 (field w0 0 0xfff) (field w1 8 0xff) (field w1 0 0xff)]) }"

definition op_set_key_r :: command_func where
  "op_set_key_r st words =
     do { w1 \<leftarrow> rd words 1;
          Some (st, [Set_Color_Key 0 (field w1 16 0xfff) (field w1 8 0xff) (field w1 0 0xff)]) }"

section \<open>Rectangles\<close>

definition op_fill_rectangle :: command_func where
  "op_fill_rectangle st words =
     do { w0 \<leftarrow> rd words 0;
          w1 \<leftarrow> rd words 1;
          let rect = apply_copy_fill_y_adjust (decode_rectangle_coordinates w0 w1) (st_flags (cp_static st)) in
          Some (st, [Draw_Flat_Primitive (build_fill_rectangle_setup rect) DC_FillRect]) }"

definition texture_rectangle_command :: "bool \<Rightarrow> draw_class \<Rightarrow> command_func" where
  "texture_rectangle_command flip cls st words =
     do { w0 \<leftarrow> rd words 0;
          w1 \<leftarrow> rd words 1;
          w2 \<leftarrow> rd words 2;
          w3 \<leftarrow> rd words 3;
          let rect = apply_copy_fill_y_adjust (decode_rectangle_coordinates w0 w1) (st_flags (cp_static st));
              (setup, attr) = build_texture_rectangle_policy
                \<lparr>tr_rect = rect, tr_word1 = w1, tr_word2 = w2, tr_word3 = w3,
                 tr_raster_flags = st_flags (cp_static st), tr_flip = flip,
                 tr_native_resolution_tex_rect = native_resolution_tex_rect (cp_quirks st),
                 tr_native_texture_lod = native_texture_lod (cp_quirks st)\<rparr> in
          Some (st, [Draw_Shaded_Primitive setup attr cls]) }"

definition op_texture_rectangle :: command_func where
  "op_texture_rectangle = texture_rectangle_command False DC_TexRect"

definition op_texture_rectangle_flip :: command_func where
  "op_texture_rectangle_flip = texture_rectangle_command True DC_TexRectFlip"

section \<open>Synchronization and dispatch\<close>

definition op_sync_full :: command_func where "op_sync_full st words = Some (st, [Flush_And_Signal])"

definition op_sync_load :: command_func where "op_sync_load st words = Some (st, [])"

definition op_sync_pipe :: command_func where "op_sync_pipe st words = Some (st, [])"

definition op_sync_tile :: command_func where "op_sync_tile st words = Some (st, [])"

definition funcs :: "command_func option list" where
  "funcs =
    [None, None, None, None,
     None, None, None, None,
     Some op_fill_triangle, Some op_fill_z_buffer_triangle,
     Some op_texture_triangle, Some op_texture_z_buffer_triangle,
     Some op_shade_triangle, Some op_shade_z_buffer_triangle,
     Some op_shade_texture_triangle, Some op_shade_texture_z_buffer_triangle,
     None, None, None, None,
     None, None, None, None,
     None, None, None, None,
     None, None, None, None,
     None, None, None, None,
     Some op_texture_rectangle, Some op_texture_rectangle_flip, Some op_sync_load, Some op_sync_pipe,
     Some op_sync_tile, Some op_sync_full, Some op_set_key_gb, Some op_set_key_r,
     Some op_set_convert, Some op_set_scissor, Some op_set_prim_depth, Some op_set_other_modes,
     Some op_load_tlut, None, Some op_set_tile_size, Some op_load_block,
     Some op_load_tile, Some op_set_tile, Some op_fill_rectangle, Some op_set_fill_color,
     Some op_set_fog_color, Some op_set_blend_color, Some op_set_prim_color, Some op_set_env_color,
     Some op_set_combine, Some op_set_texture_image, Some op_set_mask_image, Some op_set_color_image]"

definition Op_MetaSignalTimeline :: u32 where "Op_MetaSignalTimeline = 1"
definition Op_MetaFlush :: u32 where "Op_MetaFlush = 2"
definition Op_MetaIdle :: u32 where "Op_MetaIdle = 3"
definition Op_MetaSetQuirks :: u32 where "Op_MetaSetQuirks = 4"

lemmas meta_op_defs =
  Op_MetaSignalTimeline_def Op_MetaFlush_def Op_MetaIdle_def Op_MetaSetQuirks_def

definition command_op :: "u32 \<Rightarrow> u32" where
  "command_op w = field w 24 63"

definition enqueue_command_direct :: command_func where
  "enqueue_command_direct st words =
     do { w0 \<leftarrow> rd words 0;
          let op = command_op w0 in
          if op = Op_MetaSignalTimeline then
            do { w1 \<leftarrow> rd words 1;
                 w2 \<leftarrow> rd words 2;
                 Some (st, [Flush_And_Signal, Push_Timeline (ucast w1 OR shl (ucast w2) 32)]) }
          else if op = Op_MetaFlush then Some (st, [Flush_And_Signal])
          else if op = Op_MetaIdle then Some (st, [Notify_Idle_Command_Thread])
          else if op = Op_MetaSetQuirks then do { w1 \<leftarrow> rd words 1; Some (st\<lparr>cp_quirks := w1\<rparr>, []) }
          else case funcs ! unat op of
                 Some f \<Rightarrow> f st words
               | None \<Rightarrow> Some (st, []) }"

text \<open>The commands \<open>set_quirks\<close>, \<open>flush\<close> and \<open>signal_timeline\<close> put into the ring.\<close>

definition set_quirks_command :: "u32 \<Rightarrow> u32 list" where
  "set_quirks_command quirks = [shl Op_MetaSetQuirks 24, quirks]"

definition flush_command :: "u32 list" where
  "flush_command = [shl Op_MetaFlush 24]"

definition signal_timeline_command :: "u64 \<Rightarrow> u32 list" where
  "signal_timeline_command timeline_value =
     [shl Op_MetaSignalTimeline 24, ucast timeline_value, ucast (shr timeline_value 32)]"

text \<open>The worker of the command ring hands the commands over one after the other.\<close>

definition process_all :: "command_processor \<Rightarrow> u32 list list \<Rightarrow> command_result" where
  "process_all = run_all enqueue_command_direct"

end
