(* ===== verification/Command_Ingest.thy ===== *)
theory Command_Ingest
  imports Step_Machine
begin

text \<open>
  \<open>process_command_ingest\<close> of \<open>rdp_command_ingest.hpp\<close>, called by \<open>process_commands\<close> of
  \<open>rdp.cpp\<close> whenever the emulated CPU or RSP writes the end register of the display
  processor: it copies the words between the current and the end register into a buffer and
  hands every complete command on. The memories are seen as arrays of 32-bit words, as the
  code reads them (all offsets are multiples of eight). The hooks are called in order; the
  list of events is the trace of these calls. \<open>None\<close> is an access outside an array.
\<close>

section \<open>State\<close>

record ingest_state =
  cmd_cur :: nat
  cmd_ptr :: nat
  cmd_data :: "u32 list"

record dpc_regs =
  dpc_start_reg :: u32
  dpc_end_reg :: u32
  dpc_current_reg :: u32
  dpc_status_reg :: u32

text \<open>A hook is a function pointer that may be null; here whether it is set.\<close>

record ingest_hooks =
  frontend_available :: bool
  synchronous :: bool
  has_enqueue_command :: bool
  has_signal_timeline :: bool
  has_wait_for_timeline :: bool
  has_raise_dp_interrupt :: bool

text \<open>\<open>Signal_And_Wait\<close> is \<open>wait_for_timeline(signal_timeline())\<close>.\<close>

datatype ingest_event =
    Enqueue_Command "u32 list"
  | Signal_And_Wait
  | Raise_DP_Interrupt

definition DP_STATUS_XBUS_DMA :: u32 where "DP_STATUS_XBUS_DMA = 1"
definition DP_STATUS_FREEZE :: u32 where "DP_STATUS_FREEZE = 2"

definition CMD_DATA_WORDS :: nat where "CMD_DATA_WORDS = 0x10000"

definition cmd_len_lut :: "nat list" where
  "cmd_len_lut =
    [1, 1, 1, 1, 1, 1, 1, 1, 4, 6, 12, 14, 12, 14, 20, 22,
     1, 1, 1, 1, 1, 1, 1, 1, 1, 1, 1,  1,  1,  1,  1,  1,
     1, 1, 1, 1, 2, 2, 1, 1, 1, 1, 1,  1,  1,  1,  1,  1,
     1, 1, 1, 1, 1, 1, 1, 1, 1, 1, 1,  1,  1,  1,  1,  1]"

definition command_of :: "u32 \<Rightarrow> nat" where
  "command_of w = unat (field w 24 63)"

definition cmd_length_of :: "u32 \<Rightarrow> nat" where
  "cmd_length_of w = cmd_len_lut ! command_of w"

lemma command_of_less: "command_of w < 64"
  unfolding command_of_def by (rule unat_field_less) simp

lemma cmd_len_lut_length [simp]: "length cmd_len_lut = 64"
  by (simp add: cmd_len_lut_def)

lemma cmd_length_bounds: "1 \<le> cmd_length_of w" "cmd_length_of w \<le> 22"
proof -
  have "list_all (\<lambda>n. 1 \<le> n \<and> n \<le> 22) cmd_len_lut" by (simp add: cmd_len_lut_def)
  moreover have "cmd_length_of w \<in> set cmd_len_lut"
    using command_of_less [of w] by (simp add: cmd_length_of_def)
  ultimately show "1 \<le> cmd_length_of w" "cmd_length_of w \<le> 22" by (auto simp: list_all_iff)
qed

section \<open>Copying into the buffer\<close>

text \<open>
  The loop \<open>do ... while (--length > 0)\<close> with the mask of the source memory; it is entered
  with a positive length and counts the remaining iterations down.
\<close>

fun fetch_words :: "u32 list \<Rightarrow> u32 \<Rightarrow> nat \<Rightarrow> u32 \<Rightarrow> ingest_state \<Rightarrow> ingest_state option" where
  "fetch_words mem addr_mask 0 offset st = Some st"
| "fetch_words mem addr_mask (Suc n) offset st =
     do { let offset' = offset AND addr_mask;
          a \<leftarrow> rd mem (unat offset' div 4);
          b \<leftarrow> rd mem (unat offset' div 4 + 1);
          data \<leftarrow> wr (cmd_data st) (2 * cmd_ptr st) a;
          data \<leftarrow> wr data (2 * cmd_ptr st + 1) b;
          fetch_words mem addr_mask n (offset' + 8) (st\<lparr>cmd_data := data, cmd_ptr := cmd_ptr st + 1\<rparr>) }"

section \<open>Handing commands on\<close>

definition sync_full_events :: "ingest_hooks \<Rightarrow> ingest_event list" where
  "sync_full_events hooks =
     (if synchronous hooks \<and> frontend_available hooks \<and> has_signal_timeline hooks \<and>
         has_wait_for_timeline hooks then [Signal_And_Wait] else []) @
     (if has_raise_dp_interrupt hooks then [Raise_DP_Interrupt] else [])"

definition command_events :: "ingest_hooks \<Rightarrow> u32 list \<Rightarrow> ingest_event list" where
  "command_events hooks words =
     (let command = command_of (words ! 0) in
      (if command \<ge> 8 \<and> frontend_available hooks \<and> has_enqueue_command hooks
       then [Enqueue_Command words] else []) @
      (if command = 0x29 then sync_full_events hooks else []))"

text \<open>
  The loop over the complete commands. The result says whether it ended because the last
  command is incomplete.
\<close>

function consume_commands ::
  "ingest_hooks \<Rightarrow> ingest_state \<Rightarrow> (ingest_state \<times> ingest_event list \<times> bool) option" where
  "consume_commands hooks st =
     (if cmd_cur st < cmd_ptr st then
        do { w1 \<leftarrow> rd (cmd_data st) (2 * cmd_cur st);
             let cmd_length = cmd_length_of w1;
             if cmd_ptr st < cmd_cur st + cmd_length then Some (st, [], True)
             else if length (cmd_data st) < 2 * cmd_cur st + 2 * cmd_length then None
             else do { let words = take (2 * cmd_length) (drop (2 * cmd_cur st) (cmd_data st));
                       (st', evs, partial) \<leftarrow> consume_commands hooks (st\<lparr>cmd_cur := cmd_cur st + cmd_length\<rparr>);
                       Some (st', command_events hooks words @ evs, partial) } }
      else Some (st, [], False))"
  by pat_completeness auto

termination
  by (relation "measure (\<lambda>(hooks, st). cmd_ptr st - cmd_cur st)")
    (use cmd_length_bounds(1) in \<open>auto simp: Suc_le_eq intro!: diff_less_mono2\<close>)

declare consume_commands.simps [simp del]

section \<open>The whole step\<close>

definition process_command_ingest ::
  "ingest_hooks \<Rightarrow> u32 list \<Rightarrow> u32 list \<Rightarrow> ingest_state \<Rightarrow> dpc_regs \<Rightarrow>
   (ingest_state \<times> dpc_regs \<times> ingest_event list) option" where
  "process_command_ingest hooks dram sp_dmem st regs =
     (let DP_CURRENT = dpc_current_reg regs AND 0x00FFFFF8;
          DP_END = dpc_end_reg regs AND 0x00FFFFF8;
          regs = regs\<lparr>dpc_status_reg := dpc_status_reg regs AND NOT DP_STATUS_FREEZE\<rparr>;
          len = (DP_END - DP_CURRENT :: i32)
      in if sint len \<le> 0 then Some (st, regs, [])
         else
           let len = shr len 3 in
           if (of_nat (cmd_ptr st) + len) AND NOT (shr 0x0003FFFF 3) \<noteq> 0 then Some (st, regs, [])
           else if \<not> flag_set (dpc_status_reg regs) DP_STATUS_XBUS_DMA \<and>
                   (DP_END > 0x7ffffff \<or> DP_CURRENT > 0x7ffffff) then Some (st, regs, [])
           else do {
             st \<leftarrow> (if flag_set (dpc_status_reg regs) DP_STATUS_XBUS_DMA
                     then fetch_words sp_dmem 0xFF8 (unat len) DP_CURRENT st
                     else fetch_words dram 0xFFFFF8 (unat len) DP_CURRENT st);
             (st, evs, partial) \<leftarrow> consume_commands hooks st;
             let regs = regs\<lparr>dpc_start_reg := dpc_end_reg regs, dpc_current_reg := dpc_end_reg regs\<rparr>;
             if partial then Some (st, regs, evs)
             else Some (st\<lparr>cmd_ptr := 0, cmd_cur := 0\<rparr>, regs, evs) })"

text \<open>\<open>process_commands\<close> of \<open>rdp.cpp\<close> keeps the state between calls; at start it is empty.\<close>

definition initial_ingest_state :: ingest_state where
  "initial_ingest_state = \<lparr>cmd_cur = 0, cmd_ptr = 0, cmd_data = replicate CMD_DATA_WORDS 0\<rparr>"

section \<open>Reference: a stream of words cut into commands\<close>

text \<open>
  A stream of words is cut greedily into commands of the length their first word announces;
  what is left is the incomplete rest.
\<close>

function split_commands :: "u32 list \<Rightarrow> u32 list list \<times> u32 list" where
  "split_commands ws =
     (if ws = [] then ([], [])
      else let n = 2 * cmd_length_of (ws ! 0) in
           if length ws < n then ([], ws)
           else let (cs, rest) = split_commands (drop n ws) in (take n ws # cs, rest))"
  by pat_completeness auto

termination
proof (relation "measure length")
  fix ws :: "u32 list" and n
  assume "ws \<noteq> []" "n = 2 * cmd_length_of (ws ! 0)"
  then show "(drop n ws, ws) \<in> measure length"
    using cmd_length_bounds(1) [of "ws ! 0"] by (cases ws) auto
qed simp

declare split_commands.simps [simp del]

lemma split_commands_Nil [simp]: "split_commands [] = ([], [])"
  by (simp add: split_commands.simps)

lemma split_commands_append:
  "split_commands (a @ b) =
     (fst (split_commands a) @ fst (split_commands (snd (split_commands a) @ b)),
      snd (split_commands (snd (split_commands a) @ b)))"
proof (induction a rule: split_commands.induct)
  case (1 ws)
  let ?n = "2 * cmd_length_of (ws ! 0)"
  consider "ws = []" | "ws \<noteq> []" "length ws < ?n" | "ws \<noteq> []" "?n \<le> length ws" by linarith
  then show ?case
  proof cases
    case 1
    then show ?thesis by simp
  next
    case 2
    then show ?thesis by (simp add: split_commands.simps [of ws])
  next
    case 3
    then have h: "(ws @ b) ! 0 = ws ! 0" by (cases ws) simp_all
    from 3 have e: "split_commands ws =
        (take ?n ws # fst (split_commands (drop ?n ws)), snd (split_commands (drop ?n ws)))"
      by (simp add: split_commands.simps [of ws] Let_def split_beta)
    from 3 have "split_commands (ws @ b) =
        (take ?n ws # fst (split_commands (drop ?n ws @ b)), snd (split_commands (drop ?n ws @ b)))"
      by (subst split_commands.simps) (simp add: h Let_def split_beta)
    also have "\<dots> = (take ?n ws # fst (split_commands (drop ?n ws)) @
        fst (split_commands (snd (split_commands (drop ?n ws)) @ b)),
        snd (split_commands (snd (split_commands (drop ?n ws)) @ b)))"
      using "1.IH" [of ?n] 3 by simp
    finally show ?thesis by (simp add: e)
  qed
qed

lemma split_commands_rest:
  "fst (split_commands (snd (split_commands ws))) = []"
  "snd (split_commands (snd (split_commands ws))) = snd (split_commands ws)"
  using split_commands_append [of ws "[]"] by (simp_all add: prod_eq_iff)

text \<open>Every command has exactly the length its first word announces, and nothing is lost.\<close>

definition complete_command :: "u32 list \<Rightarrow> bool" where
  "complete_command ws \<longleftrightarrow> ws \<noteq> [] \<and> length ws = 2 * cmd_length_of (ws ! 0)"

lemma split_commands_concat:
  "concat (fst (split_commands ws)) @ snd (split_commands ws) = ws"
proof (induction ws rule: split_commands.induct)
  case (1 ws)
  show ?case
  proof (cases "ws = [] \<or> length ws < 2 * cmd_length_of (ws ! 0)")
    case True
    then show ?thesis by (auto simp: split_commands.simps [of ws])
  next
    case False
    with 1 [OF _ refl] show ?thesis
      by (auto simp: split_commands.simps [of ws] Let_def split_beta)
  qed
qed

lemma split_commands_complete:
  "list_all complete_command (fst (split_commands ws))"
proof (induction ws rule: split_commands.induct)
  case (1 ws)
  show ?case
  proof (cases "ws = [] \<or> length ws < 2 * cmd_length_of (ws ! 0)")
    case True
    then show ?thesis by (auto simp: split_commands.simps [of ws])
  next
    case False
    with 1 [OF _ refl] cmd_length_bounds(1) [of "ws ! 0"] show ?thesis
      by (auto simp: split_commands.simps [of ws] Let_def split_beta complete_command_def)
  qed
qed

section \<open>The loops against the reference\<close>

text \<open>Doubleword \<open>i\<close> of a fetch that starts at doubleword \<open>cur\<close> of a memory of \<open>dw\<close> doublewords.\<close>

definition fetched :: "u32 list \<Rightarrow> nat \<Rightarrow> nat \<Rightarrow> nat \<Rightarrow> u32 list" where
  "fetched mem dw cur n =
     concat (map (\<lambda>i. let k = (cur + i) mod dw in [mem ! (2 * k), mem ! (2 * k + 1)]) [0..<n])"

lemma fetched_0 [simp]: "fetched mem dw cur 0 = []"
  by (simp add: fetched_def)

lemma fetched_Suc:
  "fetched mem dw cur (Suc n) =
     (let k = cur mod dw in [mem ! (2 * k), mem ! (2 * k + 1)]) @ fetched mem dw (Suc cur) n"
proof -
  have "[0..<Suc n] = 0 # map Suc [0..<n]" by (simp only: upt_conv_Cons map_Suc_upt)
  then show ?thesis by (simp add: fetched_def comp_def Let_def del: upt_Suc)
qed

lemma length_fetched [simp]: "length (fetched mem dw cur n) = 2 * n"
  by (induction n arbitrary: cur) (simp_all add: fetched_Suc Let_def)

lemma fetched_mod: "fetched mem dw (cur mod dw) n = fetched mem dw cur n"
  by (simp add: fetched_def mod_simps)

text \<open>Masking a byte offset selects a doubleword modulo the memory size.\<close>

lemma unat_and_dw_mask:
  assumes "k + 3 \<le> 32"
  shows "unat (x AND push_bit 3 (mask k) :: u32) = 8 * (unat x div 8 mod 2 ^ k)"
proof -
  have e: "x AND push_bit 3 (mask k) = push_bit 3 (field x 3 (mask k))"
    by (rule bit_eqI) (auto simp: bit_and_iff bit_push_bit_iff bit_drop_bit_eq)
  have f: "unat (field x 3 (mask k)) = unat x div 8 mod 2 ^ k"
    by (simp add: unat_field_mask)
  have "unat x div 8 mod 2 ^ k < 2 ^ k" by simp
  also have "(2::nat) ^ k \<le> 2 ^ 29" using assms by (intro power_increasing) auto
  finally have "8 * (unat x div 8 mod 2 ^ k) < 2 ^ 32" by simp
  then show ?thesis
    unfolding e by (simp add: push_bit_eq_mult unat_word_ariths f mult.commute)
qed

definition pending :: "ingest_state \<Rightarrow> u32 list" where
  "pending st = take (2 * (cmd_ptr st - cmd_cur st)) (drop (2 * cmd_cur st) (cmd_data st))"

text \<open>The buffer invariant: the indices are ordered and bounded, and no complete command waits.\<close>

definition ingest_inv :: "ingest_state \<Rightarrow> bool" where
  "ingest_inv st \<longleftrightarrow> cmd_cur st \<le> cmd_ptr st \<and> cmd_ptr st \<le> 0x7FFF \<and>
     length (cmd_data st) = CMD_DATA_WORDS \<and> fst (split_commands (pending st)) = []"

lemma ingest_inv_initial: "ingest_inv initial_ingest_state"
  by (simp add: ingest_inv_def initial_ingest_state_def pending_def)

lemma fetch_words_eq:
  assumes "k + 4 \<le> 32" "\<forall>i < n. 2 * ((unat offset div 8 + i) mod 2 ^ k) + 1 < length mem"
    "2 * (cmd_ptr st + n) \<le> length (cmd_data st)"
  shows "fetch_words mem (push_bit 3 (mask k)) n offset st =
    Some (st\<lparr>cmd_ptr := cmd_ptr st + n,
             cmd_data := take (2 * cmd_ptr st) (cmd_data st) @
               fetched mem (2 ^ k) (unat offset div 8) n @
               drop (2 * (cmd_ptr st + n)) (cmd_data st)\<rparr>)"
  using assms(2,3)
proof (induction n arbitrary: offset st)
  case 0
  then show ?case by simp
next
  case (Suc n)
  let ?o = "offset AND push_bit 3 (mask k)"
  let ?d = "unat offset div 8 mod 2 ^ k"
  let ?p = "cmd_ptr st"
  let ?data = "(cmd_data st)[2 * ?p := mem ! (2 * ?d), 2 * ?p + 1 := mem ! (2 * ?d + 1)]"
  have o: "unat ?o = 8 * ?d" by (rule unat_and_dw_mask) (use assms(1) in simp)
  have "?d < 2 ^ k" by simp
  also have "(2::nat) ^ k \<le> 2 ^ 28" using assms(1) by (intro power_increasing) auto
  finally have "unat (?o + 8) = 8 * (?d + 1)"
    using unat_add_lem [of ?o 8] by (simp add: o)
  then have o8: "unat (?o + 8) div 8 = ?d + 1" by simp
  have idx: "((?d + 1) + i) mod 2 ^ k = (unat offset div 8 + Suc i) mod 2 ^ k" for i
    using mod_add_left_eq [of "unat offset div 8" "2 ^ k" "Suc i"] by simp
  have r: "rd mem (unat ?o div 4) = Some (mem ! (2 * ?d))"
    "rd mem (unat ?o div 4 + 1) = Some (mem ! (2 * ?d + 1))"
    using Suc.prems(1) [rule_format, of 0] by (simp_all add: o rd_def)
  have m: "\<forall>i < n. 2 * ((unat (?o + 8) div 8 + i) mod 2 ^ k) + 1 < length mem"
    using Suc.prems(1) unfolding o8 idx by auto
  have IH: "fetch_words mem (push_bit 3 (mask k)) n (?o + 8) (st\<lparr>cmd_data := ?data, cmd_ptr := ?p + 1\<rparr>) =
    Some (st\<lparr>cmd_ptr := ?p + 1 + n,
             cmd_data := take (2 * (?p + 1)) ?data @ fetched mem (2 ^ k) (?d + 1) n @
               drop (2 * (?p + 1 + n)) ?data\<rparr>)"
    using Suc.IH [OF m, of "st\<lparr>cmd_data := ?data, cmd_ptr := ?p + 1\<rparr>"] Suc.prems(2)
    by (simp add: o8)
  have "fetched mem (2 ^ k) (?d + 1) n = fetched mem (2 ^ k) (Suc (unat offset div 8)) n"
    using fetched_mod [of mem "2 ^ k" "?d + 1" n] fetched_mod [of mem "2 ^ k" "Suc (unat offset div 8)" n]
    by (simp add: mod_simps)
  moreover have "take (2 * (?p + 1)) ?data =
      take (2 * ?p) (cmd_data st) @ [mem ! (2 * ?d), mem ! (2 * ?d + 1)]"
    using Suc.prems(2) by (simp add: take_Suc_conv_app_nth take_update_swap list_update_append)
  ultimately show ?case
    using Suc.prems(2) r IH by (simp add: Let_def wr_def fetched_Suc)
qed

lemma consume_commands_eq:
  assumes "cmd_cur st \<le> cmd_ptr st" "2 * cmd_ptr st \<le> length (cmd_data st)"
  shows "consume_commands hooks st =
    Some (st\<lparr>cmd_cur := cmd_ptr st - length (snd (split_commands (pending st))) div 2\<rparr>,
          concat (map (command_events hooks) (fst (split_commands (pending st)))),
          snd (split_commands (pending st)) \<noteq> [])"
  using assms
proof (induction hooks st rule: consume_commands.induct)
  case (1 hooks st)
  show ?case
  proof (cases "cmd_cur st < cmd_ptr st")
    case False
    with 1 show ?thesis by (simp add: consume_commands.simps [of hooks st] pending_def)
  next
    case True
    let ?w = "cmd_data st ! (2 * cmd_cur st)"
    let ?n = "cmd_length_of ?w"
    have len: "length (pending st) = 2 * (cmd_ptr st - cmd_cur st)"
      using 1 by (simp add: pending_def)
    have p: "pending st \<noteq> []" "pending st ! 0 = ?w"
      using True 1 len by (auto simp: pending_def)
    have r: "rd (cmd_data st) (2 * cmd_cur st) = Some ?w"
      using True 1 by (simp add: rd_def)
    show ?thesis
    proof (cases "cmd_ptr st < cmd_cur st + ?n")
      case less: True
      then have "split_commands (pending st) = ([], pending st)"
        using True p len by (subst split_commands.simps) (auto simp: Let_def)
      then show ?thesis
        using True less 1 len p r by (subst consume_commands.simps) (simp add: Let_def)
    next
      case False
      let ?st = "st\<lparr>cmd_cur := cmd_cur st + ?n\<rparr>"
      have "pending ?st = drop (2 * ?n) (pending st)"
        using False by (simp add: pending_def drop_take algebra_simps)
      moreover have "take (2 * ?n) (pending st) = take (2 * ?n) (drop (2 * cmd_cur st) (cmd_data st))"
        using False by (simp add: pending_def min_def)
      ultimately have s: "split_commands (pending st) =
          (take (2 * ?n) (drop (2 * cmd_cur st) (cmd_data st)) # fst (split_commands (pending ?st)),
           snd (split_commands (pending ?st)))"
        using p len False by (subst split_commands.simps) (auto simp: Let_def split_beta)
      show ?thesis
        using True False 1(1) [OF True r refl] 1(2,3) r s
        by (subst consume_commands.simps) (auto simp: Let_def)
    qed
  qed
qed

section \<open>One call against the reference\<close>

text \<open>The doubleword a register points at, and how many doublewords a call is asked to take.\<close>

definition dp_index :: "u32 \<Rightarrow> nat" where
  "dp_index r = unat r div 8 mod 2 ^ 21"

definition ingest_count :: "dpc_regs \<Rightarrow> nat" where
  "ingest_count regs = dp_index (dpc_end_reg regs) - dp_index (dpc_current_reg regs)"

definition ingest_accepts :: "ingest_state \<Rightarrow> dpc_regs \<Rightarrow> bool" where
  "ingest_accepts st regs \<longleftrightarrow> 0 < ingest_count regs \<and> cmd_ptr st + ingest_count regs \<le> 0x7FFF"

definition from_dmem :: "dpc_regs \<Rightarrow> bool" where
  "from_dmem regs \<longleftrightarrow> flag_set (dpc_status_reg regs) DP_STATUS_XBUS_DMA"

definition ingest_words :: "u32 list \<Rightarrow> u32 list \<Rightarrow> dpc_regs \<Rightarrow> u32 list" where
  "ingest_words dram sp_dmem regs =
     (if from_dmem regs
      then fetched sp_dmem 512 (dp_index (dpc_current_reg regs)) (ingest_count regs)
      else fetched dram (2 ^ 21) (dp_index (dpc_current_reg regs)) (ingest_count regs))"

text \<open>The scratch memory has 4096 bytes; the main memory has to reach up to the end register.\<close>

definition ingest_mem_ok :: "u32 list \<Rightarrow> u32 list \<Rightarrow> dpc_regs \<Rightarrow> bool" where
  "ingest_mem_ok dram sp_dmem regs \<longleftrightarrow>
     length sp_dmem = 1024 \<and> (from_dmem regs \<or> 2 * dp_index (dpc_end_reg regs) \<le> length dram)"

definition unfreeze :: "dpc_regs \<Rightarrow> dpc_regs" where
  "unfreeze regs = regs\<lparr>dpc_status_reg := dpc_status_reg regs AND NOT DP_STATUS_FREEZE\<rparr>"

definition consumed :: "dpc_regs \<Rightarrow> dpc_regs" where
  "consumed regs =
     (unfreeze regs)\<lparr>dpc_start_reg := dpc_end_reg regs, dpc_current_reg := dpc_end_reg regs\<rparr>"

lemma dp_register: "unat (r AND 0x00FFFFF8 :: u32) = 8 * dp_index r"
proof -
  have "(0x00FFFFF8 :: u32) = push_bit 3 (mask 21)" by (simp add: mask_eq_exp_minus_1)
  then show ?thesis using unat_and_dw_mask [of 21 r] by (simp add: dp_index_def)
qed

lemma dp_index_less: "dp_index r < 2 ^ 21"
  by (simp add: dp_index_def)

lemma from_dmem_unfreeze:
  "flag_set (dpc_status_reg regs AND NOT DP_STATUS_FREEZE) DP_STATUS_XBUS_DMA = from_dmem regs"
proof -
  have "flag_set (w AND NOT (push_bit 1 1)) (push_bit 0 1) = flag_set w (push_bit 0 (1 :: u32))" for w
    by (subst (1 2) flag_set_single) (simp_all add: bit_simps)
  then show ?thesis by (simp add: from_dmem_def DP_STATUS_FREEZE_def DP_STATUS_XBUS_DMA_def)
qed

lemma sint_small: "unat (w :: u32) < 2 ^ 31 \<Longrightarrow> sint w = int (unat w)"
proof -
  assume "unat w < 2 ^ 31"
  moreover have u: "uint w = int (unat w)" by simp
  ultimately have "uint w < 2 ^ 31" by (metis of_nat_less_iff of_nat_numeral of_nat_power)
  moreover have "0 \<le> uint w" by simp
  ultimately have "signed_take_bit 31 (uint w) = uint w"
    by (intro signed_take_bit_int_eq_self) linarith+
  then show ?thesis by (simp add: sint_uint)
qed

lemma ingest_length:
  fixes e c :: u32
  assumes "e = dpc_end_reg regs AND 0x00FFFFF8" "c = dpc_current_reg regs AND 0x00FFFFF8"
  shows "sint (e - c) \<le> 0 \<longleftrightarrow> ingest_count regs = 0"
    "0 < ingest_count regs \<Longrightarrow> unat (shr (e - c) 3) = ingest_count regs"
proof -
  let ?E = "dp_index (dpc_end_reg regs)" and ?C = "dp_index (dpc_current_reg regs)"
  have u: "unat e = 8 * ?E" "unat c = 8 * ?C" using assms by (simp_all add: dp_register)
  have b: "?E < 2 ^ 21" "?C < 2 ^ 21" by (simp_all only: dp_index_less)
  have s: "sint e = 8 * int ?E" "sint c = 8 * int ?C"
    using u b by (simp_all add: sint_small)
  have "sint (e - c) = signed_take_bit 31 (sint e - sint c)"
    using sint_word_ariths(2) [of e c] by simp
  also have "\<dots> = sint e - sint c"
    using s b by (intro signed_take_bit_int_eq_self) auto
  finally show "sint (e - c) \<le> 0 \<longleftrightarrow> ingest_count regs = 0"
    using s by (auto simp: ingest_count_def)
  assume "0 < ingest_count regs"
  then have "c \<le> e" using u by (simp add: ingest_count_def word_le_nat_alt)
  then have "unat (e - c) = 8 * ingest_count regs"
    using u by (simp add: unat_sub ingest_count_def diff_mult_distrib2)
  then show "unat (shr (e - c) 3) = ingest_count regs" by (simp add: unat_shr)
qed

lemma and_not_mask_0_iff:
  "w AND NOT (mask k) = 0 \<longleftrightarrow> unat (w :: 'a::len word) < 2 ^ k"
proof
  assume "w AND NOT (mask k) = 0"
  then have "w AND mask k = w" by (metis and.right_neutral bit.disj_cancel_right bit.conj_disj_distrib or.right_neutral)
  then have "unat w = unat w mod 2 ^ k" using and_mask_mod [of w k] by simp
  then show "unat w < 2 ^ k" by (metis mod_less_divisor zero_less_power zero_less_numeral)
next
  assume "unat w < 2 ^ k"
  then have "w AND mask k = w" by (rule and_mask_fixed)
  then have "w AND NOT (mask k) = (w AND mask k) AND NOT (mask k)" by simp
  then show "w AND NOT (mask k) = 0" by (simp only: and.assoc bit.conj_cancel_right and_zero_eq)
qed

lemma ingest_guard:
  assumes "p \<le> 0x7FFF" "unat len < 2 ^ 21"
  shows "((of_nat p + len) AND NOT (shr 0x0003FFFF 3) \<noteq> (0 :: u32)) \<longleftrightarrow> \<not> p + unat len \<le> 0x7FFF"
proof -
  have m: "shr 0x0003FFFF 3 = (mask 15 :: u32)" by (simp add: mask_eq_exp_minus_1 drop_bit_eq_div)
  have "unat (of_nat p + len) = p + unat len"
    using assms unat_add_lem [of "of_nat p" len] by (simp add: unat_of_nat_u32)
  then show ?thesis unfolding m and_not_mask_0_iff by auto
qed

lemma ingest_rejected:
  assumes "ingest_inv st" "\<not> ingest_accepts st regs"
  shows "process_command_ingest hooks dram sp_dmem st regs = Some (st, unfreeze regs, [])"
proof (cases "ingest_count regs = 0")
  case True
  then show ?thesis
    by (simp add: process_command_ingest_def Let_def ingest_length(1) unfreeze_def)
next
  case False
  let ?len = "shr ((dpc_end_reg regs AND 0x00FFFFF8) - (dpc_current_reg regs AND 0x00FFFFF8)) 3"
  have len: "unat ?len = ingest_count regs"
    using False by (intro ingest_length(2)) auto
  then have "unat ?len < 2 ^ 21"
    using dp_index_less [of "dpc_end_reg regs"] by (simp add: ingest_count_def)
  moreover have "\<not> cmd_ptr st + unat ?len \<le> 0x7FFF"
    using assms(2) False len by (simp add: ingest_accepts_def)
  ultimately show ?thesis
    using assms(1) False ingest_guard [of "cmd_ptr st" ?len]
    by (simp add: process_command_ingest_def Let_def ingest_length(1) unfreeze_def ingest_inv_def
        del: drop_bit_numeral_bit0 drop_bit_numeral_bit1)
qed

lemma ingest_fetch:
  assumes "ingest_inv st" "ingest_accepts st regs" "ingest_mem_ok dram sp_dmem regs"
  shows "(if from_dmem regs
      then fetch_words sp_dmem 0xFF8 (ingest_count regs) (dpc_current_reg regs AND 0x00FFFFF8) st
      else fetch_words dram 0xFFFFF8 (ingest_count regs) (dpc_current_reg regs AND 0x00FFFFF8) st) =
    Some (st\<lparr>cmd_ptr := cmd_ptr st + ingest_count regs,
             cmd_data := take (2 * cmd_ptr st) (cmd_data st) @ ingest_words dram sp_dmem regs @
               drop (2 * (cmd_ptr st + ingest_count regs)) (cmd_data st)\<rparr>)"
proof -
  have m: "(0xFF8 :: u32) = push_bit 3 (mask 9)" "(0xFFFFF8 :: u32) = push_bit 3 (mask 21)"
    by (simp_all add: mask_eq_exp_minus_1)
  have c: "unat (dpc_current_reg regs AND 0x00FFFFF8) div 8 = dp_index (dpc_current_reg regs)"
    by (simp add: dp_register)
  have d: "2 * (cmd_ptr st + ingest_count regs) \<le> length (cmd_data st)"
    using assms by (simp add: ingest_inv_def ingest_accepts_def CMD_DATA_WORDS_def)
  show ?thesis
  proof (cases "from_dmem regs")
    case True
    have "2 * ((dp_index (dpc_current_reg regs) + i) mod 2 ^ 9) + 1 < length sp_dmem" for i
      using assms(3) pos_mod_bound [of 512] mod_less_divisor [of 512 "dp_index (dpc_current_reg regs) + i"]
      by (simp add: ingest_mem_ok_def)
    then show ?thesis
      using True fetch_words_eq [of 9 "ingest_count regs" "dpc_current_reg regs AND 0x00FFFFF8" sp_dmem st] d
      by (simp add: m [symmetric] c ingest_words_def)
  next
    case False
    have "2 * ((dp_index (dpc_current_reg regs) + i) mod 2 ^ 21) + 1 < length dram"
      if "i < ingest_count regs" for i
    proof -
      have "dp_index (dpc_current_reg regs) + i < dp_index (dpc_end_reg regs)"
        using that by (simp add: ingest_count_def)
      moreover from this have "dp_index (dpc_current_reg regs) + i < 2 ^ 21"
        using dp_index_less [of "dpc_end_reg regs"] by linarith
      ultimately show ?thesis using assms(3) False by (simp add: ingest_mem_ok_def)
    qed
    then show ?thesis
      using False fetch_words_eq [of 21 "ingest_count regs" "dpc_current_reg regs AND 0x00FFFFF8" dram st] d
      by (simp add: m [symmetric] c ingest_words_def)
  qed
qed

lemma pending_fetched:
  assumes "cmd_cur st \<le> cmd_ptr st" "2 * (cmd_ptr st + n) \<le> length (cmd_data st)" "length ws = 2 * n"
  shows "pending (st\<lparr>cmd_ptr := cmd_ptr st + n,
      cmd_data := take (2 * cmd_ptr st) (cmd_data st) @ ws @ drop (2 * (cmd_ptr st + n)) (cmd_data st)\<rparr>) =
    pending st @ ws"
  using assms by (simp add: pending_def drop_take algebra_simps)

lemma even_split_rest: "even (length ws) \<Longrightarrow> even (length (snd (split_commands ws)))"
proof (induction ws rule: split_commands.induct)
  case (1 ws)
  show ?case
  proof (cases "ws = [] \<or> length ws < 2 * cmd_length_of (ws ! 0)")
    case True
    with 1 show ?thesis by (auto simp: split_commands.simps [of ws])
  next
    case False
    with 1 show ?thesis by (auto simp: split_commands.simps [of ws] Let_def split_beta)
  qed
qed

lemma pending_rest:
  assumes "cmd_cur st \<le> cmd_ptr st" "2 * cmd_ptr st \<le> length (cmd_data st)"
  shows "length (snd (split_commands (pending st))) div 2 \<le> cmd_ptr st - cmd_cur st"
    "pending (st\<lparr>cmd_cur := cmd_ptr st - length (snd (split_commands (pending st))) div 2\<rparr>) =
      snd (split_commands (pending st))"
proof -
  let ?rest = "snd (split_commands (pending st))" and ?cs = "concat (fst (split_commands (pending st)))"
  have len: "length (pending st) = 2 * (cmd_ptr st - cmd_cur st)" using assms by (simp add: pending_def)
  have c: "?cs @ ?rest = pending st" by (rule split_commands_concat)
  have "even (length ?rest)" using len by (intro even_split_rest) simp
  then obtain k where k: "length ?rest = 2 * k" by (elim evenE)
  have l: "length ?cs + 2 * k = 2 * (cmd_ptr st - cmd_cur st)"
    using c k len by (metis length_append)
  then have kle: "k \<le> cmd_ptr st - cmd_cur st" and lc: "length ?cs = 2 * (cmd_ptr st - cmd_cur st - k)"
    by auto
  from k kle show "length ?rest div 2 \<le> cmd_ptr st - cmd_cur st" by simp
  have "?rest = drop (length ?cs) (pending st)" using c by (metis append_eq_conv_conj)
  also have "\<dots> = take (2 * k) (drop (2 * (cmd_ptr st - k)) (cmd_data st))"
    using kle assms lc by (simp add: pending_def drop_take algebra_simps)
  finally show "pending (st\<lparr>cmd_cur := cmd_ptr st - length ?rest div 2\<rparr>) = ?rest"
    using kle assms by (simp add: k pending_def)
qed

lemma ingest_entered:
  assumes "ingest_inv st" "ingest_accepts st regs"
  shows "process_command_ingest hooks dram sp_dmem st regs =
    do { st1 \<leftarrow> (if from_dmem regs
           then fetch_words sp_dmem 0xFF8 (ingest_count regs) (dpc_current_reg regs AND 0x00FFFFF8) st
           else fetch_words dram 0xFFFFF8 (ingest_count regs) (dpc_current_reg regs AND 0x00FFFFF8) st);
         (st2, evs, partial) \<leftarrow> consume_commands hooks st1;
         Some (if partial then st2 else st2\<lparr>cmd_ptr := 0, cmd_cur := 0\<rparr>, consumed regs, evs) }"
proof -
  let ?len = "shr ((dpc_end_reg regs AND 0x00FFFFF8) - (dpc_current_reg regs AND 0x00FFFFF8)) 3"
  have n: "0 < ingest_count regs" using assms(2) by (simp add: ingest_accepts_def)
  have len: "unat ?len = ingest_count regs" by (rule ingest_length(2)) (use n in auto)
  then have "unat ?len < 2 ^ 21"
    using dp_index_less [of "dpc_end_reg regs"] by (simp add: ingest_count_def)
  moreover have "cmd_ptr st \<le> 0x7FFF" "cmd_ptr st + ingest_count regs \<le> 0x7FFF"
    using assms by (auto simp: ingest_inv_def ingest_accepts_def)
  ultimately have guard: "(of_nat (cmd_ptr st) + ?len) AND NOT (shr 0x0003FFFF 3) = 0"
    using ingest_guard [of "cmd_ptr st" ?len] by (simp only: len) blast
  have hi: "\<not> (r AND 0x00FFFFF8 :: u32) > 0x7ffffff" for r
    using dp_register [of r] dp_index_less [of r] by (simp add: word_less_nat_alt)
  have ret: "(if b then Some (x, r, e) else Some (y, r, e)) = Some (if b then x else y, r, e)"
    for b x y and r :: dpc_regs and e :: "ingest_event list"
    by simp
  show ?thesis
    using n guard hi len
    by (simp add: process_command_ingest_def Let_def ingest_length(1) from_dmem_unfreeze
        consumed_def unfreeze_def ret)
qed

lemma ingest_accepted:
  assumes "ingest_inv st" "ingest_accepts st regs" "ingest_mem_ok dram sp_dmem regs"
    "split_commands (pending st @ ingest_words dram sp_dmem regs) = (cs, rest)"
  shows "\<exists>st'. process_command_ingest hooks dram sp_dmem st regs =
      Some (st', consumed regs, concat (map (command_events hooks) cs)) \<and>
    ingest_inv st' \<and> pending st' = rest"
proof -
  let ?n = "ingest_count regs"
  define st1 where "st1 = st\<lparr>cmd_ptr := cmd_ptr st + ?n,
      cmd_data := take (2 * cmd_ptr st) (cmd_data st) @ ingest_words dram sp_dmem regs @
        drop (2 * (cmd_ptr st + ?n)) (cmd_data st)\<rparr>"
  have lw: "length (ingest_words dram sp_dmem regs) = 2 * ?n" by (simp add: ingest_words_def)
  have inv: "cmd_cur st \<le> cmd_ptr st" "length (cmd_data st) = CMD_DATA_WORDS" "cmd_ptr st \<le> 0x7FFF"
    and acc: "0 < ?n" "cmd_ptr st + ?n \<le> 0x7FFF"
    using assms(1,2) by (auto simp: ingest_inv_def ingest_accepts_def)
  have p1: "pending st1 = pending st @ ingest_words dram sp_dmem regs"
    unfolding st1_def by (rule pending_fetched) (use inv acc lw in \<open>simp_all add: CMD_DATA_WORDS_def\<close>)
  have b1: "cmd_cur st1 \<le> cmd_ptr st1" "2 * cmd_ptr st1 \<le> length (cmd_data st1)"
      "cmd_ptr st1 \<le> 0x7FFF" "length (cmd_data st1) = CMD_DATA_WORDS"
    using inv acc lw by (simp_all add: st1_def CMD_DATA_WORDS_def)
  define st2 where "st2 = st1\<lparr>cmd_cur := cmd_ptr st1 - length rest div 2\<rparr>"
  have s1: "split_commands (pending st1) = (cs, rest)" using assms(4) p1 by simp
  have consume: "consume_commands hooks st1 = Some (st2, concat (map (command_events hooks) cs), rest \<noteq> [])"
    using consume_commands_eq [OF b1(1,2), of hooks] s1 by (simp add: st2_def)
  have p2: "pending st2 = rest" "length rest div 2 \<le> cmd_ptr st1 - cmd_cur st1"
    using pending_rest [OF b1(1,2)] s1 by (simp_all add: st2_def)
  have rest: "fst (split_commands rest) = []"
    using split_commands_rest(1) [of "pending st1"] s1 by simp
  have eq: "process_command_ingest hooks dram sp_dmem st regs =
      Some (if rest \<noteq> [] then st2 else st2\<lparr>cmd_ptr := 0, cmd_cur := 0\<rparr>, consumed regs,
            concat (map (command_events hooks) cs))"
    using ingest_entered [OF assms(1,2)] ingest_fetch [OF assms(1-3), folded st1_def] consume by simp
  show ?thesis
  proof (cases "rest = []")
    case True
    then show ?thesis using eq b1 by (auto simp: ingest_inv_def st2_def pending_def)
  next
    case False
    then show ?thesis using eq b1 p2 rest by (auto simp: ingest_inv_def st2_def)
  qed
qed

section \<open>Sequences of calls\<close>

text \<open>
  A run of calls, each with the memory contents and registers it meets. The second component
  of the result is the stream of words the calls accepted.
\<close>

type_synonym ingest_input = "u32 list \<times> u32 list \<times> dpc_regs"

fun ingest_run ::
  "ingest_hooks \<Rightarrow> ingest_state \<Rightarrow> ingest_input list \<Rightarrow> (ingest_state \<times> u32 list \<times> ingest_event list) option" where
  "ingest_run hooks st [] = Some (st, [], [])"
| "ingest_run hooks st ((dram, sp_dmem, regs) # ins) =
     do { (st', _, evs) \<leftarrow> process_command_ingest hooks dram sp_dmem st regs;
          (st'', stream, evs') \<leftarrow> ingest_run hooks st' ins;
          Some (st'', (if ingest_accepts st regs then ingest_words dram sp_dmem regs else []) @ stream,
                evs @ evs') }"

definition inputs_ok :: "ingest_input list \<Rightarrow> bool" where
  "inputs_ok = list_all (\<lambda>(dram, sp_dmem, regs). ingest_mem_ok dram sp_dmem regs)"

lemma ingest_run_refines:
  assumes "ingest_inv st" "inputs_ok ins"
  shows "\<exists>st' stream. ingest_run hooks st ins =
      Some (st', stream, concat (map (command_events hooks) (fst (split_commands (pending st @ stream))))) \<and>
    ingest_inv st' \<and> pending st' = snd (split_commands (pending st @ stream))"
  using assms
proof (induction ins arbitrary: st)
  case Nil
  then have "fst (split_commands (pending st)) = []" by (simp add: ingest_inv_def)
  with split_commands_concat [of "pending st"] Nil show ?case by simp
next
  case (Cons inp ins)
  obtain dram sp_dmem regs where i: "inp = (dram, sp_dmem, regs)" by (cases inp)
  have ok: "ingest_mem_ok dram sp_dmem regs" "inputs_ok ins" using Cons.prems(2) by (auto simp: i inputs_ok_def)
  show ?case
  proof (cases "ingest_accepts st regs")
    case False
    then show ?thesis
      using Cons.IH [OF Cons.prems(1) ok(2)] ingest_rejected [OF Cons.prems(1) False] by (auto simp: i)
  next
    case True
    let ?ws = "ingest_words dram sp_dmem regs"
    obtain cs rest where s: "split_commands (pending st @ ?ws) = (cs, rest)" by force
    obtain st1 where st1: "process_command_ingest hooks dram sp_dmem st regs =
        Some (st1, consumed regs, concat (map (command_events hooks) cs))" "ingest_inv st1" "pending st1 = rest"
      using ingest_accepted [OF Cons.prems(1) True ok(1) s] by blast
    obtain st2 stream where st2: "ingest_run hooks st1 ins =
        Some (st2, stream, concat (map (command_events hooks) (fst (split_commands (rest @ stream)))))"
        "ingest_inv st2" "pending st2 = snd (split_commands (rest @ stream))"
      using Cons.IH [OF st1(2) ok(2)] st1(3) by auto
    have "split_commands (pending st @ ?ws @ stream) =
        (cs @ fst (split_commands (rest @ stream)), snd (split_commands (rest @ stream)))"
      using split_commands_append [of "pending st @ ?ws" stream] s by simp
    then show ?thesis using st1(1) st2 True by (auto simp: i)
  qed
qed

lemma command_events_Enqueue:
  "Enqueue_Command ws' \<in> set (command_events hooks ws) \<Longrightarrow> ws' = ws \<and> 8 \<le> command_of (ws ! 0)"
  by (auto simp: command_events_def sync_full_events_def Let_def split: if_splits)

lemma fetch_words_None:
  assumes "k + 4 \<le> 32" "i < n" "length mem \<le> 2 * ((unat offset div 8 + i) mod 2 ^ k) + 1"
  shows "fetch_words mem (push_bit 3 (mask k)) n offset st = None"
  using assms(2,3)
proof (induction n arbitrary: offset st i)
  case 0
  then show ?case by simp
next
  case (Suc n)
  let ?o = "offset AND push_bit 3 (mask k)"
  let ?d = "unat offset div 8 mod 2 ^ k"
  have o: "unat ?o = 8 * ?d" by (rule unat_and_dw_mask) (use assms(1) in simp)
  show ?case
  proof (cases i)
    case 0
    then have "rd mem (Suc (unat ?o div 4)) = None" using Suc.prems(2) by (simp add: o)
    then show ?thesis by (auto simp: Let_def bind_eq_None_conv)
  next
    case (Suc j)
    have "?d < 2 ^ k" by simp
    also have "(2::nat) ^ k \<le> 2 ^ 28" using assms(1) by (intro power_increasing) auto
    finally have "unat (?o + 8) = 8 * (?d + 1)"
      using unat_add_lem [of ?o 8] by (simp add: o)
    then have "(unat (?o + 8) div 8 + j) mod 2 ^ k = (unat offset div 8 + i) mod 2 ^ k"
      using mod_add_left_eq [of "unat offset div 8" "2 ^ k" i] Suc by simp
    then have "fetch_words mem (push_bit 3 (mask k)) n (?o + 8) st' = None" for st'
      using Suc.IH [of j "?o + 8" st'] Suc.prems Suc by simp
    then show ?thesis by (auto simp: Let_def bind_eq_None_conv)
  qed
qed

section \<open>Properties\<close>

text \<open>
  C23. However the words of the command lists are cut into calls (in the middle of a command
  included), and whichever of the two memories they come from, the hooks are called exactly
  for the commands of the concatenated stream of accepted words, in order, each command once
  and with all its words; the words of an incomplete last command are kept for the next
  call. No call reads or writes outside the buffer.
\<close>

theorem ingest_stream_refines:
  assumes "inputs_ok ins"
  shows "\<exists>st' stream. ingest_run hooks initial_ingest_state ins =
      Some (st', stream, concat (map (command_events hooks) (fst (split_commands stream)))) \<and>
    ingest_inv st' \<and> pending st' = snd (split_commands stream)"
proof -
  have "pending initial_ingest_state = []" by (simp add: pending_def initial_ingest_state_def)
  then show ?thesis using ingest_run_refines [OF ingest_inv_initial assms, of hooks] by simp
qed

definition witness_hooks :: ingest_hooks where
  "witness_hooks =
     \<lparr>frontend_available = True, synchronous = True, has_enqueue_command = True,
      has_signal_timeline = True, has_wait_for_timeline = True, has_raise_dp_interrupt = True\<rparr>"

definition witness_regs :: "u32 \<Rightarrow> u32 \<Rightarrow> u32 \<Rightarrow> dpc_regs" where
  "witness_regs cur end_reg status =
     \<lparr>dpc_start_reg = cur, dpc_end_reg = end_reg, dpc_current_reg = cur, dpc_status_reg = status\<rparr>"

theorem ingest_stream_refines_witness:
  "\<exists>st' stream. ingest_run witness_hooks initial_ingest_state
      [([], replicate 1024 0x24000000, witness_regs 0xFF8 0x1000 1),
       ([], replicate 1024 0x29000000, witness_regs 0x0 0x10 1)] =
      Some (st', stream, concat (map (command_events witness_hooks) (fst (split_commands stream)))) \<and>
    ingest_inv st' \<and> pending st' = snd (split_commands stream)"
  by (rule ingest_stream_refines)
    (simp add: inputs_ok_def ingest_mem_ok_def from_dmem_def witness_regs_def DP_STATUS_XBUS_DMA_def
      flag_set_def)

text \<open>
  An accepted call that reads main memory stays inside it exactly if the end register
  does. The offset is masked to 16 MiB only, so with the 8 MiB of the machine a command list
  behind the end of memory is read outside the array.
\<close>

theorem ingest_fault_iff:
  assumes "ingest_inv st" "ingest_accepts st regs" "\<not> from_dmem regs" "length sp_dmem = 1024"
  shows "process_command_ingest hooks dram sp_dmem st regs = None \<longleftrightarrow>
    length dram < 2 * dp_index (dpc_end_reg regs)"
proof (cases "length dram < 2 * dp_index (dpc_end_reg regs)")
  case False
  then have "ingest_mem_ok dram sp_dmem regs" using assms(4) by (simp add: ingest_mem_ok_def)
  then show ?thesis
    using False ingest_accepted [OF assms(1,2) _ surjective_pairing, of dram sp_dmem hooks] by auto
next
  case True
  let ?E = "dp_index (dpc_end_reg regs)" and ?C = "dp_index (dpc_current_reg regs)"
  let ?n = "ingest_count regs"
  have n: "0 < ?n" using assms(2) by (simp add: ingest_accepts_def)
  then have last: "?C + (?n - 1) = ?E - 1" "?E - 1 < 2 ^ 21"
    using dp_index_less [of "dpc_end_reg regs"] by (auto simp: ingest_count_def)
  have m: "(0xFFFFF8 :: u32) = push_bit 3 (mask 21)" by (simp add: mask_eq_exp_minus_1)
  have c: "unat (dpc_current_reg regs AND 0xFFFFF8) div 8 = ?C" by (simp add: dp_register)
  have "length dram \<le> 2 * ((?C + (?n - 1)) mod 2 ^ 21) + 1"
    using True last n by (simp add: ingest_count_def)
  then have f: "fetch_words dram 0xFFFFF8 ?n (dpc_current_reg regs AND 0xFFFFF8) st = None"
    using fetch_words_None [of 21 "?n - 1" ?n dram "dpc_current_reg regs AND 0xFFFFF8" st] n
    by (simp add: m [symmetric] c)
  then have "process_command_ingest hooks dram sp_dmem st regs = None"
    using ingest_entered [OF assms(1,2)] assms(3) by simp
  then show ?thesis using True by simp
qed

theorem ingest_fault_iff_witness:
  "process_command_ingest witness_hooks (replicate 0x200000 0) (replicate 1024 0) initial_ingest_state
     (witness_regs 0x7FFFF8 0x800008 0) = None"
  using ingest_fault_iff [of initial_ingest_state "witness_regs 0x7FFFF8 0x800008 0" "replicate 1024 0"
      witness_hooks "replicate 0x200000 0"] ingest_inv_initial
  by (simp add: ingest_accepts_def ingest_count_def dp_index_def witness_regs_def
      initial_ingest_state_def from_dmem_def DP_STATUS_XBUS_DMA_def)

end
