(* ===== verification/Command_Properties.thy ===== *)
theory Command_Properties
  imports Command_Processor Command_Ingest
begin

text \<open>
  Properties of the command processor and of the path from the ingest to the renderer. The
  interface is the locale \<open>command_consumer\<close>: a function that takes complete commands one
  after the other and keeps an invariant. It is interpreted on \<open>enqueue_command_direct\<close>,
  with an invariant on the decoding state and a well-formedness condition on every call the
  renderer receives.
\<close>

section \<open>Ranges of decoded fields\<close>

lemma unat_ucast_le: "unat (ucast (w :: 'a::len word) :: 'b::len word) \<le> unat w"
  by (simp add: unsigned_ucast_eq take_bit_nat_less_eq_self)

lemma unat_and_less [word_field]: "unat m < n \<Longrightarrow> unat (w AND (m :: 'a::len word)) < n"
  using unat_and_le [of w m] by simp

lemma unat_ucast_and_less [word_field]:
  "unat m < n \<Longrightarrow> unat (ucast (w AND (m :: 'a::len word)) :: 'b::len word) < n"
  using unat_ucast_le [of "w AND m", where 'b = 'b] unat_and_le [of w m] by simp

lemma unat_and_succ:
  "unat (w AND 1023 :: u32) \<le> 1023" "unat ((w AND 1023 :: u32) + 1) = unat (w AND 1023) + 1"
proof -
  show l: "unat (w AND 1023 :: u32) \<le> 1023" using unat_and_le [of w 1023] by simp
  then show "unat ((w AND 1023 :: u32) + 1) = unat (w AND 1023) + 1"
    using unat_add_lem [of "w AND 1023" 1] by simp
qed

section \<open>The invariant and the well-formed calls\<close>

definition scissor_ok :: "scissor_state \<Rightarrow> bool" where
  "scissor_ok sc \<longleftrightarrow> unat (sc_xlo sc) < 4096 \<and> unat (sc_ylo sc) < 4096 \<and>
     unat (sc_xhi sc) < 4096 \<and> unat (sc_yhi sc) < 4096"

definition combiner_ok :: "combiner_inputs \<Rightarrow> bool" where
  "combiner_ok c \<longleftrightarrow> unat (rgb_muladd c) < 16 \<and> unat (rgb_mulsub c) < 16 \<and>
     unat (rgb_mul c) < 32 \<and> unat (rgb_add c) < 8 \<and> unat (alpha_muladd c) < 8 \<and>
     unat (alpha_mulsub c) < 8 \<and> unat (alpha_mul c) < 8 \<and> unat (alpha_add c) < 8"

text \<open>At most one of the flags for two-cycle, fill and copy mode is set.\<close>

definition cycle_ok :: "u32 \<Rightarrow> bool" where
  "cycle_ok flags \<longleftrightarrow>
     \<not> (flag_set flags RASTERIZATION_MULTI_CYCLE_BIT \<and> flag_set flags RASTERIZATION_FILL_BIT) \<and>
     \<not> (flag_set flags RASTERIZATION_MULTI_CYCLE_BIT \<and> flag_set flags RASTERIZATION_COPY_BIT) \<and>
     \<not> (flag_set flags RASTERIZATION_FILL_BIT \<and> flag_set flags RASTERIZATION_COPY_BIT)"

definition static_ok :: "static_state \<Rightarrow> bool" where
  "static_ok ss \<longleftrightarrow> combiner_ok (combiner0 ss) \<and> combiner_ok (combiner1 ss) \<and>
     cycle_ok (st_flags ss) \<and> unat (st_dither ss) < 16"

definition blend_modes_ok :: "blend_modes \<Rightarrow> bool" where
  "blend_modes_ok b \<longleftrightarrow> unat (blend_1a b) < 4 \<and> unat (blend_1b b) < 4 \<and>
     unat (blend_2a b) < 4 \<and> unat (blend_2b b) < 4"

definition depth_blend_ok :: "depth_blend_state \<Rightarrow> bool" where
  "depth_blend_ok db \<longleftrightarrow> blend_modes_ok (blend_cycle0 db) \<and> blend_modes_ok (blend_cycle1 db) \<and>
     unat (coverage_mode db) < 4 \<and> unat (z_mode db) < 4"

definition tile_ok :: "tile_meta \<Rightarrow> bool" where
  "tile_ok t \<longleftrightarrow> unat (tm_offset t) < 4096 \<and> 8 dvd unat (tm_offset t) \<and>
     unat (tm_stride t) < 4096 \<and> 8 dvd unat (tm_stride t) \<and>
     unat (tm_fmt t) < 8 \<and> unat (tm_palette t) < 16 \<and>
     unat (tm_mask_s t) \<le> 10 \<and> unat (tm_mask_t t) \<le> 10 \<and>
     unat (tm_shift_s t) < 16 \<and> unat (tm_shift_t t) < 16 \<and>
     (tm_mask_s t = 0 \<longrightarrow> flag_set (tm_flags t) TILE_INFO_CLAMP_S_BIT) \<and>
     (tm_mask_t t = 0 \<longrightarrow> flag_set (tm_flags t) TILE_INFO_CLAMP_T_BIT)"

definition load_ok :: "load_tile_info \<Rightarrow> bool" where
  "load_ok i \<longleftrightarrow> unat (li_tex_addr i) < 2 ^ 24 \<and> unat (li_tex_width i) \<le> 1024 \<and>
     unat (li_slo i) < 4096 \<and> unat (li_tlo i) < 4096 \<and> unat (li_shi i) < 4096 \<and> unat (li_thi i) < 4096 \<and>
     unat (li_fmt i) < 8"

definition cp_inv :: "command_processor \<Rightarrow> bool" where
  "cp_inv st \<longleftrightarrow> scissor_ok (cp_scissor st) \<and> static_ok (cp_static st) \<and>
     depth_blend_ok (cp_depth_blend st) \<and> unat (ti_addr (cp_texture_image st)) < 2 ^ 24 \<and>
     unat (ti_width (cp_texture_image st)) \<le> 1024 \<and> unat (ti_fmt (cp_texture_image st)) < 8"

text \<open>
  What the renderer may rely on. Tile and component indices address fixed arrays of eight
  and three elements.
\<close>

fun call_ok :: "render_call \<Rightarrow> bool" where
  "call_ok (Set_Tile t info) \<longleftrightarrow> unat t < 8 \<and> tile_ok info"
| "call_ok (Set_Tile_Size t slo shi tlo thi) \<longleftrightarrow>
     unat t < 8 \<and> unat slo < 4096 \<and> unat shi < 4096 \<and> unat tlo < 4096 \<and> unat thi < 4096"
| "call_ok (Load_Tile t info) \<longleftrightarrow> unat t < 8 \<and> load_ok info"
| "call_ok (Set_Color_Framebuffer addr w fmt) \<longleftrightarrow> unat addr < 2 ^ 24 \<and> 1 \<le> unat w \<and> unat w \<le> 1024"
| "call_ok (Set_Depth_Framebuffer addr) \<longleftrightarrow> unat addr < 2 ^ 24"
| "call_ok (Set_Scissor_State sc) \<longleftrightarrow> scissor_ok sc"
| "call_ok (Set_Static_Rasterization_State ss) \<longleftrightarrow> static_ok ss"
| "call_ok (Set_Depth_Blend_State db) \<longleftrightarrow> depth_blend_ok db"
| "call_ok (Set_Primitive_Color min_level frac c) \<longleftrightarrow> unat min_level < 32"
| "call_ok (Set_Convert k0 k1 k2 k3 k4 k5) \<longleftrightarrow> unat k0 < 512 \<and> unat k1 < 512 \<and> unat k2 < 512 \<and>
     unat k3 < 512 \<and> unat k4 < 512 \<and> unat k5 < 512"
| "call_ok (Set_Color_Key i w c s) \<longleftrightarrow> unat i < 3 \<and> unat w < 4096 \<and> unat c < 256 \<and> unat s < 256"
| "call_ok (Draw_Flat_Primitive setup cls) \<longleftrightarrow> unat (ts_tile setup) < 64"
| "call_ok (Draw_Shaded_Primitive setup attr cls) \<longleftrightarrow> unat (ts_tile setup) < 64"
| "call_ok _ \<longleftrightarrow> True"

text \<open>The calls the timeline and the idle timeout cause; no command of the emulated program makes them.\<close>

fun meta_call :: "render_call \<Rightarrow> bool" where
  "meta_call (Push_Timeline v) \<longleftrightarrow> True"
| "meta_call Notify_Idle_Command_Thread \<longleftrightarrow> True"
| "meta_call _ \<longleftrightarrow> False"

definition guest_call :: "render_call \<Rightarrow> bool" where
  "guest_call c \<longleftrightarrow> call_ok c \<and> \<not> meta_call c"

lemma cp_inv_initial: "cp_inv initial_command_processor"
  by (simp add: cp_inv_def initial_command_processor_def scissor_ok_def zero_scissor_state_def
      static_ok_def zero_static_state_def combiner_ok_def zero_combiner_inputs_def cycle_ok_def
      depth_blend_ok_def zero_depth_blend_state_def blend_modes_ok_def Let_def)

text \<open>The states the renderer was told last.\<close>

type_synonym renderer_view = "scissor_state \<times> static_state \<times> depth_blend_state"

fun view_step :: "renderer_view \<Rightarrow> render_call \<Rightarrow> renderer_view" where
  "view_step (sc, ss, db) (Set_Scissor_State sc') = (sc', ss, db)"
| "view_step (sc, ss, db) (Set_Static_Rasterization_State ss') = (sc, ss', db)"
| "view_step (sc, ss, db) (Set_Depth_Blend_State db') = (sc, ss, db')"
| "view_step v _ = v"

definition cp_view :: "command_processor \<Rightarrow> renderer_view" where
  "cp_view st = (cp_scissor st, cp_static st, cp_depth_blend st)"

text \<open>
  A handler that is safe for commands of \<open>n\<close> doublewords: it stays inside the command,
  keeps the invariant, makes well-formed calls only, tells the renderer every change of the
  state the two share, and leaves the quirks alone.
\<close>

definition op_safe :: "command_func \<Rightarrow> nat \<Rightarrow> bool" where
  "op_safe f n \<longleftrightarrow> (\<forall>st ws. cp_inv st \<longrightarrow> 2 * n \<le> length ws \<longrightarrow>
     (case f st ws of
        None \<Rightarrow> False
      | Some (st', calls) \<Rightarrow> cp_inv st' \<and> list_all guest_call calls \<and>
          foldl view_step (cp_view st) calls = cp_view st' \<and> cp_quirks st' = cp_quirks st))"

lemma op_safeI:
  assumes "\<And>st ws. cp_inv st \<Longrightarrow> 2 * n \<le> length ws \<Longrightarrow>
     \<exists>st' calls. f st ws = Some (st', calls) \<and> cp_inv st' \<and> list_all guest_call calls \<and>
        foldl view_step (cp_view st) calls = cp_view st' \<and> cp_quirks st' = cp_quirks st"
  shows "op_safe f n"
  unfolding op_safe_def using assms by (fastforce split: option.splits)

lemma op_safeD:
  assumes "op_safe f n" "cp_inv st" "2 * n \<le> length ws"
  shows "\<exists>st' calls. f st ws = Some (st', calls) \<and> cp_inv st' \<and> list_all guest_call calls \<and>
    foldl view_step (cp_view st) calls = cp_view st' \<and> cp_quirks st' = cp_quirks st"
  using assms by (cases "f st ws") (fastforce simp: op_safe_def)+

section \<open>Every handler is safe\<close>

lemma rd_first [simp]: "Suc 0 \<le> length xs \<Longrightarrow> rd xs 0 = Some (xs ! 0)"
  by (auto simp: rd_def)

named_theorems op_safe_facts \<open>safety of the handlers\<close>

lemma tile_of_zero_setup [simp]: "unat (ts_tile zero_triangle_setup) < 64"
  by (simp add: zero_triangle_setup_def)

lemma triangle_tile: "unat (ts_tile (decode_triangle_setup_words s ws c l)) < 64"
  by (simp add: decode_triangle_setup_words_def Let_def unat_ucast_and_less)

lemma decode_triangle_setup_Some:
  "16 \<le> 2 * n \<Longrightarrow> 2 * n \<le> length ws \<Longrightarrow>
     \<exists>setup. decode_triangle_setup st ws = Some setup \<and> unat (ts_tile setup) < 64"
  by (simp add: decode_triangle_setup_def triangle_tile)

lemmas triangle_op_defs =
  op_fill_triangle_def op_shade_triangle_def op_shade_z_buffer_triangle_def
  op_shade_texture_z_buffer_triangle_def op_fill_z_buffer_triangle_def op_texture_triangle_def
  op_texture_z_buffer_triangle_def op_shade_texture_triangle_def

lemma triangles_safe [op_safe_facts]:
  "op_safe op_fill_triangle 4" "op_safe op_fill_z_buffer_triangle 6"
  "op_safe op_texture_triangle 12" "op_safe op_texture_z_buffer_triangle 14"
  "op_safe op_shade_triangle 12" "op_safe op_shade_z_buffer_triangle 14"
  "op_safe op_shade_texture_triangle 20" "op_safe op_shade_texture_z_buffer_triangle 22"
  by (rule op_safeI; simp add: guest_call_def triangle_op_defs decode_triangle_setup_def triangle_tile)+

lemma rectangle_tiles:
  "unat (ts_tile (build_fill_rectangle_setup r)) < 64"
  "unat (ts_tile (fst (build_texture_rectangle_policy i))) < 64"
  by (simp_all add: build_fill_rectangle_setup_def build_texture_rectangle_policy_def Let_def
      unat_ucast_and_less)

lemma rectangles_safe [op_safe_facts]:
  "op_safe op_fill_rectangle 1" "op_safe op_texture_rectangle 2" "op_safe op_texture_rectangle_flip 2"
  by (rule op_safeI; simp add: guest_call_def op_fill_rectangle_def op_texture_rectangle_def
      op_texture_rectangle_flip_def texture_rectangle_command_def rectangle_tiles Let_def split_beta)+

lemma syncs_safe [op_safe_facts]:
  "op_safe op_sync_load 1" "op_safe op_sync_pipe 1" "op_safe op_sync_tile 1" "op_safe op_sync_full 1"
  by (rule op_safeI; simp add: guest_call_def op_sync_load_def op_sync_pipe_def op_sync_tile_def op_sync_full_def)+

lemma colors_safe [op_safe_facts]:
  "op_safe op_set_blend_color 1" "op_safe op_set_env_color 1" "op_safe op_set_fog_color 1"
  "op_safe op_set_fill_color 1" "op_safe op_set_prim_color 1" "op_safe op_set_prim_depth 1"
  "op_safe op_set_key_gb 1" "op_safe op_set_key_r 1" "op_safe op_set_convert 1"
  by (rule op_safeI; simp add: guest_call_def op_set_blend_color_def op_set_env_color_def op_set_fog_color_def
      op_set_fill_color_def op_set_prim_color_def op_set_prim_depth_def op_set_key_gb_def
      op_set_key_r_def op_set_convert_def Let_def unat_and_less unat_ucast_and_less)+

lemma fb_format_total: "\<exists>f. fb_format_of fmt (field w s 3) = Some f"
proof -
  have "unat (field w s 3) < 4" by (rule unat_field_less) simp
  then show ?thesis
    by (intro word_small_cases [of 4 "\<lambda>v. \<exists>f. fb_format_of fmt v = Some f"])
      (simp_all add: fb_format_of_def upt_rec)
qed

lemma images_safe [op_safe_facts]:
  "op_safe op_set_color_image 1" "op_safe op_set_mask_image 1" "op_safe op_set_texture_image 1"
proof -
  show "op_safe op_set_color_image 1"
  proof (rule op_safeI)
    fix st and ws :: "u32 list"
    assume "cp_inv st" "2 * 1 \<le> length ws"
    moreover obtain f where "fb_format_of (field (ws ! 0) 21 7) (field (ws ! 0) 19 3) = Some f"
      using fb_format_total by blast
    ultimately show "\<exists>st' calls. op_set_color_image st ws = Some (st', calls) \<and> cp_inv st' \<and>
        list_all guest_call calls \<and> foldl view_step (cp_view st) calls = cp_view st' \<and>
        cp_quirks st' = cp_quirks st"
      by (simp add: guest_call_def op_set_color_image_def unat_and_succ unat_and_less)
  qed
  show "op_safe op_set_mask_image 1"
    by (rule op_safeI) (simp add: guest_call_def op_set_mask_image_def unat_and_less)
  show "op_safe op_set_texture_image 1"
    by (rule op_safeI) (simp add: guest_call_def op_set_texture_image_def cp_inv_def unat_and_less
        unat_ucast_and_less unat_and_succ cp_view_def)
qed

lemma unat_shl3_511: "unat (shl (w AND 511 :: u32) 3) < 4096" "8 dvd unat (shl (w AND 511 :: u32) 3)"
proof -
  have "unat (w AND 511) < 512" by (rule unat_and_less) simp
  then have "unat (shl (w AND 511) 3) = 8 * unat (w AND 511)"
    by (simp add: push_bit_eq_mult unat_word_ariths mult.commute)
  with \<open>unat (w AND 511) < 512\<close> show "unat (shl (w AND 511 :: u32) 3) < 4096"
    "8 dvd unat (shl (w AND 511 :: u32) 3)" by simp_all
qed

lemma clamp_mask_ok:
  assumes "clamp_mask m flags c = (m', flags')"
  shows "unat m' \<le> 10" "m' = 0 \<Longrightarrow> c \<noteq> 0 \<Longrightarrow> flag_set flags' c" "flag_set flags b \<Longrightarrow> flag_set flags' b"
proof -
  have c: "c \<noteq> 0 \<Longrightarrow> flag_set c c" by (simp add: flag_set_def)
  show "unat m' \<le> 10" using assms by (auto simp: clamp_mask_def word_less_nat_alt split: if_splits)
  show "m' = 0 \<Longrightarrow> c \<noteq> 0 \<Longrightarrow> flag_set flags' c" "flag_set flags b \<Longrightarrow> flag_set flags' b"
    using assms c by (auto simp: clamp_mask_def flag_set_or_left split: if_splits)
qed

lemma tile_info_ok: "tile_ok (tile_info_of w0 w1)"
proof -
  define f0 where "f0 =
    or_flag (or_flag (or_flag (or_flag 0 (flag_set w1 (push_bit 8 1)) TILE_INFO_MIRROR_S_BIT)
       (flag_set w1 (push_bit 9 1)) TILE_INFO_CLAMP_S_BIT)
       (flag_set w1 (push_bit 18 1)) TILE_INFO_MIRROR_T_BIT)
       (flag_set w1 (push_bit 19 1)) TILE_INFO_CLAMP_T_BIT"
  obtain ms f1 where s: "clamp_mask (ucast (field w1 4 15)) f0 TILE_INFO_CLAMP_S_BIT = (ms, f1)" by force
  obtain mt f2 where t: "clamp_mask (ucast (field w1 14 15)) f1 TILE_INFO_CLAMP_T_BIT = (mt, f2)" by force
  have nz: "TILE_INFO_CLAMP_S_BIT \<noteq> 0" "TILE_INFO_CLAMP_T_BIT \<noteq> 0"
    by (simp_all add: TILE_INFO_CLAMP_S_BIT_def TILE_INFO_CLAMP_T_BIT_def)
  have "tile_info_of w0 w1 =
    \<lparr>tm_offset = shl (field w0 0 511) 3, tm_stride = shl (field w0 9 511) 3,
     tm_fmt = ucast (field w0 21 7), tm_size = texture_size_of (field w0 19 3),
     tm_palette = ucast (field w1 20 15), tm_mask_s = ms, tm_shift_s = ucast (field w1 0 15),
     tm_mask_t = mt, tm_shift_t = ucast (field w1 10 15), tm_flags = f2\<rparr>"
    by (simp only: tile_info_of_def Let_def f0_def [symmetric] s t prod.case)
  then show ?thesis
    using clamp_mask_ok [OF s] clamp_mask_ok [OF t] nz unat_shl3_511 [of "shr w0 0"]
      unat_shl3_511 [of "shr w0 9"]
    by (simp add: tile_ok_def unat_ucast_and_less)
qed

lemma tiles_safe [op_safe_facts]:
  "op_safe op_set_tile 1" "op_safe op_set_tile_size 1"
  "op_safe op_load_tile 1" "op_safe op_load_tlut 1" "op_safe op_load_block 1"
  by (rule op_safeI; simp add: guest_call_def op_set_tile_def op_set_tile_size_def op_load_tile_def op_load_tlut_def
      op_load_block_def load_tile_command_def load_ok_def tile_info_ok unat_and_less unat_ucast_and_less,
      (simp add: cp_inv_def)?)+

lemma combine_safe [op_safe_facts]: "op_safe op_set_combine 1"
  by (rule op_safeI) (simp add: guest_call_def op_set_combine_def Let_def cp_inv_def static_ok_def combiner_ok_def
      unat_ucast_and_less cp_view_def)

text \<open>Scissor and mode commands: bits of the flag words.\<close>

lemma bit_update_masked_flag:
  "bit (update_masked_flag f b (push_bit k 1)) n = (if n = k then k < 32 \<and> b else bit f n)"
  by (auto simp: update_masked_flag_def Let_def bit_simps dest: bit_imp_le_length)

lemma scissor_flags_cycle:
  "cycle_ok (st_flags (snd (apply_set_scissor_words ss w0 w1))) = cycle_ok (st_flags ss)"
  unfolding cycle_ok_def raster_flag_defs
  by (subst (1 2 3 4 5 6 7 8 9 10 11 12) flag_set_single)
    (simp_all add: apply_set_scissor_words_def Let_def raster_flag_defs bit_simps)

lemma scissor_safe [op_safe_facts]: "op_safe op_set_scissor 1"
proof (rule op_safeI)
  fix st and ws :: "u32 list"
  assume a: "cp_inv st" "2 * 1 \<le> length ws"
  obtain sc ss where r: "apply_set_scissor_words (cp_static st) (ws ! 0) (ws ! 1) = (sc, ss)" by force
  then have "scissor_ok sc" "combiner0 ss = combiner0 (cp_static st)"
    "combiner1 ss = combiner1 (cp_static st)" "st_dither ss = st_dither (cp_static st)"
    by (auto simp: apply_set_scissor_words_def Let_def scissor_ok_def unat_and_less)
  moreover have "cycle_ok (st_flags ss)"
    using scissor_flags_cycle [of "cp_static st" "ws ! 0" "ws ! 1"] r a(1)
    by (simp add: cp_inv_def static_ok_def)
  ultimately show "\<exists>st' calls. op_set_scissor st ws = Some (st', calls) \<and> cp_inv st' \<and>
      list_all guest_call calls \<and> foldl view_step (cp_view st) calls = cp_view st' \<and>
      cp_quirks st' = cp_quirks st"
    using a r by (simp add: guest_call_def op_set_scissor_def cp_inv_def static_ok_def cp_view_def)
qed

text \<open>
  Where each flag comes from: the bit of the 64-bit command (its first word in the upper
  half) that a mode command copies into the flag. The cycle type is a field of two bits and
  sets at most one of three flags.
\<close>

definition raster_flag_source :: "(nat \<times> nat) list" where
  "raster_flag_source =
    [(2, 3), (3, 51), (4, 47), (5, 46), (6, 12), (7, 13), (9, 48), (10, 49), (11, 50),
     (14, 45), (15, 0), (16, 1), (17, 44), (22, 41), (23, 43), (24, 42)]"

definition blend_flag_source :: "(nat \<times> nat) list" where
  "blend_flag_source = [(0, 4), (1, 5), (3, 14), (4, 6), (5, 7), (7, 3)]"

definition command_bit :: "u32 \<Rightarrow> u32 \<Rightarrow> nat \<Rightarrow> bool" where
  "command_bit word0 word1 k = (if k < 32 then bit word1 k else bit word0 (k - 32))"

definition cycle_field :: "u32 \<Rightarrow> nat" where
  "cycle_field word0 = unat (field word0 20 3)"

definition dither_field :: "u32 \<Rightarrow> nat" where
  "dither_field word0 = unat (field word0 6 3)"

definition raster_flag_spec :: "u32 \<Rightarrow> u32 \<Rightarrow> u32 \<Rightarrow> nat \<Rightarrow> bool" where
  "raster_flag_spec old word0 word1 n =
     (case map_of raster_flag_source n of
        Some k \<Rightarrow> command_bit word0 word1 k
      | None \<Rightarrow> if n = 8 then cycle_field word0 = 1
                else if n = 13 then cycle_field word0 = 2
                else if n = 12 then cycle_field word0 = 3
                else bit old n)"

definition blend_flag_spec :: "u32 \<Rightarrow> u32 \<Rightarrow> u32 \<Rightarrow> nat \<Rightarrow> bool" where
  "blend_flag_spec old word0 word1 n =
     (case map_of blend_flag_source n of
        Some k \<Rightarrow> command_bit word0 word1 k
      | None \<Rightarrow> if n = 6 then cycle_field word0 = 1
                else if n = 8 then dither_field word0 \<noteq> 3
                else bit old n)"

lemma bit_or_single: "bit (f OR push_bit k 1 :: u32) n \<longleftrightarrow> n = k \<and> k < 32 \<or> bit f n"
  by (auto simp: bit_simps)

lemma bit_clear_single: "bit (f AND NOT (push_bit k 1) :: u32) n \<longleftrightarrow> n \<noteq> k \<and> bit f n"
  by (auto simp: bit_simps dest: bit_imp_le_length)

lemma bit_clear_three:
  "bit (f AND NOT (push_bit a 1 OR push_bit b 1 OR push_bit c 1) :: u32) n \<longleftrightarrow>
     n \<noteq> a \<and> n \<noteq> b \<and> n \<noteq> c \<and> bit f n"
  by (auto simp: bit_simps dest: bit_imp_le_length)

lemma flag_set_bit: "flag_set (w :: u32) (push_bit k 1) = bit w k"
proof (cases "k < 32")
  case True
  then show ?thesis by (intro flag_set_single) simp
next
  case False
  then have "push_bit k 1 = (0 :: u32)" by (intro bit_eqI) (auto simp: bit_simps)
  with False bit_imp_le_length [of w k] show ?thesis by (simp only: flag_set_zero) auto
qed

lemmas flag_bit_rules =
  flag_set_bit bit_or_single bit_clear_three bit_clear_single bit_update_masked_flag

lemma cycle_type_cases:
  "cycle_type_of (field w 20 3) =
     (if cycle_field w = 0 then Cycle1 else if cycle_field w = 1 then Cycle2
      else if cycle_field w = 2 then Copy else Fill)"
proof -
  have "field w 20 3 AND 3 = field w 20 3" by (simp add: and.assoc)
  then show ?thesis by (simp add: cycle_type_of_def cycle_field_def word_unat_eq_iff)
qed

lemma cycle_field_less: "cycle_field w < 4"
  unfolding cycle_field_def by (rule unat_field_less) simp

lemma raster_flags_spec: "bit (other_modes_raster_flags f w0 w1) n = raster_flag_spec f w0 w1 n"
proof -
  have "cycle_field w0 = 0 \<or> cycle_field w0 = 1 \<or> cycle_field w0 = 2 \<or> cycle_field w0 = 3"
    using cycle_field_less [of w0] by linarith
  moreover have "bit (case c of Cycle2 \<Rightarrow> a | Fill \<Rightarrow> b | Copy \<Rightarrow> d | Cycle1 \<Rightarrow> e) n =
    (case c of Cycle2 \<Rightarrow> bit a n | Fill \<Rightarrow> bit b n | Copy \<Rightarrow> bit d n | Cycle1 \<Rightarrow> bit e n)"
    for a b d e :: u32 and c
    by (cases c) simp_all
  ultimately show ?thesis
    unfolding other_modes_raster_flags_def Let_def raster_flag_defs cycle_type_cases
      raster_flag_spec_def raster_flag_source_def
    by (simp only: flag_bit_rules) (elim disjE; simp add: command_bit_def)
qed

lemma dither_off_iff: "shr (field w 4 0x0f) 2 \<noteq> RGBDitherMode_Off \<longleftrightarrow> dither_field w \<noteq> 3"
proof -
  have "shr (field w 4 0x0f) 2 = field w 6 3" by simp
  then show ?thesis by (simp only: dither_field_def RGBDitherMode_Off_def word_unat_eq_iff) simp
qed

lemma blend_flags_spec:
  "bit (other_modes_blend_flags f (field w0 4 0x0f) w0 w1) n = blend_flag_spec f w0 w1 n"
proof -
  have "cycle_field w0 = 0 \<or> cycle_field w0 = 1 \<or> cycle_field w0 = 2 \<or> cycle_field w0 = 3"
    using cycle_field_less [of w0] by linarith
  moreover have "bit (case c of Cycle2 \<Rightarrow> a | _ \<Rightarrow> b) n = (case c of Cycle2 \<Rightarrow> bit a n | _ \<Rightarrow> bit b n)"
    for a b :: u32 and c
    by (cases c) simp_all
  ultimately show ?thesis
    unfolding other_modes_blend_flags_def Let_def depth_blend_flag_defs cycle_type_cases
      blend_flag_spec_def blend_flag_source_def dither_off_iff
    by (simp only: flag_bit_rules) (elim disjE; simp add: command_bit_def)
qed

lemma other_modes_cycle: "cycle_ok (other_modes_raster_flags f w0 w1)"
  unfolding cycle_ok_def raster_flag_defs flag_set_bit raster_flags_spec
  by (auto simp: raster_flag_spec_def raster_flag_source_def)

lemma other_modes_safe [op_safe_facts]: "op_safe op_set_other_modes 1"
  by (rule op_safeI) (simp add: guest_call_def op_set_other_modes_def apply_set_other_modes_words_def Let_def cp_inv_def
      static_ok_def depth_blend_ok_def blend_modes_ok_def other_modes_cycle cp_view_def
      unat_and_less unat_ucast_and_less)

section \<open>The dispatch\<close>

text \<open>The table of lengths and the table of handlers agree: no handler reads more than its length.\<close>

lemma funcs_safe:
  "list_all2 (\<lambda>f n. case f of None \<Rightarrow> True | Some f \<Rightarrow> op_safe f n) funcs cmd_len_lut"
  by (simp add: funcs_def cmd_len_lut_def op_safe_facts [simplified])

lemma length_funcs [simp]: "length funcs = 64"
  by (simp add: funcs_def)

lemma command_op_of: "unat (command_op w) = command_of w"
  by (simp add: command_op_def command_of_def)

text \<open>
  A complete command of the emulated program; the commands the frontend issues; and the idle
  command of the worker.
\<close>

definition guest_command :: "u32 list \<Rightarrow> bool" where
  "guest_command ws \<longleftrightarrow> complete_command ws \<and> 8 \<le> command_of (ws ! 0)"

definition frontend_command :: "u32 list \<Rightarrow> bool" where
  "frontend_command ws \<longleftrightarrow> ws = flush_command \<or>
     (\<exists>q. ws = set_quirks_command q) \<or> (\<exists>v. ws = signal_timeline_command v)"

definition idle_command :: "u32 list" where
  "idle_command = [shl Op_MetaIdle 24]"

definition issued_command :: "u32 list \<Rightarrow> bool" where
  "issued_command ws \<longleftrightarrow> guest_command ws \<or> frontend_command ws \<or> ws = idle_command"

lemma dispatch_handler:
  assumes "guest_command ws"
  shows "enqueue_command_direct st ws =
    (case funcs ! command_of (ws ! 0) of Some f \<Rightarrow> f st ws | None \<Rightarrow> Some (st, []))"
proof -
  have "rd ws 0 = Some (ws ! 0)" using assms by (cases ws) (auto simp: guest_command_def complete_command_def)
  moreover have "command_op (ws ! 0) \<noteq> k" if "unat k < 8" for k
    using that assms command_op_of [of "ws ! 0"] by (auto simp: guest_command_def)
  ultimately show ?thesis
    by (simp add: enqueue_command_direct_def Let_def meta_op_defs command_op_of split: option.splits)
qed

lemma dispatch_safe:
  assumes "cp_inv st" "guest_command ws"
  shows "\<exists>st' calls. enqueue_command_direct st ws = Some (st', calls) \<and> cp_inv st' \<and>
    list_all guest_call calls \<and> foldl view_step (cp_view st) calls = cp_view st' \<and>
    cp_quirks st' = cp_quirks st"
proof (cases "funcs ! command_of (ws ! 0)")
  case None
  then show ?thesis using assms by (simp add: dispatch_handler)
next
  case (Some f)
  have "op_safe f (cmd_length_of (ws ! 0))"
    using list_all2_nthD [OF funcs_safe, of "command_of (ws ! 0)"] command_of_less [of "ws ! 0"] Some
    by (simp add: cmd_length_of_def)
  moreover have "2 * cmd_length_of (ws ! 0) \<le> length ws"
    using assms(2) by (simp add: guest_command_def complete_command_def)
  ultimately show ?thesis
    using op_safeD [of f "cmd_length_of (ws ! 0)" st ws] assms Some by (simp add: dispatch_handler)
qed

lemma command_op_meta: "unat k < 64 \<Longrightarrow> command_op (shl k 24) = k"
proof -
  assume "unat k < 64"
  then have "k AND mask 6 = k" by (intro and_mask_fixed) simp
  moreover have "shr (shl k 24) 24 AND mask 6 = k AND mask 6"
    by (rule bit_eqI) (auto simp: bit_simps)
  ultimately show ?thesis by (simp add: command_op_def mask_eq_exp_minus_1)
qed

lemma dispatch_meta:
  "enqueue_command_direct st flush_command = Some (st, [Flush_And_Signal])"
  "enqueue_command_direct st idle_command = Some (st, [Notify_Idle_Command_Thread])"
  "enqueue_command_direct st (set_quirks_command q) = Some (st\<lparr>cp_quirks := q\<rparr>, [])"
  "enqueue_command_direct st (signal_timeline_command v) = Some (st, [Flush_And_Signal, Push_Timeline v])"
proof -
  have ops: "command_op (shl Op_MetaFlush 24) = Op_MetaFlush" "command_op (shl Op_MetaIdle 24) = Op_MetaIdle"
    "command_op (shl Op_MetaSetQuirks 24) = Op_MetaSetQuirks"
    "command_op (shl Op_MetaSignalTimeline 24) = Op_MetaSignalTimeline"
    by (rule command_op_meta; simp add: meta_op_defs)+
  have ne: "Op_MetaFlush \<noteq> Op_MetaSignalTimeline" "Op_MetaIdle \<noteq> Op_MetaSignalTimeline"
    "Op_MetaIdle \<noteq> Op_MetaFlush" "Op_MetaSetQuirks \<noteq> Op_MetaSignalTimeline"
    "Op_MetaSetQuirks \<noteq> Op_MetaFlush" "Op_MetaSetQuirks \<noteq> Op_MetaIdle"
    by (simp_all add: meta_op_defs)
  have v: "ucast (ucast v :: u32) OR shl (ucast (ucast (shr v 32) :: u32)) 32 = (v :: u64)"
    by (rule bit_eqI) (auto simp: bit_simps)
  show "enqueue_command_direct st flush_command = Some (st, [Flush_And_Signal])"
    "enqueue_command_direct st idle_command = Some (st, [Notify_Idle_Command_Thread])"
    "enqueue_command_direct st (set_quirks_command q) = Some (st\<lparr>cp_quirks := q\<rparr>, [])"
    "enqueue_command_direct st (signal_timeline_command v) = Some (st, [Flush_And_Signal, Push_Timeline v])"
    by (simp_all add: enqueue_command_direct_def flush_command_def set_quirks_command_def
        signal_timeline_command_def idle_command_def rd_def ops ne v Let_def)
qed

section \<open>The command processor as a machine\<close>

interpretation guest: observed_machine enqueue_command_direct cp_inv guest_command guest_call
  "\<lambda>st. (cp_view st, cp_quirks st)" "\<lambda>(v, q) c. (view_step v c, q)"
proof
  fix s i s' os
  assume "cp_inv s" "guest_command i"
  then show "\<exists>s' os. enqueue_command_direct s i = Some (s', os) \<and> cp_inv s' \<and> list_all guest_call os"
    using dispatch_safe by blast
  have "foldl (\<lambda>(v, q) c. (view_step v c, q)) (v, q) os = (foldl view_step v os, q)" for v and q :: u32
    by (induction os arbitrary: v) simp_all
  moreover assume "enqueue_command_direct s i = Some (s', os)"
  ultimately show "foldl (\<lambda>(v, q) c. (view_step v c, q)) (cp_view s, cp_quirks s) os = (cp_view s', cp_quirks s')"
    using dispatch_safe [OF \<open>cp_inv s\<close> \<open>guest_command i\<close>] by auto
qed

interpretation issued: observed_machine enqueue_command_direct cp_inv issued_command call_ok
  cp_view view_step
proof
  fix s i s' os
  assume a: "cp_inv s" "issued_command i"
  have c: "cp_inv (s\<lparr>cp_quirks := q\<rparr>)" "cp_view (s\<lparr>cp_quirks := q\<rparr>) = cp_view s" for q
    using a(1) by (simp_all add: cp_inv_def cp_view_def)
  have "\<exists>s' os. enqueue_command_direct s i = Some (s', os) \<and> cp_inv s' \<and> list_all call_ok os \<and>
      foldl view_step (cp_view s) os = cp_view s'"
  proof (cases "guest_command i")
    case True
    then show ?thesis
      using dispatch_safe [OF a(1)] by (fastforce simp: guest_call_def list_all_iff)
  next
    case False
    then show ?thesis using a c by (auto simp: issued_command_def frontend_command_def dispatch_meta)
  qed
  then show "\<exists>s' os. enqueue_command_direct s i = Some (s', os) \<and> cp_inv s' \<and> list_all call_ok os"
    "enqueue_command_direct s i = Some (s', os) \<Longrightarrow> foldl view_step (cp_view s) os = cp_view s'"
    by auto
qed

section \<open>Properties\<close>

text \<open>
  C24. Any sequence of complete commands, of the emulated program or issued by the frontend, is
  processed without a read outside a command; the decoding state keeps its invariant, every
  call the renderer receives has its arguments in range, and the scissor, raster and blend
  states the renderer was told last are those of the command processor.
\<close>

theorem commands_processed_safely:
  assumes "list_all issued_command cmds"
  shows "\<exists>cp calls. process_all initial_command_processor cmds = Some (cp, calls) \<and> cp_inv cp \<and>
    list_all call_ok calls \<and> foldl view_step (cp_view initial_command_processor) calls = cp_view cp"
proof -
  obtain cp calls where r: "run_all enqueue_command_direct initial_command_processor cmds = Some (cp, calls)"
      "cp_inv cp" "list_all call_ok calls"
    using issued.run_ok [OF cp_inv_initial assms] by blast
  with issued.run_view [OF cp_inv_initial assms] show ?thesis by (auto simp: process_all_def)
qed

lemma guest_commandI:
  "command_of w = k \<Longrightarrow> 8 \<le> k \<Longrightarrow> length ws + 1 = 2 * cmd_len_lut ! k \<Longrightarrow> guest_command (w # ws)"
  by (simp add: guest_command_def complete_command_def cmd_length_of_def)

lemma guest_command_examples:
  "guest_command [0x2FB00FFF, 0x0F0A4004]" "guest_command [0x3D100001, 0x00001000]"
  "guest_command [0x24000000, 0, 0, 0]"
  by (rule guest_commandI [where k = "0x2F"] guest_commandI [where k = "0x3D"] guest_commandI [where k = "0x24"];
      simp add: command_of_def cmd_len_lut_def)+

theorem commands_processed_safely_witness:
  "\<exists>cp calls. process_all initial_command_processor
      [set_quirks_command 0x100, [0x2FB00FFF, 0x0F0A4004], [0x3D100001, 0x00001000], [0x24000000, 0, 0, 0],
       signal_timeline_command 7] = Some (cp, calls) \<and> cp_inv cp \<and>
    list_all call_ok calls \<and> foldl view_step (cp_view initial_command_processor) calls = cp_view cp"
  by (rule commands_processed_safely) (auto simp: guest_command_examples issued_command_def frontend_command_def)

text \<open>
  The mode command determines every flag it owns: flag by flag, the new raster and blend
  flags are the documented bits of the command, the cycle type sets at most one mode, dithering
  is on unless the field says off, and the flags of other commands are kept.
\<close>

theorem other_modes_flag_bits:
  "bit (st_flags (fst (apply_set_other_modes_words st db w0 w1))) n = raster_flag_spec (st_flags st) w0 w1 n \<and>
   bit (db_flags (fst (snd (apply_set_other_modes_words st db w0 w1)))) n = blend_flag_spec (db_flags db) w0 w1 n \<and>
   snd (snd (apply_set_other_modes_words st db w0 w1)) = bit w1 2"
  unfolding apply_set_other_modes_words_def Let_def fst_conv snd_conv flag_set_bit
  by (simp add: raster_flags_spec blend_flags_spec [simplified])

text \<open>The words of a triangle command that carry a set of attributes.\<close>

definition pack_hi :: "i32 \<Rightarrow> i32 \<Rightarrow> u32" where
  "pack_hi a b = shl (shr a 16) 16 OR shr b 16"

definition pack_lo :: "i32 \<Rightarrow> i32 \<Rightarrow> u32" where
  "pack_lo a b = shl a 16 OR take_bit 16 b"

definition encode_rgba :: "attr_setup \<Rightarrow> u32 list" where
  "encode_rgba a =
    [pack_hi (at_r a) (at_g a), pack_hi (at_b a) (at_a a),
     pack_hi (at_drdx a) (at_dgdx a), pack_hi (at_dbdx a) (at_dadx a),
     pack_lo (at_r a) (at_g a), pack_lo (at_b a) (at_a a),
     pack_lo (at_drdx a) (at_dgdx a), pack_lo (at_dbdx a) (at_dadx a),
     pack_hi (at_drde a) (at_dgde a), pack_hi (at_dbde a) (at_dade a),
     pack_hi (at_drdy a) (at_dgdy a), pack_hi (at_dbdy a) (at_dady a),
     pack_lo (at_drde a) (at_dgde a), pack_lo (at_dbde a) (at_dade a),
     pack_lo (at_drdy a) (at_dgdy a), pack_lo (at_dbdy a) (at_dady a)]"

definition encode_tex :: "attr_setup \<Rightarrow> u32 list" where
  "encode_tex a =
    [pack_hi (at_s a) (at_t a), pack_hi (at_w a) 0,
     pack_hi (at_dsdx a) (at_dtdx a), pack_hi (at_dwdx a) 0,
     pack_lo (at_s a) (at_t a), pack_lo (at_w a) 0,
     pack_lo (at_dsdx a) (at_dtdx a), pack_lo (at_dwdx a) 0,
     pack_hi (at_dsde a) (at_dtde a), pack_hi (at_dwde a) 0,
     pack_hi (at_dsdy a) (at_dtdy a), pack_hi (at_dwdy a) 0,
     pack_lo (at_dsde a) (at_dtde a), pack_lo (at_dwde a) 0,
     pack_lo (at_dsdy a) (at_dtdy a), pack_lo (at_dwdy a) 0]"

definition encode_z :: "attr_setup \<Rightarrow> u32 list" where
  "encode_z a = [at_z a, at_dzdx a, at_dzde a, at_dzdy a]"

lemma half_masks: "(0xffff0000 :: u32) = push_bit 16 (mask 16)" "(0x0000ffff :: u32) = mask 16"
  by (simp_all add: mask_eq_exp_minus_1)

lemma attr_parts:
  "hi_part (pack_hi a b) (pack_lo a b) = a" "lo_part (pack_hi a b) (pack_lo a b) = b"
  "lo_part_unmasked (pack_hi a b) (pack_lo a b) = b"
  unfolding hi_part_def lo_part_def lo_part_unmasked_def pack_hi_def pack_lo_def half_masks
  by (rule bit_eqI; auto simp: bit_simps dest: bit_imp_le_length)+

lemma decode_encode_attr:
  "decode_z_setup (decode_tex_setup (decode_rgba_setup a0 (encode_rgba a)) (encode_tex a)) (encode_z a) = a"
  by (simp add: decode_z_setup_def decode_tex_setup_def decode_rgba_setup_def encode_rgba_def
      encode_tex_def encode_z_def attr_parts)

text \<open>
  C36. A shaded, textured, depth-buffered triangle is drawn with exactly the thirty-two
  attributes its words encode, integer and fractional halves put together, whatever they are.
\<close>

theorem triangle_attributes_roundtrip:
  assumes "length hdr = 8"
  shows "op_shade_texture_z_buffer_triangle st (hdr @ encode_rgba a @ encode_tex a @ encode_z a) =
    Some (st, [Draw_Shaded_Primitive
      (decode_triangle_setup_words zero_triangle_setup hdr
         (flag_set (st_flags (cp_static st)) RASTERIZATION_COPY_BIT) (native_texture_lod (cp_quirks st)))
      a DC_Triangle])"
proof -
  have l: "length (encode_rgba a) = 16" "length (encode_tex a) = 16" "length (encode_z a) = 4"
    by (simp_all add: encode_rgba_def encode_tex_def encode_z_def)
  show ?thesis
    using assms l
    by (simp add: op_shade_texture_z_buffer_triangle_def decode_triangle_setup_def decode_encode_attr)
qed

theorem triangle_attributes_roundtrip_witness:
  "op_shade_texture_z_buffer_triangle initial_command_processor
     (replicate 8 0 @ encode_rgba zero_attr_setup @ encode_tex zero_attr_setup @ encode_z zero_attr_setup) =
   Some (initial_command_processor, [Draw_Shaded_Primitive
      (decode_triangle_setup_words zero_triangle_setup (replicate 8 0)
         (flag_set (st_flags (cp_static initial_command_processor)) RASTERIZATION_COPY_BIT)
         (native_texture_lod (cp_quirks initial_command_processor)))
      zero_attr_setup DC_Triangle])"
  by (rule triangle_attributes_roundtrip) simp

text \<open>
  The edges of a rectangle: the coordinates of the command in quarter pixels, the horizontal
  ones scaled to the fixed-point format of the rasterizer.
\<close>

definition rectangle_exact :: "triangle_setup \<Rightarrow> rectangle_coordinates \<Rightarrow> bool" where
  "rectangle_exact s r \<longleftrightarrow>
     sint (ts_xh s) = 8192 * int (unat (rc_xh r)) \<and> sint (ts_xl s) = 8192 * int (unat (rc_xl r)) \<and>
     ts_xm s = ts_xl s \<and> sint (ts_yh s) = int (unat (rc_yh r)) \<and> sint (ts_yl s) = int (unat (rc_yl r)) \<and>
     ts_ym s = ts_yl s \<and> ts_dxhdy s = 0 \<and> ts_dxmdy s = 0 \<and> ts_dxldy s = 0 \<and>
     flag_set (ts_flags s) TRIANGLE_SETUP_FLIP_BIT"

lemma sint_shl13:
  assumes "unat (w :: u32) < 4096"
  shows "sint (shl w 13) = 8192 * int (unat w)"
proof -
  have u: "unat (shl w 13) = 8192 * unat w"
    using assms by (simp add: push_bit_eq_mult unat_word_ariths mult.commute)
  then have "unat (shl w 13) < 2 ^ 31" using assms by simp
  then show ?thesis using u by (subst sint_small) simp_all
qed

lemma sint_ucast_u16:
  assumes "unat (w :: u32) < 4096"
  shows "sint (ucast w :: u16) = int (unat w)"
proof -
  have "unat (ucast w :: u16) = unat w"
    using assms by (simp add: unsigned_ucast_eq take_bit_nat_eq_self)
  moreover have "uint (ucast w :: u16) = int (unat (ucast w :: u16))" by simp
  ultimately have "uint (ucast w :: u16) = int (unat w)" by (simp only:)
  moreover have "signed_take_bit 15 (int n) = int n" if "n < 4096" for n
    using that by (intro signed_take_bit_int_eq_self) auto
  from this [OF assms] have "signed_take_bit 15 (int (unat w)) = int (unat w)" .
  ultimately show ?thesis by (simp add: sint_uint)
qed

lemma rectangle_coordinates_small:
  assumes "r = apply_copy_fill_y_adjust (decode_rectangle_coordinates w0 w1) flags"
  shows "unat (rc_xl r) < 4096" "unat (rc_xh r) < 4096" "unat (rc_yl r) < 4096" "unat (rc_yh r) < 4096"
proof -
  have "(w AND 0xfff) OR 3 = (w OR 3) AND (0xfff :: u32)" for w
    by (simp add: bit.conj_disj_distrib2)
  then have "unat ((w AND 0xfff) OR 3 :: u32) < 4096" for w
    by (simp only:) (rule unat_and_less, simp)
  then show "unat (rc_xl r) < 4096" "unat (rc_xh r) < 4096" "unat (rc_yl r) < 4096" "unat (rc_yh r) < 4096"
    by (simp_all add: assms apply_copy_fill_y_adjust_def decode_rectangle_coordinates_def unat_and_less)
qed

text \<open>
  The setup of a rectangle command has exactly the edges the command names: no coordinate
  overflows its signed fixed-point field, the edges are vertical, and in copy and fill mode the
  last line is rounded up to a whole pixel.
\<close>

theorem rectangle_edges_exact:
  assumes "r = apply_copy_fill_y_adjust (decode_rectangle_coordinates w0 w1) flags"
    "tr_rect inp = r"
  shows "rectangle_exact (build_fill_rectangle_setup r) r \<and>
    rectangle_exact (fst (build_texture_rectangle_policy inp)) r \<and>
    (flag_set flags RASTERIZATION_COPY_BIT \<or> flag_set flags RASTERIZATION_FILL_BIT \<longrightarrow> unat (rc_yl r) mod 4 = 3)"
proof (intro conjI impI)
  note small = rectangle_coordinates_small [OF assms(1)]
  show "rectangle_exact (build_fill_rectangle_setup r) r"
    using small by (simp add: rectangle_exact_def build_fill_rectangle_setup_def zero_triangle_setup_def
        sint_shl13 sint_ucast_u16 flag_set_def TRIANGLE_SETUP_FLIP_BIT_def
        TRIANGLE_SETUP_DISABLE_UPSCALING_BIT_def)
  have "flag_set (TRIANGLE_SETUP_FLIP_BIT OR f) TRIANGLE_SETUP_FLIP_BIT" for f
    by (simp add: flag_set_or_left) (simp add: flag_set_def TRIANGLE_SETUP_FLIP_BIT_def)
  moreover have "flag_set TRIANGLE_SETUP_FLIP_BIT TRIANGLE_SETUP_FLIP_BIT"
    by (simp add: flag_set_def TRIANGLE_SETUP_FLIP_BIT_def)
  ultimately show "rectangle_exact (fst (build_texture_rectangle_policy inp)) r"
    using small by (simp add: rectangle_exact_def build_texture_rectangle_policy_def Let_def
        zero_triangle_setup_def assms(2) sint_shl13 sint_ucast_u16 flag_set_or_left)
  assume "flag_set flags RASTERIZATION_COPY_BIT \<or> flag_set flags RASTERIZATION_FILL_BIT"
  then have yl: "rc_yl r = (w0 AND 0xfff) OR 3"
    by (simp add: assms(1) apply_copy_fill_y_adjust_def decode_rectangle_coordinates_def flag_set_or)
  have "((w0 AND 0xfff) OR 3) AND mask 2 = (3 :: u32)"
    by (simp add: mask_eq_exp_minus_1 bit.conj_disj_distrib2 and.assoc)
  then show "unat (rc_yl r) mod 4 = 3"
    using and_mask_mod [of "rc_yl r" 2] by (simp add: yl)
qed

theorem rectangle_edges_exact_witness:
  "rectangle_exact (build_fill_rectangle_setup
     (apply_copy_fill_y_adjust (decode_rectangle_coordinates 0x364fc3bc 0) RASTERIZATION_FILL_BIT))
     (apply_copy_fill_y_adjust (decode_rectangle_coordinates 0x364fc3bc 0) RASTERIZATION_FILL_BIT)"
proof -
  let ?r = "apply_copy_fill_y_adjust (decode_rectangle_coordinates 0x364fc3bc 0) RASTERIZATION_FILL_BIT"
  let ?inp = "\<lparr>tr_rect = ?r, tr_word1 = 0, tr_word2 = 0, tr_word3 = 0, tr_raster_flags = 0, tr_flip = False,
    tr_native_resolution_tex_rect = True, tr_native_texture_lod = False\<rparr>"
  show ?thesis using rectangle_edges_exact [of ?r "0x364fc3bc" 0 RASTERIZATION_FILL_BIT ?inp] by simp
qed

end
