(* ===== verification/Command_Pipeline.thy ===== *)
theory Command_Pipeline
  imports Command_Ring Command_Properties
begin

text \<open>
  The path of a command through the frontend, \<open>rdp.cpp\<close>, \<open>command_ring.cpp\<close> and
  \<open>rdp_device.cpp\<close>: the ingest cuts the command lists of the emulated program into
  commands, the ring carries them to the worker thread, the worker hands them to the command
  processor. The theorems put the contracts of the three components together.
\<close>

section \<open>The ingest as a machine\<close>

fun ingest_step :: "ingest_hooks \<Rightarrow> ingest_state \<Rightarrow> ingest_input \<Rightarrow> (ingest_state \<times> ingest_event list) option" where
  "ingest_step hooks st (dram, sp_dmem, regs) =
     map_option (\<lambda>(st', regs', evs). (st', evs)) (process_command_ingest hooks dram sp_dmem st regs)"

fun input_ok :: "ingest_input \<Rightarrow> bool" where
  "input_ok (dram, sp_dmem, regs) = ingest_mem_ok dram sp_dmem regs"

fun event_ok :: "ingest_event \<Rightarrow> bool" where
  "event_ok (Enqueue_Command ws) = guest_command ws"
| "event_ok _ = True"

lemma command_events_ok: "complete_command ws \<Longrightarrow> list_all event_ok (command_events hooks ws)"
  by (auto simp: command_events_def sync_full_events_def Let_def guest_command_def)

lemma events_ok:
  "list_all complete_command cs \<Longrightarrow> list_all event_ok (concat (map (command_events hooks) cs))"
  by (induction cs) (simp_all add: command_events_ok)

interpretation ingest: step_machine "ingest_step hooks" ingest_inv input_ok event_ok for hooks
proof
  fix st i
  assume a: "ingest_inv st" "input_ok i"
  obtain dram sp_dmem regs where i: "i = (dram, sp_dmem, regs)" by (cases i)
  show "\<exists>st' evs. ingest_step hooks st i = Some (st', evs) \<and> ingest_inv st' \<and> list_all event_ok evs"
  proof (cases "ingest_accepts st regs")
    case False
    then show ?thesis using a ingest_rejected [OF a(1) False] by (simp add: i)
  next
    case True
    obtain cs rest where s: "split_commands (pending st @ ingest_words dram sp_dmem regs) = (cs, rest)" by force
    then have "list_all complete_command cs"
      using split_commands_complete [of "pending st @ ingest_words dram sp_dmem regs"] by simp
    then show ?thesis
      using ingest_accepted [OF a(1) True _ s, of hooks] a(2) events_ok by (fastforce simp: i)
  qed
qed

section \<open>From the ingest to the processor\<close>

fun enqueued :: "ingest_event list \<Rightarrow> u32 list list" where
  "enqueued [] = []"
| "enqueued (Enqueue_Command ws # evs) = ws # enqueued evs"
| "enqueued (_ # evs) = enqueued evs"

lemma enqueued_ok: "list_all event_ok evs \<Longrightarrow> list_all guest_command (enqueued evs)"
  by (induction evs rule: enqueued.induct) auto

text \<open>
  C22. Whatever the emulated program writes into memory and registers, every command that
  reaches the command processor through the ingest is complete and is processed without a
  read outside it; it cannot issue the internal commands: the timeline is never signalled, no
  idle notification is made and the quirks the user chose are kept.
\<close>

theorem guest_commands_confined:
  assumes "list_all input_ok inputs"
  shows "\<exists>st evs cp calls. run_all (ingest_step hooks) initial_ingest_state inputs = Some (st, evs) \<and>
    process_all initial_command_processor (enqueued evs) = Some (cp, calls) \<and>
    cp_inv cp \<and> list_all guest_call calls \<and> cp_quirks cp = default_quirks"
proof -
  obtain st evs where i: "run_all (ingest_step hooks) initial_ingest_state inputs = Some (st, evs)"
      "list_all event_ok evs"
    using ingest.run_ok [OF ingest_inv_initial assms] by blast
  then have g: "list_all guest_command (enqueued evs)" by (intro enqueued_ok)
  obtain cp calls where p: "run_all enqueue_command_direct initial_command_processor (enqueued evs) = Some (cp, calls)"
      "cp_inv cp" "list_all guest_call calls"
    using guest.run_ok [OF cp_inv_initial g] by blast
  have "foldl (\<lambda>(v, q) c. (view_step v c, q)) (v, q) os = (foldl view_step v os, q)" for v os and q :: u32
    by (induction os arbitrary: v) simp_all
  with guest.run_view [OF cp_inv_initial g p(1)] have "cp_quirks cp = default_quirks"
    by (simp add: initial_command_processor_def)
  with i p show ?thesis by (auto simp: process_all_def)
qed

theorem guest_commands_confined_witness:
  "\<exists>st evs cp calls. run_all (ingest_step witness_hooks) initial_ingest_state
      [([], replicate 1024 0x04000000, witness_regs 0 0x20 1),
       ([], replicate 1024 0x29000000, witness_regs 0x20 0x28 1)] = Some (st, evs) \<and>
    process_all initial_command_processor (enqueued evs) = Some (cp, calls) \<and>
    cp_inv cp \<and> list_all guest_call calls \<and> cp_quirks cp = default_quirks"
  by (rule guest_commands_confined)
    (simp add: ingest_mem_ok_def from_dmem_def witness_regs_def DP_STATUS_XBUS_DMA_def flag_set_def)

section \<open>Through the ring\<close>

text \<open>The worker hands over what it fetched, and the idle command when it times out.\<close>

definition worker_idle_ok :: "ring_sys \<Rightarrow> bool" where
  "worker_idle_ok s \<longleftrightarrow> list_all (\<lambda>(ws, idle). idle \<longrightarrow> ws = meta_idle_words) (exec_log s) \<and>
     (\<forall>ws. wrk s = Running ws True \<longrightarrow> ws = meta_idle_words)"

lemma worker_idle_step: "ring_step s t \<Longrightarrow> worker_idle_ok s \<Longrightarrow> worker_idle_ok t"
  by (erule ring_stepE) (auto simp: worker_idle_ok_def)

lemma worker_idle_reachable: "ring_reachable r s \<Longrightarrow> worker_idle_ok s"
proof (induction rule: ring_reachable.induct)
  case start
  then show ?case by (simp add: worker_idle_ok_def ring_start_def)
next
  case (step s t)
  then show ?case by (blast intro: worker_idle_step)
qed

definition handed_over :: "ring_sys \<Rightarrow> u32 list list" where
  "handed_over s = map fst (exec_log s)"

lemma idle_words: "meta_idle_words = idle_command"
  by (simp add: meta_idle_words_def idle_command_def Op_MetaIdle_def)

text \<open>Leaving out the idle commands leaves out the idle notifications and nothing else.\<close>

definition not_idle :: "render_call \<Rightarrow> bool" where
  "not_idle c \<longleftrightarrow> c \<noteq> Notify_Idle_Command_Thread"

lemma enqueued_no_idle_calls:
  assumes "cp_inv st" "guest_command ws \<or> frontend_command ws" "enqueue_command_direct st ws = Some (st', calls)"
  shows "filter not_idle calls = calls"
  using assms(2)
proof
  assume "guest_command ws"
  then have "list_all guest_call calls" using dispatch_safe [OF assms(1), of ws] assms(3) by auto
  then show ?thesis by (auto simp: filter_id_conv list_all_iff guest_call_def not_idle_def)
next
  assume "frontend_command ws"
  then show ?thesis using assms(3) by (auto simp: frontend_command_def dispatch_meta not_idle_def)
qed

lemma process_without_idle:
  assumes "cp_inv st" "list_all (\<lambda>(ws, idle). if idle then ws = idle_command else guest_command ws \<or> frontend_command ws) log"
  shows "\<exists>cp calls. run_all enqueue_command_direct st (map fst log) = Some (cp, calls) \<and>
    run_all enqueue_command_direct st (map fst (filter (\<lambda>p. \<not> snd p) log)) = Some (cp, filter not_idle calls)"
  using assms
proof (induction log arbitrary: st)
  case (Cons p log)
  obtain ws idle where p: "p = (ws, idle)" by (cases p)
  show ?case
  proof (cases idle)
    case True
    with Cons.IH [OF Cons.prems(1)] Cons.prems(2) show ?thesis
      by (auto simp: p dispatch_meta not_idle_def)
  next
    case False
    then have i: "guest_command ws \<or> frontend_command ws" using Cons.prems by (simp add: p)
    then obtain st1 calls1 where d: "enqueue_command_direct st ws = Some (st1, calls1)" "cp_inv st1"
      using issued.step_ok [OF Cons.prems(1), of ws] by (auto simp: issued_command_def)
    with Cons.IH [of st1] Cons.prems(2) obtain cp calls where
      "run_all enqueue_command_direct st1 (map fst log) = Some (cp, calls)"
      "run_all enqueue_command_direct st1 (map fst (filter (\<lambda>p. \<not> snd p) log)) = Some (cp, filter not_idle calls)"
      by auto
    then show ?thesis
      using d enqueued_no_idle_calls [OF Cons.prems(1) i d(1)] False by (simp add: p)
  qed
qed simp

lemma exec_log_issued:
  assumes "ring_reachable (initialised k) s" "k < 32" "no_overflow s"
    "list_all (\<lambda>ws. guest_command ws \<or> frontend_command ws) (enq_log s)"
  shows "list_all (\<lambda>(ws, idle). if idle then ws = idle_command else guest_command ws \<or> frontend_command ws) (exec_log s)"
proof -
  have "set (executed s) \<subseteq> set (enq_log s)"
    using executed_prefix [OF assms(1-3)] by (rule set_mono_prefix)
  then have "\<And>ws. (ws, False) \<in> set (exec_log s) \<Longrightarrow> ws \<in> set (enq_log s)"
    by (force simp: executed_def)
  moreover have "\<And>ws. (ws, True) \<in> set (exec_log s) \<Longrightarrow> ws = idle_command"
    using worker_idle_reachable [OF assms(1)] by (auto simp: worker_idle_ok_def list_all_iff idle_words)
  ultimately show ?thesis using assms(4) by (fastforce simp: list_all_iff)
qed

text \<open>
  C21. The two modes of \<open>enqueue_command\<close> agree: once the ring is drained, whatever the
  interleaving of producer and worker and however often the worker was idle, the command
  processor is in the state, and has made the calls, of processing the same commands directly,
  idle notifications aside. In every reachable state the worker has processed its commands
  without a read outside them.
\<close>

theorem threaded_equals_direct:
  assumes "ring_reachable (initialised k) s" "k < 32" "no_overflow s"
    "list_all (\<lambda>ws. guest_command ws \<or> frontend_command ws) (enq_log s)"
  shows "\<exists>cp calls. process_all initial_command_processor (handed_over s) = Some (cp, calls) \<and>
    list_all call_ok calls \<and>
    (drained (cr s) \<longrightarrow>
       process_all initial_command_processor (enq_log s) = Some (cp, filter not_idle calls))"
proof -
  note log = exec_log_issued [OF assms]
  obtain cp calls where r: "run_all enqueue_command_direct initial_command_processor (map fst (exec_log s)) = Some (cp, calls)"
      "run_all enqueue_command_direct initial_command_processor (executed s) = Some (cp, filter not_idle calls)"
    using process_without_idle [OF cp_inv_initial log] by (auto simp: executed_def)
  have "list_all issued_command (map fst (exec_log s))"
    using log by (fastforce simp: list_all_iff issued_command_def split: if_splits)
  with r(1) have "list_all call_ok calls" using issued.run_inv(2) [OF cp_inv_initial] by blast
  moreover have "executed s = enq_log s" if "drained (cr s)"
    using drained_executed [OF assms(1-3) that] by simp
  ultimately show ?thesis using r by (auto simp: process_all_def handed_over_def)
qed

lemma enqueue_sync_reachable:
  "ring_reachable (initialised 4)
     ((ring_start (initialised 4))\<lparr>cr := enqueue_command (initialised 4) [0x29000000, 0], enq_log := [[0x29000000, 0]]\<rparr>)"
proof -
  have "ring_step (ring_start (initialised 4))
      ((ring_start (initialised 4))\<lparr>cr := enqueue_command (cr (ring_start (initialised 4))) [0x29000000, 0],
        enq_log := enq_log (ring_start (initialised 4)) @ [[0x29000000, 0]]\<rparr>)"
    by (rule ring_step.enqueue)
       (simp_all add: can_enqueue_def can_enqueue_ring_words_def ring_start_def initialised_def
          ring_init_def fresh_ring_def)
  with ring_reachable.start [of "initialised 4"]
  show ?thesis by (rule ring_reachable.step [THEN back_subst [of "ring_reachable _"]]) (simp add: ring_start_def)
qed

theorem threaded_equals_direct_witness:
  "\<exists>cp calls. process_all initial_command_processor (handed_over
      ((ring_start (initialised 4))\<lparr>cr := enqueue_command (initialised 4) [0x29000000, 0], enq_log := [[0x29000000, 0]]\<rparr>))
      = Some (cp, calls) \<and> list_all call_ok calls"
proof -
  have "guest_command [0x29000000, 0]"
    by (rule guest_commandI [where k = "0x29"]) (simp_all add: command_of_def cmd_len_lut_def)
  then show ?thesis
    using threaded_equals_direct [OF enqueue_sync_reachable]
    by (auto simp: no_overflow_def length_initialised)
qed

end
