(* ===== verification/Bit_Ranges.thy ===== *)
theory Bit_Ranges
  imports RDP_Prelude
begin

text \<open>
  The bit iterators of \<open>util/bitops.hpp\<close> that the page tracking of the renderer is written
  with: \<open>for_each_bit\<close> and \<open>for_each_bit_range\<close>, as the lists of arguments their callback
  receives.
\<close>

section \<open>Counting trailing bits\<close>

definition trailing_zeroes :: "u32 \<Rightarrow> nat" where
  "trailing_zeroes x = length (takeWhile (\<lambda>i. \<not> bit x i) [0..<32])"

definition trailing_ones :: "u32 \<Rightarrow> nat" where
  "trailing_ones x = trailing_zeroes (NOT x)"

lemma trailing_zeroes_le: "trailing_zeroes x \<le> 32"
  using length_takeWhile_le [of "\<lambda>i. \<not> bit x i" "[0..<32]"] by (simp add: trailing_zeroes_def)

lemma trailing_zeroes_below: "i < trailing_zeroes x \<Longrightarrow> \<not> bit x i"
proof -
  assume i: "i < trailing_zeroes x"
  then have "takeWhile (\<lambda>i. \<not> bit x i) [0..<32] ! i \<in> set (takeWhile (\<lambda>i. \<not> bit x i) [0..<32])"
    by (simp add: trailing_zeroes_def)
  moreover have "takeWhile (\<lambda>i. \<not> bit x i) [0..<32] ! i = i"
    using i trailing_zeroes_le [of x] by (subst takeWhile_nth) (simp_all add: trailing_zeroes_def)
  ultimately show ?thesis by (auto dest: set_takeWhileD)
qed

lemma trailing_zeroes_at: "trailing_zeroes x < 32 \<Longrightarrow> bit x (trailing_zeroes x)"
  using nth_length_takeWhile [of "\<lambda>i. \<not> bit x i" "[0..<32]"] by (simp add: trailing_zeroes_def)

lemma trailing_zeroes_less: "x \<noteq> 0 \<Longrightarrow> trailing_zeroes x < 32"
proof (rule ccontr)
  assume "x \<noteq> 0" "\<not> trailing_zeroes x < 32"
  then have "\<not> bit x i" if "i < 32" for i
    using trailing_zeroes_below [of i x] that by simp
  then have "x = 0" by (intro bit_eqI) simp
  with \<open>x \<noteq> 0\<close> show False by simp
qed

lemma trailing_ones_below: "i < trailing_ones x \<Longrightarrow> bit x i"
  using trailing_zeroes_below [of i "NOT x"] trailing_zeroes_le [of "NOT x"]
  by (simp add: trailing_ones_def bit_not_iff)

lemma trailing_ones_at: "trailing_ones x < 32 \<Longrightarrow> \<not> bit x (trailing_ones x)"
  using trailing_zeroes_at [of "NOT x"] by (simp add: trailing_ones_def bit_not_iff)

lemma trailing_ones_le: "trailing_ones x \<le> 32"
  by (simp add: trailing_ones_def trailing_zeroes_le)

section \<open>The iterators\<close>

text \<open>Clearing a set bit makes a word smaller.\<close>

lemma and_not_less:
  assumes "bit x i" "bit m i"
  shows "unat (x AND NOT m) < unat (x :: u32)"
proof -
  have "x AND NOT m \<le> x" by (rule word_and_le2)
  moreover have "x AND NOT m \<noteq> x"
    using assms bit_and_iff [of x "NOT m" i] by (metis bit_not_iff)
  ultimately show ?thesis by (simp add: word_le_nat_alt word_unat_eq_iff)
qed

function for_each_bit :: "u32 \<Rightarrow> nat list" where
  "for_each_bit value =
     (if value = 0 then []
      else let b = trailing_zeroes value in b # for_each_bit (value AND NOT (push_bit b 1)))"
  by pat_completeness auto

termination
proof (relation "measure unat")
  fix v :: u32 and b
  assume "v \<noteq> 0" "b = trailing_zeroes v"
  then show "(v AND NOT (push_bit b 1), v) \<in> measure unat"
    using trailing_zeroes_at [of v] trailing_zeroes_less [of v] and_not_less [of v b "push_bit b 1"]
    by (simp add: bit_simps)
qed simp

declare for_each_bit.simps [simp del]

lemma shifted_bit0: "v \<noteq> 0 \<Longrightarrow> bit (shr v (trailing_zeroes v)) 0"
  using trailing_zeroes_at [of v] trailing_zeroes_less [of v] by (simp add: bit_drop_bit_eq)

lemma trailing_ones_pos: "bit x 0 \<Longrightarrow> 0 < trailing_ones x"
  using trailing_ones_at [of x] by (cases "trailing_ones x") auto

lemma minus_one_mask: "2 ^ n - 1 = (mask n :: u32)"
  by (simp add: mask_eq_exp_minus_1)

function bit_range_loop :: "u32 \<Rightarrow> nat \<Rightarrow> (nat \<times> nat) list" where
  "bit_range_loop value bit_offset =
     (if value = 0 then []
      else let b = trailing_zeroes value;
               bit_offset = bit_offset + b;
               value = shr value b;
               range = trailing_ones value
           in (bit_offset, range) # bit_range_loop (value AND NOT (push_bit range 1 - 1)) bit_offset)"
  by pat_completeness auto

termination
proof (relation "measure (unat \<circ> fst)")
  fix v :: u32 and bit_offset b off w r
  assume a: "v \<noteq> 0" "b = trailing_zeroes v" "off = bit_offset + b" "w = shr v b" "r = trailing_ones w"
  then have "bit w 0" using shifted_bit0 [of v] by simp
  moreover from this have "bit (mask r :: u32) 0"
    using trailing_ones_pos [of w] a(5) by (simp add: bit_mask_iff)
  ultimately have "unat (w AND NOT (mask r)) < unat w" by (rule and_not_less)
  also have "unat w \<le> unat v" by (simp add: a(4) unat_shr)
  finally show "((w AND NOT (push_bit r 1 - 1), off), v, bit_offset) \<in> measure (unat \<circ> fst)"
    by (simp add: minus_one_mask)
qed simp

declare bit_range_loop.simps [simp del]

definition for_each_bit_range :: "u32 \<Rightarrow> (nat \<times> nat) list" where
  "for_each_bit_range value = (if value = NOT 0 then [(0, 32)] else bit_range_loop value 0)"

section \<open>What they enumerate\<close>

definition range_pages :: "(nat \<times> nat) list \<Rightarrow> nat list" where
  "range_pages rs = concat (map (\<lambda>(off, n). [off..<off + n]) rs)"

lemma range_pages_simps [simp]:
  "range_pages [] = []" "range_pages ((off, n) # rs) = [off..<off + n] @ range_pages rs"
  "range_pages (as @ bs) = range_pages as @ range_pages bs"
  by (simp_all add: range_pages_def)

definition set_bits_of :: "u32 \<Rightarrow> nat list" where
  "set_bits_of x = filter (bit x) [0..<32]"

lemma set_bits_of_shift:
  assumes "\<forall>i < k. \<not> bit x i" "k \<le> 32"
  shows "set_bits_of x = map (\<lambda>i. k + i) (set_bits_of (shr x k))"
proof -
  have "set_bits_of x = filter (bit x) [0..<k] @ filter (bit x) [k..<32]"
    using assms(2) upt_add_eq_append [of 0 k "32 - k"] by (simp add: set_bits_of_def)
  also have "filter (bit x) [0..<k] = []" using assms(1) by (simp add: filter_empty_conv)
  also have "[k..<32] = map (\<lambda>i. k + i) [0..<32 - k]"
    using assms(2) map_add_upt [of k "32 - k"] by (simp add: add.commute)
  also have "filter (bit x) (map (\<lambda>i. k + i) [0..<32 - k]) =
      map (\<lambda>i. k + i) (filter (bit (shr x k)) [0..<32 - k])"
    by (simp add: filter_map comp_def bit_drop_bit_eq)
  also have "filter (bit (shr x k)) [0..<32 - k] = set_bits_of (shr x k)"
  proof -
    have "filter (bit (shr x k)) [32 - k..<32] = []"
      using bit_imp_le_length [of x] by (force simp: filter_empty_conv bit_drop_bit_eq)
    moreover have "[0..<32] = [0..<32 - k] @ [32 - k..<32]"
      using upt_add_eq_append [of 0 "32 - k" k] assms(2) by simp
    ultimately show ?thesis by (simp add: set_bits_of_def)
  qed
  finally show ?thesis by simp
qed

lemma set_bits_of_ones:
  "set_bits_of x = [0..<trailing_ones x] @ set_bits_of (x AND NOT (mask (trailing_ones x)))"
proof -
  let ?n = "trailing_ones x"
  have s: "[0..<32] = [0..<?n] @ [?n..<32]"
    using upt_add_eq_append [of 0 ?n "32 - ?n"] trailing_ones_le [of x] by simp
  have "filter (bit x) [0..<?n] = [0..<?n]"
    using trailing_ones_below [of _ x] by (simp add: filter_id_conv)
  moreover have "filter (bit (x AND NOT (mask ?n))) [0..<?n] = []"
    by (simp add: filter_empty_conv bit_simps)
  moreover have "filter (bit (x AND NOT (mask ?n))) [?n..<32] = filter (bit x) [?n..<32]"
    by (rule filter_cong) (auto simp: bit_simps)
  ultimately show ?thesis unfolding set_bits_of_def s filter_append by simp
qed

lemma bit_range_loop_pages: "range_pages (bit_range_loop x off) = map (\<lambda>i. off + i) (set_bits_of x)"
proof (induction x off rule: bit_range_loop.induct)
  case (1 x off)
  show ?case
  proof (cases "x = 0")
    case True
    then show ?thesis by (simp add: bit_range_loop.simps [of 0] set_bits_of_def)
  next
    case False
    let ?b = "trailing_zeroes x"
    let ?y = "shr x ?b"
    let ?r = "trailing_ones ?y"
    have "bit_range_loop x off = (off + ?b, ?r) # bit_range_loop (?y AND NOT (mask ?r)) (off + ?b)"
      using False by (subst bit_range_loop.simps) (simp add: Let_def minus_one_mask)
    then have "range_pages (bit_range_loop x off) =
        [off + ?b..<off + ?b + ?r] @ map (\<lambda>i. off + ?b + i) (set_bits_of (?y AND NOT (mask ?r)))"
      using "1.IH" [OF False refl refl refl refl] by (simp add: minus_one_mask)
    also have "\<dots> = map (\<lambda>i. off + ?b + i) (set_bits_of ?y)"
      using map_add_upt [of "off + ?b" ?r] by (simp add: set_bits_of_ones [of ?y] add.commute)
    also have "\<dots> = map (\<lambda>i. off + i) (set_bits_of x)"
      using set_bits_of_shift [of ?b x] trailing_zeroes_below [of _ x] trailing_zeroes_le [of x]
      by (simp add: comp_def add.assoc)
    finally show ?thesis .
  qed
qed

lemma for_each_bit_range_pages: "range_pages (for_each_bit_range x) = set_bits_of x"
proof (cases "x = NOT 0")
  case True
  then have "set_bits_of x = [0..<32]" by (simp add: set_bits_of_def filter_id_conv)
  with True show ?thesis by (simp add: for_each_bit_range_def)
next
  case False
  then show ?thesis by (simp add: for_each_bit_range_def bit_range_loop_pages)
qed

lemma set_bits_of_first:
  assumes "x \<noteq> 0"
  shows "set_bits_of x = trailing_zeroes x # set_bits_of (x AND NOT (push_bit (trailing_zeroes x) 1))"
proof -
  let ?b = "trailing_zeroes x"
  have b: "?b < 32" "bit x ?b" using assms trailing_zeroes_less trailing_zeroes_at by auto
  have s: "[0..<32] = [0..<?b] @ ?b # [Suc ?b..<32]"
    using upt_add_eq_append [of 0 ?b "32 - ?b"] b by (simp add: upt_conv_Cons)
  have z: "\<not> bit x i" if "i < ?b" for i using trailing_zeroes_below that .
  have "filter (bit x) [0..<?b] = []" using z by (simp add: filter_empty_conv)
  moreover have "filter (bit (x AND NOT (push_bit ?b 1))) [0..<?b] = []"
    using z by (simp add: filter_empty_conv bit_and_iff)
  moreover have "filter (bit (x AND NOT (push_bit ?b 1))) [Suc ?b..<32] = filter (bit x) [Suc ?b..<32]"
    by (rule filter_cong) (auto simp: bit_simps)
  moreover have "\<not> bit (x AND NOT (push_bit ?b 1)) ?b" using b by (simp add: bit_simps)
  ultimately show ?thesis using b unfolding set_bits_of_def s filter_append by simp
qed

lemma for_each_bit_eq: "for_each_bit x = set_bits_of x"
proof (induction x rule: for_each_bit.induct)
  case (1 x)
  then show ?case
    by (cases "x = 0")
      (simp_all add: for_each_bit.simps [of 0] for_each_bit.simps [of x] set_bits_of_first [of x] Let_def,
       simp add: set_bits_of_def)
qed

lemma range_pages_bound:
  "(off, n) \<in> set (for_each_bit_range x) \<Longrightarrow> 0 < n \<Longrightarrow> off + n \<le> 32"
proof -
  assume a: "(off, n) \<in> set (for_each_bit_range x)" "0 < n"
  then have "off + n - 1 \<in> set (range_pages (for_each_bit_range x))"
    by (auto simp: range_pages_def intro!: bexI [of _ "(off, n)"])
  then have "off + n - 1 < 32" by (simp add: for_each_bit_range_pages set_bits_of_def)
  then show ?thesis using a(2) by simp
qed

end
