(* ===== verification/Coherency_Pages.thy ===== *)
theory Coherency_Pages
  imports Bit_Ranges "HOL-Library.Monad_Syntax"
begin

text \<open>
  The page tracking of \<open>rdp_renderer.cpp\<close> for machines on which the GPU cannot see the
  memory of the emulated machine: which pages must be copied to the GPU before it reads them,
  directly or under a mask, which pages the GPU will write, and how many copies back are in
  flight for each page. Pages are numbered by \<open>nat\<close>, addresses and byte counts are 32-bit
  words; \<open>None\<close> is an access outside an array or a failed assertion.
\<close>

section \<open>State\<close>

definition IncoherentPageSize :: nat where "IncoherentPageSize = 1024"
definition NumSyncStates :: nat where "NumSyncStates = 32"

record page_state =
  num_pages :: nat
  page_to_direct_copy :: "u32 list"
  page_to_masked_copy :: "u32 list"
  page_to_pending_readback :: "u32 list"
  pending_writes_for_page :: "u32 list"
  staging_readback_pages :: nat
  staging_readback_index :: nat

definition div_round_up :: "nat \<Rightarrow> nat \<Rightarrow> nat" where
  "div_round_up a b = (a + b - 1) div b"

text \<open>The part of \<open>set_rdram\<close> for memory that is not host coherent.\<close>

definition init_pages :: "nat \<Rightarrow> bool \<Rightarrow> page_state" where
  "init_pages sz host_allocation =
     (let packed_pages = div_round_up sz (IncoherentPageSize * 32);
          n = div_round_up sz IncoherentPageSize
      in \<lparr>num_pages = n,
          page_to_direct_copy = replicate packed_pages 0,
          page_to_masked_copy = replicate packed_pages 0,
          page_to_pending_readback = replicate packed_pages 0,
          pending_writes_for_page = replicate n 0,
          staging_readback_pages =
            (if host_allocation then 0 else div_round_up (sz * NumSyncStates) IncoherentPageSize),
          staging_readback_index = 0\<rparr>)"

text \<open>A bit of a packed bitmap.\<close>

definition test_page :: "u32 list \<Rightarrow> nat \<Rightarrow> bool option" where
  "test_page bm page = do { w \<leftarrow> rd bm (page div 32); Some (flag_set w (push_bit (page AND 31) 1)) }"

definition set_page :: "u32 list \<Rightarrow> nat \<Rightarrow> u32 list option" where
  "set_page bm page = do { w \<leftarrow> rd bm (page div 32); wr bm (page div 32) (w OR push_bit (page AND 31) 1) }"

section \<open>Marking and locking\<close>

definition mark_page :: "page_state \<Rightarrow> nat \<Rightarrow> page_state option" where
  "mark_page st page =
     do { readback \<leftarrow> test_page (page_to_pending_readback st) page;
          writes \<leftarrow> rd (pending_writes_for_page st) page;
          if readback \<or> writes \<noteq> 0
          then do { bm \<leftarrow> set_page (page_to_masked_copy st) page; Some (st\<lparr>page_to_masked_copy := bm\<rparr>) }
          else do { bm \<leftarrow> set_page (page_to_direct_copy st) page; Some (st\<lparr>page_to_direct_copy := bm\<rparr>) } }"

text \<open>\<open>while (page != end_page)\<close>; the page number wraps, so \<open>num_pages\<close> rounds are enough fuel.\<close>

fun mark_loop :: "nat \<Rightarrow> nat \<Rightarrow> nat \<Rightarrow> page_state \<Rightarrow> page_state option" where
  "mark_loop fuel page end_page st =
     (if page = end_page then Some st
      else case fuel of
             0 \<Rightarrow> None
           | Suc fuel \<Rightarrow>
               do { st' \<leftarrow> mark_page st page;
                    mark_loop fuel ((page + 1) AND (num_pages st - 1)) end_page st' })"

declare mark_loop.simps [simp del]

definition start_page :: "u32 \<Rightarrow> nat" where
  "start_page base_addr = unat base_addr div IncoherentPageSize"

definition end_page :: "u32 \<Rightarrow> u32 \<Rightarrow> nat" where
  "end_page base_addr byte_count = unat (base_addr + byte_count - 1) div IncoherentPageSize + 1"

definition mark_pages_for_gpu_read :: "page_state \<Rightarrow> u32 \<Rightarrow> u32 \<Rightarrow> page_state option" where
  "mark_pages_for_gpu_read st base_addr byte_count =
     (if byte_count = 0 then Some st
      else mark_loop (num_pages st) (start_page base_addr AND (num_pages st - 1))
             (end_page base_addr byte_count AND (num_pages st - 1)) st)"

fun lock_loop :: "nat list \<Rightarrow> page_state \<Rightarrow> page_state option" where
  "lock_loop [] st = Some st"
| "lock_loop (page # pages) st =
     do { bm \<leftarrow> set_page (page_to_pending_readback st) (page AND (num_pages st - 1));
          lock_loop pages (st\<lparr>page_to_pending_readback := bm\<rparr>) }"

definition lock_pages_for_gpu_write :: "page_state \<Rightarrow> u32 \<Rightarrow> u32 \<Rightarrow> page_state option" where
  "lock_pages_for_gpu_write st base_addr byte_count =
     (if byte_count = 0 then Some st
      else lock_loop [start_page base_addr..<end_page base_addr byte_count] st)"

section \<open>Copies back to the host\<close>

record coherency_copy =
  cc_src_offset :: nat
  cc_mask_offset :: nat
  cc_dst_offset :: nat
  cc_size :: nat
  cc_counter_base :: nat
  cc_counters :: nat

fun add_pending :: "nat list \<Rightarrow> u32 list \<Rightarrow> u32 list option" where
  "add_pending [] ws = Some ws"
| "add_pending (p # ps) ws = do { c \<leftarrow> rd ws p; ws' \<leftarrow> wr ws p (c + 1); add_pending ps ws' }"

text \<open>The staging buffer is a ring of pages; a block that would straddle its end starts over at 0.\<close>

definition alloc_staging :: "page_state \<Rightarrow> nat \<Rightarrow> nat \<times> page_state" where
  "alloc_staging st n =
     (let dst_page = staging_readback_index st;
          index = (dst_page + n) AND (staging_readback_pages st - 1)
      in if index \<noteq> 0 \<and> index < dst_page then (0, st\<lparr>staging_readback_index := n\<rparr>)
         else (dst_page, st\<lparr>staging_readback_index := index\<rparr>))"

definition readback_range ::
  "bool \<Rightarrow> nat \<Rightarrow> page_state \<Rightarrow> nat \<times> nat \<Rightarrow> (page_state \<times> coherency_copy) option" where
  "readback_range staging rdram_size st r =
     (case r of (index, n) \<Rightarrow>
      do { pend \<leftarrow> add_pending [index..<index + n] (pending_writes_for_page st);
           let st = st\<lparr>pending_writes_for_page := pend\<rparr>;
           let dst = index * IncoherentPageSize;
           if staging then
             (let (src_page, st) = alloc_staging st n;
                  (mask_page, st) = alloc_staging st n
              in Some (st, \<lparr>cc_src_offset = src_page * IncoherentPageSize,
                            cc_mask_offset = mask_page * IncoherentPageSize, cc_dst_offset = dst,
                            cc_size = IncoherentPageSize * n, cc_counter_base = index, cc_counters = n\<rparr>))
           else Some (st, \<lparr>cc_src_offset = dst, cc_mask_offset = dst + rdram_size, cc_dst_offset = dst,
                           cc_size = IncoherentPageSize * n, cc_counter_base = index, cc_counters = n\<rparr>) })"

fun readback_ranges ::
  "bool \<Rightarrow> nat \<Rightarrow> (nat \<times> nat) list \<Rightarrow> page_state \<Rightarrow> (page_state \<times> coherency_copy list) option" where
  "readback_ranges staging rdram_size [] st = Some (st, [])"
| "readback_ranges staging rdram_size (r # rs) st =
     do { (st', c) \<leftarrow> readback_range staging rdram_size st r;
          (st'', cs) \<leftarrow> readback_ranges staging rdram_size rs st';
          Some (st'', c # cs) }"

text \<open>All ranges of a bitmap, word by word.\<close>

definition bitmap_ranges :: "u32 list \<Rightarrow> (nat \<times> nat) list" where
  "bitmap_ranges bm =
     concat (map (\<lambda>i. map (\<lambda>(off, n). (off + 32 * i, n)) (for_each_bit_range (bm ! i))) [0..<length bm])"

definition resolve_coherency_gpu_to_host ::
  "bool \<Rightarrow> nat \<Rightarrow> page_state \<Rightarrow> (page_state \<times> coherency_copy list) option" where
  "resolve_coherency_gpu_to_host staging rdram_size st =
     do { (st', cs) \<leftarrow> readback_ranges staging rdram_size (bitmap_ranges (page_to_pending_readback st)) st;
          Some (st'\<lparr>page_to_pending_readback := map (\<lambda>_. 0) (page_to_pending_readback st)\<rparr>, cs) }"

text \<open>
  The counters of a copy that has been performed: \<open>perform_work\<close> of \<open>rdp_device.cpp\<close>
  asserts that each was positive.
\<close>

fun drop_pending :: "nat list \<Rightarrow> u32 list \<Rightarrow> u32 list option" where
  "drop_pending [] ws = Some ws"
| "drop_pending (p # ps) ws =
     do { c \<leftarrow> rd ws p;
          if c = 0 then None else do { ws' \<leftarrow> wr ws p (c - 1); drop_pending ps ws' } }"

fun release_copies :: "coherency_copy list \<Rightarrow> u32 list \<Rightarrow> u32 list option" where
  "release_copies [] ws = Some ws"
| "release_copies (c # cs) ws =
     do { ws' \<leftarrow> drop_pending [cc_counter_base c..<cc_counter_base c + cc_counters c] ws;
          release_copies cs ws' }"

section \<open>Copies to the GPU\<close>

definition bitmap_pages :: "u32 list \<Rightarrow> nat list" where
  "bitmap_pages bm = concat (map (\<lambda>i. map (\<lambda>b. b + 32 * i) (for_each_bit (bm ! i))) [0..<length bm])"

text \<open>
  \<open>resolve_coherency_host_to_gpu\<close>: the pages copied directly and the pages copied under the
  mask of the bytes the GPU has written. With host-visible GPU memory the direct pages are
  copied at once, range by range; otherwise one loop sorts the pages of both bitmaps, and the
  mask wins.
\<close>

definition resolve_coherency_host_to_gpu :: "bool \<Rightarrow> page_state \<Rightarrow> page_state \<times> nat list \<times> nat list" where
  "resolve_coherency_host_to_gpu host_allocation st =
     (let cleared = st\<lparr>page_to_direct_copy := map (\<lambda>_. 0) (page_to_direct_copy st),
                       page_to_masked_copy := map (\<lambda>_. 0) (page_to_masked_copy st)\<rparr>
      in if host_allocation
         then (cleared, range_pages (bitmap_ranges (page_to_direct_copy st)),
               bitmap_pages (page_to_masked_copy st))
         else let pages = bitmap_pages (map2 (OR) (page_to_masked_copy st) (page_to_direct_copy st));
                  masked = (\<lambda>p. bit (page_to_masked_copy st ! (p div 32)) (p mod 32))
              in (cleared, filter (\<lambda>p. \<not> masked p) pages, filter masked pages))"

end
