(* ===== verification/Coherency_Properties.thy ===== *)
theory Coherency_Properties
  imports Coherency_Pages
begin

text \<open>
  The page tracking as sets of pages: what marking and locking add, what the two resolve
  functions take, and the invariant that ties the counters to the copies in flight. The
  renderer and the timeline worker run concurrently; their steps are the relation
  \<open>coh_step\<close>.
\<close>

section \<open>Bitmaps as sets\<close>

definition page_set :: "u32 list \<Rightarrow> nat set" where
  "page_set bm = {p. p div 32 < length bm \<and> bit (bm ! (p div 32)) (p mod 32)}"

lemma and_31: "p AND 31 = (p :: nat) mod 32"
proof -
  have "(31 :: nat) = mask 5" by (simp add: mask_eq_exp_minus_1)
  then show ?thesis by (simp only: take_bit_eq_mask [symmetric]) (simp add: take_bit_eq_mod)
qed

lemma and_pages: "p AND (2 ^ k - 1) = (p :: nat) mod 2 ^ k"
proof -
  have "p AND (2 ^ k - 1) = p AND mask k" by (simp add: mask_eq_exp_minus_1)
  then show ?thesis by (simp only: take_bit_eq_mask [symmetric] take_bit_eq_mod)
qed

lemma power2_32: "5 \<le> k \<Longrightarrow> (2 :: nat) ^ k = 32 * 2 ^ (k - 5)"
  using power_add [of "2 :: nat" 5 "k - 5"] by simp


lemma set_page_eq:
  assumes "p div 32 < length bm"
  obtains bm' where "set_page bm p = Some bm'" "length bm' = length bm" "page_set bm' = insert p (page_set bm)"
proof
  let ?bm = "bm[p div 32 := bm ! (p div 32) OR push_bit (p mod 32) 1]"
  show "set_page bm p = Some ?bm" "length ?bm = length bm"
    using assms by (simp_all add: set_page_def and_31)
  have q: "q div 32 = p div 32 \<Longrightarrow> q mod 32 = p mod 32 \<Longrightarrow> q = p" for q
    by (metis div_mult_mod_eq)
  have "q \<in> page_set ?bm \<longleftrightarrow> q \<in> insert p (page_set bm)" for q
  proof (cases "q div 32 = p div 32")
    case True
    then have "q \<in> page_set ?bm \<longleftrightarrow> bit (bm ! (p div 32)) (q mod 32) \<or> q mod 32 = p mod 32"
      using assms by (simp add: page_set_def bit_or_iff bit_exp_iff)
    also have "\<dots> \<longleftrightarrow> q \<in> insert p (page_set bm)" using True assms q by (auto simp: page_set_def)
    finally show ?thesis .
  next
    case False
    then show ?thesis by (auto simp: page_set_def)
  qed
  then show "page_set ?bm = insert p (page_set bm)" by blast
qed

lemma bitmap_ranges_pages: "range_pages (bitmap_ranges bm) = bitmap_pages bm"
proof -
  have "range_pages (map (\<lambda>(off, n). (off + k, n)) rs) = map (\<lambda>b. b + k) (range_pages rs)" for k rs
  proof (induction rs)
    case (Cons r rs)
    have "[a + k..<a + b + k] = map (\<lambda>i. i + k) [a..<a + b]" for a b
      by (induction b) simp_all
    with Cons show ?case by (cases r) (simp add: add.commute add.left_commute)
  qed simp
  moreover have "range_pages (concat rss) = concat (map range_pages rss)" for rss
    by (induction rss) simp_all
  ultimately show ?thesis
    by (simp add: bitmap_ranges_def bitmap_pages_def comp_def for_each_bit_range_pages for_each_bit_eq)
qed

lemma set_bitmap_pages: "set (bitmap_pages bm) = page_set bm"
proof -
  have "p \<in> set (bitmap_pages bm) \<longleftrightarrow>
      (\<exists>i < length bm. \<exists>b < 32. bit (bm ! i) b \<and> p = b + 32 * i)" for p
    by (auto simp: bitmap_pages_def for_each_bit_eq set_bits_of_def)
  moreover have "(\<exists>i < length bm. \<exists>b < 32. bit (bm ! i) b \<and> p = b + 32 * i) \<longleftrightarrow> p \<in> page_set bm" for p
  proof
    assume "p \<in> page_set bm"
    then have "p div 32 < length bm" "p mod 32 < 32" "bit (bm ! (p div 32)) (p mod 32)"
      "p = p mod 32 + 32 * (p div 32)" by (auto simp: page_set_def)
    then show "\<exists>i < length bm. \<exists>b < 32. bit (bm ! i) b \<and> p = b + 32 * i" by blast
  qed (auto simp: page_set_def)
  ultimately show ?thesis by blast
qed

lemma page_set_zero [simp]: "page_set (map (\<lambda>_. 0) bm) = {}"
  by (auto simp: page_set_def)

lemma distinct_bitmap_pages: "distinct (bitmap_pages bm)"
proof -
  have "distinct (concat (map (\<lambda>i. map (\<lambda>b. b + 32 * i) (set_bits_of (bm ! i))) [0..<n]))" for n
  proof (induction n)
    case (Suc n)
    have "distinct (map (\<lambda>b. b + 32 * n) (set_bits_of (bm ! n)))"
      by (simp add: distinct_map set_bits_of_def inj_on_def)
    with Suc show ?case by (auto simp: set_bits_of_def)
  qed simp
  then show ?thesis by (simp add: bitmap_pages_def for_each_bit_eq)
qed

section \<open>Well-formed page states\<close>

definition pages_wf :: "page_state \<Rightarrow> bool" where
  "pages_wf st \<longleftrightarrow> (\<exists>k. 5 \<le> k \<and> num_pages st = 2 ^ k) \<and>
     length (page_to_direct_copy st) = num_pages st div 32 \<and>
     length (page_to_masked_copy st) = num_pages st div 32 \<and>
     length (page_to_pending_readback st) = num_pages st div 32 \<and>
     length (pending_writes_for_page st) = num_pages st"

lemma pages_wf_word: "pages_wf st \<Longrightarrow> p < num_pages st \<Longrightarrow> p div 32 < num_pages st div 32"
proof -
  assume "pages_wf st" "p < num_pages st"
  then obtain k where k: "5 \<le> k" "num_pages st = 2 ^ k" by (auto simp: pages_wf_def)
  then have "num_pages st = 2 ^ (k - 5) * 32" using power2_32 [of k] by simp
  with \<open>p < num_pages st\<close> show ?thesis by (simp add: less_mult_imp_div_less)
qed

lemma page_set_less: "pages_wf st \<Longrightarrow> length bm = num_pages st div 32 \<Longrightarrow> p \<in> page_set bm \<Longrightarrow> p < num_pages st"
proof -
  assume "pages_wf st" "length bm = num_pages st div 32" "p \<in> page_set bm"
  moreover obtain k where k: "5 \<le> k" "num_pages st = 2 ^ k" using \<open>pages_wf st\<close> by (auto simp: pages_wf_def)
  ultimately have "p div 32 < 2 ^ k div 32" by (simp add: page_set_def)
  moreover have "(2 :: nat) ^ k = 2 ^ (k - 5) * 32" using k power2_32 [of k] by simp
  ultimately show ?thesis using k by (simp add: div_less_iff_less_mult)
qed

lemma init_pages_wf: "5 \<le> k \<Longrightarrow> pages_wf (init_pages (1024 * 2 ^ k) host)"
proof -
  assume k: "5 \<le> k"
  then have e: "(2 :: nat) ^ k = 32 * 2 ^ (k - 5)" by (rule power2_32)
  have "(1024 * 2 ^ k + 1023) div 1024 = (2 :: nat) ^ k" by simp
  moreover have "(1024 * 2 ^ k + 32767) div 32768 = (2 :: nat) ^ k div 32" unfolding e by simp
  ultimately show ?thesis
    using k by (auto simp: pages_wf_def init_pages_def div_round_up_def IncoherentPageSize_def Let_def)
qed

section \<open>Marking\<close>







text \<open>The pages a byte range touches, memory taken modulo its size.\<close>

definition touched_pages :: "page_state \<Rightarrow> u32 \<Rightarrow> u32 \<Rightarrow> nat set" where
  "touched_pages st base_addr byte_count =
     (\<lambda>a. a div 1024 mod num_pages st) ` {unat base_addr..<unat base_addr + unat byte_count}"

text \<open>The page after the last one touched, when the end of the range does not wrap.\<close>

definition last_page :: "u32 \<Rightarrow> u32 \<Rightarrow> nat" where
  "last_page base_addr byte_count = (unat base_addr + unat byte_count - 1) div 1024 + 1"

lemma touched_pages_eq:
  assumes "0 < unat byte_count"
  shows "touched_pages st base_addr byte_count =
      (\<lambda>q. q mod num_pages st) ` {start_page base_addr..<last_page base_addr byte_count}"
    "start_page base_addr \<le> last_page base_addr byte_count"
proof -
  let ?a = "unat base_addr" and ?c = "unat byte_count"
  have "(\<lambda>a. a div 1024) ` {?a..<?a + ?c} = {?a div 1024..<(?a + ?c - 1) div 1024 + 1}"
  proof (intro set_eqI iffI)
    fix q
    assume q: "q \<in> {?a div 1024..<(?a + ?c - 1) div 1024 + 1}"
    have "max ?a (1024 * q) div 1024 = q" using q by (auto simp: max_def)
    moreover have "max ?a (1024 * q) \<in> {?a..<?a + ?c}" using q assms(1) by auto
    ultimately show "q \<in> (\<lambda>a. a div 1024) ` {?a..<?a + ?c}" by (metis image_eqI)
  qed (auto intro: div_le_mono simp: less_Suc_eq_le)
  then show "touched_pages st base_addr byte_count =
      (\<lambda>q. q mod num_pages st) ` {start_page base_addr..<last_page base_addr byte_count}"
    unfolding touched_pages_def last_page_def start_page_def IncoherentPageSize_def
    by (simp add: image_image [symmetric, of "\<lambda>q. q mod num_pages st" "\<lambda>a. a div 1024"])
  have "?a div 1024 \<le> (?a + ?c - 1) div 1024" using assms by (intro div_le_mono) simp
  then show "start_page base_addr \<le> last_page base_addr byte_count"
    by (simp add: start_page_def last_page_def IncoherentPageSize_def)
qed


lemma end_page_eq:
  assumes "0 < unat byte_count" "unat base_addr + unat byte_count \<le> 2 ^ 32"
  shows "end_page base_addr byte_count = last_page base_addr byte_count"
proof -
  let ?x = "unat base_addr + unat byte_count - 1"
  have "base_addr + byte_count - 1 = of_nat ?x" using assms(1) by (simp add: of_nat_diff)
  then have "unat (base_addr + byte_count - 1) = ?x" using assms unat_of_nat_u32 [of ?x] by simp
  then show ?thesis by (simp add: end_page_def last_page_def IncoherentPageSize_def)
qed


definition locks :: "page_state \<Rightarrow> nat set \<Rightarrow> page_state \<Rightarrow> bool" where
  "locks st V st' \<longleftrightarrow> pages_wf st' \<and>
     st' = st\<lparr>page_to_pending_readback := page_to_pending_readback st'\<rparr> \<and>
     page_set (page_to_pending_readback st') = page_set (page_to_pending_readback st) \<union> V"

lemma lock_loop_locks:
  "pages_wf st \<Longrightarrow>
    \<exists>st'. lock_loop ps st = Some st' \<and> locks st ((\<lambda>q. q mod num_pages st) ` set ps) st'"
proof (induction ps arbitrary: st)
  case Nil
  then show ?case by (simp add: locks_def)
next
  case (Cons p ps)
  obtain k where k: "num_pages st = 2 ^ k" using Cons.prems by (auto simp: pages_wf_def)
  have pn: "p AND (num_pages st - 1) = p mod num_pages st" unfolding k by (rule and_pages)
  have "p mod num_pages st div 32 < length (page_to_pending_readback st)"
    using pages_wf_word [OF Cons.prems, of "p mod num_pages st"] Cons.prems k by (simp add: pages_wf_def)
  then obtain bm where bm: "set_page (page_to_pending_readback st) (p mod num_pages st) = Some bm"
    "length bm = length (page_to_pending_readback st)"
    "page_set bm = insert (p mod num_pages st) (page_set (page_to_pending_readback st))"
    by (rule set_page_eq)
  have "pages_wf (st\<lparr>page_to_pending_readback := bm\<rparr>)" using Cons.prems bm(2) by (simp add: pages_wf_def)
  from Cons.IH [OF this] obtain st' where
    "lock_loop ps (st\<lparr>page_to_pending_readback := bm\<rparr>) = Some st'"
    "locks (st\<lparr>page_to_pending_readback := bm\<rparr>) ((\<lambda>q. q mod num_pages st) ` set ps) st'" by auto
  then show ?case using bm pn by (auto simp: locks_def)
qed

lemma lock_pages_locks:
  assumes "pages_wf st" "0 < unat byte_count" "unat base_addr + unat byte_count \<le> 2 ^ 32"
  shows "\<exists>st'. lock_pages_for_gpu_write st base_addr byte_count = Some st' \<and>
    locks st (touched_pages st base_addr byte_count) st'"
proof -
  have "byte_count \<noteq> 0" using assms(2) by auto
  then show ?thesis
    using lock_loop_locks [OF assms(1), of "[start_page base_addr..<end_page base_addr byte_count]"]
    unfolding touched_pages_eq(1) [OF assms(2)] end_page_eq [OF assms(2,3), symmetric]
    by (simp add: lock_pages_for_gpu_write_def)
qed


section \<open>Counters\<close>

definition copy_pages :: "coherency_copy \<Rightarrow> nat list" where
  "copy_pages c = [cc_counter_base c..<cc_counter_base c + cc_counters c]"

definition copies_pages :: "coherency_copy list \<Rightarrow> nat list" where
  "copies_pages cs = concat (map copy_pages cs)"

lemma copies_pages_simps [simp]:
  "copies_pages [] = []" "copies_pages (c # cs) = copy_pages c @ copies_pages cs"
  by (simp_all add: copies_pages_def)

lemma add_pending_counts:
  assumes "\<forall>p \<in> set ps. p < length ws"
  shows "\<exists>ws'. add_pending ps ws = Some ws' \<and> length ws' = length ws \<and>
    (\<forall>p < length ws. ws' ! p = ws ! p + of_nat (count_list ps p))"
  using assms
proof (induction ps arbitrary: ws)
  case (Cons q ps)
  from Cons.prems Cons.IH [of "ws[q := ws ! q + 1]"] obtain ws' where
    "add_pending ps (ws[q := ws ! q + 1]) = Some ws'" "length ws' = length ws"
    "\<forall>p < length ws. ws' ! p = ws[q := ws ! q + 1] ! p + of_nat (count_list ps p)" by auto
  with Cons.prems show ?case by (auto simp: nth_list_update)
qed simp

lemma drop_pending_append: "drop_pending (ps @ qs) ws = Option.bind (drop_pending ps ws) (drop_pending qs)"
proof (induction ps arbitrary: ws)
  case (Cons p ps)
  then have "drop_pending (ps @ qs) = (\<lambda>ws. Option.bind (drop_pending ps ws) (drop_pending qs))" by blast
  then show ?case by (cases "p < length ws") (simp_all add: rd_def)
qed simp

lemma release_copies_pages: "release_copies cs ws = drop_pending (copies_pages cs) ws"
proof (induction cs arbitrary: ws)
  case (Cons c cs)
  then have "release_copies cs = drop_pending (copies_pages cs)" by blast
  then show ?case by (simp add: drop_pending_append copy_pages_def)
qed simp

text \<open>The counters a range of copies takes are those of its pages; nothing else of the state it needs.\<close>

lemma readback_range_eq:
  assumes "length (pending_writes_for_page st) = n" "\<forall>p \<in> set [i..<i + k]. p < n"
  shows "\<exists>st' c. readback_range staging sz st (i, k) = Some (st', c) \<and> copy_pages c = [i..<i + k] \<and>
    length (pending_writes_for_page st') = n \<and>
    (\<forall>p < n. pending_writes_for_page st' ! p = pending_writes_for_page st ! p + of_nat (count_list [i..<i + k] p)) \<and>
    st' = st\<lparr>pending_writes_for_page := pending_writes_for_page st',
             staging_readback_index := staging_readback_index st'\<rparr>"
proof -
  have "\<forall>p \<in> set [i..<i + k]. p < length (pending_writes_for_page st)" using assms by simp
  from add_pending_counts [OF this] obtain ws where
    "add_pending [i..<i + k] (pending_writes_for_page st) = Some ws" "length ws = n"
    "\<forall>p < n. ws ! p = pending_writes_for_page st ! p + of_nat (count_list [i..<i + k] p)"
    using assms(1) by auto
  then show ?thesis
    by (auto simp: readback_range_def alloc_staging_def copy_pages_def Let_def)
qed

lemma readback_ranges_eq:
  assumes "length (pending_writes_for_page st) = n" "\<forall>p \<in> set (range_pages rs). p < n"
  shows "\<exists>st' cs. readback_ranges staging sz rs st = Some (st', cs) \<and> copies_pages cs = range_pages rs \<and>
    length (pending_writes_for_page st') = n \<and>
    (\<forall>p < n. pending_writes_for_page st' ! p = pending_writes_for_page st ! p + of_nat (count_list (range_pages rs) p)) \<and>
    st' = st\<lparr>pending_writes_for_page := pending_writes_for_page st',
             staging_readback_index := staging_readback_index st'\<rparr>"
  using assms
proof (induction rs arbitrary: st)
  case Nil
  then show ?case by simp
next
  case (Cons r rs)
  obtain i k where r: "r = (i, k)" by (cases r)
  have "\<forall>p \<in> set [i..<i + k]. p < n" using Cons.prems(2) r by simp
  from readback_range_eq [OF Cons.prems(1) this, of staging sz] obtain st1 c where
    c: "readback_range staging sz st (i, k) = Some (st1, c)" "copy_pages c = [i..<i + k]"
    "length (pending_writes_for_page st1) = n"
    "\<forall>p < n. pending_writes_for_page st1 ! p = pending_writes_for_page st ! p + of_nat (count_list [i..<i + k] p)"
    "st1 = st\<lparr>pending_writes_for_page := pending_writes_for_page st1,
             staging_readback_index := staging_readback_index st1\<rparr>" by blast
  from Cons.IH [of st1] Cons.prems c(3) obtain st2 cs where
    cs: "readback_ranges staging sz rs st1 = Some (st2, cs)" "copies_pages cs = range_pages rs"
    "length (pending_writes_for_page st2) = n"
    "\<forall>p < n. pending_writes_for_page st2 ! p = pending_writes_for_page st1 ! p + of_nat (count_list (range_pages rs) p)"
    "st2 = st1\<lparr>pending_writes_for_page := pending_writes_for_page st2,
             staging_readback_index := staging_readback_index st2\<rparr>" by (auto simp: r)
  have "st2 = st\<lparr>pending_writes_for_page := pending_writes_for_page st2,
             staging_readback_index := staging_readback_index st2\<rparr>"
    by (subst cs(5), subst c(5)) simp
  with c(1,2,4) cs(1-4) show ?case by (auto simp: r)
qed


lemma gpu_to_host_eq:
  assumes "pages_wf st"
  shows "\<exists>st' cs. resolve_coherency_gpu_to_host staging sz st = Some (st', cs) \<and> pages_wf st' \<and>
    num_pages st' = num_pages st \<and> page_to_direct_copy st' = page_to_direct_copy st \<and>
    page_to_masked_copy st' = page_to_masked_copy st \<and>
    copies_pages cs = bitmap_pages (page_to_pending_readback st) \<and>
    page_set (page_to_pending_readback st') = {} \<and>
    (\<forall>p < num_pages st. pending_writes_for_page st' ! p =
       pending_writes_for_page st ! p + of_nat (count_list (bitmap_pages (page_to_pending_readback st)) p))"
proof -
  let ?rs = "bitmap_ranges (page_to_pending_readback st)"
  have len: "length (pending_writes_for_page st) = num_pages st" using assms by (simp add: pages_wf_def)
  have "\<forall>p \<in> set (range_pages ?rs). p < num_pages st"
    using page_set_less [OF assms] assms by (auto simp: bitmap_ranges_pages set_bitmap_pages pages_wf_def)
  from readback_ranges_eq [OF len this, of staging sz] obtain st' cs where
    st': "readback_ranges staging sz ?rs st = Some (st', cs)" "copies_pages cs = range_pages ?rs"
    "length (pending_writes_for_page st') = num_pages st"
    "\<forall>p < num_pages st. pending_writes_for_page st' ! p = pending_writes_for_page st ! p + of_nat (count_list (range_pages ?rs) p)"
    "st' = st\<lparr>pending_writes_for_page := pending_writes_for_page st',
             staging_readback_index := staging_readback_index st'\<rparr>" by blast
  have "num_pages st' = num_pages st" "page_to_direct_copy st' = page_to_direct_copy st"
    "page_to_masked_copy st' = page_to_masked_copy st"
    "page_to_pending_readback st' = page_to_pending_readback st" by (subst st'(5), simp)+
  with st'(1-4) assms show ?thesis
    by (simp add: resolve_coherency_gpu_to_host_def bitmap_ranges_pages pages_wf_def)
qed


section \<open>What every operation keeps\<close>

definition same_counters :: "page_state \<Rightarrow> page_state \<Rightarrow> bool" where
  "same_counters st st' \<longleftrightarrow> num_pages st' = num_pages st \<and>
     pending_writes_for_page st' = pending_writes_for_page st \<and> (pages_wf st \<longrightarrow> pages_wf st')"

lemma same_counters_refl [simp]: "same_counters st st"
  by (simp add: same_counters_def)

lemma same_counters_trans: "same_counters st st' \<Longrightarrow> same_counters st' st'' \<Longrightarrow> same_counters st st''"
  by (simp add: same_counters_def)

lemma set_page_length: "set_page bm p = Some bm' \<Longrightarrow> length bm' = length bm"
  by (auto simp: set_page_def bind_eq_Some_conv wr_Some_iff)

lemma mark_page_keeps: "mark_page st p = Some st' \<Longrightarrow> same_counters st st'"
  by (auto simp: mark_page_def bind_eq_Some_conv same_counters_def pages_wf_def
        dest!: set_page_length split: if_splits)

lemma mark_loop_keeps: "mark_loop fuel p e st = Some st' \<Longrightarrow> same_counters st st'"
proof (induction fuel arbitrary: p st)
  case 0
  then show ?case by (simp add: mark_loop.simps [of 0] split: if_splits)
next
  case (Suc fuel)
  show ?case
  proof (cases "p = e")
    case True
    with Suc.prems show ?thesis by (simp add: mark_loop.simps [of "Suc fuel"])
  next
    case False
    then obtain st1 where "mark_page st p = Some st1"
      "mark_loop fuel ((p + 1) AND (num_pages st - 1)) e st1 = Some st'"
      using Suc.prems by (auto simp: mark_loop.simps [of "Suc fuel"] bind_eq_Some_conv)
    then show ?thesis using Suc.IH mark_page_keeps same_counters_trans by metis
  qed
qed

lemma mark_pages_keeps: "mark_pages_for_gpu_read st a n = Some st' \<Longrightarrow> same_counters st st'"
  by (auto simp: mark_pages_for_gpu_read_def mark_loop_keeps split: if_splits)

lemma lock_loop_keeps: "lock_loop ps st = Some st' \<Longrightarrow> same_counters st st'"
proof (induction ps arbitrary: st)
  case (Cons p ps)
  then obtain bm where bm: "set_page (page_to_pending_readback st) (p AND (num_pages st - 1)) = Some bm"
    "lock_loop ps (st\<lparr>page_to_pending_readback := bm\<rparr>) = Some st'" by (auto simp: bind_eq_Some_conv)
  then have "same_counters st (st\<lparr>page_to_pending_readback := bm\<rparr>)"
    by (auto simp: same_counters_def pages_wf_def dest: set_page_length)
  with Cons.IH [OF bm(2)] show ?case by (blast intro: same_counters_trans)
qed simp

lemma lock_pages_keeps: "lock_pages_for_gpu_write st a n = Some st' \<Longrightarrow> same_counters st st'"
  by (auto simp: lock_pages_for_gpu_write_def lock_loop_keeps split: if_splits)

lemma host_to_gpu_keeps: "resolve_coherency_host_to_gpu host st = (st', d, m) \<Longrightarrow> same_counters st st'"
  by (auto simp: resolve_coherency_host_to_gpu_def Let_def same_counters_def pages_wf_def split: if_splits)

section \<open>The renderer and the worker\<close>

text \<open>
  The state the two threads share, with the counters the worker has still to release, in the
  order of the operations it has been given. The renderer marks, locks, uploads and submits;
  the worker releases one counter at a time, as the loop at the end of \<open>perform_work\<close> does,
  so the renderer can run between any two of them.
\<close>

record coh_sys =
  pages :: page_state
  inflight :: "nat list"

inductive coh_step :: "bool \<Rightarrow> nat \<Rightarrow> coh_sys \<Rightarrow> coh_sys \<Rightarrow> bool" for host_allocation sz where
  mark: "mark_pages_for_gpu_read (pages s) a n = Some st \<Longrightarrow>
    coh_step host_allocation sz s (s\<lparr>pages := st\<rparr>)"
| lock: "lock_pages_for_gpu_write (pages s) a n = Some st \<Longrightarrow>
    coh_step host_allocation sz s (s\<lparr>pages := st\<rparr>)"
| upload: "resolve_coherency_host_to_gpu host_allocation (pages s) = (st, direct, masked) \<Longrightarrow>
    coh_step host_allocation sz s (s\<lparr>pages := st\<rparr>)"
| submit: "resolve_coherency_gpu_to_host (\<not> host_allocation) sz (pages s) = Some (st, cs) \<Longrightarrow>
    coh_step host_allocation sz s (s\<lparr>pages := st, inflight := inflight s @ copies_pages cs\<rparr>)"
| release: "inflight s = p # ps \<Longrightarrow> drop_pending [p] (pending_writes_for_page (pages s)) = Some ws \<Longrightarrow>
    coh_step host_allocation sz s (s\<lparr>pages := (pages s)\<lparr>pending_writes_for_page := ws\<rparr>, inflight := ps\<rparr>)"

definition coh_init :: "nat \<Rightarrow> bool \<Rightarrow> coh_sys" where
  "coh_init sz host = \<lparr>pages = init_pages sz host, inflight = []\<rparr>"

definition coh_reachable :: "bool \<Rightarrow> nat \<Rightarrow> coh_sys \<Rightarrow> bool" where
  "coh_reachable host sz s \<longleftrightarrow> (coh_step host sz)\<^sup>*\<^sup>* (coh_init sz host) s"

definition coh_inv :: "coh_sys \<Rightarrow> bool" where
  "coh_inv s \<longleftrightarrow> pages_wf (pages s) \<and> (\<forall>p \<in> set (inflight s). p < num_pages (pages s)) \<and>
     (\<forall>p < num_pages (pages s). pending_writes_for_page (pages s) ! p = of_nat (count_list (inflight s) p))"

lemma coh_inv_same: "coh_inv s \<Longrightarrow> same_counters (pages s) st \<Longrightarrow> coh_inv (s\<lparr>pages := st\<rparr>)"
  by (simp add: coh_inv_def same_counters_def)

lemma coh_inv_step: "coh_step host sz s s' \<Longrightarrow> coh_inv s \<Longrightarrow> coh_inv s'"
proof (induction rule: coh_step.induct)
  case (submit s st cs)
  have wf: "pages_wf (pages s)" using submit.prems by (simp add: coh_inv_def)
  have "\<forall>p \<in> set (bitmap_pages (page_to_pending_readback (pages s))). p < num_pages (pages s)"
    using page_set_less [OF wf] wf by (auto simp: set_bitmap_pages pages_wf_def)
  with submit gpu_to_host_eq [OF wf, of "\<not> host" sz] show ?case
    by (auto simp: coh_inv_def)
next
  case (release s p ps ws)
  then have "pages_wf (pages s)" "p < num_pages (pages s)" by (auto simp: coh_inv_def)
  then have ws: "ws = (pending_writes_for_page (pages s))[p := pending_writes_for_page (pages s) ! p - 1]"
    "p < length (pending_writes_for_page (pages s))"
    using release.hyps(2) by (auto simp: pages_wf_def split: if_splits)
  then show ?case using release.hyps(1) release.prems
    by (auto simp: coh_inv_def pages_wf_def nth_list_update)
qed (auto intro: coh_inv_same dest: mark_pages_keeps lock_pages_keeps host_to_gpu_keeps)

lemma coh_inv_reachable: "coh_reachable host (1024 * 2 ^ k) s \<Longrightarrow> 5 \<le> k \<Longrightarrow> coh_inv s"
proof -
  assume r: "coh_reachable host (1024 * 2 ^ k) s" and k: "5 \<le> k"
  from r have "(coh_step host (1024 * 2 ^ k))\<^sup>*\<^sup>* (coh_init (1024 * 2 ^ k) host) s"
    by (simp add: coh_reachable_def)
  moreover have "coh_inv (coh_init (1024 * 2 ^ k) host)"
    using init_pages_wf [OF k, of host]
    by (auto simp: coh_inv_def coh_init_def init_pages_def Let_def)
  ultimately show ?thesis by (induction rule: rtranclp_induct) (auto intro: coh_inv_step)
qed


lemma coh_reachable_size:
  assumes "coh_reachable host (1024 * 2 ^ k) s" "5 \<le> k"
  shows "num_pages (pages s) = 2 ^ k"
proof -
  have "coh_inv a \<and> num_pages (pages a) = 2 ^ k"
    if "(coh_step host (1024 * 2 ^ k))\<^sup>*\<^sup>* (coh_init (1024 * 2 ^ k) host) a" for a
    using that
  proof (induction rule: rtranclp_induct)
    case base
    have "num_pages (pages (coh_init (1024 * 2 ^ k) host)) = 2 ^ k"
      by (simp add: coh_init_def init_pages_def div_round_up_def IncoherentPageSize_def Let_def)
    then show ?case using coh_inv_reachable [of host k "coh_init (1024 * 2 ^ k) host"] assms(2)
      by (simp add: coh_reachable_def)
  next
    case (step a b)
    have "num_pages (pages b) = num_pages (pages a)"
      using step(2,3) by (auto elim!: coh_step.cases simp: same_counters_def coh_inv_def
          dest!: mark_pages_keeps lock_pages_keeps host_to_gpu_keeps gpu_to_host_eq [of "pages a" "\<not> host" "1024 * 2 ^ k"])
    then show ?case using step by (auto intro: coh_inv_step)
  qed
  then show ?thesis using assms(1) by (simp add: coh_reachable_def)
qed

section \<open>Uploads\<close>



lemma of_nat_u32_0: "n < 2 ^ 32 \<Longrightarrow> (of_nat n :: u32) = 0 \<longleftrightarrow> n = 0"
  using nat_dvd_not_less [of n "2 ^ 32"] by (auto simp: word_of_nat_eq_0_iff)


text \<open>
  C12. Whatever the interleaving of the renderer and the timeline worker, the counter of a page
  is the number of its copies in flight (modulo \<open>2 ^ 32\<close>), and with fewer than \<open>2 ^ 32\<close>
  counters in flight the next release finds a positive counter: the assertion in
  \<open>perform_work\<close> cannot fail.
\<close>

theorem coherency_counters_count_copies:
  assumes "coh_reachable host (1024 * 2 ^ k) s" "5 \<le> k"
  shows "(\<forall>p < 2 ^ k. pending_writes_for_page (pages s) ! p = of_nat (count_list (inflight s) p)) \<and>
    (length (inflight s) < 2 ^ 32 \<longrightarrow> inflight s \<noteq> [] \<longrightarrow>
       drop_pending [hd (inflight s)] (pending_writes_for_page (pages s)) \<noteq> None)"
proof -
  have inv: "coh_inv s" using assms by (rule coh_inv_reachable)
  have n: "num_pages (pages s) = 2 ^ k" using assms by (rule coh_reachable_size)
  have "drop_pending [hd (inflight s)] (pending_writes_for_page (pages s)) \<noteq> None"
    if "length (inflight s) < 2 ^ 32" "inflight s \<noteq> []"
  proof -
    obtain p ps where ps: "inflight s = p # ps" using \<open>inflight s \<noteq> []\<close> by (cases "inflight s") auto
    have p: "p < num_pages (pages s)" "p \<in> set (inflight s)" using inv ps by (auto simp: coh_inv_def)
    have "count_list (inflight s) p < 2 ^ 32" "count_list (inflight s) p \<noteq> 0"
      using count_le_length [of "inflight s" p] that(1) p(2) by (auto simp: count_list_0_iff)
    then have "(of_nat (count_list (inflight s) p) :: u32) \<noteq> 0" by (simp only: of_nat_u32_0) simp
    then have "pending_writes_for_page (pages s) ! p \<noteq> 0" using inv p by (simp add: coh_inv_def)
    then show ?thesis using inv p ps by (simp add: coh_inv_def pages_wf_def)
  qed
  moreover have "\<forall>p < 2 ^ k. pending_writes_for_page (pages s) ! p = of_nat (count_list (inflight s) p)"
    using inv by (simp add: coh_inv_def n)
  ultimately show ?thesis by iprover
qed


lemma count_list_distinct: "distinct xs \<Longrightarrow> count_list xs p = (if p \<in> set xs then 1 else 0)"
  by (induction xs) auto

lemma distinct_singleton_list: "set xs = {a} \<Longrightarrow> distinct xs \<Longrightarrow> xs = [a]"
  by (cases xs) (auto simp: subset_singleton_iff)

lemma locked_and_submitted:
  "\<exists>s. coh_reachable True (1024 * 2 ^ 5) s \<and> inflight s = [0]"
proof -
  let ?s0 = "coh_init (1024 * 2 ^ 5) True"
  let ?st = "pages ?s0"
  have wf: "pages_wf ?st" using init_pages_wf [of 5 True] by (simp add: coh_init_def)
  obtain st where st: "lock_pages_for_gpu_write ?st 0 1 = Some st" "locks ?st (touched_pages ?st 0 1) st"
    using lock_pages_locks [OF wf, of 1 0] by auto
  moreover have "touched_pages ?st 0 1 = {0}" by (simp add: touched_pages_def)
  moreover have "page_set (page_to_pending_readback ?st) = {}"
    by (auto simp: coh_init_def init_pages_def Let_def page_set_def)
  ultimately have one: "page_set (page_to_pending_readback st) = {0}" and "pages_wf st" by (simp_all add: locks_def)
  from gpu_to_host_eq [OF this(2), of False 32768] obtain st' cs where
    cs: "resolve_coherency_gpu_to_host False 32768 st = Some (st', cs)"
    "copies_pages cs = bitmap_pages (page_to_pending_readback st)" by (elim exE conjE)
  have "set (copies_pages cs) = {0}" "distinct (copies_pages cs)"
    using cs(2) one by (simp_all add: set_bitmap_pages distinct_bitmap_pages)
  then have "copies_pages cs = [0]" by (simp add: distinct_singleton_list)
  let ?s1 = "?s0\<lparr>pages := st\<rparr>"
  have a: "coh_step True 32768 ?s0 ?s1" using st(1) by (rule coh_step.lock)
  have b: "coh_step True 32768 ?s1 (?s1\<lparr>pages := st', inflight := inflight ?s1 @ copies_pages cs\<rparr>)"
    using cs(1) by (intro coh_step.submit) simp
  from rtranclp.rtrancl_into_rtrancl [OF r_into_rtranclp [of "coh_step True 32768", OF a] b]
  have "(coh_step True 32768)\<^sup>*\<^sup>* ?s0 (?s1\<lparr>pages := st', inflight := inflight ?s1 @ copies_pages cs\<rparr>)" .
  then show ?thesis using \<open>copies_pages cs = [0]\<close> by (intro exI) (auto simp: coh_reachable_def coh_init_def)
qed

theorem coherency_counters_count_copies_witness:
  "\<exists>s. coh_reachable True (1024 * 2 ^ 5) s \<and> inflight s = [0] \<and>
     pending_writes_for_page (pages s) ! 0 = 1"
proof -
  obtain s where s: "coh_reachable True (1024 * 2 ^ 5) s" "inflight s = [0]" using locked_and_submitted by blast
  have "\<forall>p < 2 ^ 5. pending_writes_for_page (pages s) ! p = of_nat (count_list (inflight s) p)"
    using coherency_counters_count_copies [OF s(1)] by simp
  then have "pending_writes_for_page (pages s) ! 0 = of_nat (count_list (inflight s) 0)" by auto
  with s show ?thesis by auto
qed




text \<open>
  Every page the GPU is given to write is read back: locking a range and resolving after it
  produces copies whose pages are exactly the locked ones, each once, and each counter is
  raised by one for them; afterwards no page is left to be read back.
\<close>

theorem locked_pages_are_read_back:
  assumes "pages_wf st" "0 < unat byte_count" "unat base_addr + unat byte_count \<le> 2 ^ 32"
  shows "\<exists>st' st'' cs. lock_pages_for_gpu_write st base_addr byte_count = Some st' \<and>
    resolve_coherency_gpu_to_host staging sz st' = Some (st'', cs) \<and>
    set (copies_pages cs) = page_set (page_to_pending_readback st) \<union> touched_pages st base_addr byte_count \<and>
    distinct (copies_pages cs) \<and> page_set (page_to_pending_readback st'') = {} \<and>
    (\<forall>p < num_pages st. pending_writes_for_page st'' ! p =
       pending_writes_for_page st ! p + (if p \<in> set (copies_pages cs) then 1 else 0))"
proof -
  obtain st' where st': "lock_pages_for_gpu_write st base_addr byte_count = Some st'"
    "locks st (touched_pages st base_addr byte_count) st'"
    using lock_pages_locks [OF assms] by blast
  then have wf: "pages_wf st'" and same: "num_pages st' = num_pages st"
    "pending_writes_for_page st' = pending_writes_for_page st"
    using lock_pages_keeps [OF st'(1)] assms(1) by (simp_all add: same_counters_def)
  from gpu_to_host_eq [OF wf, of staging sz] obtain st'' cs where
    cs: "resolve_coherency_gpu_to_host staging sz st' = Some (st'', cs)"
    "copies_pages cs = bitmap_pages (page_to_pending_readback st')"
    "page_set (page_to_pending_readback st'') = {}"
    "\<forall>p < num_pages st'. pending_writes_for_page st'' ! p = pending_writes_for_page st' ! p +
       of_nat (count_list (bitmap_pages (page_to_pending_readback st')) p)" by (elim exE conjE)
  have d: "distinct (copies_pages cs)" using cs(2) by (simp add: distinct_bitmap_pages)
  have s: "set (copies_pages cs) = page_set (page_to_pending_readback st) \<union> touched_pages st base_addr byte_count"
    using cs(2) st'(2) by (simp add: set_bitmap_pages locks_def)
  have "count_list (copies_pages cs) p = (if p \<in> set (copies_pages cs) then 1 else 0)" for p
    using d by (rule count_list_distinct)
  with cs(4) same have "\<forall>p < num_pages st. pending_writes_for_page st'' ! p =
       pending_writes_for_page st ! p + (if p \<in> set (copies_pages cs) then 1 else 0)"
    by (simp add: cs(2) [symmetric])
  with st'(1) cs(1,3) d s show ?thesis by blast
qed


theorem locked_pages_are_read_back_witness:
  "\<exists>st' st'' cs. lock_pages_for_gpu_write (init_pages (1024 * 2 ^ 5) True) 0 1 = Some st' \<and>
     resolve_coherency_gpu_to_host False 0 st' = Some (st'', cs) \<and> 0 \<in> set (copies_pages cs)"
proof -
  have "0 \<in> touched_pages (init_pages (1024 * 2 ^ 5) True) 0 1" by (simp add: touched_pages_def)
  with locked_pages_are_read_back [OF init_pages_wf [of 5 True], of 1 0 False 0] show ?thesis
    by fastforce
qed

text \<open>
  The bound on the range is needed: the end of a range that covers all of memory wraps to its
  start, and the loop marks nothing.
\<close>

lemma mark_whole_memory:
  assumes "pages_wf st" "num_pages st = 2 ^ k" "k < 22"
  shows "mark_pages_for_gpu_read st 0 (of_nat (1024 * 2 ^ k)) = Some st"
proof -
  have less: "1024 * 2 ^ k < (2 :: nat) ^ 32"
  proof -
    have "(2 :: nat) ^ k < 2 ^ 22" using assms(3) by (simp only: power_strict_increasing_iff)
    then show ?thesis by simp
  qed
  then have u: "unat (of_nat (1024 * 2 ^ k) :: u32) = 1024 * 2 ^ k" by (rule unat_of_nat_u32)
  have "end_page 0 (of_nat (1024 * 2 ^ k)) = (1024 * 2 ^ k - 1) div 1024 + 1"
    using end_page_eq [of "of_nat (1024 * 2 ^ k)" 0] less unfolding u last_page_def by simp
  also have "\<dots> = 2 ^ k"
  proof -
    obtain m where "(2 :: nat) ^ k = Suc m" by (cases "(2 :: nat) ^ k") auto
    then show ?thesis by (simp del: power_Suc)
  qed
  finally have "end_page 0 (of_nat (1024 * 2 ^ k)) AND (num_pages st - 1) = 0"
    unfolding assms(2) by (simp only: and_pages) simp
  then show ?thesis
    by (simp add: mark_pages_for_gpu_read_def mark_loop.simps start_page_def del: of_nat_mult)
qed

end
