(* ===== verification/Masked_Copy.thy ===== *)
theory Masked_Copy
  imports RDP_Prelude
begin

text \<open>
  \<open>masked_memcpy\<close> of \<open>rdp_device.cpp\<close>, which writes the bytes the GPU has produced back
  into the memory of the emulated machine: the variant for machines with SSE2 and the portable
  one, against a reference. The arrays start at the pointers the function receives; \<open>None\<close>
  is an access behind their ends.
\<close>

section \<open>The two variants\<close>

definition fits :: "nat \<Rightarrow> bytes \<Rightarrow> bytes \<Rightarrow> bytes \<Rightarrow> bool" where
  "fits n dst data mask_src \<longleftrightarrow> n \<le> length dst \<and> n \<le> length data \<and> n \<le> length mask_src"

text \<open>\<open>_mm_maskmoveu_si128\<close> stores the bytes whose mask byte has its top bit set.\<close>

definition maskmove_byte :: "bytes \<Rightarrow> bytes \<Rightarrow> bytes \<Rightarrow> nat \<Rightarrow> bytes" where
  "maskmove_byte data mask_src dst k = (if bit (mask_src ! k) 7 then dst[k := data ! k] else dst)"

definition sse2_block :: "bytes \<Rightarrow> bytes \<Rightarrow> bytes \<Rightarrow> nat \<Rightarrow> bytes" where
  "sse2_block data mask_src dst i = foldl (maskmove_byte data mask_src) dst [16 * i..<16 * i + 16]"

definition masked_memcpy_sse2 :: "bytes \<Rightarrow> bytes \<Rightarrow> bytes \<Rightarrow> nat \<Rightarrow> bytes option" where
  "masked_memcpy_sse2 dst data mask_src sz =
     (let blocks = (sz + 15) div 16 in
      if fits (16 * blocks) dst data mask_src
      then Some (foldl (sse2_block data mask_src) dst [0..<blocks]) else None)"

text \<open>A word is \<open>~0u\<close> if all its bytes are \<open>0xff\<close>, and zero if all are zero.\<close>

definition copy_byte :: "bytes \<Rightarrow> bytes \<Rightarrow> nat \<Rightarrow> bytes" where
  "copy_byte data dst k = dst[k := data ! k]"

definition masked_byte :: "bytes \<Rightarrow> bytes \<Rightarrow> bytes \<Rightarrow> nat \<Rightarrow> bytes" where
  "masked_byte data mask_src dst k = (if mask_src ! k \<noteq> 0 then dst[k := data ! k] else dst)"

definition scalar_word :: "bytes \<Rightarrow> bytes \<Rightarrow> bytes \<Rightarrow> nat \<Rightarrow> bytes" where
  "scalar_word data mask_src dst i =
     (let m = map (\<lambda>k. mask_src ! k) [4 * i..<4 * i + 4] in
      if m = replicate 4 0xff then foldl (copy_byte data) dst [4 * i..<4 * i + 4]
      else if m \<noteq> replicate 4 0 then foldl (masked_byte data mask_src) dst [4 * i..<4 * i + 4]
      else dst)"

definition masked_memcpy_scalar :: "bytes \<Rightarrow> bytes \<Rightarrow> bytes \<Rightarrow> nat \<Rightarrow> bytes option" where
  "masked_memcpy_scalar dst data mask_src sz =
     (let size32 = sz div 4 in
      if fits (4 * size32) dst data mask_src
      then Some (foldl (scalar_word data mask_src) dst [0..<size32]) else None)"

section \<open>Reference\<close>

definition masked_copy :: "bytes \<Rightarrow> bytes \<Rightarrow> bytes \<Rightarrow> nat \<Rightarrow> bytes" where
  "masked_copy dst data mask_src sz =
     map (\<lambda>k. if k < sz \<and> mask_src ! k \<noteq> 0 then data ! k else dst ! k) [0..<length dst]"

lemma length_masked_copy [simp]: "length (masked_copy dst data mask_src sz) = length dst"
  by (simp add: masked_copy_def)

text \<open>A loop of byte steps, each of which decides about its own byte only.\<close>

lemma foldl_bytes:
  assumes "\<And>d k. f d k = (if P k then d[k := data ! k] else d)"
  shows "length (foldl f dst [a..<a + n]) = length dst"
    "k < length dst \<Longrightarrow>
       foldl f dst [a..<a + n] ! k = (if a \<le> k \<and> k < a + n \<and> P k then data ! k else dst ! k)"
proof (induction n)
  case (Suc n)
  { case 1 then show ?case using Suc.IH(1) by (simp add: assms) }
  { case 2 then show ?case using Suc.IH by (auto simp: assms nth_list_update) }
qed auto

text \<open>A loop of chunks that are such loops is one such loop.\<close>

lemma foldl_chunks:
  assumes "\<And>d i. i < n \<Longrightarrow> g d i = foldl f d [c * i..<c * i + c]"
  shows "foldl g dst [0..<n] = foldl f dst [0..<0 + c * n]"
  using assms
proof (induction n)
  case (Suc n)
  have "[0..<c * Suc n] = [0..<c * n] @ [c * n..<c * n + c]"
    using upt_add_eq_append [of 0 "c * n" c] by (simp add: add.commute)
  with Suc show ?case by simp
qed simp

lemma foldl_masked_copy:
  assumes "\<And>d k. f d k = (if P k then d[k := data ! k] else d)"
    "\<And>k. k < n \<Longrightarrow> P k \<longleftrightarrow> mask_src ! k \<noteq> 0"
  shows "foldl f dst [0..<0 + n] = masked_copy dst data mask_src n"
proof (rule nth_equalityI)
  show "length (foldl f dst [0..<0 + n]) = length (masked_copy dst data mask_src n)"
    by (simp only: foldl_bytes(1) [OF assms(1)] length_masked_copy)
  fix k
  assume "k < length (foldl f dst [0..<0 + n])"
  then have k: "k < length dst" by (simp only: foldl_bytes(1) [OF assms(1)])
  then show "foldl f dst [0..<0 + n] ! k = masked_copy dst data mask_src n ! k"
    using assms(2) [of k] by (simp only: foldl_bytes(2) [OF assms(1) k]) (auto simp: masked_copy_def)
qed

lemma scalar_word_bytes:
  "scalar_word data mask_src dst i = foldl (masked_byte data mask_src) dst [4 * i..<4 * i + 4]"
proof -
  let ?ks = "[4 * i..<4 * i + 4]"
  have r: "map (\<lambda>k. mask_src ! k) ?ks = replicate 4 c \<longleftrightarrow> (\<forall>k \<in> set ?ks. mask_src ! k = c)" for c
  proof -
    have "replicate 4 c = map (\<lambda>k. c) ?ks" by (simp only: map_replicate_const) simp
    then show ?thesis by (simp only: map_eq_conv)
  qed
  have "foldl (masked_byte data mask_src) dst ?ks = foldl (copy_byte data) dst ?ks"
    if "\<forall>k \<in> set ?ks. mask_src ! k = 0xff"
    using that by (intro foldl_cong) (simp_all add: masked_byte_def copy_byte_def)
  moreover have "foldl (masked_byte data mask_src) dst ks = dst" if "\<forall>k \<in> set ks. mask_src ! k = 0" for ks
    using that by (induction ks) (simp_all add: masked_byte_def)
  ultimately show ?thesis unfolding scalar_word_def Let_def r by (simp del: set_upt upt_Suc)
qed

text \<open>
  The two variants of the masked copy agree: for the masks the shaders write (every byte
  0 or 255) and sizes of whole blocks, both store exactly the bytes whose mask is set and stay
  inside the arrays.
\<close>

theorem masked_memcpy_variants_agree:
  assumes "16 dvd sz" "fits sz dst data mask_src" "list_all (\<lambda>m. m = 0 \<or> m = 0xff) mask_src"
  shows "masked_memcpy_sse2 dst data mask_src sz = Some (masked_copy dst data mask_src sz) \<and>
    masked_memcpy_scalar dst data mask_src sz = Some (masked_copy dst data mask_src sz)"
proof -
  obtain b where b: "sz = 16 * b" using assms(1) by (elim dvdE)
  have m: "bit (mask_src ! k) 7 \<longleftrightarrow> mask_src ! k \<noteq> 0" if "k < sz" for k
  proof -
    have "mask_src ! k = 0 \<or> mask_src ! k = 0xff"
      using assms(2,3) that by (auto simp: fits_def list_all_length)
    moreover have "bit (0xff :: u8) 7" by (simp add: bit_numeral_rec)
    ultimately show ?thesis by auto
  qed
  have "foldl (sse2_block data mask_src) dst [0..<b] = foldl (maskmove_byte data mask_src) dst [0..<0 + 16 * b]"
    by (rule foldl_chunks) (simp add: sse2_block_def)
  also have "\<dots> = masked_copy dst data mask_src (16 * b)"
    by (rule foldl_masked_copy [OF maskmove_byte_def]) (use m b in simp)
  finally have sse: "foldl (sse2_block data mask_src) dst [0..<b] = masked_copy dst data mask_src sz"
    by (simp add: b)
  have "foldl (scalar_word data mask_src) dst [0..<4 * b] = foldl (masked_byte data mask_src) dst [0..<0 + 4 * (4 * b)]"
    by (rule foldl_chunks) (simp add: scalar_word_bytes)
  also have "\<dots> = masked_copy dst data mask_src (4 * (4 * b))"
    by (rule foldl_masked_copy [OF masked_byte_def]) simp
  finally have "foldl (scalar_word data mask_src) dst [0..<4 * b] = masked_copy dst data mask_src sz"
    by (simp add: b)
  with sse assms(2) show ?thesis
    by (simp add: masked_memcpy_sse2_def masked_memcpy_scalar_def Let_def b)
qed

theorem masked_memcpy_variants_agree_witness:
  "masked_memcpy_sse2 (replicate 16 0) (replicate 16 7) (0xff # replicate 15 0) 16 = Some (7 # replicate 15 0)"
proof -
  have "masked_copy (replicate 16 0) (replicate 16 7) (0xff # replicate 15 0) 16 = 7 # replicate 15 0"
    by code_simp
  then show ?thesis
    using masked_memcpy_variants_agree [of 16 "replicate 16 0" "replicate 16 7" "0xff # replicate 15 0"]
    by (simp add: fits_def list_all_iff)
qed

end
