(* ===== verification/Timeline_Worker.thy ===== *)
theory Timeline_Worker
  imports Command_Pipeline Coherency_Properties Masked_Copy
begin

text \<open>
  The timeline: \<open>signal_timeline\<close> and \<open>wait_for_timeline\<close> of \<open>rdp_device.cpp\<close>, the worker
  of \<open>worker_thread.hpp\<close> with the executor of \<open>rdp_device.cpp\<close>, and the path of a signal
  through the command ring, the command processor and the worker's queue. Three threads take
  part: the frontend, the worker of the command ring and the timeline worker; the GPU signals
  fences at its own pace. The state carries logs of the operations pushed, with the number of
  commands executed before the push, and of the operations the worker has notified.
\<close>

section \<open>Operations\<close>

record coherency_operation =
  co_fence :: "nat option"
  co_timeline_value :: u64
  co_src :: bool
  co_copies :: "coherency_copy list"
  co_unlock_cookie :: bool

definition empty_operation :: coherency_operation where
  "empty_operation = \<lparr>co_fence = None, co_timeline_value = 0, co_src = False, co_copies = [], co_unlock_cookie = False\<rparr>"

definition signal_operation :: "u64 \<Rightarrow> coherency_operation" where
  "signal_operation val = empty_operation\<lparr>co_timeline_value := val\<rparr>"

definition is_sentinel :: "coherency_operation \<Rightarrow> bool" where
  "is_sentinel work \<longleftrightarrow> co_fence work = None \<and> co_timeline_value work = 0"

text \<open>The memory of the host the worker writes, and the counters it shares with the renderer.\<close>

record host_state =
  host_rdram :: bytes
  page_writes :: "u32 list"
  active_submissions :: u32

text \<open>One copy; \<open>src\<close> is the contents of the mapped buffer once the fence has been waited for.\<close>

definition perform_copy :: "bytes \<Rightarrow> host_state \<Rightarrow> coherency_copy \<Rightarrow> host_state option" where
  "perform_copy src h c =
     do { dst \<leftarrow> masked_memcpy_scalar (drop (cc_dst_offset c) (host_rdram h)) (drop (cc_src_offset c) src)
                  (drop (cc_mask_offset c) src) (cc_size c);
          ws \<leftarrow> drop_pending [cc_counter_base c..<cc_counter_base c + cc_counters c] (page_writes h);
          Some (h\<lparr>host_rdram := take (cc_dst_offset c) (host_rdram h) @ dst, page_writes := ws\<rparr>) }"

fun perform_copies :: "bytes \<Rightarrow> host_state \<Rightarrow> coherency_copy list \<Rightarrow> host_state option" where
  "perform_copies src h [] = Some h"
| "perform_copies src h (c # cs) = do { h' \<leftarrow> perform_copy src h c; perform_copies src h' cs }"

definition perform_work :: "bytes \<Rightarrow> host_state \<Rightarrow> coherency_operation \<Rightarrow> host_state option" where
  "perform_work src h work =
     (let h = (if co_unlock_cookie work then h\<lparr>active_submissions := active_submissions h - 1\<rparr> else h)
      in if co_src work then perform_copies src h (co_copies work) else Some h)"

definition notify_work_locked :: "u64 \<Rightarrow> coherency_operation \<Rightarrow> u64" where
  "notify_work_locked v work = (if co_timeline_value work \<noteq> 0 then co_timeline_value work else v)"

section \<open>The threads\<close>

datatype timeline_phase =
    T_Waiting
  | T_Holding coherency_operation
  | T_Performed coherency_operation
  | T_Stopped coherency_operation

record timeline_sys =
  rs :: ring_sys
  cp :: command_processor
  timeline_value :: u64
  work_queue :: "coherency_operation list"
  phase :: timeline_phase
  thread_timeline_value :: u64
  host :: host_state
  signalled :: "nat set"
  push_log :: "(coherency_operation \<times> nat) list"
  done_log :: "(coherency_operation \<times> nat) list"

definition push :: "timeline_sys \<Rightarrow> coherency_operation list \<Rightarrow> timeline_sys" where
  "push s ops = s\<lparr>work_queue := work_queue s @ ops,
                  push_log := push_log s @ map (\<lambda>op. (op, length (executed (rs s)))) ops\<rparr>"

fun pushed_operations :: "render_call list \<Rightarrow> coherency_operation list" where
  "pushed_operations [] = []"
| "pushed_operations (Push_Timeline val # calls) = signal_operation val # pushed_operations calls"
| "pushed_operations (call # calls) = pushed_operations calls"

definition frontend_request :: "u32 list \<Rightarrow> bool" where
  "frontend_request words \<longleftrightarrow> guest_command words \<or> words = flush_command \<or>
     (\<exists>quirks. words = set_quirks_command quirks)"

text \<open>
  \<open>signal\<close> and \<open>enqueue\<close> are the frontend; \<open>ring\<close> is every step of the ring that neither
  enqueues nor processes; while a command is being processed the renderer may submit work and
  push the operations that wait for its fence, and the operations of the command itself are
  pushed as its processing ends. \<open>memory\<close> is the emulated processor and the renderer
  changing the memory and the counters they share with the worker.
\<close>

inductive timeline_step :: "timeline_sys \<Rightarrow> timeline_sys \<Rightarrow> bool" where
  signal: "ring_step (rs s) r \<Longrightarrow>
     enq_log r = enq_log (rs s) @ [signal_timeline_command (timeline_value s + 1)] \<Longrightarrow>
     timeline_step s (s\<lparr>timeline_value := timeline_value s + 1, rs := r\<rparr>)"
| enqueue: "ring_step (rs s) r \<Longrightarrow> enq_log r = enq_log (rs s) @ [words] \<Longrightarrow> frontend_request words \<Longrightarrow>
     timeline_step s (s\<lparr>rs := r\<rparr>)"
| ring: "ring_step (rs s) r \<Longrightarrow> enq_log r = enq_log (rs s) \<Longrightarrow> exec_log r = exec_log (rs s) \<Longrightarrow>
     timeline_step s (s\<lparr>rs := r\<rparr>)"
| render: "wrk (rs s) = Running words idle \<Longrightarrow> co_fence op \<noteq> None \<Longrightarrow> co_timeline_value op = 0 \<Longrightarrow>
     timeline_step s (push s [op])"
| process: "wrk (rs s) = Running words idle \<Longrightarrow> ring_step (rs s) r \<Longrightarrow>
     exec_log r = exec_log (rs s) @ [(words, idle)] \<Longrightarrow>
     enqueue_command_direct (cp s) words = Some (st, calls) \<Longrightarrow>
     timeline_step s ((push s (pushed_operations calls))\<lparr>rs := r, cp := st\<rparr>)"
| memory: "timeline_step s (s\<lparr>host := h\<rparr>)"
| gpu: "timeline_step s (s\<lparr>signalled := insert f (signalled s)\<rparr>)"
| pop: "phase s = T_Waiting \<Longrightarrow> work_queue s = op # ops \<Longrightarrow> \<not> is_sentinel op \<Longrightarrow>
     timeline_step s (s\<lparr>phase := T_Holding op, work_queue := ops\<rparr>)"
| stop: "phase s = T_Waiting \<Longrightarrow> work_queue s = op # ops \<Longrightarrow> is_sentinel op \<Longrightarrow>
     timeline_step s (s\<lparr>phase := T_Stopped op, work_queue := ops\<rparr>)"
| perform: "phase s = T_Holding op \<Longrightarrow> (\<forall>f. co_fence op = Some f \<longrightarrow> f \<in> signalled s) \<Longrightarrow>
     perform_work src (host s) op = Some h \<Longrightarrow>
     timeline_step s (s\<lparr>phase := T_Performed op, host := h\<rparr>)"
| notify: "phase s = T_Performed op \<Longrightarrow>
     timeline_step s (s\<lparr>phase := T_Waiting, thread_timeline_value := notify_work_locked (thread_timeline_value s) op,
        done_log := done_log s @ [push_log s ! length (done_log s)]\<rparr>)"
| destroy: "timeline_step s (push s [empty_operation])"

definition timeline_start :: "nat \<Rightarrow> host_state \<Rightarrow> timeline_sys" where
  "timeline_start k h = \<lparr>rs = ring_start (initialised k), cp = initial_command_processor, timeline_value = 0,
     work_queue = [], phase = T_Waiting, thread_timeline_value = 0, host = h, signalled = {},
     push_log = [], done_log = []\<rparr>"

inductive timeline_reachable :: "nat \<Rightarrow> host_state \<Rightarrow> timeline_sys \<Rightarrow> bool" for k h where
  start: "timeline_reachable k h (timeline_start k h)"
| step: "timeline_reachable k h s \<Longrightarrow> timeline_step s t \<Longrightarrow> timeline_reachable k h t"


section \<open>Signals of commands and of operations\<close>

definition op_signals :: "(coherency_operation \<times> nat) list \<Rightarrow> u64 list" where
  "op_signals log = filter (\<lambda>v. v \<noteq> 0) (map (\<lambda>p. co_timeline_value (fst p)) log)"

lemma op_signals_append [simp]: "op_signals (as @ bs) = op_signals as @ op_signals bs"
  by (simp add: op_signals_def)

lemma op_signals_Nil [simp]: "op_signals [] = []"
  by (simp add: op_signals_def)

definition command_signals :: "u32 list \<Rightarrow> u64 list" where
  "command_signals words =
     (case enqueue_command_direct initial_command_processor words of
        Some (st, calls) \<Rightarrow> map co_timeline_value (pushed_operations calls)
      | None \<Rightarrow> [])"

definition signals :: "u32 list list \<Rightarrow> u64 list" where
  "signals cmds = concat (map command_signals cmds)"

lemma signals_simps [simp]:
  "signals [] = []" "signals (c # cs) = command_signals c @ signals cs"
  "signals (as @ bs) = signals as @ signals bs"
  by (simp_all add: signals_def)

lemma guest_pushes_nothing: "list_all guest_call calls \<Longrightarrow> pushed_operations calls = []"
  by (induction calls rule: pushed_operations.induct) (auto simp: guest_call_def)

lemma pushed_operations_signal:
  "op \<in> set (pushed_operations calls) \<Longrightarrow> op = signal_operation (co_timeline_value op)"
  by (induction calls rule: pushed_operations.induct) (auto simp: signal_operation_def)

lemma dispatch_signals:
  assumes "cp_inv st" "issued_command words" "enqueue_command_direct st words = Some (st', calls)"
  shows "map co_timeline_value (pushed_operations calls) = command_signals words"
proof (cases "guest_command words")
  case True
  then show ?thesis
    using dispatch_safe [OF assms(1) True] dispatch_safe [OF cp_inv_initial True] assms(3)
    by (auto simp: command_signals_def guest_pushes_nothing)
next
  case False
  with assms show ?thesis
    by (auto simp: issued_command_def frontend_command_def command_signals_def dispatch_meta)
qed

lemma command_signals_simps [simp]:
  "command_signals (signal_timeline_command v) = [v]"
  "command_signals flush_command = []"
  "command_signals (set_quirks_command q) = []"
  "command_signals idle_command = []"
  by (simp_all add: command_signals_def dispatch_meta signal_operation_def)

lemma command_signals_guest: "guest_command words \<Longrightarrow> command_signals words = []"
  using dispatch_safe [OF cp_inv_initial, of words] by (auto simp: command_signals_def guest_pushes_nothing)

lemma command_signals_request: "frontend_request words \<Longrightarrow> command_signals words = []"
  by (auto simp: frontend_request_def command_signals_guest)

lemma frontend_request_issued: "frontend_request words \<Longrightarrow> guest_command words \<or> frontend_command words"
  by (auto simp: frontend_request_def frontend_command_def)

lemma command_signals_word:
  assumes "guest_command words \<or> frontend_command words" "v \<in> set (command_signals words)"
  shows "words = signal_timeline_command v"
  using assms by (auto simp: command_signals_guest frontend_command_def)

section \<open>The ring inside the system\<close>

lemma timeline_step_ring: "timeline_step s t \<Longrightarrow> ring_step (rs s) (rs t) \<or> rs t = rs s"
  by (erule timeline_step.cases) (auto simp: push_def)

lemma timeline_ring_reachable: "timeline_reachable k h s \<Longrightarrow> ring_reachable (initialised k) (rs s)"
proof (induction rule: timeline_reachable.induct)
  case start
  then show ?case by (simp add: timeline_start_def ring_reachable.start)
next
  case (step s t)
  then show ?case using timeline_step_ring ring_reachable.step by metis
qed

lemma timeline_no_overflow: "timeline_step s t \<Longrightarrow> no_overflow (rs t) \<Longrightarrow> no_overflow (rs s)"
  using timeline_step_ring no_overflow_step by metis

lemma ring_step_enqueued: "ring_step s r \<Longrightarrow> enq_log r = enq_log s @ [w] \<Longrightarrow> exec_log r = exec_log s"
  by (erule ring_stepE) auto

lemma ring_step_executed: "ring_step s r \<Longrightarrow> exec_log r = exec_log s @ [p] \<Longrightarrow> enq_log r = enq_log s"
  by (erule ring_stepE) auto

text \<open>Induction over the reachable states in which the counters of the ring have room.\<close>

lemma timeline_induct [consumes 2, case_names start step]:
  assumes "timeline_reachable k h s" "no_overflow (rs s)"
    and "P (timeline_start k h)"
    and "\<And>s t. timeline_reachable k h s \<Longrightarrow> no_overflow (rs s) \<Longrightarrow> no_overflow (rs t) \<Longrightarrow> P s \<Longrightarrow>
       timeline_step s t \<Longrightarrow> P t"
  shows "P s"
  using assms(1,2)
proof (induction rule: timeline_reachable.induct)
  case (step s t)
  then show ?case using assms(4) timeline_no_overflow by blast
qed (rule assms(3))


section \<open>The frontend\<close>

definition frontend_inv :: "timeline_sys \<Rightarrow> bool" where
  "frontend_inv s \<longleftrightarrow>
     list_all (\<lambda>ws. guest_command ws \<or> frontend_command ws) (enq_log (rs s)) \<and>
     timeline_value s = of_nat (length (signals (enq_log (rs s)))) \<and>
     signals (enq_log (rs s)) = map of_nat [1..<Suc (length (signals (enq_log (rs s))))]"

lemma frontend_inv_same:
  "frontend_inv s \<Longrightarrow> enq_log (rs t) = enq_log (rs s) \<Longrightarrow> timeline_value t = timeline_value s \<Longrightarrow> frontend_inv t"
  by (simp add: frontend_inv_def)

lemma frontend_inv_step: "timeline_step s t \<Longrightarrow> frontend_inv s \<Longrightarrow> frontend_inv t"
proof (induction rule: timeline_step.induct)
  case (signal s r)
  let ?n = "length (signals (enq_log (rs s)))"
  have "frontend_command (signal_timeline_command v)" for v by (auto simp: frontend_command_def)
  with signal show ?case by (simp add: frontend_inv_def add.commute)
next
  case (enqueue s r words)
  then show ?case
    using command_signals_request [OF enqueue(3)] frontend_request_issued [OF enqueue(3)]
    by (simp add: frontend_inv_def)
next
  case (process s words idle r st calls)
  then show ?case using ring_step_executed [OF process(2,3)] by (auto intro: frontend_inv_same simp: push_def)
qed (auto elim!: frontend_inv_same simp: push_def)

lemma frontend_inv_reachable: "timeline_reachable k h s \<Longrightarrow> frontend_inv s"
proof (induction rule: timeline_reachable.induct)
  case start
  then show ?case by (simp add: frontend_inv_def timeline_start_def ring_start_def)
next
  case (step s t)
  then show ?case by (blast intro: frontend_inv_step)
qed

lemma signals_bound:
  assumes "list_all (\<lambda>ws. guest_command ws \<or> frontend_command ws) cs"
  shows "length (signals cs) \<le> ring_words cs"
proof -
  have "length (command_signals w) \<le> 1" if "guest_command w \<or> frontend_command w" for w
    using that by (auto simp: command_signals_guest frontend_command_def)
  with assms show ?thesis by (induction cs) force+
qed

text \<open>The values the frontend has signalled are \<open>1, 2, \<dots>\<close>, without repetition.\<close>

lemma signals_enqueued:
  assumes "timeline_reachable k h s" "no_overflow (rs s)"
  obtains n where "signals (enq_log (rs s)) = map of_nat [1..<Suc n]" "n < 2 ^ 64"
proof
  let ?n = "length (signals (enq_log (rs s)))"
  have inv: "frontend_inv s" using assms(1) by (rule frontend_inv_reachable)
  then show "signals (enq_log (rs s)) = map of_nat [1..<Suc ?n]" by (simp only: frontend_inv_def)
  show "?n < 2 ^ 64"
    using inv signals_bound [of "enq_log (rs s)"] assms(2) by (simp add: frontend_inv_def no_overflow_def)
qed

lemma u64_values_distinct: "n < 2 ^ 64 \<Longrightarrow> distinct (map of_nat [1..<Suc n] :: u64 list)"
  by (auto simp: distinct_map inj_on_def word_of_nat_eq_iff take_bit_eq_mod simp del: upt_Suc)

lemma u64_value_pos: "0 < i \<Longrightarrow> i < 2 ^ 64 \<Longrightarrow> (of_nat i :: u64) \<noteq> 0"
  using nat_dvd_not_less [of i "2 ^ 64"] by (auto simp: word_of_nat_eq_0_iff)

section \<open>Pushed operations\<close>

text \<open>
  An operation that signals is the last one pushed for its command: whatever follows it was
  pushed after more commands had been executed.
\<close>

definition pushed_before :: "coherency_operation \<times> nat \<Rightarrow> coherency_operation \<times> nat \<Rightarrow> bool" where
  "pushed_before a b \<longleftrightarrow> (if co_timeline_value (fst a) \<noteq> 0 then snd a < snd b else snd a \<le> snd b)"

definition tag_ok :: "u32 list list \<Rightarrow> coherency_operation \<times> nat \<Rightarrow> bool" where
  "tag_ok ex p \<longleftrightarrow> snd p \<le> length ex \<and>
     (co_timeline_value (fst p) \<noteq> 0 \<longrightarrow>
        snd p < length ex \<and> ex ! snd p = signal_timeline_command (co_timeline_value (fst p)))"

definition push_inv :: "timeline_sys \<Rightarrow> bool" where
  "push_inv s \<longleftrightarrow> cp_inv (cp s) \<and> op_signals (push_log s) = signals (executed (rs s)) \<and>
     sorted_wrt pushed_before (push_log s) \<and> list_all (tag_ok (executed (rs s))) (push_log s)"

lemma push_inv_same:
  "push_inv s \<Longrightarrow> executed (rs t) = executed (rs s) \<Longrightarrow> push_log t = push_log s \<Longrightarrow> cp t = cp s \<Longrightarrow> push_inv t"
  by (simp add: push_inv_def)

lemma tag_ok_before: "tag_ok ex p \<Longrightarrow> pushed_before p (op, length ex)"
  by (auto simp: tag_ok_def pushed_before_def)

lemma tag_ok_append: "tag_ok ex p \<Longrightarrow> tag_ok (ex @ cs) p"
  by (auto simp: tag_ok_def nth_append)

lemma push_inv_silent:
  assumes "push_inv s" "co_timeline_value op = 0"
  shows "push_inv (push s [op])"
proof -
  have "tag_ok (executed (rs s)) (op, length (executed (rs s)))" using assms(2) by (simp add: tag_ok_def)
  then show ?thesis
    using assms by (auto simp: push_inv_def push_def op_signals_def sorted_wrt_append list_all_iff tag_ok_before)
qed


lemma dispatch_pushes:
  assumes "cp_inv st" "issued_command words" "enqueue_command_direct st words = Some (st', calls)"
  shows "pushed_operations calls = map signal_operation (command_signals words)" "cp_inv st'"
proof -
  have "map (\<lambda>op. signal_operation (co_timeline_value op)) (pushed_operations calls) = pushed_operations calls"
    by (rule map_idI) (simp add: pushed_operations_signal [symmetric])
  then show "pushed_operations calls = map signal_operation (command_signals words)"
    unfolding dispatch_signals [OF assms, symmetric] by (simp add: comp_def)
  show "cp_inv st'" using issued.step_ok [OF assms(1,2)] assms(3) by auto
qed

lemma co_timeline_value_signal [simp]: "co_timeline_value (signal_operation v) = v"
  by (simp add: signal_operation_def)

text \<open>A command that signals is the last of the executed ones, and its value is not zero.\<close>

lemma push_inv_process:
  assumes "push_inv s" "executed r = executed (rs s) @ cs"
    and "ops = map signal_operation (signals cs)" "cp_inv st"
    and "cs = [] \<or> cs = [words] \<and> (guest_command words \<or> frontend_command words) \<and> 0 \<notin> set (command_signals words)"
  shows "push_inv ((push s ops)\<lparr>rs := r, cp := st\<rparr>)"
proof (cases "signals cs")
  case Nil
  then show ?thesis
    using assms by (auto simp: push_inv_def push_def list_all_iff tag_ok_append)
next
  case (Cons v vs)
  then have w: "cs = [words]" "v \<in> set (command_signals words)" using assms(5) by auto
  then have "words = signal_timeline_command v" using assms(5) command_signals_word by blast
  then have c: "signals cs = [v]" "cs = [signal_timeline_command v]" "v \<noteq> 0" using w assms(5) by auto
  let ?ex = "executed (rs s)"
  have "tag_ok (?ex @ cs) (signal_operation v, length ?ex)" using c(2) by (simp add: tag_ok_def)
  moreover have "op_signals [(signal_operation v, length ?ex)] = [v]" using c(3) by (simp add: op_signals_def)
  ultimately show ?thesis
    using assms c by (auto simp: push_inv_def push_def sorted_wrt_append list_all_iff tag_ok_append tag_ok_before)
qed

lemma processed_command:
  assumes "timeline_reachable k h s" "k < 32" "no_overflow r" "ring_step (rs s) r"
    "exec_log r = exec_log (rs s) @ [(words, idle)]"
  shows "issued_command words"
    "idle \<Longrightarrow> words = idle_command"
    "\<not> idle \<Longrightarrow> (guest_command words \<or> frontend_command words) \<and> 0 \<notin> set (command_signals words)"
proof -
  have enq: "enq_log r = enq_log (rs s)" using ring_step_executed [OF assms(4,5)] .
  have r: "ring_reachable (initialised k) r"
    using timeline_ring_reachable [OF assms(1)] assms(4) by (rule ring_reachable.step)
  have a: "list_all (\<lambda>ws. guest_command ws \<or> frontend_command ws) (enq_log r)"
    using frontend_inv_reachable [OF assms(1)] enq by (simp add: frontend_inv_def)
  from exec_log_issued [OF r assms(2,3) a] have
    i: "if idle then words = idle_command else guest_command words \<or> frontend_command words"
    by (simp add: assms(5))
  then show "issued_command words" "idle \<Longrightarrow> words = idle_command"
    by (auto simp: issued_command_def split: if_splits)
  assume n: "\<not> idle"
  then have "words \<in> set (enq_log r)"
    using executed_prefix [OF r assms(2,3)] assms(5) by (auto simp: executed_def prefix_def)
  then have sub: "set (command_signals words) \<subseteq> set (signals (enq_log r))" by (auto simp: signals_def)
  have "no_overflow (rs s)" using no_overflow_step [OF assms(4,3)] .
  from signals_enqueued [OF assms(1) this] obtain m where
    "signals (enq_log (rs s)) = map of_nat [1..<Suc m]" "m < 2 ^ 64" .
  then have "0 \<notin> set (signals (enq_log r))"
    using u64_value_pos by (fastforce simp: enq simp del: upt_Suc)
  with n i sub show "(guest_command words \<or> frontend_command words) \<and> 0 \<notin> set (command_signals words)" by auto
qed

lemma push_inv_reachable:
  assumes "timeline_reachable k h s" "no_overflow (rs s)" "k < 32"
  shows "push_inv s"
  using assms(1,2)
proof (induction rule: timeline_induct)
  case start
  then show ?case
    by (simp add: push_inv_def timeline_start_def cp_inv_initial executed_def ring_start_def)
next
  case (step s t)
  from step(4,5,1,3) show ?case
  proof (induction rule: timeline_step.induct)
    case (process s words idle r st calls)
    have no: "no_overflow r" using process.prems by simp
    note cmd = processed_command [OF process.prems(2) assms(3) no process.hyps(2,3)]
    have cp: "cp_inv (cp s)" using process.prems by (simp add: push_inv_def)
    show ?case
    proof (rule push_inv_process [OF process.prems(1)])
      show "executed r = executed (rs s) @ (if idle then [] else [words])"
        by (simp add: executed_def process.hyps(3))
      show "pushed_operations calls = map signal_operation (signals (if idle then [] else [words]))"
        using dispatch_pushes(1) [OF cp cmd(1) process.hyps(4)] cmd(2) by auto
      show "cp_inv st" using dispatch_pushes(2) [OF cp cmd(1) process.hyps(4)] .
    qed (use cmd(3) in auto)
  next
    case (signal s r)
    then show ?case using ring_step_enqueued [OF signal(1,2)] by (simp add: push_inv_def executed_def)
  next
    case (enqueue s r words)
    then show ?case using ring_step_enqueued [OF enqueue(1,2)] by (simp add: push_inv_def executed_def)
  qed (auto intro: push_inv_silent push_inv_same simp: executed_def empty_operation_def)
qed


section \<open>The worker\<close>

fun held :: "timeline_phase \<Rightarrow> coherency_operation list" where
  "held T_Waiting = []"
| "held (T_Holding op) = [op]"
| "held (T_Performed op) = [op]"
| "held (T_Stopped op) = [op]"

definition worker_done_inv :: "timeline_sys \<Rightarrow> bool" where
  "worker_done_inv s \<longleftrightarrow> prefix (done_log s) (push_log s) \<and>
     map fst (push_log s) = map fst (done_log s) @ held (phase s) @ work_queue s \<and>
     thread_timeline_value s = last (0 # op_signals (done_log s))"

lemma worker_done_notify:
  assumes "worker_done_inv s" "phase s = T_Performed op"
  shows "\<exists>t. push_log s ! length (done_log s) = (op, t) \<and>
    prefix (done_log s @ [push_log s ! length (done_log s)]) (push_log s)"
proof -
  obtain rest where r: "push_log s = done_log s @ rest" using assms(1) by (auto simp: worker_done_inv_def prefix_def)
  with assms have "map fst rest = op # work_queue s" by (simp add: worker_done_inv_def)
  then obtain t rest' where "rest = (op, t) # rest'" by (cases rest) auto
  with r show ?thesis by (auto simp: prefix_def)
qed

lemma worker_done_step: "timeline_step s t \<Longrightarrow> worker_done_inv s \<Longrightarrow> worker_done_inv t"
proof (induction rule: timeline_step.induct)
  case (notify s op)
  obtain t where t: "push_log s ! length (done_log s) = (op, t)"
    "prefix (done_log s @ [(op, t)]) (push_log s)"
    using worker_done_notify [OF notify.prems notify.hyps] by auto
  with notify show ?case
    by (auto simp: worker_done_inv_def notify_work_locked_def op_signals_def)
qed (auto simp: worker_done_inv_def push_def comp_def)

lemma worker_done_reachable: "timeline_reachable k h s \<Longrightarrow> worker_done_inv s"
proof (induction rule: timeline_reachable.induct)
  case start
  then show ?case by (simp add: worker_done_inv_def timeline_start_def)
next
  case (step s t)
  then show ?case by (blast intro: worker_done_step)
qed

lemma op_signals_mono: "prefix as bs \<Longrightarrow> prefix (op_signals as) (op_signals bs)"
  by (auto simp: prefix_def)

lemma signals_mono: "prefix as bs \<Longrightarrow> prefix (signals as) (signals bs)"
  by (auto simp: prefix_def)

lemma prefix_values:
  assumes "prefix xs (map f [1..<Suc n])"
  shows "\<exists>m \<le> n. xs = map f [1..<Suc m]"
proof -
  have "length xs \<le> n" using prefix_length_le [OF assms] by (simp del: upt_Suc)
  moreover have "xs = take (length xs) (map f [1..<Suc n])"
    using assms unfolding prefix_def by (metis append_eq_conv_conj)
  ultimately show ?thesis by (intro exI [of _ "length xs"]) (simp add: take_map take_upt del: upt_Suc)
qed

text \<open>A value the worker has reached is the value of an operation it has notified.\<close>

lemma reached_value_done:
  assumes "timeline_reachable k h s" "no_overflow (rs s)" "k < 32" "0 < v" "v \<le> thread_timeline_value s"
  shows "v \<in> set (op_signals (done_log s))"
proof -
  obtain n where n: "signals (enq_log (rs s)) = map of_nat [1..<Suc n]" "n < 2 ^ 64"
    using signals_enqueued [OF assms(1,2)] .
  have w: "worker_done_inv s" using assms(1) by (rule worker_done_reachable)
  have "prefix (op_signals (done_log s)) (op_signals (push_log s))"
    using w by (intro op_signals_mono) (simp add: worker_done_inv_def)
  also have "op_signals (push_log s) = signals (executed (rs s))"
    using push_inv_reachable [OF assms(1-3)] by (simp add: push_inv_def)
  also have "prefix \<dots> (signals (enq_log (rs s)))"
    using executed_prefix [OF timeline_ring_reachable [OF assms(1)] assms(3,2)] by (rule signals_mono)
  finally obtain m where m: "op_signals (done_log s) = map of_nat [1..<Suc m]" "m \<le> n"
    using n(1) prefix_values by metis
  have "thread_timeline_value s = of_nat m"
    using w m(1) by (cases m) (simp_all add: worker_done_inv_def)
  then have "unat v \<le> m"
    using assms(5) n(2) m(2) by (simp add: word_le_nat_alt unat_of_nat take_bit_eq_mod)
  moreover have "0 < unat v" using assms(4) by (simp add: word_less_nat_alt)
  ultimately have "unat v \<in> set [1..<Suc m]" by auto
  then have "of_nat (unat v) \<in> set (op_signals (done_log s))" unfolding m(1) set_map by (rule imageI)
  then show ?thesis by simp
qed

text \<open>A value names one command: the frontend signals every value once.\<close>

lemma signal_once:
  assumes "distinct (signals cs)" "cs ! i = signal_timeline_command v" "cs ! j = signal_timeline_command v"
    "i < length cs" "j < length cs"
  shows "i = j"
proof -
  have "\<not> i < j" if "i < length cs" "j < length cs" "cs ! i = signal_timeline_command v"
    "cs ! j = signal_timeline_command v" for i j
  proof
    assume "i < j"
    have "cs = take j cs @ cs ! j # drop (Suc j) cs" using that(2) by (rule id_take_nth_drop)
    then have "signals cs = signals (take j cs) @ v # signals (drop (Suc j) cs)"
      using that(4) signals_simps(2,3) command_signals_simps(1) by (metis append_Cons append_Nil)
    with assms(1) have "v \<notin> set (signals (take j cs))" by simp
    moreover have "signal_timeline_command v \<in> set (take j cs)"
      using \<open>i < j\<close> that by (metis in_set_conv_nth length_take min_less_iff_conj nth_take)
    then have "v \<in> set (signals (take j cs))" by (force simp: signals_def)
    ultimately show False by blast
  qed
  then show ?thesis using assms(2-5) by (metis linorder_neqE_nat)
qed

lemma prefix_filter_tags:
  "sorted_wrt pushed_before ps \<Longrightarrow> prefix (filter (\<lambda>p. snd p \<le> n) ps) ps"
proof (induction ps)
  case (Cons p ps)
  show ?case
  proof (cases "snd p \<le> n")
    case False
    with Cons.prems have "filter (\<lambda>p. snd p \<le> n) (p # ps) = []"
      by (fastforce simp: filter_empty_conv pushed_before_def split: if_splits)
    then show ?thesis by simp
  qed (use Cons in simp)
qed simp

section \<open>Waiting for the timeline\<close>

text \<open>
  C9. What \<open>wait_for_timeline\<close> promises: when it returns for the value \<open>v\<close> that
  \<open>signal_timeline\<close> returned, every command enqueued before the signal has been processed,
  and every operation pushed while they were processed -- the fence waits and the copies back
  to the host of all submitted rendering -- has been performed, whatever the interleaving of
  the three threads and the GPU.
\<close>

theorem wait_for_timeline_covers:
  assumes "timeline_reachable k h s" "k < 32" "no_overflow (rs s)"
    "enq_log (rs s) = earlier @ signal_timeline_command v # later"
    "0 < v" "v \<le> thread_timeline_value s"
  shows "prefix (earlier @ [signal_timeline_command v]) (executed (rs s)) \<and>
    prefix (filter (\<lambda>p. snd p \<le> length earlier) (push_log s)) (done_log s)"
proof -
  let ?ex = "executed (rs s)" and ?cs = "enq_log (rs s)"
  have ex: "prefix ?ex ?cs"
    using executed_prefix [OF timeline_ring_reachable [OF assms(1)] assms(2,3)] .
  have pi: "push_inv s" using push_inv_reachable assms(1-3) by blast
  obtain rest where rest: "push_log s = done_log s @ rest"
    using worker_done_reachable [OF assms(1)] by (auto simp: worker_done_inv_def prefix_def)
  obtain op t where op: "(op, t) \<in> set (done_log s)" "co_timeline_value op = v"
    using reached_value_done [OF assms(1,3,2,5,6)] by (auto simp: op_signals_def)
  have "tag_ok ?ex (op, t)" using pi op(1) rest by (auto simp: push_inv_def list_all_iff)
  then have tag: "t < length ?ex" "?ex ! t = signal_timeline_command v"
    using op(2) assms(5) by (auto simp: tag_ok_def)
  have t: "t = length earlier"
  proof (rule signal_once)
    obtain n where "signals ?cs = map of_nat [1..<Suc n]" "n < 2 ^ 64" using signals_enqueued [OF assms(1,3)] .
    then show "distinct (signals ?cs)" using u64_values_distinct by metis
    show "?cs ! t = signal_timeline_command v" "t < length ?cs"
      using ex tag by (auto simp: prefix_def nth_append)
  qed (simp_all add: assms(4))
  have first: "prefix (earlier @ [signal_timeline_command v]) ?ex"
  proof (rule prefix_length_prefix [OF _ ex])
    show "prefix (earlier @ [signal_timeline_command v]) ?cs"
      unfolding assms(4) prefix_def by simp
    show "length (earlier @ [signal_timeline_command v]) \<le> length ?ex" using tag(1) t by simp
  qed
  have "\<forall>p \<in> set rest. pushed_before (op, t) p"
    using pi op(1) by (simp add: push_inv_def rest sorted_wrt_append)
  moreover have "v \<noteq> 0" using assms(5) by auto
  ultimately have late: "\<forall>p \<in> set rest. length earlier < snd p" using op(2) t by (simp add: pushed_before_def)
  from late have "filter (\<lambda>p. snd p \<le> length earlier) rest = []" by (auto simp: filter_empty_conv)
  moreover have "prefix (filter (\<lambda>p. snd p \<le> length earlier) (done_log s)) (done_log s)"
    using pi by (intro prefix_filter_tags) (simp add: push_inv_def rest sorted_wrt_append)
  ultimately show ?thesis using first by (simp add: rest)
qed


text \<open>A run of the three threads in which one signal goes all the way.\<close>

lemma signal_arrives:
  "\<exists>s. timeline_reachable 4 h s \<and> enq_log (rs s) = [signal_timeline_command 1] \<and>
     thread_timeline_value s = 1 \<and> length (ring (cr (rs s))) = 16"
proof -
  let ?c = "signal_timeline_command 1"
  define s0 where "s0 = timeline_start 4 h"
  define r1 where "r1 = (rs s0)\<lparr>cr := enqueue_command (cr (rs s0)) ?c, enq_log := enq_log (rs s0) @ [?c]\<rparr>"
  define s1 where "s1 = s0\<lparr>timeline_value := timeline_value s0 + 1, rs := r1\<rparr>"
  have d0: "timeline_value s0 = 0" "rs s0 = ring_start (initialised 4)" "push_log s0 = []" "done_log s0 = []"
    "work_queue s0 = []" "phase s0 = T_Waiting" by (simp_all add: s0_def timeline_start_def)
  have "ring_step (rs s0) r1"
    unfolding r1_def by (rule ring_step.enqueue)
      (simp_all add: d0 can_enqueue_def can_enqueue_ring_words_def ring_start_def initialised_def
        ring_init_def fresh_ring_def signal_timeline_command_def)
  then have "timeline_step s0 s1"
    unfolding s1_def by (rule timeline_step.signal) (simp add: r1_def d0)
  then have s1: "timeline_reachable 4 h s1"
    using timeline_reachable.start [of 4 h] timeline_reachable.step by (simp add: s0_def)
  have f1: "rs s1 = r1" "wrk r1 = Waiting" "enq_log r1 = [?c]" "deq_log r1 = []" "length (ring (cr r1)) = 16"
    using length_initialised [of 4] by (simp_all add: s1_def r1_def d0 ring_start_def)
  have "no_overflow r1" using f1 by (simp add: no_overflow_def signal_timeline_command_def)
  from ring_reachable_inv [OF timeline_ring_reachable [OF s1]] this obtain pending where
    inv: "ring_inv r1 pending" using f1(1) by auto
  then have h: "ring_holds (cr r1) [?c]" using f1 by (auto simp: ring_inv_def)
  obtain r' where r': "fetch_command (cr r1) = (?c, r')" "length (ring r') = 16"
    using ring_holds_fetch(1) [OF h] fetch_command_frame f1(5) by (cases "fetch_command (cr r1)") force
  define r2 where "r2 = r1\<lparr>cr := r', wrk := Running ?c False, deq_log := deq_log r1 @ [?c]\<rparr>"
  define s2 where "s2 = s1\<lparr>rs := r2\<rparr>"
  have "ring_step r1 r2"
    unfolding r2_def using f1(2) r'(1) ring_holds_has_data [OF h] by (intro ring_step.fetch) simp_all
  then have "timeline_step s1 s2"
    unfolding s2_def by (intro timeline_step.ring) (simp_all add: f1(1) r2_def)
  then have s2: "timeline_reachable 4 h s2" by (rule timeline_reachable.step [OF s1])
  define r3 where "r3 = r2\<lparr>wrk := Finishing False, exec_log := exec_log r2 @ [(?c, False)]\<rparr>"
  define s3 where "s3 = (push s2 (pushed_operations [Flush_And_Signal, Push_Timeline 1]))\<lparr>rs := r3, cp := cp s2\<rparr>"
  have "ring_step r2 r3"
    unfolding r3_def by (rule ring_step.process) (simp_all add: r2_def signal_timeline_command_def)
  then have "timeline_step s2 s3"
    unfolding s3_def by (intro timeline_step.process [of _ ?c False])
      (simp_all add: s2_def r2_def r3_def dispatch_meta)
  then have s3: "timeline_reachable 4 h s3" by (rule timeline_reachable.step [OF s2])
  define op where "op = signal_operation 1"
  have q: "work_queue s3 = [op]" "phase s3 = T_Waiting" "rs s3 = r3"
    by (simp_all add: s3_def push_def s2_def s1_def d0 op_def)
  have "timeline_step s3 (s3\<lparr>phase := T_Holding op, work_queue := []\<rparr>)"
    by (rule timeline_step.pop) (simp_all add: q op_def is_sentinel_def)
  with s3 have s4: "timeline_reachable 4 h (s3\<lparr>phase := T_Holding op, work_queue := []\<rparr>)"
    by (rule timeline_reachable.step)
  let ?s4 = "s3\<lparr>phase := T_Holding op, work_queue := []\<rparr>"
  have "timeline_step ?s4 (?s4\<lparr>phase := T_Performed op, host := host ?s4\<rparr>)"
    by (rule timeline_step.perform)
      (simp_all add: op_def signal_operation_def empty_operation_def perform_work_def)
  with s4 have s5: "timeline_reachable 4 h (?s4\<lparr>phase := T_Performed op, host := host ?s4\<rparr>)"
    by (rule timeline_reachable.step)
  let ?s5 = "?s4\<lparr>phase := T_Performed op, host := host ?s4\<rparr>"
  let ?s6 = "?s5\<lparr>phase := T_Waiting,
      thread_timeline_value := notify_work_locked (thread_timeline_value ?s5) op,
      done_log := done_log ?s5 @ [push_log ?s5 ! length (done_log ?s5)]\<rparr>"
  have "timeline_step ?s5 ?s6" by (rule timeline_step.notify) simp
  with s5 have "timeline_reachable 4 h ?s6" by (rule timeline_reachable.step)
  then show ?thesis
    by (intro exI [of _ ?s6] conjI) (simp_all add: q r3_def r2_def r1_def d0 ring_start_def r'(2) notify_work_locked_def op_def)
qed

theorem wait_for_timeline_covers_witness:
  "\<exists>s. timeline_reachable 4 \<lparr>host_rdram = [], page_writes = [], active_submissions = 0\<rparr> s \<and>
     thread_timeline_value s = 1 \<and> prefix [signal_timeline_command 1] (executed (rs s))"
proof -
  let ?h = "\<lparr>host_rdram = [], page_writes = [], active_submissions = 0\<rparr>"
  obtain s where s: "timeline_reachable 4 ?h s" "enq_log (rs s) = [signal_timeline_command 1]"
    "thread_timeline_value s = 1" "length (ring (cr (rs s))) = 16" using signal_arrives by blast
  then have "no_overflow (rs s)" by (simp add: no_overflow_def signal_timeline_command_def)
  then show ?thesis using s wait_for_timeline_covers [OF s(1), of "[]" 1 "[]"] by auto
qed

end
