(* ===== verification/Replacement_Entries.thy ===== *)
theory Replacement_Entries
  imports RDP_Prelude "HOL-Library.AList" "HOL-Library.Char_ord" "HOL-Library.List_Lexorder"
    "HOL-Library.Product_Lexorder"
begin

text \<open>
  The entry table of the hi-res replacement provider: \<open>ReplacementProvider::Entry\<close> of
  \<open>texture_replacement.hpp\<close>, its lookup keys, the seven indices over the table and the
  operations of \<open>texture_replacement.cpp\<close> that build them (\<open>add_entry\<close>, \<open>clear\<close>).

  The eight sampled fields that the code always passes around together form one record
  (\<open>sampled_sig\<close>), so that a lookup key is a signature, a format/size word and, for the
  exact index, a selector. An \<open>unordered_map\<close> is an association list with distinct keys;
  vectors of table positions keep their order. Strings compare by their bytes.
\<close>

section \<open>Entries and keys\<close>

record sampled_sig =
  sampled_fmt :: u32
  sampled_siz :: u32
  sampled_tex_offset :: u32
  sampled_stride :: u32
  sampled_width :: u32
  sampled_height :: u32
  sampled_low32 :: u32
  sampled_palette_crc :: u32

record entry =
  source_path :: string
  phrb_policy_key :: string
  phrb_replacement_id :: string
  phrb_sampled_object_id :: string
  e_checksum64 :: u64
  data_offset :: u64
  data_size :: u32
  e_width :: u32
  e_height :: u32
  e_format :: u32
  texture_format :: u16
  pixel_type :: u16
  e_formatsize :: u16
  e_selector :: u64
  e_sig :: sampled_sig
  sampled_entry_pcrc :: u32
  sampled_sparse_pcrc :: u32
  has_native_sampled_identity :: bool
  is_runtime_family_compat :: bool
  is_hires :: bool
  inline_blob :: bool
  blob :: bytes

type_synonym sampled_lookup_key = "sampled_sig \<times> u16 \<times> u64"
type_synonym sampled_family_lookup_key = "sampled_sig \<times> u16"

definition make_sampled_lookup_key :: "sampled_sig \<Rightarrow> u16 \<Rightarrow> u64 \<Rightarrow> sampled_lookup_key" where
  "make_sampled_lookup_key sg formatsize selector = (sg, formatsize, selector)"

definition make_sampled_family_lookup_key :: "sampled_sig \<Rightarrow> u16 \<Rightarrow> sampled_family_lookup_key" where
  "make_sampled_family_lookup_key sg formatsize = (sg, formatsize)"

lemmas lookup_key_defs [rdp_defs] = make_sampled_lookup_key_def make_sampled_family_lookup_key_def

section \<open>Selectors and checksums\<close>

definition ORDERED_SURFACE_SELECTOR_TAG :: u64 where
  "ORDERED_SURFACE_SELECTOR_TAG = 0x5352464300000000"

definition ORDERED_SURFACE_SELECTOR_MASK :: u64 where
  "ORDERED_SURFACE_SELECTOR_MASK = 0xffffffff00000000"

definition is_ordered_surface_selector :: "u64 \<Rightarrow> bool" where
  "is_ordered_surface_selector selector \<longleftrightarrow>
     selector AND ORDERED_SURFACE_SELECTOR_MASK = ORDERED_SURFACE_SELECTOR_TAG"

definition get_ordered_surface_slot_index :: "u64 \<Rightarrow> u32" where
  "get_ordered_surface_slot_index selector = ucast (selector AND 0xffffffff)"

definition ordered_surface_slot_selector_checksum64 :: "u32 \<Rightarrow> u64" where
  "ordered_surface_slot_selector_checksum64 slot_index =
     ORDERED_SURFACE_SELECTOR_TAG OR ucast slot_index"

definition append_unique_ordered_surface_selector :: "u64 list \<Rightarrow> u64 \<Rightarrow> u64 list" where
  "append_unique_ordered_surface_selector selectors selector =
     (if selector \<in> set selectors then selectors else sort (selectors @ [selector]))"

definition compose_hires_checksum64 :: "u32 \<Rightarrow> u32 \<Rightarrow> u64" where
  "compose_hires_checksum64 texture_crc palette_crc =
     push_bit 32 (ucast palette_crc) OR ucast texture_crc"

definition compose_ordered_surface_index_key :: "u64 \<Rightarrow> u16 \<Rightarrow> u64" where
  "compose_ordered_surface_index_key checksum formatsize =
     checksum XOR push_bit 48 (ucast formatsize)"

text \<open>\<open>uint32_t(checksum64 & 0xffffffff)\<close> and \<open>uint32_t((checksum64 >> 32) & 0xffffffff)\<close>.\<close>

definition checksum_low32 :: "u64 \<Rightarrow> u32" where
  "checksum_low32 checksum = ucast (checksum AND 0xffffffff)"

definition checksum_palette_crc :: "u64 \<Rightarrow> u32" where
  "checksum_palette_crc checksum = ucast (drop_bit 32 checksum AND 0xffffffff)"

section \<open>Preference between duplicates\<close>

definition compare_string_pref :: "string \<Rightarrow> string \<Rightarrow> int" where
  "compare_string_pref a b =
     (if (a = []) \<noteq> (b = []) then (if a = [] then 1 else -1)
      else if a < b then -1 else if a > b then 1 else 0)"

definition compare_uint32 :: "u32 \<Rightarrow> u32 \<Rightarrow> int" where
  "compare_uint32 a b = (if a < b then -1 else if a > b then 1 else 0)"

definition prefer_sampled_duplicate_candidate :: "entry \<Rightarrow> entry \<Rightarrow> bool" where
  "prefer_sampled_duplicate_candidate active candidate =
     (let cmp = compare_string_pref (phrb_replacement_id candidate) (phrb_replacement_id active)
      in if cmp \<noteq> 0 then cmp < 0 else
      let cmp = compare_string_pref (source_path candidate) (source_path active)
      in if cmp \<noteq> 0 then cmp < 0 else
      let cmp = compare_uint32 (e_width candidate) (e_width active)
      in if cmp \<noteq> 0 then cmp < 0 else
      let cmp = compare_uint32 (e_height candidate) (e_height active)
      in if cmp \<noteq> 0 then cmp < 0 else
      let cmp = compare_uint32 (data_size candidate) (data_size active)
      in if cmp \<noteq> 0 then cmp < 0 else
      if length (blob candidate) \<noteq> length (blob active)
      then length (blob candidate) < length (blob active) else
      if blob candidate < blob active then True
      else if blob active < blob candidate then False
      else False)"

section \<open>Index maps\<close>

text \<open>\<open>map[k].push_back(i)\<close>: the bucket of an absent key is empty.\<close>

definition bucket :: "('k \<times> 'v list) list \<Rightarrow> 'k \<Rightarrow> 'v list" where
  "bucket idx k = (case map_of idx k of None \<Rightarrow> [] | Some is \<Rightarrow> is)"

definition index_push :: "('k \<times> 'v list) list \<Rightarrow> 'k \<Rightarrow> 'v \<Rightarrow> ('k \<times> 'v list) list" where
  "index_push idx k i = AList.update k (bucket idx k @ [i]) idx"

lemma map_of_index_push:
  "map_of (index_push idx k i) k' = (if k' = k then Some (bucket idx k @ [i]) else map_of idx k')"
  by (simp add: index_push_def update_conv')

lemma bucket_index_push [simp]:
  "bucket (index_push idx k i) k' = (if k' = k then bucket idx k @ [i] else bucket idx k')"
  by (simp add: bucket_def map_of_index_push)

lemma bucket_Nil [simp]: "bucket [] k = []"
  by (simp add: bucket_def)

section \<open>The provider\<close>

record provider =
  enabled :: bool
  cache_dir :: string
  entries :: "entry list"
  native_checksum_index :: "(u64 \<times> nat list) list"
  compat_checksum_index :: "(u64 \<times> nat list) list"
  compat_checksum_low32_index :: "(u32 \<times> nat list) list"
  sampled_index :: "(sampled_lookup_key \<times> nat) list"
  sampled_duplicate_index :: "(sampled_lookup_key \<times> u32) list"
  sampled_family_index :: "(sampled_family_lookup_key \<times> nat list) list"
  ordered_surface_selectors :: "(u64 \<times> u64 list) list"
  memory_budget_bytes :: u64

definition set_enabled :: "provider \<Rightarrow> bool \<Rightarrow> provider" where
  "set_enabled p enable = p\<lparr>enabled := enable\<rparr>"

definition trim_to_budget :: "provider \<Rightarrow> u64 \<Rightarrow> provider" where
  "trim_to_budget p bytes = p\<lparr>memory_budget_bytes := bytes\<rparr>"

definition clear_provider :: "provider \<Rightarrow> provider" where
  "clear_provider p =
     p\<lparr>cache_dir := [], entries := [], native_checksum_index := [], compat_checksum_index := [],
       compat_checksum_low32_index := [], sampled_index := [], sampled_duplicate_index := [],
       sampled_family_index := [], ordered_surface_selectors := []\<rparr>"

definition default_provider :: provider where
  "default_provider =
     \<lparr>enabled = False, cache_dir = [], entries = [], native_checksum_index = [],
      compat_checksum_index = [], compat_checksum_low32_index = [], sampled_index = [],
      sampled_duplicate_index = [], sampled_family_index = [], ordered_surface_selectors = [],
      memory_budget_bytes = 0\<rparr>"

text \<open>The keys under which an entry is filed.\<close>

definition entry_key :: "entry \<Rightarrow> sampled_lookup_key" where
  "entry_key e = make_sampled_lookup_key (e_sig e) (e_formatsize e) (e_selector e)"

definition entry_family_key :: "entry \<Rightarrow> sampled_family_lookup_key" where
  "entry_family_key e = make_sampled_family_lookup_key (e_sig e) (e_formatsize e)"

definition entry_ordered_key :: "entry \<Rightarrow> u64" where
  "entry_ordered_key e = compose_ordered_surface_index_key (e_checksum64 e) (e_formatsize e)"

text \<open>
  The duplicate branch of \<open>add_entry\<close>: count the duplicate and let the new position take the
  slot when it is preferred; otherwise a new slot.
\<close>

definition sampled_index_insert ::
    "entry list \<Rightarrow> entry \<Rightarrow> nat \<Rightarrow> (sampled_lookup_key \<times> nat) list \<Rightarrow> (sampled_lookup_key \<times> nat) list" where
  "sampled_index_insert es stored index idx =
     (case map_of idx (entry_key stored) of
        Some active \<Rightarrow>
          if prefer_sampled_duplicate_candidate (es ! active) stored
          then AList.update (entry_key stored) index idx else idx
      | None \<Rightarrow> AList.update (entry_key stored) index idx)"

definition sampled_duplicate_insert ::
    "entry \<Rightarrow> (sampled_lookup_key \<times> nat) list \<Rightarrow> (sampled_lookup_key \<times> u32) list \<Rightarrow>
     (sampled_lookup_key \<times> u32) list" where
  "sampled_duplicate_insert stored idx dups =
     (case map_of idx (entry_key stored) of
        None \<Rightarrow> dups
      | Some _ \<Rightarrow>
          (case map_of dups (entry_key stored) of
             None \<Rightarrow> AList.update (entry_key stored) 1 dups
           | Some n \<Rightarrow> AList.update (entry_key stored) (n + 1) dups))"

definition add_entry :: "provider \<Rightarrow> entry \<Rightarrow> provider" where
  "add_entry p stored =
     (let index = length (entries p);
          native = has_native_sampled_identity stored;
          ordered_key = entry_ordered_key stored
      in p\<lparr>entries := entries p @ [stored],
           native_checksum_index :=
             (if native then index_push (native_checksum_index p) (e_checksum64 stored) index
              else native_checksum_index p),
           compat_checksum_index :=
             (if native then compat_checksum_index p
              else index_push (compat_checksum_index p) (e_checksum64 stored) index),
           compat_checksum_low32_index :=
             (if native then compat_checksum_low32_index p
              else index_push (compat_checksum_low32_index p) (checksum_low32 (e_checksum64 stored)) index),
           sampled_index :=
             (if native then sampled_index_insert (entries p @ [stored]) stored index (sampled_index p)
              else sampled_index p),
           sampled_duplicate_index :=
             (if native then sampled_duplicate_insert stored (sampled_index p) (sampled_duplicate_index p)
              else sampled_duplicate_index p),
           sampled_family_index :=
             (if native then index_push (sampled_family_index p) (entry_family_key stored) index
              else sampled_family_index p),
           ordered_surface_selectors :=
             (if is_ordered_surface_selector (e_selector stored)
              then AList.update ordered_key
                     (append_unique_ordered_surface_selector
                        (bucket (ordered_surface_selectors p) ordered_key) (e_selector stored))
                     (ordered_surface_selectors p)
              else ordered_surface_selectors p)\<rparr>)"

definition entry_count :: "provider \<Rightarrow> nat" where
  "entry_count p = length (entries p)"

lemma entries_add_entry [simp]: "entries (add_entry p e) = entries p @ [e]"
  by (simp add: add_entry_def Let_def)

lemma enabled_add_entry [simp]: "enabled (add_entry p e) = enabled p"
  by (simp add: add_entry_def Let_def)

lemma entries_clear_provider [simp]: "entries (clear_provider p) = []"
  by (simp add: clear_provider_def)

text \<open>
  The states a provider can be in: the members that write the table are \<open>clear\<close> and
  \<open>add_entry\<close>; the others only set a flag, a path or a number.
\<close>

inductive provider_built :: "provider \<Rightarrow> bool" where
  default: "provider_built default_provider"
| cleared: "provider_built (clear_provider p)"
| added: "provider_built p \<Longrightarrow> provider_built (add_entry p e)"
| enabled_set: "provider_built p \<Longrightarrow> provider_built (set_enabled p b)"
| budget_set: "provider_built p \<Longrightarrow> provider_built (trim_to_budget p n)"
| dir_set: "provider_built p \<Longrightarrow> provider_built (p\<lparr>cache_dir := d\<rparr>)"

end
