(* ===== verification/Replacement_Index.thy ===== *)
theory Replacement_Index
  imports Replacement_Entries
begin

text \<open>
  What the seven indices of the provider mean. Four of them file table positions under a key;
  they share one contract, stated as the locale \<open>entry_index\<close> and interpreted on each of
  them, which gives that a bucket lists exactly the positions whose entry has that key, in
  table order. The exact sampled index keeps one position per key, the most preferred one;
  the duplicate index counts the others; the ordered-surface index keeps sorted selectors.
\<close>

section \<open>Indices that file every position\<close>

lemma entries_setters [simp]:
  "entries default_provider = []" "entries (set_enabled p b) = entries p"
  "entries (trim_to_budget p n) = entries p"
  by (simp_all add: default_provider_def set_enabled_def trim_to_budget_def)

locale entry_index =
  fixes key_of :: "entry \<Rightarrow> 'k option"
    and idx :: "provider \<Rightarrow> ('k \<times> nat list) list"
  assumes idx_default: "idx default_provider = []"
    and idx_clear: "idx (clear_provider p) = []"
    and idx_set_enabled: "idx (set_enabled p b) = idx p"
    and idx_trim: "idx (trim_to_budget p n) = idx p"
    and idx_dir: "idx (p\<lparr>cache_dir := d\<rparr>) = idx p"
    and idx_add: "idx (add_entry p e) =
      (case key_of e of None \<Rightarrow> idx p | Some k \<Rightarrow> index_push (idx p) k (length (entries p)))"
begin

definition positions :: "entry list \<Rightarrow> 'k \<Rightarrow> nat list" where
  "positions es k = filter (\<lambda>i. key_of (es ! i) = Some k) [0..<length es]"

lemma positions_snoc:
  "positions (es @ [e]) k = positions es k @ (if key_of e = Some k then [length es] else [])"
proof -
  have "filter (\<lambda>i. key_of ((es @ [e]) ! i) = Some k) [0..<length es] = positions es k"
    unfolding positions_def by (rule filter_cong) (auto simp: nth_append)
  then show ?thesis by (simp add: positions_def)
qed

lemma bucket_positions: "provider_built p \<Longrightarrow> bucket (idx p) k = positions (entries p) k"
proof (induction rule: provider_built.induct)
  case (added p e)
  then show ?case by (auto simp: idx_add positions_snoc split: option.splits)
qed (simp_all add: idx_default idx_clear idx_set_enabled idx_trim idx_dir positions_def)

lemma map_of_idx_nonempty: "provider_built p \<Longrightarrow> map_of (idx p) k = Some is \<Longrightarrow> is \<noteq> []"
proof (induction arbitrary: "is" rule: provider_built.induct)
  case (added p e)
  then show ?case by (auto simp: idx_add map_of_index_push split: option.splits if_splits)
qed (auto simp: idx_default idx_clear idx_set_enabled idx_trim idx_dir)

lemma map_of_idx_iff:
  assumes "provider_built p"
  shows "map_of (idx p) k =
    (if positions (entries p) k = [] then None else Some (positions (entries p) k))"
  using bucket_positions [OF assms, of k] map_of_idx_nonempty [OF assms, of k]
  by (auto simp: bucket_def split: option.splits)

text \<open>The entries a bucket refers to are the filtered table.\<close>

lemma bucket_entries:
  assumes "provider_built p"
  shows "map ((!) (entries p)) (bucket (idx p) k) = filter (\<lambda>e. key_of e = Some k) (entries p)"
proof -
  have "map ((!) es) (positions es k) = filter (\<lambda>e. key_of e = Some k) es" for es
  proof (induction es rule: rev_induct)
    case (snoc e es)
    have "map ((!) (es @ [e])) (positions es k) = map ((!) es) (positions es k)"
      by (rule map_cong) (auto simp: positions_def nth_append)
    with snoc show ?case by (simp add: positions_snoc)
  qed (simp add: positions_def)
  with bucket_positions [OF assms] show ?thesis by simp
qed

lemma map_of_idx_entries:
  assumes "provider_built p" "\<And>e. key_of e = Some k \<longleftrightarrow> P e"
  shows "map_option (map ((!) (entries p))) (map_of (idx p) k) =
    (if filter P (entries p) = [] then None else Some (filter P (entries p)))"
  using bucket_entries [OF assms(1), of k] map_of_idx_nonempty [OF assms(1), of k] assms(2)
  by (auto simp: bucket_def split: option.splits)

lemma bucket_in_range: "provider_built p \<Longrightarrow> i \<in> set (bucket (idx p) k) \<Longrightarrow> i < length (entries p)"
  by (auto simp: bucket_positions positions_def)

end

definition native_key :: "entry \<Rightarrow> u64 option" where
  "native_key e = (if has_native_sampled_identity e then Some (e_checksum64 e) else None)"

definition compat_key :: "entry \<Rightarrow> u64 option" where
  "compat_key e = (if has_native_sampled_identity e then None else Some (e_checksum64 e))"

definition low32_key :: "entry \<Rightarrow> u32 option" where
  "low32_key e =
     (if has_native_sampled_identity e then None else Some (checksum_low32 (e_checksum64 e)))"

definition family_key :: "entry \<Rightarrow> sampled_family_lookup_key option" where
  "family_key e = (if has_native_sampled_identity e then Some (entry_family_key e) else None)"

lemmas index_key_defs = native_key_def compat_key_def low32_key_def family_key_def

lemmas provider_op_defs =
  default_provider_def clear_provider_def set_enabled_def trim_to_budget_def add_entry_def Let_def

interpretation native_idx: entry_index native_key native_checksum_index
  by unfold_locales (simp_all add: provider_op_defs native_key_def)

interpretation compat_idx: entry_index compat_key compat_checksum_index
  by unfold_locales (simp_all add: provider_op_defs compat_key_def)

interpretation low32_idx: entry_index low32_key compat_checksum_low32_index
  by unfold_locales (simp_all add: provider_op_defs low32_key_def)

interpretation family_idx: entry_index family_key sampled_family_index
  by unfold_locales (simp_all add: provider_op_defs family_key_def)

section \<open>The preference is a linear preorder\<close>

text \<open>
  The cascade of comparisons is one lexicographic comparison of a rank, in which a missing
  string ranks behind every present one.
\<close>

definition string_rank :: "string \<Rightarrow> bool \<times> string" where
  "string_rank s = (s = [], s)"

definition entry_rank ::
    "entry \<Rightarrow> (bool \<times> string) \<times> (bool \<times> string) \<times> u32 \<times> u32 \<times> u32 \<times> nat \<times> bytes" where
  "entry_rank e =
     (string_rank (phrb_replacement_id e), string_rank (source_path e), e_width e, e_height e,
      data_size e, length (blob e), blob e)"

lemma compare_string_pref_rank:
  "compare_string_pref a b < 0 \<longleftrightarrow> string_rank a < string_rank b"
  "compare_string_pref a b = 0 \<longleftrightarrow> string_rank a = string_rank b"
  by (auto simp: compare_string_pref_def string_rank_def less_prod_def')

lemma compare_uint32_rank:
  "compare_uint32 a b < 0 \<longleftrightarrow> a < b" "compare_uint32 a b = 0 \<longleftrightarrow> a = b"
  by (auto simp: compare_uint32_def)

lemma prefer_sampled_duplicate_candidate_rank:
  "prefer_sampled_duplicate_candidate active candidate \<longleftrightarrow> entry_rank candidate < entry_rank active"
  by (auto simp: prefer_sampled_duplicate_candidate_def Let_def entry_rank_def less_prod_def'
      compare_string_pref_rank compare_uint32_rank not_less_iff_gr_or_eq split: if_splits)

section \<open>The exact sampled index\<close>


definition files_under :: "sampled_lookup_key \<Rightarrow> entry \<Rightarrow> bool" where
  "files_under k e \<longleftrightarrow> has_native_sampled_identity e \<and> entry_key e = k"

definition key_positions :: "entry list \<Rightarrow> sampled_lookup_key \<Rightarrow> nat list" where
  "key_positions es k = filter (\<lambda>i. files_under k (es ! i)) [0..<length es]"

lemma key_positions_snoc:
  "key_positions (es @ [e]) k = key_positions es k @ (if files_under k e then [length es] else [])"
proof -
  have "filter (\<lambda>i. files_under k ((es @ [e]) ! i)) [0..<length es] = key_positions es k"
    unfolding key_positions_def by (rule filter_cong) (auto simp: nth_append)
  then show ?thesis by (simp add: key_positions_def)
qed

lemma key_positions_range: "i \<in> set (key_positions es k) \<Longrightarrow> i < length es"
  by (simp add: key_positions_def)

text \<open>The reference scan: the first position of a key that no other position of it beats.\<close>

definition beats :: "entry list \<Rightarrow> nat \<Rightarrow> nat \<Rightarrow> nat" where
  "beats es a j = (if entry_rank (es ! j) < entry_rank (es ! a) then j else a)"

definition best_of :: "entry list \<Rightarrow> nat list \<Rightarrow> nat option" where
  "best_of es ps = (case ps of [] \<Rightarrow> None | i # is \<Rightarrow> Some (foldl (beats es) i is))"

lemma best_of_snoc:
  "best_of es (ps @ [j]) = (case best_of es ps of None \<Rightarrow> Some j | Some a \<Rightarrow> Some (beats es a j))"
  by (cases ps) (simp_all add: best_of_def)

lemma best_of_Nil [simp]: "best_of es [] = None"
  by (simp add: best_of_def)

lemma best_of_None [simp]: "best_of es ps = None \<longleftrightarrow> ps = []"
  by (simp add: best_of_def split: list.splits)

lemma best_of_prefix:
  "\<forall>i \<in> set ps. i < length es \<Longrightarrow> best_of (es @ zs) ps = best_of es ps"
proof (induction ps rule: rev_induct)
  case (snoc j ps)
  have "a \<in> set ps" if "best_of es ps = Some a" for a
    using that
  proof (induction ps arbitrary: a rule: rev_induct)
    case (snoc x xs)
    then show ?case by (auto simp: best_of_snoc beats_def split: option.splits if_splits)
  qed (simp add: best_of_def)
  with snoc show ?case
    by (auto simp: best_of_snoc beats_def nth_append split: option.splits)
qed (simp add: best_of_def)

lemma best_of_minimal:
  assumes "best_of es ps = Some i" "sorted_wrt (<) ps"
  shows "i \<in> set ps"
    and "\<forall>j \<in> set ps. entry_rank (es ! i) \<le> entry_rank (es ! j)"
    and "\<forall>j \<in> set ps. j < i \<longrightarrow> entry_rank (es ! i) < entry_rank (es ! j)"
proof -
  have "i \<in> set ps \<and> (\<forall>j \<in> set ps. entry_rank (es ! i) \<le> entry_rank (es ! j)) \<and>
      (\<forall>j \<in> set ps. j < i \<longrightarrow> entry_rank (es ! i) < entry_rank (es ! j))"
    using assms
  proof (induction ps arbitrary: i rule: rev_induct)
    case Nil
    then show ?case by (simp add: best_of_def)
  next
    case (snoc j ps)
    show ?case
    proof (cases "best_of es ps")
      case None
      with snoc show ?thesis by (auto simp: best_of_snoc)
    next
      case (Some a)
      with snoc have h: "a \<in> set ps" "\<forall>j \<in> set ps. entry_rank (es ! a) \<le> entry_rank (es ! j)"
        "\<forall>j \<in> set ps. j < a \<longrightarrow> entry_rank (es ! a) < entry_rank (es ! j)" "a < j" "i = beats es a j"
        by (auto simp: sorted_wrt_append best_of_snoc)
      show ?thesis
      proof (cases "entry_rank (es ! j) < entry_rank (es ! a)")
        case True
        with h show ?thesis by (auto simp: beats_def intro: less_le_trans less_imp_le)
      next
        case False
        with h show ?thesis by (auto simp: beats_def)
      qed
    qed
  qed
  then show "i \<in> set ps" "\<forall>j \<in> set ps. entry_rank (es ! i) \<le> entry_rank (es ! j)"
    "\<forall>j \<in> set ps. j < i \<longrightarrow> entry_rank (es ! i) < entry_rank (es ! j)"
    by blast+
qed

lemma sorted_key_positions: "sorted_wrt (<) (key_positions es k)"
  by (simp add: key_positions_def sorted_wrt_filter)

lemma sampled_index_setters:
  "sampled_index default_provider = []" "sampled_index (clear_provider p) = []"
  "sampled_index (set_enabled p b) = sampled_index p"
  "sampled_index (trim_to_budget p n) = sampled_index p"
  "sampled_duplicate_index default_provider = []" "sampled_duplicate_index (clear_provider p) = []"
  "sampled_duplicate_index (set_enabled p b) = sampled_duplicate_index p"
  "sampled_duplicate_index (trim_to_budget p n) = sampled_duplicate_index p"
  "ordered_surface_selectors default_provider = []" "ordered_surface_selectors (clear_provider p) = []"
  "ordered_surface_selectors (set_enabled p b) = ordered_surface_selectors p"
  "ordered_surface_selectors (trim_to_budget p n) = ordered_surface_selectors p"
  by (simp_all add: provider_op_defs)

lemma best_of_in: "best_of es (key_positions es k) = Some i \<Longrightarrow> i \<in> set (key_positions es k)"
  using best_of_minimal(1) [OF _ sorted_key_positions] .

lemma sampled_index_best:
  "provider_built p \<Longrightarrow> map_of (sampled_index p) k = best_of (entries p) (key_positions (entries p) k)"
proof (induction arbitrary: k rule: provider_built.induct)
  case (added p e)
  have ih: "map_of (sampled_index p) k = best_of (entries p @ [e]) (key_positions (entries p) k)" for k
    using added best_of_prefix [of "key_positions (entries p) k" "entries p" "[e]"]
    by (auto simp: key_positions_range)
  show ?case
    by (auto simp: add_entry_def Let_def key_positions_snoc files_under_def ih best_of_snoc
        sampled_index_insert_def update_conv' beats_def prefer_sampled_duplicate_candidate_rank
        split: option.splits)
qed (simp_all add: sampled_index_setters key_positions_def best_of_def)

lemma sampled_duplicate_count:
  "provider_built p \<Longrightarrow> map_of (sampled_duplicate_index p) k =
     (let n = length (key_positions (entries p) k)
      in if n \<le> 1 then None else Some (of_nat (n - 1)))"
proof (induction arbitrary: k rule: provider_built.induct)
  case (added p e)
  have "map_of (sampled_index p) (entry_key e) = None \<longleftrightarrow> key_positions (entries p) (entry_key e) = []"
    using sampled_index_best [OF added.hyps] by simp
  with added.IH show ?case
    by (cases "length (key_positions (entries p) (entry_key e))")
      (auto simp: add_entry_def Let_def key_positions_snoc files_under_def
        sampled_duplicate_insert_def update_conv' split: option.splits)
qed (simp_all add: sampled_index_setters key_positions_def)

section \<open>The ordered-surface selectors\<close>

lemma append_unique_selector:
  assumes "sorted xs" "distinct xs"
  shows "sorted (append_unique_ordered_surface_selector xs s)"
    and "distinct (append_unique_ordered_surface_selector xs s)"
    and "set (append_unique_ordered_surface_selector xs s) = insert s (set xs)"
  using assms by (auto simp: append_unique_ordered_surface_selector_def)

definition ordered_selector_set :: "entry list \<Rightarrow> u64 \<Rightarrow> u64 set" where
  "ordered_selector_set es k =
     {e_selector e | e. e \<in> set es \<and> is_ordered_surface_selector (e_selector e) \<and> entry_ordered_key e = k}"

lemma ordered_selector_set_snoc:
  "ordered_selector_set (es @ [e]) k =
     (if is_ordered_surface_selector (e_selector e) \<and> entry_ordered_key e = k
      then insert (e_selector e) (ordered_selector_set es k) else ordered_selector_set es k)"
  by (auto simp: ordered_selector_set_def)

lemma bucket_update: "bucket (AList.update k xs idx) k' = (if k' = k then xs else bucket idx k')"
  by (simp add: bucket_def update_conv')

lemma ordered_selectors_exact:
  "provider_built p \<Longrightarrow>
     sorted (bucket (ordered_surface_selectors p) k) \<and> distinct (bucket (ordered_surface_selectors p) k) \<and>
     set (bucket (ordered_surface_selectors p) k) = ordered_selector_set (entries p) k"
proof (induction arbitrary: k rule: provider_built.induct)
  case (added p e)
  then show ?case
    by (auto simp: add_entry_def Let_def ordered_selector_set_snoc bucket_update
        append_unique_selector)
qed (simp_all add: sampled_index_setters ordered_selector_set_def)

end
