(* ===== verification/Replacement_Lookup.thy ===== *)
theory Replacement_Lookup
  imports Replacement_Index
begin

text \<open>
  The lookups of \<open>ReplacementProvider\<close> (\<open>texture_replacement.cpp\<close>): by checksum, by
  sampled signature, by sampled family and by the low half of a CI checksum, and the
  resolution functions that try them in order.

  A lookup that answers \<open>bool\<close> and writes to out-pointers is a function to an \<open>option\<close>
  whose value holds what is written; a null main out-pointer, which the code answers with
  \<open>false\<close> before anything else, is a call nobody makes here, and an optional out-pointer that
  is null is a component the caller ignores. A pointer into the table is the entry it points to.
\<close>

section \<open>Results\<close>

record replacement_meta =
  repl_w :: u32
  repl_h :: u32
  orig_w :: u32
  orig_h :: u32
  vk_image_index :: u32
  has_mips :: bool
  srgb :: bool

record native_sampled_identity =
  id_valid :: bool
  id_sig :: sampled_sig
  id_formatsize :: u16
  id_selector_checksum64 :: u64

datatype resolved_entry_source_class = UnknownSource | NativeSource | CompatSource

datatype ci_low32_mode = SelectedDims | ReplacementDimsUnique | Unique | Any

datatype resolution_kind =
  NoResolution | SampledExactSelector | SampledOrderedSurfaceReservedSelector
  | SampledFamilySingleton | ExactNativeSampled | GenericNativeIdentity | GenericNativeChecksum
  | GenericCompat | CILow32SelectedDims | CILow32ReplacementDimsUnique | CILow32Unique | CILow32Any

record replacement_resolution =
  available :: bool
  kind :: resolution_kind
  meta :: replacement_meta
  identity :: native_sampled_identity
  source_class :: resolved_entry_source_class
  resolved_checksum64 :: u64
  resolved_selector_checksum64 :: u64
  ordered_surface_singleton :: bool
  matched_preferred_palette :: bool

definition populate_meta_from_entry :: "entry \<Rightarrow> replacement_meta" where
  "populate_meta_from_entry e =
     \<lparr>repl_w = e_width e, repl_h = e_height e, orig_w = 0, orig_h = 0,
      vk_image_index = 0xffffffff, has_mips = False, srgb = False\<rparr>"

definition populate_identity_from_entry :: "entry \<Rightarrow> native_sampled_identity" where
  "populate_identity_from_entry e =
     \<lparr>id_valid = has_native_sampled_identity e, id_sig = e_sig e,
      id_formatsize = e_formatsize e, id_selector_checksum64 = e_selector e\<rparr>"

definition source_class_of :: "entry \<Rightarrow> resolved_entry_source_class" where
  "source_class_of e = (if has_native_sampled_identity e then NativeSource else CompatSource)"

definition populate_resolution_from_entry ::
    "entry \<Rightarrow> resolution_kind \<Rightarrow> bool \<Rightarrow> replacement_resolution" where
  "populate_resolution_from_entry e k singleton =
     \<lparr>available = True, kind = k, meta = populate_meta_from_entry e,
      identity = populate_identity_from_entry e, source_class = source_class_of e,
      resolved_checksum64 = e_checksum64 e, resolved_selector_checksum64 = e_selector e,
      ordered_surface_singleton = singleton, matched_preferred_palette = False\<rparr>"

section \<open>Finding entries\<close>

definition entries_at :: "provider \<Rightarrow> nat list \<Rightarrow> entry list" where
  "entries_at p is = map ((!) (entries p)) is"

definition find_matching :: "entry list \<Rightarrow> u16 \<Rightarrow> u64 \<Rightarrow> entry option" where
  "find_matching es formatsize selector =
     find_last (\<lambda>e. e_formatsize e = formatsize \<and> e_selector e = selector) es"

definition find_indexed_entry ::
    "provider \<Rightarrow> (u64 \<times> nat list) list \<Rightarrow> u64 \<Rightarrow> u16 \<Rightarrow> u64 \<Rightarrow> entry option" where
  "find_indexed_entry p index_map checksum formatsize selector =
     (case map_of index_map checksum of
        None \<Rightarrow> None
      | Some indices \<Rightarrow>
          let es = entries_at p indices in
          or_else (if selector \<noteq> 0
                   then or_else (find_matching es formatsize selector) (find_matching es 0 selector)
                   else None)
         (or_else (find_matching es formatsize 0)
         (or_else (find_matching es 0 0)
                  (if selector = 0 \<and> formatsize = 0 \<and> es \<noteq> [] then Some (last es) else None))))"

definition find_native_entry :: "provider \<Rightarrow> u64 \<Rightarrow> u16 \<Rightarrow> u64 \<Rightarrow> entry option" where
  "find_native_entry p checksum formatsize selector =
     find_indexed_entry p (native_checksum_index p) checksum formatsize selector"

definition find_compat_entry :: "provider \<Rightarrow> u64 \<Rightarrow> u16 \<Rightarrow> u64 \<Rightarrow> entry option" where
  "find_compat_entry p checksum formatsize selector =
     find_indexed_entry p (compat_checksum_index p) checksum formatsize selector"

definition find_any_entry :: "provider \<Rightarrow> u64 \<Rightarrow> u16 \<Rightarrow> u64 \<Rightarrow> entry option" where
  "find_any_entry p checksum formatsize selector =
     or_else (find_native_entry p checksum formatsize selector)
             (find_compat_entry p checksum formatsize selector)"

definition find_sampled_key :: "provider \<Rightarrow> sampled_sig \<Rightarrow> u16 \<Rightarrow> u64 \<Rightarrow> entry option" where
  "find_sampled_key p sg formatsize selector =
     map_option ((!) (entries p))
       (map_of (sampled_index p) (make_sampled_lookup_key sg formatsize selector))"

definition find_sampled_entry :: "provider \<Rightarrow> sampled_sig \<Rightarrow> u16 \<Rightarrow> u64 \<Rightarrow> entry option" where
  "find_sampled_entry p sg formatsize selector =
     or_else (if selector \<noteq> 0
              then or_else (find_sampled_key p sg formatsize selector)
                           (find_sampled_key p sg 0 selector)
              else None)
    (or_else (find_sampled_key p sg formatsize 0) (find_sampled_key p sg 0 0))"

definition find_family :: "provider \<Rightarrow> sampled_sig \<Rightarrow> u16 \<Rightarrow> nat list option" where
  "find_family p sg formatsize =
     map_of (sampled_family_index p) (make_sampled_family_lookup_key sg formatsize)"

text \<open>
  The result of \<open>find_singleton_sampled_family_entry\<close>: the entry, the selector it resolved
  to and whether that is an ordered-surface selector.
\<close>

definition find_singleton_sampled_family_entry ::
    "provider \<Rightarrow> sampled_sig \<Rightarrow> u16 \<Rightarrow> bool \<Rightarrow> (entry \<times> u64 \<times> bool) option" where
  "find_singleton_sampled_family_entry p sg formatsize allow_ordered_surface_selectors =
     (case or_else (find_family p sg formatsize) (find_family p sg 0) of
        None \<Rightarrow> None
      | Some active_family \<Rightarrow>
          let unique_selectors = foldl push_unique [] (map e_selector (entries_at p active_family)) in
          if length unique_selectors \<noteq> 1 then None else
          let selected = hd unique_selectors;
              singleton = (selected \<noteq> 0 \<and> is_ordered_surface_selector selected) in
          if singleton \<and> \<not> allow_ordered_surface_selectors then None else
          map_option (\<lambda>e. (e, selected, singleton)) (find_sampled_entry p sg formatsize selected))"

definition find_unique_sampled_family_entry ::
    "provider \<Rightarrow> sampled_sig \<Rightarrow> u16 \<Rightarrow> (entry \<times> u64) option" where
  "find_unique_sampled_family_entry p sg formatsize =
     map_option (\<lambda>(e, s, _). (e, s)) (find_singleton_sampled_family_entry p sg formatsize False)"

section \<open>CI textures by the low half of the checksum\<close>

definition dims_unique_step :: "entry option \<Rightarrow> entry \<Rightarrow> entry option option" where
  "dims_unique_step selected e =
     (case selected of
        None \<Rightarrow> Some (Some e)
      | Some s \<Rightarrow> if e_width e \<noteq> e_width s \<or> e_height e \<noteq> e_height s then None else Some selected)"

text \<open>The loop that remembers the first entry it meets and gives up on a different size.\<close>

fun dims_unique_loop :: "u16 \<Rightarrow> entry option \<Rightarrow> entry list \<Rightarrow> entry option" where
  "dims_unique_loop formatsize selected [] = selected"
| "dims_unique_loop formatsize selected (e # es) =
     (if e_formatsize e \<noteq> formatsize then dims_unique_loop formatsize selected es
      else case dims_unique_step selected e of
             None \<Rightarrow> None
           | Some selected' \<Rightarrow> dims_unique_loop formatsize selected' es)"

definition pick_dims_unique :: "entry list \<Rightarrow> u16 \<Rightarrow> entry option" where
  "pick_dims_unique es formatsize = dims_unique_loop formatsize None (rev es)"

definition collect_unique_checksums :: "entry list \<Rightarrow> u16 \<Rightarrow> u64 list \<Rightarrow> u64 list" where
  "collect_unique_checksums es formatsize unique =
     foldl push_unique unique (map e_checksum64 (filter (\<lambda>e. e_formatsize e = formatsize) es))"

definition pick_palette :: "entry list \<Rightarrow> u16 \<Rightarrow> u32 \<Rightarrow> entry option" where
  "pick_palette es formatsize palette_crc_or_any =
     find_last (\<lambda>e. e_formatsize e = formatsize \<and>
         \<not> (palette_crc_or_any \<noteq> 0 \<and> checksum_palette_crc (e_checksum64 e) \<noteq> palette_crc_or_any)) es"

definition pick_dims :: "entry list \<Rightarrow> u16 \<Rightarrow> u32 \<Rightarrow> u32 \<Rightarrow> entry option" where
  "pick_dims es formatsize w h =
     find_last (\<lambda>e. e_formatsize e = formatsize \<and> e_width e = w \<and> e_height e = h) es"

definition pick_unique :: "provider \<Rightarrow> entry list \<Rightarrow> u16 \<Rightarrow> entry option" where
  "pick_unique p es formatsize =
     (let unique = collect_unique_checksums es formatsize [];
          unique = (if unique = [] then collect_unique_checksums es 0 unique else unique)
      in if length unique \<noteq> 1 then None else find_compat_entry p (hd unique) formatsize 0)"

definition pick_any :: "entry list \<Rightarrow> u16 \<Rightarrow> u32 \<Rightarrow> (entry \<times> bool) option" where
  "pick_any es formatsize preferred_palette_crc =
     (let preferred =
            (if preferred_palette_crc \<noteq> 0
             then or_else (pick_palette es formatsize preferred_palette_crc)
                          (pick_palette es 0 preferred_palette_crc)
             else None)
      in case preferred of
           Some e \<Rightarrow> Some (e, True)
         | None \<Rightarrow> map_option (\<lambda>e. (e, False))
                     (or_else (pick_palette es formatsize 0) (pick_palette es 0 0)))"

definition find_ci_low32_entry ::
    "provider \<Rightarrow> u32 \<Rightarrow> u16 \<Rightarrow> u32 \<Rightarrow> u32 \<Rightarrow> u32 \<Rightarrow> ci_low32_mode \<Rightarrow> (entry \<times> bool) option" where
  "find_ci_low32_entry p low32 formatsize preferred_palette_crc w h mode =
     (if \<not> enabled p then None else
      case map_of (compat_checksum_low32_index p) low32 of
        None \<Rightarrow> None
      | Some indices \<Rightarrow>
          let es = entries_at p indices in
          case mode of
            SelectedDims \<Rightarrow>
              map_option (\<lambda>e. (e, False)) (or_else (pick_dims es formatsize w h) (pick_dims es 0 w h))
          | ReplacementDimsUnique \<Rightarrow>
              map_option (\<lambda>e. (e, False))
                (or_else (pick_dims_unique es formatsize) (pick_dims_unique es 0))
          | Unique \<Rightarrow> map_option (\<lambda>e. (e, False)) (pick_unique p es formatsize)
          | Any \<Rightarrow> pick_any es formatsize preferred_palette_crc)"

section \<open>Lookups\<close>

definition lookup_with_selector :: "provider \<Rightarrow> u64 \<Rightarrow> u16 \<Rightarrow> u64 \<Rightarrow> replacement_meta option" where
  "lookup_with_selector p checksum formatsize selector =
     (if \<not> enabled p then None
      else map_option populate_meta_from_entry (find_any_entry p checksum formatsize selector))"

definition lookup :: "provider \<Rightarrow> u64 \<Rightarrow> u16 \<Rightarrow> replacement_meta option" where
  "lookup p checksum formatsize = lookup_with_selector p checksum formatsize 0"

definition probe_lookup :: "provider \<Rightarrow> u32 \<Rightarrow> u32 \<Rightarrow> u16 \<Rightarrow> replacement_meta option" where
  "probe_lookup p texture_crc palette_crc formatsize =
     lookup p (compose_hires_checksum64 texture_crc palette_crc) formatsize"

definition ordered_surface_selector_count :: "provider \<Rightarrow> u32 \<Rightarrow> u32 \<Rightarrow> u16 \<Rightarrow> u32" where
  "ordered_surface_selector_count p texture_crc palette_crc formatsize =
     (case map_of (ordered_surface_selectors p)
            (compose_ordered_surface_index_key (compose_hires_checksum64 texture_crc palette_crc) formatsize) of
        None \<Rightarrow> 0
      | Some sels \<Rightarrow> of_nat (length sels))"

definition ordered_surface_selector_checksum64 ::
    "provider \<Rightarrow> u32 \<Rightarrow> u32 \<Rightarrow> u16 \<Rightarrow> u32 \<Rightarrow> u64" where
  "ordered_surface_selector_checksum64 p texture_crc palette_crc formatsize selector_index =
     (case map_of (ordered_surface_selectors p)
            (compose_ordered_surface_index_key (compose_hires_checksum64 texture_crc palette_crc) formatsize) of
        None \<Rightarrow> 0
      | Some sels \<Rightarrow> if length sels \<le> unat selector_index then 0 else sels ! unat selector_index)"

definition lookup_with_selector_and_identity ::
    "provider \<Rightarrow> u64 \<Rightarrow> u16 \<Rightarrow> u64 \<Rightarrow>
     (replacement_meta \<times> native_sampled_identity \<times> resolved_entry_source_class \<times> u64 \<times> u64) option" where
  "lookup_with_selector_and_identity p checksum formatsize selector =
     (if \<not> enabled p then None
      else map_option (\<lambda>e. (populate_meta_from_entry e, populate_identity_from_entry e,
                            source_class_of e, e_checksum64 e, e_selector e))
             (find_any_entry p checksum formatsize selector))"

definition lookup_native_with_selector ::
    "provider \<Rightarrow> u64 \<Rightarrow> u16 \<Rightarrow> u64 \<Rightarrow> (replacement_meta \<times> native_sampled_identity \<times> u64) option" where
  "lookup_native_with_selector p checksum formatsize selector =
     (if \<not> enabled p then None
      else map_option (\<lambda>e. (populate_meta_from_entry e, populate_identity_from_entry e, e_checksum64 e))
             (find_native_entry p checksum formatsize selector))"

definition lookup_compat_with_selector ::
    "provider \<Rightarrow> u64 \<Rightarrow> u16 \<Rightarrow> u64 \<Rightarrow> replacement_meta option" where
  "lookup_compat_with_selector p checksum formatsize selector =
     (if \<not> enabled p then None
      else map_option populate_meta_from_entry (find_compat_entry p checksum formatsize selector))"

definition lookup_sampled_with_selector ::
    "provider \<Rightarrow> sampled_sig \<Rightarrow> u16 \<Rightarrow> u64 \<Rightarrow> (replacement_meta \<times> u64) option" where
  "lookup_sampled_with_selector p sg formatsize selector =
     (if \<not> enabled p then None
      else map_option (\<lambda>e. (populate_meta_from_entry e, e_checksum64 e))
             (find_sampled_entry p sg formatsize selector))"

definition lookup_sampled_family_unique ::
    "provider \<Rightarrow> sampled_sig \<Rightarrow> u16 \<Rightarrow> (replacement_meta \<times> u64 \<times> u64) option" where
  "lookup_sampled_family_unique p sg formatsize =
     (if \<not> enabled p then None
      else map_option (\<lambda>(e, s). (populate_meta_from_entry e, e_checksum64 e, s))
             (find_unique_sampled_family_entry p sg formatsize))"

definition lookup_sampled_family_singleton ::
    "provider \<Rightarrow> sampled_sig \<Rightarrow> u16 \<Rightarrow> (replacement_meta \<times> u64 \<times> u64 \<times> bool) option" where
  "lookup_sampled_family_singleton p sg formatsize =
     (if \<not> enabled p then None
      else map_option (\<lambda>(e, s, b). (populate_meta_from_entry e, e_checksum64 e, s, b))
             (find_singleton_sampled_family_entry p sg formatsize True))"

definition lookup_ci_low32_unique :: "provider \<Rightarrow> u32 \<Rightarrow> u16 \<Rightarrow> (replacement_meta \<times> u64) option" where
  "lookup_ci_low32_unique p low32 formatsize =
     (if \<not> enabled p then None
      else map_option (\<lambda>(e, _). (populate_meta_from_entry e, e_checksum64 e))
             (find_ci_low32_entry p low32 formatsize 0 0 0 Unique))"

definition lookup_ci_low32_repl_dims_unique ::
    "provider \<Rightarrow> u32 \<Rightarrow> u16 \<Rightarrow> (replacement_meta \<times> u64) option" where
  "lookup_ci_low32_repl_dims_unique p low32 formatsize =
     (if \<not> enabled p then None
      else map_option (\<lambda>(e, _). (populate_meta_from_entry e, e_checksum64 e))
             (find_ci_low32_entry p low32 formatsize 0 0 0 ReplacementDimsUnique))"

definition lookup_ci_low32_selected_dims ::
    "provider \<Rightarrow> u32 \<Rightarrow> u16 \<Rightarrow> u32 \<Rightarrow> u32 \<Rightarrow> (replacement_meta \<times> u64) option" where
  "lookup_ci_low32_selected_dims p low32 formatsize w h =
     (if \<not> enabled p then None
      else map_option (\<lambda>(e, _). (populate_meta_from_entry e, e_checksum64 e))
             (find_ci_low32_entry p low32 formatsize 0 w h SelectedDims))"

definition lookup_ci_low32_any ::
    "provider \<Rightarrow> u32 \<Rightarrow> u16 \<Rightarrow> u32 \<Rightarrow> (replacement_meta \<times> u64 \<times> bool) option" where
  "lookup_ci_low32_any p low32 formatsize preferred_palette_crc =
     (if \<not> enabled p then None
      else map_option (\<lambda>(e, m). (populate_meta_from_entry e, e_checksum64 e, m))
             (find_ci_low32_entry p low32 formatsize preferred_palette_crc 0 0 Any))"

section \<open>Resolutions\<close>

definition resolve_upload_candidate ::
    "provider \<Rightarrow> u16 \<Rightarrow> sampled_sig \<Rightarrow> u64 \<Rightarrow> replacement_resolution option" where
  "resolve_upload_candidate p formatsize sg selector =
     (if \<not> enabled p then None else
      case find_singleton_sampled_family_entry p sg formatsize True of
        Some (e, _, singleton) \<Rightarrow> Some (populate_resolution_from_entry e SampledFamilySingleton singleton)
      | None \<Rightarrow>
      (case find_sampled_entry p sg formatsize selector of
         Some e \<Rightarrow> Some (populate_resolution_from_entry e SampledExactSelector False)
       | None \<Rightarrow>
           let checksum = compose_hires_checksum64 (sampled_low32 sg) (sampled_palette_crc sg) in
           (case find_native_entry p checksum formatsize selector of
              Some e \<Rightarrow> Some (populate_resolution_from_entry e ExactNativeSampled False)
            | None \<Rightarrow>
                map_option (\<lambda>e. populate_resolution_from_entry e GenericCompat False)
                  (find_compat_entry p checksum formatsize selector))))"

definition resolve_sampled_candidate ::
    "provider \<Rightarrow> sampled_sig \<Rightarrow> u16 \<Rightarrow> u64 \<Rightarrow> replacement_resolution option" where
  "resolve_sampled_candidate p sg formatsize selector =
     (if \<not> enabled p then None else
      case find_sampled_entry p sg formatsize selector of
        Some e \<Rightarrow> Some (populate_resolution_from_entry e SampledExactSelector False)
      | None \<Rightarrow>
          map_option (\<lambda>(e, _, singleton). populate_resolution_from_entry e SampledFamilySingleton singleton)
            (find_singleton_sampled_family_entry p sg formatsize True))"

definition resolve_reserved_ordered_surface_candidate ::
    "provider \<Rightarrow> sampled_sig \<Rightarrow> u16 \<Rightarrow> u64 \<Rightarrow> replacement_resolution option" where
  "resolve_reserved_ordered_surface_candidate p sg formatsize selector =
     (if \<not> enabled p \<or> \<not> is_ordered_surface_selector selector then None else
      map_option (\<lambda>e. populate_resolution_from_entry e SampledOrderedSurfaceReservedSelector False)
        (find_sampled_entry p sg formatsize selector))"

fun ci_low32_kind :: "ci_low32_mode \<Rightarrow> resolution_kind" where
  "ci_low32_kind SelectedDims = CILow32SelectedDims"
| "ci_low32_kind ReplacementDimsUnique = CILow32ReplacementDimsUnique"
| "ci_low32_kind Unique = CILow32Unique"
| "ci_low32_kind Any = CILow32Any"

definition resolve_ci_low32_candidate ::
    "provider \<Rightarrow> u32 \<Rightarrow> u16 \<Rightarrow> u32 \<Rightarrow> u32 \<Rightarrow> u32 \<Rightarrow> ci_low32_mode \<Rightarrow> replacement_resolution option" where
  "resolve_ci_low32_candidate p low32 formatsize preferred_palette_crc w h mode =
     (if \<not> enabled p then None else
      map_option (\<lambda>(e, m). (populate_resolution_from_entry e (ci_low32_kind mode) False)
                            \<lparr>matched_preferred_palette := m\<rparr>)
        (find_ci_low32_entry p low32 formatsize preferred_palette_crc w h mode))"

end
