(* ===== verification/Replacement_Spec.thy ===== *)
theory Replacement_Spec
  imports Replacement_Lookup
begin

text \<open>
  What the lookups promise, stated on the plain table of entries without any index: scans of
  the list of entries in loading order. The refinement lemmas show that on every provider the
  program can build, the indexed lookups answer as the scans do.
\<close>

section \<open>The specification\<close>

definition native_with :: "u64 \<Rightarrow> entry \<Rightarrow> bool" where
  "native_with checksum e \<longleftrightarrow> has_native_sampled_identity e \<and> e_checksum64 e = checksum"

definition compat_with :: "u64 \<Rightarrow> entry \<Rightarrow> bool" where
  "compat_with checksum e \<longleftrightarrow> \<not> has_native_sampled_identity e \<and> e_checksum64 e = checksum"

text \<open>The four acceptable (format/size, selector) pairs, the most specific first.\<close>

definition tiers :: "u16 \<Rightarrow> u64 \<Rightarrow> (u16 \<times> u64) list" where
  "tiers formatsize selector =
     (if selector = 0 then [] else [(formatsize, selector), (0, selector)]) @ [(formatsize, 0), (0, 0)]"

fun first_hit :: "('a \<Rightarrow> 'b option) \<Rightarrow> 'a list \<Rightarrow> 'b option" where
  "first_hit f [] = None"
| "first_hit f (x # xs) = or_else (f x) (first_hit f xs)"

definition has_tier :: "u16 \<times> u64 \<Rightarrow> entry \<Rightarrow> bool" where
  "has_tier t e \<longleftrightarrow> (e_formatsize e, e_selector e) = t"

text \<open>The latest entry of the best tier; a request without any restriction takes the latest.\<close>

definition spec_checksum :: "entry list \<Rightarrow> (entry \<Rightarrow> bool) \<Rightarrow> u16 \<Rightarrow> u64 \<Rightarrow> entry option" where
  "spec_checksum es P formatsize selector =
     or_else (first_hit (\<lambda>t. find_last (\<lambda>e. P e \<and> has_tier t e) es) (tiers formatsize selector))
             (if selector = 0 \<and> formatsize = 0 then find_last P es else None)"

text \<open>The entry of least rank among those filed under a key, the earliest of equals.\<close>

definition better :: "entry \<Rightarrow> entry \<Rightarrow> entry" where
  "better a b = (if entry_rank b < entry_rank a then b else a)"

definition preferred :: "entry list \<Rightarrow> entry option" where
  "preferred es = (case es of [] \<Rightarrow> None | e # r \<Rightarrow> Some (foldl better e r))"

definition spec_sampled :: "entry list \<Rightarrow> sampled_sig \<Rightarrow> u16 \<Rightarrow> u64 \<Rightarrow> entry option" where
  "spec_sampled es sg formatsize selector =
     first_hit (\<lambda>(f, s). preferred (filter (files_under (sg, f, s)) es)) (tiers formatsize selector)"

definition family :: "entry list \<Rightarrow> sampled_sig \<Rightarrow> u16 \<Rightarrow> entry list" where
  "family es sg formatsize =
     filter (\<lambda>e. has_native_sampled_identity e \<and> e_sig e = sg \<and> e_formatsize e = formatsize) es"

definition active_family :: "entry list \<Rightarrow> sampled_sig \<Rightarrow> u16 \<Rightarrow> entry list" where
  "active_family es sg formatsize =
     (if family es sg formatsize = [] then family es sg 0 else family es sg formatsize)"

text \<open>
  The singleton lookup: the one selector that all entries of the active family share, and the
  preferred entry of the family.
\<close>

definition spec_singleton ::
    "entry list \<Rightarrow> sampled_sig \<Rightarrow> u16 \<Rightarrow> bool \<Rightarrow> (entry \<times> u64 \<times> bool) option" where
  "spec_singleton es sg formatsize allow =
     (case active_family es sg formatsize of
        [] \<Rightarrow> None
      | e # r \<Rightarrow>
          let s = e_selector e; singleton = (s \<noteq> 0 \<and> is_ordered_surface_selector s) in
          if (\<forall>x \<in> set r. e_selector x = s) \<and> (singleton \<longrightarrow> allow)
          then Some (foldl better e r, s, singleton) else None)"

section \<open>Refinement of the finders\<close>

lemma find_last_filter: "find_last Q (filter P es) = find_last (\<lambda>e. P e \<and> Q e) es"
  by (induction es rule: rev_induct) auto

lemma last_filter: "(if filter P es = [] then None else Some (last (filter P es))) = find_last P es"
  by (induction es rule: rev_induct) auto

lemma last_filter': "filter P es \<noteq> [] \<Longrightarrow> Some (last (filter P es)) = find_last P es"
  using last_filter [of P es] by simp

lemma find_indexed_filter:
  assumes "map_option (map ((!) (entries p))) (map_of idx c) =
    (if filter P es = [] then None else Some (filter P es))"
  shows "find_indexed_entry p idx c formatsize selector = spec_checksum es P formatsize selector"
proof (cases "filter P es = []")
  case True
  have none: "find_last (\<lambda>e. P e \<and> Q e) es = None" for Q
    using True find_last_filter [of Q P es] by simp
  moreover have "find_last P es = None" using none [of "\<lambda>_. True"] by simp
  ultimately show ?thesis using assms True
    by (simp add: find_indexed_entry_def spec_checksum_def tiers_def)
next
  case False
  with assms obtain "is" where "map_of idx c = Some is" "entries_at p is = filter P es"
    by (auto simp: entries_at_def)
  with False show ?thesis
    by (simp add: find_indexed_entry_def spec_checksum_def tiers_def Let_def find_matching_def
        find_last_filter has_tier_def or_else_assoc last_filter')
qed

lemma find_native_entry_spec:
  "provider_built p \<Longrightarrow> find_native_entry p c formatsize selector =
     spec_checksum (entries p) (native_with c) formatsize selector"
  unfolding find_native_entry_def
  by (rule find_indexed_filter, rule native_idx.map_of_idx_entries)
    (auto simp: native_key_def native_with_def)

lemma find_compat_entry_spec:
  "provider_built p \<Longrightarrow> find_compat_entry p c formatsize selector =
     spec_checksum (entries p) (compat_with c) formatsize selector"
  unfolding find_compat_entry_def
  by (rule find_indexed_filter, rule compat_idx.map_of_idx_entries)
    (auto simp: compat_key_def compat_with_def)

lemma map_nth_key_positions:
  "map ((!) es) (key_positions es k) = filter (files_under k) es"
proof (induction es rule: rev_induct)
  case (snoc e es)
  have "map ((!) (es @ [e])) (key_positions es k) = map ((!) es) (key_positions es k)"
    by (rule map_cong) (auto dest: key_positions_range simp: nth_append)
  with snoc show ?case by (simp add: key_positions_snoc)
qed (simp add: key_positions_def)

lemma preferred_best_of: "map_option ((!) es) (best_of es ps) = preferred (map ((!) es) ps)"
proof -
  have "es ! foldl (beats es) i is = foldl better (es ! i) (map ((!) es) is)" for i "is"
    by (induction "is" arbitrary: i) (auto simp: beats_def better_def)
  then show ?thesis by (simp add: best_of_def preferred_def split: list.splits)
qed

lemma find_sampled_key_spec:
  "provider_built p \<Longrightarrow>
     find_sampled_key p sg f s = preferred (filter (files_under (sg, f, s)) (entries p))"
  by (simp add: find_sampled_key_def sampled_index_best preferred_best_of map_nth_key_positions
      lookup_key_defs)

lemma find_sampled_entry_spec:
  "provider_built p \<Longrightarrow> find_sampled_entry p sg f s = spec_sampled (entries p) sg f s"
  by (simp add: find_sampled_entry_def spec_sampled_def tiers_def find_sampled_key_spec or_else_assoc)

lemma find_family_spec:
  assumes "provider_built p"
  shows "map_option (entries_at p) (find_family p sg f) =
    (if family (entries p) sg f = [] then None else Some (family (entries p) sg f))"
proof -
  have eq: "entries_at p = map ((!) (entries p))" by (rule ext) (simp add: entries_at_def)
  show ?thesis
    unfolding find_family_def lookup_key_defs family_def eq
    by (rule family_idx.map_of_idx_entries [OF assms])
      (auto simp: family_key_def entry_family_key_def lookup_key_defs)
qed

lemma find_active_family:
  assumes "provider_built p"
  shows "map_option (entries_at p) (or_else (find_family p sg f) (find_family p sg 0)) =
    (if active_family (entries p) sg f = [] then None else Some (active_family (entries p) sg f))"
  using find_family_spec [OF assms, of sg f] find_family_spec [OF assms, of sg 0]
  by (cases "find_family p sg f") (auto simp: active_family_def split: if_splits)

lemma foldl_push_unique_singleton:
  "length (foldl push_unique [] (x # xs)) = 1 \<longleftrightarrow> (\<forall>y \<in> set xs. y = x)"
proof -
  have "length (foldl push_unique [] (x # xs)) = card (insert x (set xs))"
    using length_foldl_push_unique [of "x # xs"] by simp
  moreover have "card (insert x (set xs)) = 1 \<longleftrightarrow> (\<forall>y \<in> set xs. y = x)"
    by (auto simp: card_1_singleton_iff)
  ultimately show ?thesis by simp
qed

lemma hd_foldl_push_unique: "acc \<noteq> [] \<Longrightarrow> hd (foldl push_unique acc xs) = hd acc"
  by (induction xs arbitrary: acc) (auto simp: push_unique_def)

text \<open>
  The entries filed under the shared selector are the whole family, so the exact lookup that
  ends the singleton search always answers, and answers the family's preferred entry.
\<close>

lemma family_files_under:
  assumes "\<forall>x \<in> set (family es sg f). e_selector x = s"
  shows "filter (files_under (sg, f, s)) es = family es sg f"
  unfolding family_def using assms
  by (intro filter_cong) (auto simp: files_under_def entry_key_def lookup_key_defs family_def)

lemma family_empty_files_under:
  "family es sg f = [] \<Longrightarrow> filter (files_under (sg, f, s)) es = []"
  by (auto simp: family_def filter_empty_conv files_under_def entry_key_def lookup_key_defs)

lemma preferred_None_iff [simp]: "preferred es = None \<longleftrightarrow> es = []"
  by (simp add: preferred_def split: list.splits)

lemma spec_sampled_active_family:
  assumes "\<forall>x \<in> set (active_family es sg f). e_selector x = s" "active_family es sg f \<noteq> []"
  shows "spec_sampled es sg f s = preferred (active_family es sg f)"
proof (cases "family es sg f = []")
  case True
  with assms have "filter (files_under (sg, 0, s)) es = family es sg 0"
    by (intro family_files_under) (simp add: active_family_def)
  with True assms obtain y where "preferred (filter (files_under (sg, 0, s)) es) = Some y"
    "preferred (family es sg 0) = Some y"
    by (cases "preferred (family es sg 0)") (auto simp: active_family_def)
  with True show ?thesis
    using family_empty_files_under [OF True]
    by (cases "s = 0") (auto simp: spec_sampled_def tiers_def active_family_def preferred_def [of "[]"])
next
  case False
  with assms have "filter (files_under (sg, f, s)) es = family es sg f"
    by (intro family_files_under) (simp add: active_family_def)
  with False obtain y where "preferred (filter (files_under (sg, f, s)) es) = Some y"
    "preferred (family es sg f) = Some y"
    by (cases "preferred (family es sg f)") auto
  with False show ?thesis by (cases "s = 0") (auto simp: spec_sampled_def tiers_def active_family_def)
qed

lemma find_singleton_spec:
  assumes "provider_built p"
  shows "find_singleton_sampled_family_entry p sg f allow = spec_singleton (entries p) sg f allow"
proof (cases "active_family (entries p) sg f")
  case Nil
  with find_active_family [OF assms, of sg f] show ?thesis
    by (simp add: find_singleton_sampled_family_entry_def spec_singleton_def)
next
  case (Cons e r)
  with find_active_family [OF assms, of sg f] obtain "is" where
    i: "or_else (find_family p sg f) (find_family p sg 0) = Some is" "entries_at p is = e # r"
    by auto
  have h: "hd (foldl push_unique [] (map e_selector (e # r))) = e_selector e"
    using hd_foldl_push_unique [of "[e_selector e]"] by (simp add: push_unique_def)
  have l: "length (foldl push_unique [] (map e_selector (e # r))) = 1 \<longleftrightarrow>
      (\<forall>x \<in> set r. e_selector x = e_selector e)"
    using foldl_push_unique_singleton [of "e_selector e" "map e_selector r"] by simp
  have s: "find_sampled_entry p sg f (e_selector e) = Some (foldl better e r)"
    if "\<forall>x \<in> set r. e_selector x = e_selector e"
    using that Cons spec_sampled_active_family [of "entries p" sg f "e_selector e"]
    by (simp add: find_sampled_entry_spec [OF assms] preferred_def)
  show ?thesis
    unfolding find_singleton_sampled_family_entry_def spec_singleton_def i Cons option.case
      list.case Let_def h l
    using s by auto
qed

lemmas finder_specs =
  find_singleton_spec find_sampled_entry_spec find_native_entry_spec find_compat_entry_spec

section \<open>CI textures by low half\<close>

definition low32_family :: "entry list \<Rightarrow> u32 \<Rightarrow> u16 \<Rightarrow> entry list" where
  "low32_family es low32 formatsize =
     filter (\<lambda>e. \<not> has_native_sampled_identity e \<and> checksum_low32 (e_checksum64 e) = low32 \<and>
                 e_formatsize e = formatsize) es"

definition same_dims :: "entry list \<Rightarrow> bool" where
  "same_dims es \<longleftrightarrow> (\<forall>a \<in> set es. \<forall>b \<in> set es. e_width a = e_width b \<and> e_height a = e_height b)"

definition last_of :: "'a list \<Rightarrow> 'a option" where
  "last_of xs = (if xs = [] then None else Some (last xs))"

text \<open>
  The four ways to pick from the compatibility entries with a given low half: the latest of the
  requested size; the latest if all have one size; the entry of the only checksum; the latest,
  with a matching palette if there is one. Each looks at the exact format/size first.
\<close>

definition spec_ci_low32 ::
    "entry list \<Rightarrow> u32 \<Rightarrow> u16 \<Rightarrow> u32 \<Rightarrow> u32 \<Rightarrow> u32 \<Rightarrow> ci_low32_mode \<Rightarrow> (entry \<times> bool) option" where
  "spec_ci_low32 es low32 f pal w h mode =
     (let exact = low32_family es low32 f; generic = low32_family es low32 0;
          sized = (\<lambda>xs. last_of (filter (\<lambda>e. e_width e = w \<and> e_height e = h) xs));
          uniform = (\<lambda>xs. if same_dims xs then last_of xs else None);
          with_palette = (\<lambda>xs. last_of (filter (\<lambda>e. checksum_palette_crc (e_checksum64 e) = pal) xs));
          plain = map_option (\<lambda>e. (e, False))
      in case mode of
           SelectedDims \<Rightarrow> plain (or_else (sized exact) (sized generic))
         | ReplacementDimsUnique \<Rightarrow> plain (or_else (uniform exact) (uniform generic))
         | Unique \<Rightarrow>
             (case (if exact = [] then generic else exact) of
                [] \<Rightarrow> None
              | e # r \<Rightarrow> if \<forall>x \<in> set r. e_checksum64 x = e_checksum64 e
                         then plain (spec_checksum es (compat_with (e_checksum64 e)) f 0) else None)
         | Any \<Rightarrow>
             or_else (map_option (\<lambda>e. (e, True))
                        (if pal = 0 then None else or_else (with_palette exact) (with_palette generic)))
                     (plain (or_else (last_of exact) (last_of generic))))"

lemma find_last_last_of: "find_last P es = last_of (filter P es)"
  by (induction es rule: rev_induct) (auto simp: last_of_def)

lemma last_of_find_last: "last_of (filter P es) = find_last P es"
  by (simp only: find_last_last_of)

lemma dims_unique_loop_selected:
  "dims_unique_loop f (Some s) es =
     (if \<forall>e \<in> set es. e_formatsize e = f \<longrightarrow> e_width e = e_width s \<and> e_height e = e_height s
      then Some s else None)"
  by (induction es) (auto simp: dims_unique_step_def)

lemma dims_unique_loop_None:
  "dims_unique_loop f None es =
     (case filter (\<lambda>e. e_formatsize e = f) es of [] \<Rightarrow> None
      | s # r \<Rightarrow> if \<forall>e \<in> set r. e_width e = e_width s \<and> e_height e = e_height s then Some s else None)"
  by (induction es) (auto simp: dims_unique_step_def dims_unique_loop_selected)

lemma pick_dims_unique_spec:
  "pick_dims_unique es f =
     (let xs = filter (\<lambda>e. e_formatsize e = f) es in if same_dims xs then last_of xs else None)"
proof -
  let ?xs = "filter (\<lambda>e. e_formatsize e = f) es"
  have r: "filter (\<lambda>e. e_formatsize e = f) (rev es) = rev ?xs" by (simp add: rev_filter)
  show ?thesis
  proof (cases ?xs rule: rev_cases)
    case Nil
    then show ?thesis unfolding pick_dims_unique_def dims_unique_loop_None r Let_def Nil
      by (simp add: last_of_def)
  next
    case (snoc ys y)
    have "same_dims (ys @ [y]) \<longleftrightarrow>
        (\<forall>e \<in> set ys. e_width e = e_width y \<and> e_height e = e_height y)"
      by (auto simp: same_dims_def)
    then show ?thesis unfolding pick_dims_unique_def dims_unique_loop_None r Let_def snoc
      by (simp add: last_of_def)
  qed
qed

lemma collect_unique_checksums_spec:
  "collect_unique_checksums es f [] = [] \<longleftrightarrow> filter (\<lambda>e. e_formatsize e = f) es = []"
  using length_foldl_push_unique [of "map e_checksum64 (filter (\<lambda>e. e_formatsize e = f) es)"]
  by (cases "filter (\<lambda>e. e_formatsize e = f) es") (auto simp: collect_unique_checksums_def)

lemma collect_unique_checksums_Cons:
  assumes "filter (\<lambda>e. e_formatsize e = f) es = e # r"
  shows "length (collect_unique_checksums es f []) = 1 \<longleftrightarrow>
      (\<forall>x \<in> set r. e_checksum64 x = e_checksum64 e)"
    and "hd (collect_unique_checksums es f []) = e_checksum64 e"
  unfolding collect_unique_checksums_def assms
  using foldl_push_unique_singleton [of "e_checksum64 e" "map e_checksum64 r"]
    hd_foldl_push_unique [of "[e_checksum64 e]"]
  by (simp_all add: push_unique_def)

lemma pick_unique_spec:
  assumes "provider_built p"
  shows "pick_unique p es f =
    (case (if filter (\<lambda>e. e_formatsize e = f) es = [] then filter (\<lambda>e. e_formatsize e = 0) es
           else filter (\<lambda>e. e_formatsize e = f) es) of
       [] \<Rightarrow> None
     | e # r \<Rightarrow> if \<forall>x \<in> set r. e_checksum64 x = e_checksum64 e
                then spec_checksum (entries p) (compat_with (e_checksum64 e)) f 0 else None)"
proof -
  define g where "g = (if filter (\<lambda>e. e_formatsize e = f) es = [] then 0 else f)"
  have u: "(if collect_unique_checksums es f [] = []
      then collect_unique_checksums es 0 (collect_unique_checksums es f [])
      else collect_unique_checksums es f []) = collect_unique_checksums es g []"
    using collect_unique_checksums_spec [of es f] by (auto simp: g_def)
  have "(if filter (\<lambda>e. e_formatsize e = f) es = [] then filter (\<lambda>e. e_formatsize e = 0) es
      else filter (\<lambda>e. e_formatsize e = f) es) = filter (\<lambda>e. e_formatsize e = g) es"
    by (simp add: g_def)
  then show ?thesis
    using collect_unique_checksums_spec [of es g] collect_unique_checksums_Cons [of g es]
    by (cases "filter (\<lambda>e. e_formatsize e = g) es")
      (auto simp: pick_unique_def Let_def u find_compat_entry_spec [OF assms])
qed

lemma find_ci_low32_entry_spec:
  assumes "provider_built p"
  shows "find_ci_low32_entry p low32 f pal w h mode =
    (if enabled p then spec_ci_low32 (entries p) low32 f pal w h mode else None)"
proof -
  define P where "P = (\<lambda>e :: entry. \<not> has_native_sampled_identity e \<and> checksum_low32 (e_checksum64 e) = low32)"
  have fam: "low32_family (entries p) low32 g = filter (\<lambda>e. e_formatsize e = g) (filter P (entries p))" for g
    unfolding low32_family_def P_def filter_filter by (rule filter_cong) auto
  have m: "map_option (map ((!) (entries p))) (map_of (compat_checksum_low32_index p) low32) =
      (if filter P (entries p) = [] then None else Some (filter P (entries p)))"
    by (rule low32_idx.map_of_idx_entries [OF assms]) (auto simp: low32_key_def P_def)
  show ?thesis
  proof (cases "filter P (entries p) = []")
    case True
    with m have "map_of (compat_checksum_low32_index p) low32 = None" by simp
    with True show ?thesis
      by (cases mode) (simp_all add: find_ci_low32_entry_def spec_ci_low32_def fam last_of_def)
  next
    case False
    with m obtain "is" where "map_of (compat_checksum_low32_index p) low32 = Some is"
      "entries_at p is = filter P (entries p)" by (auto simp: entries_at_def)
    then show ?thesis
      by (cases mode)
        (auto simp add: find_ci_low32_entry_def spec_ci_low32_def fam Let_def pick_dims_def
          pick_any_def pick_palette_def pick_dims_unique_spec pick_unique_spec [OF assms]
          last_of_find_last find_last_last_of [symmetric] find_last_filter or_else_def
          split: option.splits list.splits)
  qed
qed

section \<open>Facts about the specification\<close>

lemma preferred_snoc:
  "preferred (es @ [e]) = (case preferred es of None \<Rightarrow> Some e | Some a \<Rightarrow> Some (better a e))"
  by (cases es) (simp_all add: preferred_def)

lemma preferred_minimal:
  "preferred es = Some e \<Longrightarrow> e \<in> set es \<and> (\<forall>x \<in> set es. entry_rank e \<le> entry_rank x)"
proof (induction es arbitrary: e rule: rev_induct)
  case (snoc a es)
  show ?case
  proof (cases "preferred es")
    case None
    with snoc show ?thesis by (auto simp: preferred_snoc)
  next
    case (Some b)
    with snoc.IH have "b \<in> set es" "\<forall>x \<in> set es. entry_rank b \<le> entry_rank x" by auto
    with snoc.prems Some show ?thesis
      by (auto simp: preferred_snoc better_def) (meson less_imp_le order_trans)
  qed
qed (simp add: preferred_def)

lemma first_hit_Some:
  "first_hit f xs = Some y \<Longrightarrow> \<exists>us x vs. xs = us @ x # vs \<and> f x = Some y \<and> (\<forall>u \<in> set us. f u = None)"
proof (induction xs)
  case (Cons a xs)
  from Cons.prems consider "f a = Some y" | "f a = None" "first_hit f xs = Some y"
    by (auto elim: or_else_SomeE)
  then show ?case
  proof cases
    case 1
    then show ?thesis by (intro exI [of _ "[]"] exI [of _ a] exI [of _ xs]) simp
  next
    case 2
    with Cons.IH obtain us x vs where "xs = us @ x # vs" "f x = Some y" "\<forall>u \<in> set us. f u = None"
      by blast
    with 2 show ?thesis by (intro exI [of _ "a # us"] exI [of _ x] exI [of _ vs]) simp
  qed
qed simp

lemma first_hit_None [simp]: "first_hit f xs = None \<longleftrightarrow> (\<forall>x \<in> set xs. f x = None)"
  by (induction xs) auto

lemma files_under_iff:
  "files_under (sg, f, s) e \<longleftrightarrow>
     has_native_sampled_identity e \<and> e_sig e = sg \<and> e_formatsize e = f \<and> e_selector e = s"
  by (auto simp: files_under_def entry_key_def lookup_key_defs)

lemma spec_sampled_SomeD:
  "spec_sampled es sg f s = Some e \<Longrightarrow> e \<in> set es \<and> has_native_sampled_identity e \<and> e_sig e = sg"
  unfolding spec_sampled_def
  by (drule first_hit_Some) (auto dest!: preferred_minimal simp: files_under_iff)

lemma spec_checksum_SomeD:
  assumes "spec_checksum es P f s = Some e"
  shows "e \<in> set es \<and> P e"
proof -
  from assms consider
      (hit) "first_hit (\<lambda>t. find_last (\<lambda>e. P e \<and> has_tier t e) es) (tiers f s) = Some e"
    | (free) "find_last P es = Some e"
    unfolding spec_checksum_def by (auto elim!: or_else_SomeE split: if_splits)
  then show ?thesis
  proof cases
    case hit
    from first_hit_Some [OF hit] show ?thesis by (auto dest: find_last_SomeD)
  next
    case free
    then show ?thesis by (auto dest: find_last_SomeD)
  qed
qed

lemma spec_singleton_SomeD:
  assumes "spec_singleton es sg f allow = Some (e, s, b)"
  shows "e \<in> set es \<and> has_native_sampled_identity e \<and> e_sig e = sg \<and> e_selector e = s \<and>
    b = (s \<noteq> 0 \<and> is_ordered_surface_selector s) \<and> (b \<longrightarrow> allow)"
proof (cases "active_family es sg f")
  case Nil
  with assms show ?thesis by (simp add: spec_singleton_def)
next
  case (Cons a r)
  have "e \<in> set (a # r)"
    using assms Cons preferred_minimal [of "a # r" "foldl better a r"]
    by (auto simp: spec_singleton_def Let_def preferred_def split: if_splits)
  moreover from this have "e \<in> set (active_family es sg f)" using Cons by simp
  then have "e \<in> set es \<and> has_native_sampled_identity e \<and> e_sig e = sg"
    by (auto simp: active_family_def family_def split: if_splits)
  ultimately show ?thesis
    using assms Cons by (auto simp: spec_singleton_def Let_def split: if_splits)
qed

section \<open>Properties\<close>

text \<open>The cascade of an upload, on the table: family singleton, exact sampled, native checksum, compat.\<close>

definition spec_resolve_upload ::
    "entry list \<Rightarrow> u16 \<Rightarrow> sampled_sig \<Rightarrow> u64 \<Rightarrow> replacement_resolution option" where
  "spec_resolve_upload es f sg s =
     (let c = compose_hires_checksum64 (sampled_low32 sg) (sampled_palette_crc sg) in
      or_else (map_option (\<lambda>(e, _, b). populate_resolution_from_entry e SampledFamilySingleton b)
                 (spec_singleton es sg f True))
     (or_else (map_option (\<lambda>e. populate_resolution_from_entry e SampledExactSelector False)
                 (spec_sampled es sg f s))
     (or_else (map_option (\<lambda>e. populate_resolution_from_entry e ExactNativeSampled False)
                 (spec_checksum es (native_with c) f s))
              (map_option (\<lambda>e. populate_resolution_from_entry e GenericCompat False)
                 (spec_checksum es (compat_with c) f s)))))"

definition no_sig :: sampled_sig where
  "no_sig = \<lparr>sampled_fmt = 0, sampled_siz = 0, sampled_tex_offset = 0, sampled_stride = 0,
     sampled_width = 0, sampled_height = 0, sampled_low32 = 7, sampled_palette_crc = 0\<rparr>"

definition sample_entry :: "string \<Rightarrow> u64 \<Rightarrow> u64 \<Rightarrow> bool \<Rightarrow> entry" where
  "sample_entry rid checksum selector native =
     \<lparr>source_path = ''a.phrb'', phrb_policy_key = '''', phrb_replacement_id = rid,
      phrb_sampled_object_id = '''', e_checksum64 = checksum, data_offset = 0, data_size = 4,
      e_width = 1, e_height = 1, e_format = 0x8058, texture_format = 0x1908, pixel_type = 0x1401,
      e_formatsize = 0x102, e_selector = selector, e_sig = no_sig, sampled_entry_pcrc = 0,
      sampled_sparse_pcrc = 0, has_native_sampled_identity = native,
      is_runtime_family_compat = False, is_hires = True, inline_blob = True, blob = [1, 2, 3, 4]\<rparr>"

definition sample_provider :: provider where
  "sample_provider =
     add_entry (add_entry (add_entry (set_enabled default_provider True)
       (sample_entry ''b'' 7 0 True)) (sample_entry ''a'' 7 0 True)) (sample_entry ''c'' 9 0 False)"

lemma sample_provider_simps [simp]:
  "entries sample_provider =
     [sample_entry ''b'' 7 0 True, sample_entry ''a'' 7 0 True, sample_entry ''c'' 9 0 False]"
  "enabled sample_provider"
  by (simp_all add: sample_provider_def set_enabled_def default_provider_def)

lemma sample_provider_built: "provider_built sample_provider"
  unfolding sample_provider_def
  by (intro provider_built.added provider_built.enabled_set provider_built.default)

text \<open>
  C1. On every provider that loading can build, resolving an upload candidate through the
  indices answers exactly as scanning the table does: a disabled provider answers nothing;
  otherwise the preferred entry of the active sampled family if its entries share one
  selector, else the preferred entry of the most specific matching (format/size, selector)
  pair, else the latest native and then the latest compatibility entry of the derived checksum.
\<close>

theorem resolve_upload_refines_table_scan:
  assumes "provider_built p"
  shows "resolve_upload_candidate p f sg s =
    (if enabled p then spec_resolve_upload (entries p) f sg s else None)"
  unfolding resolve_upload_candidate_def spec_resolve_upload_def
  by (auto simp: finder_specs [OF assms] Let_def split: option.splits)

theorem resolve_upload_refines_table_scan_witness:
  "resolve_upload_candidate sample_provider 0x102 no_sig 5 =
     Some (populate_resolution_from_entry (sample_entry ''a'' 7 0 True) SampledFamilySingleton False)"
  unfolding resolve_upload_refines_table_scan [OF sample_provider_built]
  by (simp add: spec_resolve_upload_def spec_singleton_def active_family_def
      family_def sample_entry_def no_sig_def better_def entry_rank_def string_rank_def less_prod_def' Let_def)

text \<open>
  C27. Exact sampled lookups: the answer is a native entry of the requested signature, filed
  under the most specific of the acceptable (format/size, selector) pairs that has an entry,
  and no entry under the same pair is preferred to it; no answer means that no pair has one.
\<close>

theorem find_sampled_entry_correct:
  assumes "provider_built p"
  shows "case find_sampled_entry p sg f s of
      None \<Rightarrow> \<forall>e \<in> set (entries p). has_native_sampled_identity e \<longrightarrow> e_sig e = sg \<longrightarrow>
                (e_formatsize e, e_selector e) \<notin> set (tiers f s)
    | Some e \<Rightarrow> e \<in> set (entries p) \<and> has_native_sampled_identity e \<and> e_sig e = sg \<and>
        (\<exists>us vs. tiers f s = us @ (e_formatsize e, e_selector e) # vs \<and>
          (\<forall>x \<in> set (entries p). has_native_sampled_identity x \<longrightarrow> e_sig x = sg \<longrightarrow>
             (e_formatsize x, e_selector x) \<notin> set us) \<and>
          (\<forall>x \<in> set (entries p). has_native_sampled_identity x \<longrightarrow> e_sig x = sg \<longrightarrow>
             e_formatsize x = e_formatsize e \<longrightarrow> e_selector x = e_selector e \<longrightarrow>
             \<not> prefer_sampled_duplicate_candidate e x))"
proof (cases "find_sampled_entry p sg f s")
  case None
  then have "\<forall>t \<in> set (tiers f s). \<forall>e \<in> set (entries p). \<not> files_under (sg, t) e"
    by (simp add: find_sampled_entry_spec [OF assms] spec_sampled_def filter_empty_conv split: prod.splits)
  with None show ?thesis by (force simp: files_under_iff)
next
  case (Some e)
  from first_hit_Some [OF Some [unfolded find_sampled_entry_spec [OF assms] spec_sampled_def]]
  obtain us g t vs where h: "tiers f s = us @ (g, t) # vs"
    "preferred (filter (files_under (sg, g, t)) (entries p)) = Some e"
    "\<forall>(a, b) \<in> set us. filter (files_under (sg, a, b)) (entries p) = []"
    by (auto split: prod.splits)
  from preferred_minimal [OF h(2)] have
    "e \<in> set (entries p)" "has_native_sampled_identity e" "e_sig e = sg" "e_formatsize e = g" "e_selector e = t"
    "\<forall>x \<in> set (entries p). files_under (sg, g, t) x \<longrightarrow> \<not> entry_rank x < entry_rank e"
    by (auto simp: files_under_iff not_less)
  moreover have "\<forall>x \<in> set (entries p). has_native_sampled_identity x \<longrightarrow> e_sig x = sg \<longrightarrow>
      (e_formatsize x, e_selector x) \<notin> set us"
    using h(3) by (force simp: files_under_iff filter_empty_conv)
  ultimately show ?thesis
    unfolding Some option.case prefer_sampled_duplicate_candidate_rank
    using h(1) by (intro conjI exI [of _ us] exI [of _ vs]) (simp_all add: files_under_iff)
qed

theorem find_sampled_entry_correct_witness:
  "find_sampled_entry sample_provider no_sig 0x102 5 = Some (sample_entry ''a'' 7 0 True) \<and>
   \<not> prefer_sampled_duplicate_candidate (sample_entry ''a'' 7 0 True) (sample_entry ''b'' 7 0 True)"
proof -
  have r: "find_sampled_entry sample_provider no_sig 0x102 5 = Some (sample_entry ''a'' 7 0 True)"
    unfolding find_sampled_entry_spec [OF sample_provider_built]
    by (simp add: spec_sampled_def tiers_def files_under_iff sample_entry_def preferred_def
      better_def entry_rank_def string_rank_def less_prod_def')
  have "sample_entry ''b'' 7 0 True \<in> set (entries sample_provider)"
    by simp
  with find_sampled_entry_correct [OF sample_provider_built, of no_sig "0x102" 5] r
  show ?thesis by (auto simp: sample_entry_def no_sig_def)
qed

end
