(* ===== verification/Replacement_Diagnostics.thy ===== *)
theory Replacement_Diagnostics
  imports Replacement_Spec "HOL-Library.Sublist"
begin

text \<open>
  The remaining promises of the lookups (CI resolution, soundness of every resolution, the
  ordered-surface slots), and the diagnostics of \<open>texture_replacement.cpp\<close>:
  \<open>describe_sampled_family\<close>, \<open>describe_ci_low32_family\<close>, \<open>get_stats\<close> and
  \<open>get_sampled_duplicate_diagnostics\<close>, with what their counters say about the table.
\<close>

section \<open>Diagnostics of a sampled family\<close>

record sampled_family_diagnostics =
  sf_available :: bool
  sf_prefer_exact_formatsize :: bool
  sf_active_repl_dims_uniform :: bool
  sf_active_has_any_selector :: bool
  sf_active_has_ordered_surface_selectors :: bool
  sf_active_is_pool :: bool
  sf_exact_formatsize_entries :: u32
  sf_generic_formatsize_entries :: u32
  sf_active_entry_count :: u32
  sf_active_unique_checksum_count :: u32
  sf_active_unique_selector_count :: u32
  sf_active_zero_selector_count :: u32
  sf_active_matching_selector_count :: u32
  sf_active_ordered_surface_selector_count :: u32
  sf_active_unique_repl_dim_count :: u32
  sf_sample_repl_w :: u32
  sf_sample_repl_h :: u32
  sf_sample_policy_key :: string
  sf_sample_replacement_id :: string
  sf_sample_sampled_object_id :: string

definition empty_sampled_family_diagnostics :: sampled_family_diagnostics where
  "empty_sampled_family_diagnostics =
     \<lparr>sf_available = False, sf_prefer_exact_formatsize = False, sf_active_repl_dims_uniform = False,
      sf_active_has_any_selector = False, sf_active_has_ordered_surface_selectors = False,
      sf_active_is_pool = False, sf_exact_formatsize_entries = 0, sf_generic_formatsize_entries = 0,
      sf_active_entry_count = 0, sf_active_unique_checksum_count = 0,
      sf_active_unique_selector_count = 0, sf_active_zero_selector_count = 0,
      sf_active_matching_selector_count = 0, sf_active_ordered_surface_selector_count = 0,
      sf_active_unique_repl_dim_count = 0, sf_sample_repl_w = 0, sf_sample_repl_h = 0,
      sf_sample_policy_key = [], sf_sample_replacement_id = [], sf_sample_sampled_object_id = []\<rparr>"

definition repl_dims_word :: "entry \<Rightarrow> u64" where
  "repl_dims_word e = push_bit 32 (ucast (e_width e)) OR ucast (e_height e)"

text \<open>One iteration of the loop over the active family, on the diagnostics under construction.\<close>

definition describe_family_step ::
    "u64 \<Rightarrow> sampled_family_diagnostics \<Rightarrow> entry \<Rightarrow> sampled_family_diagnostics" where
  "describe_family_step requested d e =
     (let d = d\<lparr>sf_active_entry_count := sf_active_entry_count d + 1\<rparr>;
          d = (if e_selector e \<noteq> 0 then
                 let d = d\<lparr>sf_active_has_any_selector := True\<rparr>;
                     d = (if e_selector e = requested
                          then d\<lparr>sf_active_matching_selector_count :=
                                  sf_active_matching_selector_count d + 1\<rparr> else d)
                 in (if is_ordered_surface_selector (e_selector e)
                     then d\<lparr>sf_active_has_ordered_surface_selectors := True,
                            sf_active_ordered_surface_selector_count :=
                              sf_active_ordered_surface_selector_count d + 1\<rparr> else d)
               else d\<lparr>sf_active_zero_selector_count := sf_active_zero_selector_count d + 1\<rparr>);
          d = (if sf_sample_repl_w d = 0 \<and> sf_sample_repl_h d = 0
               then d\<lparr>sf_sample_repl_w := e_width e, sf_sample_repl_h := e_height e\<rparr> else d);
          d = (if sf_sample_policy_key d = []
               then d\<lparr>sf_sample_policy_key := phrb_policy_key e\<rparr> else d);
          d = (if sf_sample_replacement_id d = []
               then d\<lparr>sf_sample_replacement_id := phrb_replacement_id e\<rparr> else d)
      in if sf_sample_sampled_object_id d = []
         then d\<lparr>sf_sample_sampled_object_id := phrb_sampled_object_id e\<rparr> else d)"

definition describe_sampled_family ::
    "provider \<Rightarrow> sampled_sig \<Rightarrow> u16 \<Rightarrow> u64 \<Rightarrow> sampled_family_diagnostics option" where
  "describe_sampled_family p sg formatsize requested =
     (if \<not> enabled p then None else
      let exact_family = find_family p sg formatsize;
          generic_family = find_family p sg 0 in
      case or_else exact_family generic_family of
        None \<Rightarrow> None
      | Some family_indices \<Rightarrow>
          let es = entries_at p family_indices;
              d = empty_sampled_family_diagnostics
                    \<lparr>sf_available := True,
                     sf_exact_formatsize_entries :=
                       (case exact_family of None \<Rightarrow> 0 | Some is \<Rightarrow> of_nat (length is)),
                     sf_generic_formatsize_entries :=
                       (case generic_family of None \<Rightarrow> 0 | Some is \<Rightarrow> of_nat (length is)),
                     sf_prefer_exact_formatsize := exact_family \<noteq> None\<rparr>;
              d = foldl (describe_family_step requested) d es;
              unique_checksums = foldl push_unique [] (map e_checksum64 es);
              unique_repl_dims = foldl push_unique [] (map repl_dims_word es);
              unique_selectors = foldl push_unique [] (filter (\<lambda>s. s \<noteq> 0) (map e_selector es));
              d = d\<lparr>sf_active_unique_checksum_count := of_nat (length unique_checksums),
                    sf_active_unique_selector_count := of_nat (length unique_selectors),
                    sf_active_unique_repl_dim_count := of_nat (length unique_repl_dims)\<rparr>;
              d = d\<lparr>sf_active_repl_dims_uniform :=
                      sf_active_unique_repl_dim_count d = 1 \<and> 0 < sf_active_entry_count d\<rparr>;
              d = (if sf_active_repl_dims_uniform d \<and> unique_repl_dims \<noteq> []
                   then d\<lparr>sf_sample_repl_w := ucast (drop_bit 32 (hd unique_repl_dims)),
                          sf_sample_repl_h := ucast (hd unique_repl_dims AND 0xffffffff)\<rparr> else d)
          in Some (d\<lparr>sf_active_is_pool :=
                 1 < sf_active_unique_selector_count d \<or>
                 1 < sf_active_entry_count d \<and> sf_active_matching_selector_count d = 0\<rparr>))"

section \<open>Diagnostics of a CI family\<close>

record ci_low32_family_diagnostics =
  ci_available :: bool
  ci_prefer_exact_formatsize :: bool
  ci_exact_formatsize_entries :: u32
  ci_generic_formatsize_entries :: u32
  ci_active_entry_count :: u32
  ci_active_unique_checksum_count :: u32
  ci_active_unique_palette_count :: u32
  ci_active_unique_repl_dim_count :: u32
  ci_active_preferred_palette_match_count :: u32
  ci_sample_repl_w :: u32
  ci_sample_repl_h :: u32
  ci_active_repl_dims_uniform :: bool

definition empty_ci_low32_family_diagnostics :: ci_low32_family_diagnostics where
  "empty_ci_low32_family_diagnostics =
     \<lparr>ci_available = False, ci_prefer_exact_formatsize = False, ci_exact_formatsize_entries = 0,
      ci_generic_formatsize_entries = 0, ci_active_entry_count = 0,
      ci_active_unique_checksum_count = 0, ci_active_unique_palette_count = 0,
      ci_active_unique_repl_dim_count = 0, ci_active_preferred_palette_match_count = 0,
      ci_sample_repl_w = 0, ci_sample_repl_h = 0, ci_active_repl_dims_uniform = False\<rparr>"

definition ci_count_step ::
    "u16 \<Rightarrow> ci_low32_family_diagnostics \<Rightarrow> entry \<Rightarrow> ci_low32_family_diagnostics" where
  "ci_count_step formatsize d e =
     (if e_formatsize e = formatsize
      then d\<lparr>ci_exact_formatsize_entries := ci_exact_formatsize_entries d + 1\<rparr>
      else if e_formatsize e = 0
      then d\<lparr>ci_generic_formatsize_entries := ci_generic_formatsize_entries d + 1\<rparr>
      else d)"

definition ci_active_step ::
    "u32 \<Rightarrow> ci_low32_family_diagnostics \<Rightarrow> entry \<Rightarrow> ci_low32_family_diagnostics" where
  "ci_active_step preferred_palette_crc d e =
     (let d = d\<lparr>ci_active_entry_count := ci_active_entry_count d + 1\<rparr>;
          d = (if checksum_palette_crc (e_checksum64 e) = preferred_palette_crc
               then d\<lparr>ci_active_preferred_palette_match_count :=
                       ci_active_preferred_palette_match_count d + 1\<rparr> else d)
      in if ci_sample_repl_w d = 0 \<and> ci_sample_repl_h d = 0
         then d\<lparr>ci_sample_repl_w := e_width e, ci_sample_repl_h := e_height e\<rparr> else d)"

definition describe_ci_low32_family ::
    "provider \<Rightarrow> u32 \<Rightarrow> u16 \<Rightarrow> u32 \<Rightarrow> ci_low32_family_diagnostics option" where
  "describe_ci_low32_family p low32 formatsize preferred_palette_crc =
     (if \<not> enabled p then None else
      case map_of (compat_checksum_low32_index p) low32 of
        None \<Rightarrow> None
      | Some indices \<Rightarrow>
          let all = entries_at p indices;
              d = foldl (ci_count_step formatsize)
                    (empty_ci_low32_family_diagnostics\<lparr>ci_available := True\<rparr>) all;
              use_exact = 0 < ci_exact_formatsize_entries d;
              d = d\<lparr>ci_prefer_exact_formatsize := use_exact\<rparr>;
              active_formatsize = (if use_exact then formatsize else 0);
              es = filter (\<lambda>e. e_formatsize e = active_formatsize) all;
              d = foldl (ci_active_step preferred_palette_crc) d es;
              unique_checksums = foldl push_unique [] (map e_checksum64 es);
              unique_palettes = foldl push_unique [] (map (\<lambda>e. checksum_palette_crc (e_checksum64 e)) es);
              unique_repl_dims = foldl push_unique [] (map repl_dims_word es);
              d = d\<lparr>ci_active_unique_checksum_count := of_nat (length unique_checksums),
                    ci_active_unique_palette_count := of_nat (length unique_palettes),
                    ci_active_unique_repl_dim_count := of_nat (length unique_repl_dims)\<rparr>;
              d = d\<lparr>ci_active_repl_dims_uniform :=
                      ci_active_unique_repl_dim_count d = 1 \<and> 0 < ci_active_entry_count d\<rparr>
          in Some (if ci_active_repl_dims_uniform d \<and> unique_repl_dims \<noteq> []
                   then d\<lparr>ci_sample_repl_w := ucast (drop_bit 32 (hd unique_repl_dims)),
                          ci_sample_repl_h := ucast (hd unique_repl_dims AND 0xffffffff)\<rparr> else d))"

section \<open>Statistics\<close>

record provider_stats =
  st_entry_count :: u32
  st_native_sampled_entry_count :: u32
  st_compat_entry_count :: u32
  st_sampled_index_count :: u32
  st_sampled_duplicate_key_count :: u32
  st_sampled_duplicate_entry_count :: u32
  st_sampled_family_count :: u32
  st_compat_low32_family_count :: u32
  st_source_phrb_entry_count :: u32

definition stats_step :: "provider_stats \<Rightarrow> entry \<Rightarrow> provider_stats" where
  "stats_step st e =
     (let st = (if has_native_sampled_identity e
                then st\<lparr>st_native_sampled_entry_count := st_native_sampled_entry_count st + 1\<rparr>
                else st\<lparr>st_compat_entry_count := st_compat_entry_count st + 1\<rparr>)
      in if sublist ''.phrb'' (source_path e)
         then st\<lparr>st_source_phrb_entry_count := st_source_phrb_entry_count st + 1\<rparr> else st)"

definition get_stats :: "provider \<Rightarrow> provider_stats" where
  "get_stats p =
     foldl stats_step
       \<lparr>st_entry_count = of_nat (length (entries p)), st_native_sampled_entry_count = 0,
        st_compat_entry_count = 0, st_sampled_index_count = of_nat (length (sampled_index p)),
        st_sampled_duplicate_key_count = of_nat (length (sampled_duplicate_index p)),
        st_sampled_duplicate_entry_count =
          foldl (\<lambda>acc (_, n). acc + n) 0 (sampled_duplicate_index p),
        st_sampled_family_count = of_nat (length (sampled_family_index p)),
        st_compat_low32_family_count = of_nat (length (compat_checksum_low32_index p)),
        st_source_phrb_entry_count = 0\<rparr> (entries p)"

record sampled_duplicate_diagnostics =
  dd_sig :: sampled_sig
  dd_formatsize :: u16
  dd_selector_checksum64 :: u64
  dd_total_entry_count :: u32
  dd_duplicate_entry_count :: u32
  dd_active_checksum64 :: u64
  dd_active_repl_w :: u32
  dd_active_repl_h :: u32
  dd_active_source_path :: string
  dd_active_policy_key :: string
  dd_active_replacement_id :: string
  dd_active_sampled_object_id :: string

definition duplicate_diagnostic ::
    "provider \<Rightarrow> sampled_lookup_key \<times> u32 \<Rightarrow> sampled_duplicate_diagnostics option" where
  "duplicate_diagnostic p it =
     (case it of ((sg, formatsize, selector), n) \<Rightarrow>
        map_option (\<lambda>active. let e = entries p ! active in
            \<lparr>dd_sig = sg, dd_formatsize = formatsize, dd_selector_checksum64 = selector,
             dd_total_entry_count = 1 + n, dd_duplicate_entry_count = n,
             dd_active_checksum64 = e_checksum64 e, dd_active_repl_w = e_width e,
             dd_active_repl_h = e_height e, dd_active_source_path = source_path e,
             dd_active_policy_key = phrb_policy_key e, dd_active_replacement_id = phrb_replacement_id e,
             dd_active_sampled_object_id = phrb_sampled_object_id e\<rparr>)
          (map_of (sampled_index p) (sg, formatsize, selector)))"

text \<open>The comparator of the sort: most duplicates first, then the key's words.\<close>

definition duplicate_rank :: "sampled_duplicate_diagnostics \<Rightarrow> nat \<times> u32 \<times> u32 \<times> u16 \<times> u64" where
  "duplicate_rank d =
     (2 ^ 32 - unat (dd_duplicate_entry_count d), sampled_low32 (dd_sig d),
      sampled_palette_crc (dd_sig d), dd_formatsize d, dd_selector_checksum64 d)"

definition get_sampled_duplicate_diagnostics ::
    "provider \<Rightarrow> nat \<Rightarrow> sampled_duplicate_diagnostics list" where
  "get_sampled_duplicate_diagnostics p limit =
     (let ds = sort_key duplicate_rank
                 (List.map_filter (duplicate_diagnostic p) (sampled_duplicate_index p))
      in if limit \<noteq> 0 \<and> limit < length ds then take limit ds else ds)"

section \<open>Resolutions\<close>

text \<open>
  C18. Resolving a CI texture by the low half of its checksum answers, in each of the four
  modes, what a scan of the compatibility entries with that low half gives: exact format/size
  before generic, the latest entry where several qualify, nothing where uniqueness is asked
  for and does not hold; a disabled provider answers nothing.
\<close>

theorem resolve_ci_low32_refines_table_scan:
  assumes "provider_built p"
  shows "resolve_ci_low32_candidate p low32 f pal w h mode =
    (if enabled p
     then map_option (\<lambda>(e, m). (populate_resolution_from_entry e (ci_low32_kind mode) False)
            \<lparr>matched_preferred_palette := m\<rparr>) (spec_ci_low32 (entries p) low32 f pal w h mode)
     else None)"
  by (simp add: resolve_ci_low32_candidate_def find_ci_low32_entry_spec [OF assms])

theorem resolve_ci_low32_refines_table_scan_witness:
  "resolve_ci_low32_candidate sample_provider 9 0x102 0 0 0 Unique =
     Some (populate_resolution_from_entry (sample_entry ''c'' 9 0 False) CILow32Unique False)"
  unfolding resolve_ci_low32_refines_table_scan [OF sample_provider_built]
  by (simp add: spec_ci_low32_def low32_family_def sample_entry_def checksum_low32_def
      spec_checksum_def tiers_def has_tier_def compat_with_def find_last_def Let_def
      populate_resolution_from_entry_def)

lemma spec_ci_low32_SomeD:
  assumes "spec_ci_low32 es low32 f pal w h mode = Some (e, m)"
  shows "e \<in> set es \<and> \<not> has_native_sampled_identity e"
proof -
  have last_ofD: "x \<in> set xs" if "last_of xs = Some x" for x and xs :: "entry list"
    using that by (auto simp: last_of_def split: if_splits)
  have fam: "x \<in> set es \<and> \<not> has_native_sampled_identity x" if "x \<in> set (low32_family es low32 g)" for x g
    using that by (auto simp: low32_family_def)
  show ?thesis
    using assms
    by (cases mode)
      (auto simp: spec_ci_low32_def Let_def compat_with_def split: if_splits list.splits
        elim!: or_else_SomeE dest!: last_ofD spec_checksum_SomeD dest: fam)
qed

definition native_kind :: "resolution_kind \<Rightarrow> bool" where
  "native_kind k \<longleftrightarrow>
     k \<in> {SampledExactSelector, SampledOrderedSurfaceReservedSelector, SampledFamilySingleton,
          ExactNativeSampled}"

text \<open>The entry a resolution speaks about, of the class its kind announces.\<close>

definition resolution_of :: "replacement_resolution \<Rightarrow> entry \<Rightarrow> bool" where
  "resolution_of r e \<longleftrightarrow>
     available r \<and> meta r = populate_meta_from_entry e \<and> identity r = populate_identity_from_entry e \<and>
     source_class r = source_class_of e \<and> resolved_checksum64 r = e_checksum64 e \<and>
     resolved_selector_checksum64 r = e_selector e \<and>
     (native_kind (kind r) \<longleftrightarrow> has_native_sampled_identity e)"

lemma resolution_of_populate:
  "native_kind k = has_native_sampled_identity e \<Longrightarrow>
     resolution_of (populate_resolution_from_entry e k b) e \<and>
     resolution_of ((populate_resolution_from_entry e k b)\<lparr>matched_preferred_palette := m\<rparr>) e"
  by (simp add: resolution_of_def populate_resolution_from_entry_def)

lemma native_kind_ci [simp]: "\<not> native_kind (ci_low32_kind mode)"
  by (cases mode) (simp_all add: native_kind_def)

text \<open>
  C20. Whatever a resolution function answers describes one entry of the table: its
  dimensions, identity, checksum and selector are that entry's, the source class and the kind
  agree on whether the entry is native, and for the sampled resolutions the entry has exactly
  the requested signature. Only an enabled provider answers.
\<close>

theorem resolution_sound:
  assumes "provider_built p"
    and "resolve_upload_candidate p f sg s = Some r \<or> resolve_sampled_candidate p sg f s = Some r \<or>
      resolve_reserved_ordered_surface_candidate p sg f s = Some r \<or>
      resolve_ci_low32_candidate p low32 f pal w h mode = Some r"
  shows "enabled p \<and> (\<exists>e \<in> set (entries p). resolution_of r e \<and>
      (kind r \<in> {SampledExactSelector, SampledOrderedSurfaceReservedSelector, SampledFamilySingleton}
       \<longrightarrow> e_sig e = sg))"
proof -
  note specs = finder_specs [OF assms(1)] find_ci_low32_entry_spec [OF assms(1)]
  note defs = resolve_upload_candidate_def resolve_sampled_candidate_def Let_def
    resolve_reserved_ordered_surface_candidate_def resolve_ci_low32_candidate_def specs
  have en: "enabled p" using assms(2) by (auto simp: defs split: if_splits)
  have n: "native_kind SampledExactSelector" "native_kind SampledOrderedSurfaceReservedSelector"
    "native_kind SampledFamilySingleton" "native_kind ExactNativeSampled" "\<not> native_kind GenericCompat"
    by (simp_all add: native_kind_def)
  have k: "kind (populate_resolution_from_entry e k b) = k" for e k b
    by (simp add: populate_resolution_from_entry_def)
  have c: "ci_low32_kind mode \<noteq> SampledExactSelector" "ci_low32_kind mode \<noteq> SampledFamilySingleton"
    "ci_low32_kind mode \<noteq> SampledOrderedSurfaceReservedSelector"
    by (cases mode; simp)+
  let ?Q = "\<lambda>e. resolution_of r e \<and>
      (kind r \<in> {SampledExactSelector, SampledOrderedSurfaceReservedSelector, SampledFamilySingleton}
       \<longrightarrow> e_sig e = sg)"
  from assms(2) en consider
      (fam) e t b where "spec_singleton (entries p) sg f True = Some (e, t, b)"
        "r = populate_resolution_from_entry e SampledFamilySingleton b"
    | (exact) e where "spec_sampled (entries p) sg f s = Some e"
        "r = populate_resolution_from_entry e SampledExactSelector False \<or>
         r = populate_resolution_from_entry e SampledOrderedSurfaceReservedSelector False"
    | (native) e c where "spec_checksum (entries p) (native_with c) f s = Some e"
        "r = populate_resolution_from_entry e ExactNativeSampled False"
    | (compat) e c where "spec_checksum (entries p) (compat_with c) f s = Some e"
        "r = populate_resolution_from_entry e GenericCompat False"
    | (ci) e m where "spec_ci_low32 (entries p) low32 f pal w h mode = Some (e, m)"
        "r = (populate_resolution_from_entry e (ci_low32_kind mode) False)\<lparr>matched_preferred_palette := m\<rparr>"
    by (auto simp: defs split: if_splits option.splits)
  then have "\<exists>e \<in> set (entries p). ?Q e"
  proof cases
    case fam
    then show ?thesis by (auto dest!: spec_singleton_SomeD simp: k n intro!: bexI [of _ e] resolution_of_populate [THEN conjunct1])
  next
    case exact
    then show ?thesis by (auto dest!: spec_sampled_SomeD simp: k n intro!: bexI [of _ e] resolution_of_populate [THEN conjunct1])
  next
    case native
    then show ?thesis by (auto dest!: spec_checksum_SomeD simp: native_with_def k n intro!: bexI [of _ e] resolution_of_populate [THEN conjunct1])
  next
    case compat
    then show ?thesis by (auto dest!: spec_checksum_SomeD simp: compat_with_def k n intro!: bexI [of _ e] resolution_of_populate [THEN conjunct1])
  next
    case ci
    then show ?thesis
      by (auto dest!: spec_ci_low32_SomeD simp: k c resolution_of_populate [of "ci_low32_kind mode"]
          intro!: bexI [of _ e] resolution_of_populate [THEN conjunct2])
  qed
  with en show ?thesis by blast
qed

lemma sample_sampled_lookup:
  "resolve_sampled_candidate sample_provider no_sig 0x102 5 =
     Some (populate_resolution_from_entry (sample_entry ''a'' 7 0 True) SampledExactSelector False)"
proof -
  have "find_sampled_entry sample_provider no_sig 0x102 5 = Some (sample_entry ''a'' 7 0 True)"
    unfolding find_sampled_entry_spec [OF sample_provider_built]
    by (simp add: spec_sampled_def tiers_def files_under_iff sample_entry_def preferred_def
      better_def entry_rank_def string_rank_def less_prod_def')
  then show ?thesis by (simp add: resolve_sampled_candidate_def)
qed

theorem resolution_sound_witness:
  "\<exists>e \<in> set (entries sample_provider).
     resolution_of (populate_resolution_from_entry (sample_entry ''a'' 7 0 True) SampledExactSelector False) e
     \<and> e_sig e = no_sig"
  using resolution_sound [OF sample_provider_built, of "0x102" no_sig 5
      "populate_resolution_from_entry (sample_entry ''a'' 7 0 True) SampledExactSelector False"]
    sample_sampled_lookup
  by (auto simp: populate_resolution_from_entry_def)

section \<open>Ordered-surface slots\<close>

lemma card_ordered_selector_set: "card (ordered_selector_set es k) \<le> length es"
proof -
  have "ordered_selector_set es k \<subseteq> e_selector ` set es" by (auto simp: ordered_selector_set_def)
  then have "card (ordered_selector_set es k) \<le> card (e_selector ` set es)" by (simp add: card_mono)
  also have "\<dots> \<le> length es" using card_image_le [of "set es" e_selector] card_length [of es] by simp
  finally show ?thesis .
qed

text \<open>
  Enumerating the ordered-surface selectors of a texture from slot 0 up to the reported
  count gives, in strictly ascending order, exactly the ordered-surface selectors of the
  entries filed under its key; beyond the count the answer is 0.
\<close>

theorem ordered_surface_slots_enumerate:
  assumes "provider_built p" "length (entries p) < 2 ^ 32"
  shows "map (\<lambda>i. ordered_surface_selector_checksum64 p t c f (of_nat i))
        [0..<unat (ordered_surface_selector_count p t c f)] =
      sorted_list_of_set (ordered_selector_set (entries p)
        (compose_ordered_surface_index_key (compose_hires_checksum64 t c) f)) \<and>
    (\<forall>i. ordered_surface_selector_count p t c f \<le> i \<longrightarrow>
       ordered_surface_selector_checksum64 p t c f i = 0)"
proof -
  define k where "k = compose_ordered_surface_index_key (compose_hires_checksum64 t c) f"
  let ?xs = "bucket (ordered_surface_selectors p) k"
  have x: "sorted ?xs" "distinct ?xs" "set ?xs = ordered_selector_set (entries p) k"
    using ordered_selectors_exact [OF assms(1), of k] by auto
  then have "length ?xs = card (ordered_selector_set (entries p) k)"
    using distinct_card [of ?xs] by simp
  with assms(2) card_ordered_selector_set [of "entries p" k] have l: "length ?xs < 2 ^ 32" by simp
  have cnt: "ordered_surface_selector_count p t c f = of_nat (length ?xs)"
    by (simp add: ordered_surface_selector_count_def bucket_def k_def split: option.splits)
  then have ucnt: "unat (ordered_surface_selector_count p t c f) = length ?xs"
    using l by (simp add: unsigned_of_nat take_bit_nat_eq_self)
  have sel: "ordered_surface_selector_checksum64 p t c f i = (if length ?xs \<le> unat i then 0 else ?xs ! unat i)" for i
    by (simp add: ordered_surface_selector_checksum64_def bucket_def k_def split: option.splits)
  have "map (\<lambda>i. ordered_surface_selector_checksum64 p t c f (of_nat i)) [0..<length ?xs] = ?xs"
    using l by (intro nth_equalityI) (auto simp: sel unsigned_of_nat take_bit_nat_eq_self)
  moreover have "?xs = sorted_list_of_set (ordered_selector_set (entries p) k)"
    using x sorted_list_of_set.idem_if_sorted_distinct [of ?xs] by simp
  ultimately show ?thesis
    by (simp add: ucnt k_def [symmetric] sel word_le_nat_alt)
qed

theorem ordered_surface_slots_enumerate_witness:
  "map (\<lambda>i. ordered_surface_selector_checksum64
        (add_entry default_provider (sample_entry ''a'' 7 0x5352464300000001 True)) 7 0 0x102 (of_nat i))
      [0..<unat (ordered_surface_selector_count
        (add_entry default_provider (sample_entry ''a'' 7 0x5352464300000001 True)) 7 0 0x102)]
    = [0x5352464300000001]"
proof -
  have "ordered_selector_set [sample_entry ''a'' 7 0x5352464300000001 True]
      (compose_ordered_surface_index_key (compose_hires_checksum64 7 0) 0x102) = {0x5352464300000001}"
    by (auto simp: ordered_selector_set_def sample_entry_def is_ordered_surface_selector_def
        ORDERED_SURFACE_SELECTOR_TAG_def ORDERED_SURFACE_SELECTOR_MASK_def entry_ordered_key_def
        compose_ordered_surface_index_key_def compose_hires_checksum64_def)
  then show ?thesis
    using ordered_surface_slots_enumerate
      [OF provider_built.added [OF provider_built.default, of "sample_entry ''a'' 7 0x5352464300000001 True"],
       of 7 0 "0x102"]
    by simp
qed

section \<open>Counters\<close>

definition dup_sum :: "('k \<times> u32) list \<Rightarrow> u32" where
  "dup_sum xs = sum_list (map snd xs)"

lemma foldl_dup_sum: "foldl (\<lambda>acc (_, n). acc + n) a xs = a + dup_sum xs"
  by (induction xs arbitrary: a) (auto simp: dup_sum_def)

lemma dup_sum_update:
  "map_of xs k = None \<Longrightarrow> dup_sum (AList.update k v xs) = dup_sum xs + v"
  "map_of xs k = Some n \<Longrightarrow> dup_sum (AList.update k (n + 1) xs) = dup_sum xs + 1"
  by (induction xs) (auto simp: dup_sum_def split: if_splits)

lemma length_alist_update:
  "length (AList.update k v xs) = (if map_of xs k = None then Suc (length xs) else length xs)"
  by (induction xs) auto

definition native_count :: "entry list \<Rightarrow> nat" where
  "native_count es = length (filter has_native_sampled_identity es)"

lemma native_count_split:
  "provider_built p \<Longrightarrow>
     of_nat (length (sampled_index p)) + dup_sum (sampled_duplicate_index p)
       = (of_nat (native_count (entries p)) :: u32)"
proof (induction rule: provider_built.induct)
  case (added p e)
  then show ?case
    by (auto simp: add_entry_def Let_def native_count_def sampled_index_insert_def
        sampled_duplicate_insert_def length_alist_update dup_sum_update algebra_simps
        split: option.splits)
qed (auto simp: sampled_index_setters native_count_def dup_sum_def)

lemma get_stats_fold:
  "st_native_sampled_entry_count (foldl stats_step st es) =
     st_native_sampled_entry_count st + of_nat (native_count es)"
  "st_compat_entry_count (foldl stats_step st es) =
     st_compat_entry_count st + of_nat (length es - native_count es)"
  "st_entry_count (foldl stats_step st es) = st_entry_count st"
  "st_sampled_index_count (foldl stats_step st es) = st_sampled_index_count st"
  "st_sampled_duplicate_entry_count (foldl stats_step st es) = st_sampled_duplicate_entry_count st"
proof (induction es arbitrary: st)
  case (Cons e es)
  have "native_count es \<le> length es" by (simp add: native_count_def)
  case 1 with Cons show ?case by (auto simp: stats_step_def Let_def native_count_def)
  case 2 with Cons \<open>native_count es \<le> length es\<close> show ?case
    by (auto simp: stats_step_def Let_def native_count_def Suc_diff_le)
  case 3 with Cons show ?case by (auto simp: stats_step_def Let_def)
  case 4 with Cons show ?case by (auto simp: stats_step_def Let_def)
  case 5 with Cons show ?case by (auto simp: stats_step_def Let_def)
qed (simp_all add: native_count_def)

text \<open>
  The statistics account for every entry: native and compatibility counts add up to the
  entry count, and the native entries are the keys of the exact index plus the entries
  counted as duplicates, so no native entry is dropped from the bookkeeping.
\<close>

theorem get_stats_accounts:
  assumes "provider_built p"
  shows "st_entry_count (get_stats p) =
      st_native_sampled_entry_count (get_stats p) + st_compat_entry_count (get_stats p) \<and>
    st_native_sampled_entry_count (get_stats p) =
      st_sampled_index_count (get_stats p) + st_sampled_duplicate_entry_count (get_stats p)"
proof -
  have "native_count (entries p) \<le> length (entries p)" by (simp add: native_count_def)
  then have "(of_nat (length (entries p)) :: u32) =
      of_nat (native_count (entries p)) + of_nat (length (entries p) - native_count (entries p))"
    by (simp flip: of_nat_add)
  with native_count_split [OF assms] show ?thesis
    by (simp add: get_stats_def get_stats_fold foldl_dup_sum)
qed

theorem get_stats_accounts_witness:
  "st_native_sampled_entry_count (get_stats sample_provider) =
     st_sampled_index_count (get_stats sample_provider) +
     st_sampled_duplicate_entry_count (get_stats sample_provider)"
  using get_stats_accounts [OF sample_provider_built] by simp

text \<open>Each update of the step is looked at on its own, without unfolding the ones before it.\<close>

lemma zero_count_known:
  "(\<And>d. d = x \<Longrightarrow> sf_active_zero_selector_count (B d) = k) \<Longrightarrow> sf_active_zero_selector_count (Let x B) = k"
  by (simp add: Let_def)

lemma zero_count_frame:
  "sf_active_zero_selector_count x = k \<Longrightarrow>
   (\<And>d. sf_active_zero_selector_count d = k \<Longrightarrow> sf_active_zero_selector_count (B d) = k) \<Longrightarrow>
   sf_active_zero_selector_count (Let x B) = k"
  by (simp add: Let_def)

lemma describe_family_step_zero_count:
  "sf_active_zero_selector_count (describe_family_step req d e) =
     sf_active_zero_selector_count d + (if e_selector e = 0 then 1 else 0)"
  unfolding describe_family_step_def
  apply (rule zero_count_known)
  apply (rule zero_count_frame)
   apply (simp add: Let_def)
  apply (rule zero_count_frame, simp)+
  apply simp
  done

lemma describe_family_fold:
  "sf_active_zero_selector_count (foldl (describe_family_step req) d es) =
     sf_active_zero_selector_count d + of_nat (length (filter (\<lambda>e. e_selector e = 0) es))"
proof (induction es arbitrary: d)
  case (Cons e es)
  then show ?case by (simp add: describe_family_step_zero_count)
qed simp

lemma describe_sampled_family_spec:
  assumes "provider_built p"
  shows "map_option (\<lambda>d. (sf_active_unique_selector_count d, sf_active_zero_selector_count d))
      (describe_sampled_family p sg f req) =
    (let es = active_family (entries p) sg f in
     if \<not> enabled p \<or> es = [] then None
     else Some (of_nat (card (e_selector ` set es - {0})), of_nat (length (filter (\<lambda>e. e_selector e = 0) es))))"
proof (cases "or_else (find_family p sg f) (find_family p sg 0)")
  case None
  with find_active_family [OF assms, of sg f] show ?thesis
    by (simp add: describe_sampled_family_def Let_def split: if_splits)
next
  case (Some "is")
  with find_active_family [OF assms, of sg f]
  have a: "entries_at p is = active_family (entries p) sg f" "active_family (entries p) sg f \<noteq> []"
    by (auto split: if_splits)
  have "length (foldl push_unique [] (filter (\<lambda>s. s \<noteq> 0) (map e_selector es))) =
      card (e_selector ` set es - {0})" for es :: "entry list"
    unfolding length_foldl_push_unique by (rule arg_cong [where f = card]) auto
  with a Some show ?thesis
    unfolding describe_sampled_family_def Let_def Some option.case
    by (simp add: describe_family_fold empty_sampled_family_diagnostics_def)
qed

lemma u32_of_nat_eq: "n < 2 ^ 32 \<Longrightarrow> k < 2 ^ 32 \<Longrightarrow> (of_nat n :: u32) = of_nat k \<longleftrightarrow> n = k"
  by (simp add: word_unat_eq_iff unsigned_of_nat take_bit_nat_eq_self)

lemma shared_selector_iff:
  assumes "es \<noteq> []"
  shows "(\<exists>s. \<forall>e \<in> set es. e_selector e = s) \<longleftrightarrow>
    card (e_selector ` set es - {0}) = 0 \<or>
    card (e_selector ` set es - {0}) = 1 \<and> filter (\<lambda>e. e_selector e = 0) es = []"
proof -
  let ?S = "e_selector ` set es"
  have ne: "?S \<noteq> {}" using assms by simp
  have z: "filter (\<lambda>e. e_selector e = 0) es = [] \<longleftrightarrow> 0 \<notin> ?S"
    unfolding filter_empty_conv image_iff by metis
  have one: "(\<exists>s. \<forall>e \<in> set es. e_selector e = s) \<longleftrightarrow> (\<exists>s. ?S = {s})"
  proof
    assume "\<exists>s. \<forall>e \<in> set es. e_selector e = s"
    then obtain s where "\<forall>e \<in> set es. e_selector e = s" ..
    then have "?S \<subseteq> {s}" by auto
    with ne have "?S = {s}" by (simp only: subset_singleton_iff) simp
    then show "\<exists>s. ?S = {s}" ..
  qed auto
  have sets: "(\<exists>s. S = {s}) \<longleftrightarrow> S - {0} = {} \<or> (\<exists>s. S - {0} = {s}) \<and> 0 \<notin> S"
    if "S \<noteq> {}" for S :: "u64 set"
  proof (cases "0 \<in> S")
    case True
    then show ?thesis by auto
  next
    case False
    with that show ?thesis by simp
  qed
  show ?thesis
    unfolding one z sets [OF ne] by (simp add: card_1_singleton_iff)
qed

text \<open>
  The family diagnostics and the singleton lookup agree: the lookup answers exactly for a
  family whose diagnostics show either no selector at all, or one selector and no entry
  without selector.
\<close>

theorem family_singleton_iff_diagnostics:
  assumes "provider_built p" "length (entries p) < 2 ^ 32"
  shows "lookup_sampled_family_singleton p sg f \<noteq> None \<longleftrightarrow>
    (\<exists>d. describe_sampled_family p sg f req = Some d \<and>
       (sf_active_unique_selector_count d = 0 \<or>
        sf_active_unique_selector_count d = 1 \<and> sf_active_zero_selector_count d = 0))"
proof -
  let ?es = "active_family (entries p) sg f"
  have le: "length ?es \<le> length (entries p)" by (simp add: active_family_def family_def)
  have "card (e_selector ` set ?es - {0}) \<le> card (e_selector ` set ?es)" by (simp add: card_mono)
  also have "\<dots> \<le> length ?es" using card_image_le [of "set ?es" e_selector] card_length [of ?es] by simp
  finally have c: "card (e_selector ` set ?es - {0}) < 2 ^ 32" using le assms(2) by simp
  have z: "length (filter (\<lambda>e. e_selector e = 0) ?es) < 2 ^ 32"
    using le assms(2) by (meson length_filter_le order_le_less_trans)
  have "lookup_sampled_family_singleton p sg f \<noteq> None \<longleftrightarrow>
      enabled p \<and> ?es \<noteq> [] \<and> (\<exists>s. \<forall>e \<in> set ?es. e_selector e = s)"
    by (auto simp: lookup_sampled_family_singleton_def find_singleton_spec [OF assms(1)]
        spec_singleton_def Let_def split: list.splits)
  also have "\<dots> \<longleftrightarrow> enabled p \<and> ?es \<noteq> [] \<and>
      ((of_nat (card (e_selector ` set ?es - {0})) :: u32) = 0 \<or>
       (of_nat (card (e_selector ` set ?es - {0})) :: u32) = 1 \<and>
       (of_nat (length (filter (\<lambda>e. e_selector e = 0) ?es)) :: u32) = 0)"
    using shared_selector_iff [of ?es] u32_of_nat_eq [OF c, of 0] u32_of_nat_eq [OF c, of 1]
      u32_of_nat_eq [OF z, of 0]
    by auto
  also have "\<dots> \<longleftrightarrow> (\<exists>d. describe_sampled_family p sg f req = Some d \<and>
       (sf_active_unique_selector_count d = 0 \<or>
        sf_active_unique_selector_count d = 1 \<and> sf_active_zero_selector_count d = 0))"
    using describe_sampled_family_spec [OF assms(1), of sg f req]
    by (cases "describe_sampled_family p sg f req") (auto simp: Let_def split: if_splits)
  finally show ?thesis .
qed

theorem family_singleton_iff_diagnostics_witness:
  "lookup_sampled_family_singleton sample_provider no_sig 0x102 \<noteq> None"
proof -
  have "map_option (\<lambda>d. (sf_active_unique_selector_count d, sf_active_zero_selector_count d))
      (describe_sampled_family sample_provider no_sig 0x102 0) = Some (0, 2)"
    unfolding describe_sampled_family_spec [OF sample_provider_built]
    by (simp add: active_family_def family_def sample_entry_def Let_def)
  then have "\<exists>d. describe_sampled_family sample_provider no_sig 0x102 0 = Some d \<and>
      sf_active_unique_selector_count d = 0" by auto
  with family_singleton_iff_diagnostics [OF sample_provider_built, of no_sig "0x102" 0]
  show ?thesis by (auto simp del: not_None_eq)
qed

end
