(* ===== verification/PHRB_Format.thy ===== *)
theory PHRB_Format
  imports RDP_Prelude
begin

text \<open>
  The on-disk structures of a replacement pack (\<open>PHRB\<close>), as \<open>texture_replacement.cpp\<close>
  declares them: packed structures of 32- and 64-bit fields that are read by copying bytes, so
  that a field holds the little-endian value of its bytes on the machines the emulator runs
  on. Every field is a multiple of four bytes at a multiple of four, so that a structure is a
  list of 32-bit words. The locale \<open>pod_codec\<close> is the contract of such a structure; it is
  interpreted on each of the eight.
\<close>

section \<open>Words and bytes\<close>

definition le32 :: "u8 \<Rightarrow> u8 \<Rightarrow> u8 \<Rightarrow> u8 \<Rightarrow> u32" where
  "le32 a b c d = ucast a OR push_bit 8 (ucast b) OR push_bit 16 (ucast c) OR push_bit 24 (ucast d)"

definition le32_bytes :: "u32 \<Rightarrow> bytes" where
  "le32_bytes w = [ucast w, ucast (drop_bit 8 w), ucast (drop_bit 16 w), ucast (drop_bit 24 w)]"

fun words32 :: "bytes \<Rightarrow> u32 list" where
  "words32 (a # b # c # d # rest) = le32 a b c d # words32 rest"
| "words32 _ = []"

definition join_words :: "u32 \<Rightarrow> u32 \<Rightarrow> u64" where
  "join_words lo hi = ucast lo OR push_bit 32 (ucast hi)"

definition low_word :: "u64 \<Rightarrow> u32" where
  "low_word w = ucast w"

definition high_word :: "u64 \<Rightarrow> u32" where
  "high_word w = ucast (drop_bit 32 w)"

lemma le32_le32_bytes: "le32 (ucast w) (ucast (drop_bit 8 w)) (ucast (drop_bit 16 w)) (ucast (drop_bit 24 w)) = w"
proof (rule bit_word_eqI)
  fix n assume "n < LENGTH(32)"
  then show "bit (le32 (ucast w) (ucast (drop_bit 8 w)) (ucast (drop_bit 16 w)) (ucast (drop_bit 24 w))) n = bit w n"
    unfolding le32_def
    by (cases "n < 8"; cases "n < 16"; cases "n < 24")
      (auto simp: bit_or_iff bit_push_bit_iff bit_ucast_iff bit_drop_bit_eq)
qed

lemma join_low_high [simp]: "join_words (low_word w) (high_word w) = w"
  unfolding join_words_def low_word_def high_word_def
  by (rule bit_word_eqI) (auto simp: bit_or_iff bit_push_bit_iff bit_ucast_iff bit_drop_bit_eq)

lemma words32_bytes [simp]: "words32 (concat (map le32_bytes ws)) = ws"
  by (induction ws) (simp_all add: le32_bytes_def le32_le32_bytes)

lemma length_concat_le32_bytes [simp]: "length (concat (map le32_bytes ws)) = 4 * length ws"
  by (induction ws) (simp_all add: le32_bytes_def)

lemma length_words32: "length (words32 bs) = length bs div 4"
  by (induction bs rule: words32.induct) (simp_all add: div_if)

section \<open>Reading a structure\<close>

definition read_pod_from_blob :: "nat \<Rightarrow> (u32 list \<Rightarrow> 'a) \<Rightarrow> bytes \<Rightarrow> nat \<Rightarrow> 'a option" where
  "read_pod_from_blob sz of_words blob offset =
     (if length blob < offset + sz then None
      else Some (of_words (words32 (take sz (drop offset blob)))))"

text \<open>The bytes of a structure in memory, and on disk.\<close>

definition pod_bytes :: "('a \<Rightarrow> u32 list) \<Rightarrow> 'a \<Rightarrow> bytes" where
  "pod_bytes to_words x = concat (map le32_bytes (to_words x))"

locale pod_codec =
  fixes to_words :: "'a \<Rightarrow> u32 list"
    and of_words :: "u32 list \<Rightarrow> 'a"
    and nwords :: nat
  assumes length_to_words: "length (to_words x) = nwords"
    and of_to_words: "of_words (to_words x) = x"
begin

lemma length_pod_bytes [simp]: "length (pod_bytes to_words x) = 4 * nwords"
  by (simp add: pod_bytes_def length_to_words)

lemma read_at:
  "read_pod_from_blob (4 * nwords) of_words (pre @ pod_bytes to_words x @ post) (length pre) = Some x"
proof -
  have "take (4 * nwords) (drop (length pre) (pre @ pod_bytes to_words x @ post)) = pod_bytes to_words x" by simp
  then show ?thesis
    unfolding read_pod_from_blob_def by (simp add: pod_bytes_def of_to_words length_to_words)
qed

text \<open>The table of structures: the \<open>i\<close>-th one is found at its stride.\<close>

lemma read_table:
  assumes "i < length xs"
  shows "read_pod_from_blob (4 * nwords) of_words
    (pre @ concat (map (pod_bytes to_words) xs) @ post) (length pre + i * (4 * nwords)) = Some (xs ! i)"
proof -
  have len: "length (concat (map (pod_bytes to_words) ys)) = length ys * (4 * nwords)" for ys
    by (induction ys) auto
  have "xs = take i xs @ xs ! i # drop (Suc i) xs" using assms by (simp add: id_take_nth_drop)
  then have "concat (map (pod_bytes to_words) xs) =
      concat (map (pod_bytes to_words) (take i xs)) @ pod_bytes to_words (xs ! i) @ concat (map (pod_bytes to_words) (drop (Suc i) xs))"
    by (metis concat.simps(2) concat_append list.simps(9) map_append)
  moreover have "length (pre @ concat (map (pod_bytes to_words) (take i xs))) = length pre + i * (4 * nwords)"
    using assms by (simp add: len)
  ultimately show ?thesis
    using read_at [of "pre @ concat (map (pod_bytes to_words) (take i xs))" "xs ! i"
        "concat (map (pod_bytes to_words) (drop (Suc i) xs)) @ post"] by simp
qed

lemma read_None_iff:
  "read_pod_from_blob (4 * nwords) of_words blob offset = None \<longleftrightarrow> length blob < offset + 4 * nwords"
  by (simp add: read_pod_from_blob_def)

end

section \<open>The structures\<close>

record phrb_header =
  h_magic :: u32
  h_version :: u32
  h_record_count :: u32
  h_asset_count :: u32
  h_record_table_offset :: u32
  h_asset_table_offset :: u32
  h_string_table_offset :: u32
  h_blob_offset :: u32

record phrb_record_v2 =
  r2_policy_key_offset :: u32
  r2_sampled_object_id_offset :: u32
  r2_fmt :: u32
  r2_siz :: u32
  r2_tex_offset :: u32
  r2_stride :: u32
  r2_width :: u32
  r2_height :: u32
  r2_formatsize :: u32
  r2_sampled_low32 :: u32
  r2_sampled_entry_pcrc :: u32
  r2_sampled_sparse_pcrc :: u32
  r2_asset_candidate_count :: u32

record phrb_record_v4 =
  r4_policy_key_offset :: u32
  r4_sampled_object_id_offset :: u32
  r4_record_flags :: u32
  r4_fmt :: u32
  r4_siz :: u32
  r4_tex_offset :: u32
  r4_stride :: u32
  r4_width :: u32
  r4_height :: u32
  r4_formatsize :: u32
  r4_sampled_low32 :: u32
  r4_sampled_entry_pcrc :: u32
  r4_sampled_sparse_pcrc :: u32
  r4_asset_candidate_count :: u32

record phrb_asset_v2 =
  a2_record_index :: u32
  a2_replacement_id_offset :: u32
  a2_legacy_source_path_offset :: u32
  a2_rgba_rel_path_offset :: u32
  a2_variant_group_id_offset :: u32
  a2_width :: u32
  a2_height :: u32
  a2_texture_format :: u32
  a2_pixel_type :: u32
  a2_legacy_formatsize :: u32
  a2_rgba_blob_offset :: u32
  a2_rgba_blob_size :: u32

record phrb_asset_v3 =
  a3_record_index :: u32
  a3_replacement_id_offset :: u32
  a3_legacy_source_path_offset :: u32
  a3_rgba_rel_path_offset :: u32
  a3_variant_group_id_offset :: u32
  a3_width :: u32
  a3_height :: u32
  a3_texture_format :: u32
  a3_pixel_type :: u32
  a3_legacy_formatsize :: u32
  a3_selector_checksum64 :: u64
  a3_rgba_blob_offset :: u32
  a3_rgba_blob_size :: u32

record phrb_asset_v5 =
  a5_record_index :: u32
  a5_replacement_id_offset :: u32
  a5_legacy_source_path_offset :: u32
  a5_rgba_rel_path_offset :: u32
  a5_variant_group_id_offset :: u32
  a5_width :: u32
  a5_height :: u32
  a5_texture_format :: u32
  a5_pixel_type :: u32
  a5_legacy_formatsize :: u32
  a5_selector_checksum64 :: u64
  a5_legacy_checksum64 :: u64
  a5_rgba_blob_offset :: u32
  a5_rgba_blob_size :: u32

record phrb_asset_v6 =
  a6_record_index :: u32
  a6_replacement_id_offset :: u32
  a6_legacy_source_path_offset :: u32
  a6_rgba_rel_path_offset :: u32
  a6_variant_group_id_offset :: u32
  a6_width :: u32
  a6_height :: u32
  a6_texture_format :: u32
  a6_pixel_type :: u32
  a6_legacy_formatsize :: u32
  a6_selector_checksum64 :: u64
  a6_legacy_checksum64 :: u64
  a6_rgba_blob_offset :: u64
  a6_rgba_blob_size :: u64

record phrb_asset_v7 =
  a7_record_index :: u32
  a7_replacement_id_offset :: u32
  a7_legacy_source_path_offset :: u32
  a7_rgba_rel_path_offset :: u32
  a7_variant_group_id_offset :: u32
  a7_width :: u32
  a7_height :: u32
  a7_format :: u32
  a7_texture_format :: u32
  a7_pixel_type :: u32
  a7_legacy_formatsize :: u32
  a7_selector_checksum64 :: u64
  a7_legacy_checksum64 :: u64
  a7_rgba_blob_offset :: u64
  a7_rgba_blob_size :: u64

definition phrb_header_of_words :: "u32 list \<Rightarrow> phrb_header" where
  "phrb_header_of_words ws =
     \<lparr>h_magic = ws ! 0, h_version = ws ! 1, h_record_count = ws ! 2, h_asset_count = ws ! 3,
      h_record_table_offset = ws ! 4, h_asset_table_offset = ws ! 5,
      h_string_table_offset = ws ! 6, h_blob_offset = ws ! 7\<rparr>"

definition phrb_header_words :: "phrb_header \<Rightarrow> u32 list" where
  "phrb_header_words x =
     [h_magic x] @ [h_version x] @ [h_record_count x] @ [h_asset_count x] @
     [h_record_table_offset x] @ [h_asset_table_offset x] @ [h_string_table_offset x] @
     [h_blob_offset x]"

interpretation h_codec: pod_codec phrb_header_words phrb_header_of_words 8
  by unfold_locales (simp_all add: phrb_header_words_def phrb_header_of_words_def)

definition phrb_record_v2_of_words :: "u32 list \<Rightarrow> phrb_record_v2" where
  "phrb_record_v2_of_words ws =
     \<lparr>r2_policy_key_offset = ws ! 0, r2_sampled_object_id_offset = ws ! 1, r2_fmt = ws ! 2,
      r2_siz = ws ! 3, r2_tex_offset = ws ! 4, r2_stride = ws ! 5, r2_width = ws ! 6,
      r2_height = ws ! 7, r2_formatsize = ws ! 8, r2_sampled_low32 = ws ! 9,
      r2_sampled_entry_pcrc = ws ! 10, r2_sampled_sparse_pcrc = ws ! 11,
      r2_asset_candidate_count = ws ! 12\<rparr>"

definition phrb_record_v2_words :: "phrb_record_v2 \<Rightarrow> u32 list" where
  "phrb_record_v2_words x =
     [r2_policy_key_offset x] @ [r2_sampled_object_id_offset x] @ [r2_fmt x] @ [r2_siz x] @
     [r2_tex_offset x] @ [r2_stride x] @ [r2_width x] @ [r2_height x] @ [r2_formatsize x] @
     [r2_sampled_low32 x] @ [r2_sampled_entry_pcrc x] @ [r2_sampled_sparse_pcrc x] @
     [r2_asset_candidate_count x]"

interpretation r2_codec: pod_codec phrb_record_v2_words phrb_record_v2_of_words 13
  by unfold_locales (simp_all add: phrb_record_v2_words_def phrb_record_v2_of_words_def)

definition phrb_record_v4_of_words :: "u32 list \<Rightarrow> phrb_record_v4" where
  "phrb_record_v4_of_words ws =
     \<lparr>r4_policy_key_offset = ws ! 0, r4_sampled_object_id_offset = ws ! 1,
      r4_record_flags = ws ! 2, r4_fmt = ws ! 3, r4_siz = ws ! 4, r4_tex_offset = ws ! 5,
      r4_stride = ws ! 6, r4_width = ws ! 7, r4_height = ws ! 8, r4_formatsize = ws ! 9,
      r4_sampled_low32 = ws ! 10, r4_sampled_entry_pcrc = ws ! 11,
      r4_sampled_sparse_pcrc = ws ! 12, r4_asset_candidate_count = ws ! 13\<rparr>"

definition phrb_record_v4_words :: "phrb_record_v4 \<Rightarrow> u32 list" where
  "phrb_record_v4_words x =
     [r4_policy_key_offset x] @ [r4_sampled_object_id_offset x] @ [r4_record_flags x] @
     [r4_fmt x] @ [r4_siz x] @ [r4_tex_offset x] @ [r4_stride x] @ [r4_width x] @
     [r4_height x] @ [r4_formatsize x] @ [r4_sampled_low32 x] @ [r4_sampled_entry_pcrc x] @
     [r4_sampled_sparse_pcrc x] @ [r4_asset_candidate_count x]"

interpretation r4_codec: pod_codec phrb_record_v4_words phrb_record_v4_of_words 14
  by unfold_locales (simp_all add: phrb_record_v4_words_def phrb_record_v4_of_words_def)

definition phrb_asset_v2_of_words :: "u32 list \<Rightarrow> phrb_asset_v2" where
  "phrb_asset_v2_of_words ws =
     \<lparr>a2_record_index = ws ! 0, a2_replacement_id_offset = ws ! 1,
      a2_legacy_source_path_offset = ws ! 2, a2_rgba_rel_path_offset = ws ! 3,
      a2_variant_group_id_offset = ws ! 4, a2_width = ws ! 5, a2_height = ws ! 6,
      a2_texture_format = ws ! 7, a2_pixel_type = ws ! 8, a2_legacy_formatsize = ws ! 9,
      a2_rgba_blob_offset = ws ! 10, a2_rgba_blob_size = ws ! 11\<rparr>"

definition phrb_asset_v2_words :: "phrb_asset_v2 \<Rightarrow> u32 list" where
  "phrb_asset_v2_words x =
     [a2_record_index x] @ [a2_replacement_id_offset x] @ [a2_legacy_source_path_offset x] @
     [a2_rgba_rel_path_offset x] @ [a2_variant_group_id_offset x] @ [a2_width x] @
     [a2_height x] @ [a2_texture_format x] @ [a2_pixel_type x] @ [a2_legacy_formatsize x] @
     [a2_rgba_blob_offset x] @ [a2_rgba_blob_size x]"

interpretation a2_codec: pod_codec phrb_asset_v2_words phrb_asset_v2_of_words 12
  by unfold_locales (simp_all add: phrb_asset_v2_words_def phrb_asset_v2_of_words_def)

definition phrb_asset_v3_of_words :: "u32 list \<Rightarrow> phrb_asset_v3" where
  "phrb_asset_v3_of_words ws =
     \<lparr>a3_record_index = ws ! 0, a3_replacement_id_offset = ws ! 1,
      a3_legacy_source_path_offset = ws ! 2, a3_rgba_rel_path_offset = ws ! 3,
      a3_variant_group_id_offset = ws ! 4, a3_width = ws ! 5, a3_height = ws ! 6,
      a3_texture_format = ws ! 7, a3_pixel_type = ws ! 8, a3_legacy_formatsize = ws ! 9,
      a3_selector_checksum64 = join_words (ws ! 10) (ws ! 11), a3_rgba_blob_offset = ws ! 12,
      a3_rgba_blob_size = ws ! 13\<rparr>"

definition phrb_asset_v3_words :: "phrb_asset_v3 \<Rightarrow> u32 list" where
  "phrb_asset_v3_words x =
     [a3_record_index x] @ [a3_replacement_id_offset x] @ [a3_legacy_source_path_offset x] @
     [a3_rgba_rel_path_offset x] @ [a3_variant_group_id_offset x] @ [a3_width x] @
     [a3_height x] @ [a3_texture_format x] @ [a3_pixel_type x] @ [a3_legacy_formatsize x] @
     [low_word (a3_selector_checksum64 x), high_word (a3_selector_checksum64 x)] @
     [a3_rgba_blob_offset x] @ [a3_rgba_blob_size x]"

interpretation a3_codec: pod_codec phrb_asset_v3_words phrb_asset_v3_of_words 14
  by unfold_locales (simp_all add: phrb_asset_v3_words_def phrb_asset_v3_of_words_def)

definition phrb_asset_v5_of_words :: "u32 list \<Rightarrow> phrb_asset_v5" where
  "phrb_asset_v5_of_words ws =
     \<lparr>a5_record_index = ws ! 0, a5_replacement_id_offset = ws ! 1,
      a5_legacy_source_path_offset = ws ! 2, a5_rgba_rel_path_offset = ws ! 3,
      a5_variant_group_id_offset = ws ! 4, a5_width = ws ! 5, a5_height = ws ! 6,
      a5_texture_format = ws ! 7, a5_pixel_type = ws ! 8, a5_legacy_formatsize = ws ! 9,
      a5_selector_checksum64 = join_words (ws ! 10) (ws ! 11),
      a5_legacy_checksum64 = join_words (ws ! 12) (ws ! 13), a5_rgba_blob_offset = ws ! 14,
      a5_rgba_blob_size = ws ! 15\<rparr>"

definition phrb_asset_v5_words :: "phrb_asset_v5 \<Rightarrow> u32 list" where
  "phrb_asset_v5_words x =
     [a5_record_index x] @ [a5_replacement_id_offset x] @ [a5_legacy_source_path_offset x] @
     [a5_rgba_rel_path_offset x] @ [a5_variant_group_id_offset x] @ [a5_width x] @
     [a5_height x] @ [a5_texture_format x] @ [a5_pixel_type x] @ [a5_legacy_formatsize x] @
     [low_word (a5_selector_checksum64 x), high_word (a5_selector_checksum64 x)] @
     [low_word (a5_legacy_checksum64 x), high_word (a5_legacy_checksum64 x)] @
     [a5_rgba_blob_offset x] @ [a5_rgba_blob_size x]"

interpretation a5_codec: pod_codec phrb_asset_v5_words phrb_asset_v5_of_words 16
  by unfold_locales (simp_all add: phrb_asset_v5_words_def phrb_asset_v5_of_words_def)

definition phrb_asset_v6_of_words :: "u32 list \<Rightarrow> phrb_asset_v6" where
  "phrb_asset_v6_of_words ws =
     \<lparr>a6_record_index = ws ! 0, a6_replacement_id_offset = ws ! 1,
      a6_legacy_source_path_offset = ws ! 2, a6_rgba_rel_path_offset = ws ! 3,
      a6_variant_group_id_offset = ws ! 4, a6_width = ws ! 5, a6_height = ws ! 6,
      a6_texture_format = ws ! 7, a6_pixel_type = ws ! 8, a6_legacy_formatsize = ws ! 9,
      a6_selector_checksum64 = join_words (ws ! 10) (ws ! 11),
      a6_legacy_checksum64 = join_words (ws ! 12) (ws ! 13),
      a6_rgba_blob_offset = join_words (ws ! 14) (ws ! 15),
      a6_rgba_blob_size = join_words (ws ! 16) (ws ! 17)\<rparr>"

definition phrb_asset_v6_words :: "phrb_asset_v6 \<Rightarrow> u32 list" where
  "phrb_asset_v6_words x =
     [a6_record_index x] @ [a6_replacement_id_offset x] @ [a6_legacy_source_path_offset x] @
     [a6_rgba_rel_path_offset x] @ [a6_variant_group_id_offset x] @ [a6_width x] @
     [a6_height x] @ [a6_texture_format x] @ [a6_pixel_type x] @ [a6_legacy_formatsize x] @
     [low_word (a6_selector_checksum64 x), high_word (a6_selector_checksum64 x)] @
     [low_word (a6_legacy_checksum64 x), high_word (a6_legacy_checksum64 x)] @
     [low_word (a6_rgba_blob_offset x), high_word (a6_rgba_blob_offset x)] @
     [low_word (a6_rgba_blob_size x), high_word (a6_rgba_blob_size x)]"

interpretation a6_codec: pod_codec phrb_asset_v6_words phrb_asset_v6_of_words 18
  by unfold_locales (simp_all add: phrb_asset_v6_words_def phrb_asset_v6_of_words_def)

definition phrb_asset_v7_of_words :: "u32 list \<Rightarrow> phrb_asset_v7" where
  "phrb_asset_v7_of_words ws =
     \<lparr>a7_record_index = ws ! 0, a7_replacement_id_offset = ws ! 1,
      a7_legacy_source_path_offset = ws ! 2, a7_rgba_rel_path_offset = ws ! 3,
      a7_variant_group_id_offset = ws ! 4, a7_width = ws ! 5, a7_height = ws ! 6,
      a7_format = ws ! 7, a7_texture_format = ws ! 8, a7_pixel_type = ws ! 9,
      a7_legacy_formatsize = ws ! 10, a7_selector_checksum64 = join_words (ws ! 11) (ws ! 12),
      a7_legacy_checksum64 = join_words (ws ! 13) (ws ! 14),
      a7_rgba_blob_offset = join_words (ws ! 15) (ws ! 16),
      a7_rgba_blob_size = join_words (ws ! 17) (ws ! 18)\<rparr>"

definition phrb_asset_v7_words :: "phrb_asset_v7 \<Rightarrow> u32 list" where
  "phrb_asset_v7_words x =
     [a7_record_index x] @ [a7_replacement_id_offset x] @ [a7_legacy_source_path_offset x] @
     [a7_rgba_rel_path_offset x] @ [a7_variant_group_id_offset x] @ [a7_width x] @
     [a7_height x] @ [a7_format x] @ [a7_texture_format x] @ [a7_pixel_type x] @
     [a7_legacy_formatsize x] @
     [low_word (a7_selector_checksum64 x), high_word (a7_selector_checksum64 x)] @
     [low_word (a7_legacy_checksum64 x), high_word (a7_legacy_checksum64 x)] @
     [low_word (a7_rgba_blob_offset x), high_word (a7_rgba_blob_offset x)] @
     [low_word (a7_rgba_blob_size x), high_word (a7_rgba_blob_size x)]"

interpretation a7_codec: pod_codec phrb_asset_v7_words phrb_asset_v7_of_words 19
  by unfold_locales (simp_all add: phrb_asset_v7_words_def phrb_asset_v7_of_words_def)

section \<open>Strings\<close>

text \<open>
  \<open>read_c_string_from_blob\<close>: the bytes from the offset to the first zero, which has to be
  inside the table. The offset is 32 bits wide, the sum is computed in 64.
\<close>

definition read_c_string_from_blob :: "bytes \<Rightarrow> u32 \<Rightarrow> string option" where
  "read_c_string_from_blob data offset =
     (if length data \<le> unat offset then None
      else let rest = drop (unat offset) data; str = takeWhile (\<lambda>b. b \<noteq> 0) rest
           in if length data \<le> unat offset + length str then None
              else Some (map (\<lambda>b. char_of (unat b)) str))"

definition phrb_magic_ok :: "u32 \<Rightarrow> bool" where
  "phrb_magic_ok m \<longleftrightarrow> le32_bytes m = [0x50, 0x48, 0x52, 0x42]"

lemma read_c_string_terminated:
  assumes "0 \<notin> set s" "unat offset = length pre"
  shows "read_c_string_from_blob (pre @ s @ 0 # post) offset = Some (map (\<lambda>b. char_of (unat b)) s)"
  using assms by (auto simp: read_c_string_from_blob_def takeWhile_append Let_def)

end
