(* ===== verification/PHRB_Loader.thy ===== *)
theory PHRB_Loader
  imports PHRB_Format Replacement_Lookup "HOL-Library.Sublist"
begin

text \<open>
  Loading replacement packs: \<open>ReplacementProvider::load_phrb\<close>, \<open>load_cache_dir\<close>,
  \<open>read_blob\<close> and the path helpers of \<open>texture_replacement.cpp\<close>.

  The file system is an argument: a map from paths to contents, and for \<open>load_cache_dir\<close> the
  names a directory lists. Reading from an open file is the functions below on its contents;
  reads that stay inside it succeed. A loader that gives up half way leaves the entries it has
  already added, so it returns the provider together with its answer. The log lines under
  \<open>PARALLEL_RDP_HIRES_PHRB_DEBUG\<close>, and the counters only they print, are left out.
\<close>

section \<open>Files and paths\<close>

type_synonym file_system = "string \<Rightarrow> bytes option"

definition read_exact :: "bytes \<Rightarrow> nat \<Rightarrow> nat \<Rightarrow> bytes option" where
  "read_exact file pos n =
     (if n = 0 then Some []
      else if pos + n \<le> length file then Some (take n (drop pos file)) else None)"

definition to_lower_char :: "char \<Rightarrow> char" where
  "to_lower_char c =
     (if CHR ''A'' \<le> c \<and> c \<le> CHR ''Z'' then char_of (of_char c - of_char CHR ''A'' + of_char CHR ''a'' :: nat)
      else c)"

definition has_suffix :: "string \<Rightarrow> string \<Rightarrow> bool" where
  "has_suffix name sfx =
     (if length name < length sfx then False
      else map to_lower_char (drop (length name - length sfx) name) = map to_lower_char sfx)"

definition is_phrb_cache_path :: "string \<Rightarrow> bool" where
  "is_phrb_cache_path name = has_suffix name ''.phrb''"

section \<open>The loader\<close>

definition PHRB_RECORD_FLAG_RUNTIME_READY :: u32 where
  "PHRB_RECORD_FLAG_RUNTIME_READY = push_bit 0 1"

text \<open>What the loop over the records reads from: path, header, metadata, strings, blob size.\<close>

record phrb_file =
  pf_path :: string
  pf_header :: phrb_header
  pf_metadata :: bytes
  pf_strings :: bytes
  pf_rgba_blob_size :: u64

definition phrb_version_ok :: "u32 \<Rightarrow> bool" where
  "phrb_version_ok v \<longleftrightarrow> v = 2 \<or> v = 3 \<or> v = 4 \<or> v = 5 \<or> v = 6 \<or> v = 7"

definition open_phrb :: "file_system \<Rightarrow> string \<Rightarrow> phrb_file option" where
  "open_phrb fs path =
     (case fs path of None \<Rightarrow> None | Some file \<Rightarrow>
      let sz = length file in
      if sz < 32 then None else
      case read_exact file 0 32 of None \<Rightarrow> None | Some header_buf \<Rightarrow>
      let header = phrb_header_of_words (words32 header_buf) in
      if \<not> phrb_magic_ok (h_magic header) \<or> \<not> phrb_version_ok (h_version header) then None else
      if h_blob_offset header < h_string_table_offset header \<or> sz < unat (h_blob_offset header)
      then None else
      case read_exact file 0 (unat (h_blob_offset header)) of None \<Rightarrow> None | Some metadata \<Rightarrow>
      Some \<lparr>pf_path = path, pf_header = header, pf_metadata = metadata,
            pf_strings = take (unat (h_blob_offset header - h_string_table_offset header))
                           (drop (unat (h_string_table_offset header)) metadata),
            pf_rgba_blob_size = of_nat sz - ucast (h_blob_offset header)\<rparr>)"

text \<open>Version 4 added the flags; older records count as ready.\<close>

definition read_phrb_record :: "phrb_file \<Rightarrow> u32 \<Rightarrow> (phrb_record_v2 \<times> u32) option" where
  "read_phrb_record pf record_index =
     (let hd = pf_header pf; base = unat (h_record_table_offset hd) in
      if 4 \<le> h_version hd then
        map_option (\<lambda>r. (\<lparr>r2_policy_key_offset = r4_policy_key_offset r,
            r2_sampled_object_id_offset = r4_sampled_object_id_offset r,
            r2_fmt = r4_fmt r, r2_siz = r4_siz r, r2_tex_offset = r4_tex_offset r,
            r2_stride = r4_stride r, r2_width = r4_width r, r2_height = r4_height r,
            r2_formatsize = r4_formatsize r, r2_sampled_low32 = r4_sampled_low32 r,
            r2_sampled_entry_pcrc = r4_sampled_entry_pcrc r,
            r2_sampled_sparse_pcrc = r4_sampled_sparse_pcrc r,
            r2_asset_candidate_count = r4_asset_candidate_count r\<rparr>, r4_record_flags r))
          (read_pod_from_blob 56 phrb_record_v4_of_words (pf_metadata pf) (base + unat record_index * 56))
      else
        map_option (\<lambda>r. (r, PHRB_RECORD_FLAG_RUNTIME_READY))
          (read_pod_from_blob 52 phrb_record_v2_of_words (pf_metadata pf) (base + unat record_index * 52)))"

text \<open>The local variables the version branches of the asset loop fill in.\<close>

record asset_view =
  av_width :: u32
  av_height :: u32
  av_format :: u32
  av_texture_format :: u32
  av_pixel_type :: u32
  av_rgba_offset :: u64
  av_rgba_size :: u64
  av_selector :: u64
  av_legacy_checksum64 :: u64
  av_legacy_formatsize :: u16
  av_replacement_id :: string

definition string_or_empty :: "phrb_file \<Rightarrow> u32 \<Rightarrow> string" where
  "string_or_empty pf offset =
     (case read_c_string_from_blob (pf_strings pf) offset of None \<Rightarrow> [] | Some s \<Rightarrow> s)"

definition GL_RGB :: u16 where "GL_RGB = 0x1907"
definition GL_RGBA :: u16 where "GL_RGBA = 0x1908"
definition GL_LUMINANCE :: u16 where "GL_LUMINANCE = 0x1909"
definition GL_UNSIGNED_BYTE :: u16 where "GL_UNSIGNED_BYTE = 0x1401"
definition GL_UNSIGNED_SHORT_4_4_4_4 :: u16 where "GL_UNSIGNED_SHORT_4_4_4_4 = 0x8033"
definition GL_UNSIGNED_SHORT_5_5_5_1 :: u16 where "GL_UNSIGNED_SHORT_5_5_5_1 = 0x8034"
definition GL_UNSIGNED_SHORT_5_6_5 :: u16 where "GL_UNSIGNED_SHORT_5_6_5 = 0x8363"
definition GL_RGB8 :: u32 where "GL_RGB8 = 0x8051"
definition GL_RGBA8 :: u32 where "GL_RGBA8 = 0x8058"
definition GL_TEXFMT_GZ :: u32 where "GL_TEXFMT_GZ = 0x80000000"

lemmas gl_defs = GL_RGB_def GL_RGBA_def GL_LUMINANCE_def GL_UNSIGNED_BYTE_def
  GL_UNSIGNED_SHORT_4_4_4_4_def GL_UNSIGNED_SHORT_5_5_5_1_def GL_UNSIGNED_SHORT_5_6_5_def
  GL_RGB8_def GL_RGBA8_def GL_TEXFMT_GZ_def

definition read_phrb_asset :: "phrb_file \<Rightarrow> u32 \<Rightarrow> asset_view option" where
  "read_phrb_asset pf asset_index =
     (let hd = pf_header pf; v = h_version hd; base = unat (h_asset_table_offset hd);
          i = unat asset_index; md = pf_metadata pf in
      if 7 \<le> v then
        map_option (\<lambda>a. \<lparr>av_width = a7_width a, av_height = a7_height a, av_format = a7_format a,
            av_texture_format = a7_texture_format a, av_pixel_type = a7_pixel_type a,
            av_rgba_offset = a7_rgba_blob_offset a, av_rgba_size = a7_rgba_blob_size a,
            av_selector = a7_selector_checksum64 a, av_legacy_checksum64 = a7_legacy_checksum64 a,
            av_legacy_formatsize = ucast (a7_legacy_formatsize a),
            av_replacement_id = string_or_empty pf (a7_replacement_id_offset a)\<rparr>)
          (read_pod_from_blob 76 phrb_asset_v7_of_words md (base + i * 76))
      else if 6 \<le> v then
        map_option (\<lambda>a. \<lparr>av_width = a6_width a, av_height = a6_height a, av_format = GL_RGBA8,
            av_texture_format = a6_texture_format a, av_pixel_type = a6_pixel_type a,
            av_rgba_offset = a6_rgba_blob_offset a, av_rgba_size = a6_rgba_blob_size a,
            av_selector = a6_selector_checksum64 a, av_legacy_checksum64 = a6_legacy_checksum64 a,
            av_legacy_formatsize = ucast (a6_legacy_formatsize a),
            av_replacement_id = string_or_empty pf (a6_replacement_id_offset a)\<rparr>)
          (read_pod_from_blob 72 phrb_asset_v6_of_words md (base + i * 72))
      else if 5 \<le> v then
        map_option (\<lambda>a. \<lparr>av_width = a5_width a, av_height = a5_height a, av_format = GL_RGBA8,
            av_texture_format = a5_texture_format a, av_pixel_type = a5_pixel_type a,
            av_rgba_offset = ucast (a5_rgba_blob_offset a), av_rgba_size = ucast (a5_rgba_blob_size a),
            av_selector = a5_selector_checksum64 a, av_legacy_checksum64 = a5_legacy_checksum64 a,
            av_legacy_formatsize = ucast (a5_legacy_formatsize a),
            av_replacement_id = string_or_empty pf (a5_replacement_id_offset a)\<rparr>)
          (read_pod_from_blob 64 phrb_asset_v5_of_words md (base + i * 64))
      else if 3 \<le> v then
        map_option (\<lambda>a. \<lparr>av_width = a3_width a, av_height = a3_height a, av_format = GL_RGBA8,
            av_texture_format = a3_texture_format a, av_pixel_type = a3_pixel_type a,
            av_rgba_offset = ucast (a3_rgba_blob_offset a), av_rgba_size = ucast (a3_rgba_blob_size a),
            av_selector = a3_selector_checksum64 a, av_legacy_checksum64 = 0,
            av_legacy_formatsize = ucast (a3_legacy_formatsize a),
            av_replacement_id = string_or_empty pf (a3_replacement_id_offset a)\<rparr>)
          (read_pod_from_blob 56 phrb_asset_v3_of_words md (base + i * 56))
      else
        map_option (\<lambda>a. \<lparr>av_width = a2_width a, av_height = a2_height a, av_format = GL_RGBA8,
            av_texture_format = a2_texture_format a, av_pixel_type = a2_pixel_type a,
            av_rgba_offset = ucast (a2_rgba_blob_offset a), av_rgba_size = ucast (a2_rgba_blob_size a),
            av_selector = 0, av_legacy_checksum64 = 0,
            av_legacy_formatsize = ucast (a2_legacy_formatsize a),
            av_replacement_id = string_or_empty pf (a2_replacement_id_offset a)\<rparr>)
          (read_pod_from_blob 48 phrb_asset_v2_of_words md (base + i * 48)))"

text \<open>The record under way: its fields and its two strings.\<close>

record record_view =
  rv_record :: phrb_record_v2
  rv_policy_key :: string
  rv_sampled_object_id :: string

definition sampled_entry :: "phrb_file \<Rightarrow> record_view \<Rightarrow> u32 \<Rightarrow> asset_view \<Rightarrow> u32 \<Rightarrow> entry" where
  "sampled_entry pf rv palette_crc a rgba_size =
     (let r = rv_record rv in
      \<lparr>source_path = pf_path pf, phrb_policy_key = rv_policy_key rv,
       phrb_replacement_id = av_replacement_id a, phrb_sampled_object_id = rv_sampled_object_id rv,
       e_checksum64 = push_bit 32 (ucast palette_crc) OR ucast (r2_sampled_low32 r),
       data_offset = ucast (h_blob_offset (pf_header pf)) + av_rgba_offset a, data_size = rgba_size,
       e_width = av_width a, e_height = av_height a, e_format = av_format a,
       texture_format = ucast (av_texture_format a), pixel_type = ucast (av_pixel_type a),
       e_formatsize = ucast (r2_formatsize r), e_selector = av_selector a,
       e_sig = \<lparr>sampled_fmt = r2_fmt r, sampled_siz = r2_siz r, sampled_tex_offset = r2_tex_offset r,
         sampled_stride = r2_stride r, sampled_width = r2_width r, sampled_height = r2_height r,
         sampled_low32 = r2_sampled_low32 r, sampled_palette_crc = palette_crc\<rparr>,
       sampled_entry_pcrc = r2_sampled_entry_pcrc r, sampled_sparse_pcrc = r2_sampled_sparse_pcrc r,
       has_native_sampled_identity = True, is_runtime_family_compat = False, is_hires = True,
       inline_blob = False, blob = []\<rparr>)"

definition family_entry :: "phrb_file \<Rightarrow> record_view \<Rightarrow> asset_view \<Rightarrow> u32 \<Rightarrow> entry" where
  "family_entry pf rv a rgba_size =
     (let r = rv_record rv in
      \<lparr>source_path = pf_path pf, phrb_policy_key = rv_policy_key rv,
       phrb_replacement_id = av_replacement_id a, phrb_sampled_object_id = rv_sampled_object_id rv,
       e_checksum64 = av_legacy_checksum64 a,
       data_offset = ucast (h_blob_offset (pf_header pf)) + av_rgba_offset a, data_size = rgba_size,
       e_width = av_width a, e_height = av_height a, e_format = av_format a,
       texture_format = ucast (av_texture_format a), pixel_type = ucast (av_pixel_type a),
       e_formatsize = (if av_legacy_formatsize a \<noteq> 0 then av_legacy_formatsize a
                       else ucast (r2_formatsize r)),
       e_selector = av_selector a,
       e_sig = \<lparr>sampled_fmt = 0, sampled_siz = 0, sampled_tex_offset = 0, sampled_stride = 0,
         sampled_width = 0, sampled_height = 0, sampled_low32 = r2_sampled_low32 r,
         sampled_palette_crc = ucast (drop_bit 32 (av_legacy_checksum64 a))\<rparr>,
       sampled_entry_pcrc = r2_sampled_entry_pcrc r, sampled_sparse_pcrc = r2_sampled_sparse_pcrc r,
       has_native_sampled_identity = False, is_runtime_family_compat = True, is_hires = True,
       inline_blob = False, blob = []\<rparr>)"

definition family_runtime_record :: "phrb_record_v2 \<Rightarrow> bool" where
  "family_runtime_record r \<longleftrightarrow>
     r2_fmt r = 0 \<and> r2_siz r = 0 \<and> r2_tex_offset r = 0 \<and> r2_stride r = 0 \<and> r2_width r = 0 \<and>
     r2_height r = 0"

text \<open>The guards an asset has to pass before it becomes an entry.\<close>

definition asset_loadable :: "phrb_file \<Rightarrow> asset_view \<Rightarrow> bool" where
  "asset_loadable pf a =
     (if pf_rgba_blob_size pf < av_rgba_offset a \<or>
         pf_rgba_blob_size pf - av_rgba_offset a < av_rgba_size a then False
      else if av_width a = 0 \<or> av_height a = 0 \<or> av_rgba_size a = 0 \<or> 0xffffffff < av_rgba_size a
      then False
      else if \<not> 7 \<le> h_version (pf_header pf) \<and>
         av_rgba_size a \<noteq> ucast (av_width a) * ucast (av_height a) * 4 then False
      else True)"

text \<open>The entries one asset gives rise to, in the order they are added.\<close>

definition asset_entries :: "phrb_file \<Rightarrow> record_view \<Rightarrow> asset_view \<Rightarrow> entry list" where
  "asset_entries pf rv a =
     (if \<not> asset_loadable pf a then [] else
      let r = rv_record rv; rgba_size = ucast (av_rgba_size a);
          sparse = r2_sampled_sparse_pcrc r; entry_pcrc = r2_sampled_entry_pcrc r in
      if family_runtime_record r
      then (if av_legacy_checksum64 a = 0 then [] else [family_entry pf rv a rgba_size])
      else
        let first = (if sparse \<noteq> 0 then [sampled_entry pf rv sparse a rgba_size] else []);
            second = (if entry_pcrc \<noteq> 0 \<and> entry_pcrc \<noteq> sparse
                      then [sampled_entry pf rv entry_pcrc a rgba_size] else [])
        in if first @ second = [] then [sampled_entry pf rv 0 a rgba_size] else first @ second)"

text \<open>Provider and number of entries loaded from this file so far.\<close>

type_synonym load_state = "provider \<times> u32"

definition load_entry :: "load_state \<Rightarrow> entry \<Rightarrow> load_state" where
  "load_entry st e = (add_entry (fst st) e, snd st + 1)"

text \<open>
  The inner loop, with the number of iterations the bound \<open>ai < asset_candidate_count\<close> still
  allows; the second component of the result is \<open>False\<close> where the code returns \<open>false\<close>.
\<close>

fun load_assets ::
    "phrb_file \<Rightarrow> record_view \<Rightarrow> u32 \<Rightarrow> nat \<Rightarrow> u32 \<Rightarrow> load_state \<Rightarrow> load_state \<times> bool" where
  "load_assets pf rv asset_base 0 ai st = (st, True)"
| "load_assets pf rv asset_base (Suc n) ai st =
     (if \<not> asset_base + ai < h_asset_count (pf_header pf) then (st, True)
      else case read_phrb_asset pf (asset_base + ai) of
             None \<Rightarrow> (st, False)
           | Some a \<Rightarrow>
               load_assets pf rv asset_base n (ai + 1) (foldl load_entry st (asset_entries pf rv a)))"

definition record_view_of :: "phrb_file \<Rightarrow> phrb_record_v2 \<Rightarrow> record_view" where
  "record_view_of pf r =
     \<lparr>rv_record = r,
      rv_policy_key =
        (case read_c_string_from_blob (pf_strings pf) (r2_policy_key_offset r) of
           None \<Rightarrow> ''phrb-record'' | Some s \<Rightarrow> s),
      rv_sampled_object_id = string_or_empty pf (r2_sampled_object_id_offset r)\<rparr>"

fun load_records :: "phrb_file \<Rightarrow> nat \<Rightarrow> u32 \<Rightarrow> u32 \<Rightarrow> load_state \<Rightarrow> load_state \<times> bool" where
  "load_records pf 0 record_index asset_base st = (st, True)"
| "load_records pf (Suc n) record_index asset_base st =
     (case read_phrb_record pf record_index of
        None \<Rightarrow> (st, False)
      | Some (r, flags) \<Rightarrow>
          let next_base = asset_base + r2_asset_candidate_count r in
          if flags AND PHRB_RECORD_FLAG_RUNTIME_READY = 0
          then load_records pf n (record_index + 1) next_base st
          else (case load_assets pf (record_view_of pf r) asset_base
                       (unat (r2_asset_candidate_count r)) 0 st of
                  (st', ok) \<Rightarrow>
                    if ok then load_records pf n (record_index + 1) next_base st' else (st', False)))"

definition load_phrb :: "file_system \<Rightarrow> string \<Rightarrow> provider \<Rightarrow> provider \<times> bool" where
  "load_phrb fs path p =
     (case open_phrb fs path of
        None \<Rightarrow> (p, False)
      | Some pf \<Rightarrow>
          (case load_records pf (unat (h_record_count (pf_header pf))) 0 0 (p, 0) of
             ((p', loaded_count), ok) \<Rightarrow> (p', ok \<and> loaded_count \<noteq> 0)))"

text \<open>
  \<open>load_cache_dir\<close>: \<open>listing\<close> is what \<open>opendir\<close> and \<open>readdir\<close> give for the path,
  \<open>None\<close> when it is not a directory.
\<close>

definition load_cache_dir ::
    "file_system \<Rightarrow> (string \<Rightarrow> string list option) \<Rightarrow> string \<Rightarrow> provider \<Rightarrow> provider \<times> bool" where
  "load_cache_dir fs listing path p =
     (let p = (clear_provider p)\<lparr>cache_dir := path\<rparr>;
          files =
            (case listing path of
               Some names \<Rightarrow>
                 Some (map (\<lambda>name. path @ ''/'' @ name)
                   (filter (\<lambda>name. \<not> prefix ''.'' name \<and> is_phrb_cache_path name) names))
             | None \<Rightarrow> if is_phrb_cache_path path then Some [path] else None)
      in case files of
           None \<Rightarrow> (p, False)
         | Some files \<Rightarrow>
             let p = foldl (\<lambda>p file. if is_phrb_cache_path file then fst (load_phrb fs file p) else p)
                       p (sort files)
             in (p, entries p \<noteq> []))"

definition has_compat_entries :: "provider \<Rightarrow> bool" where
  "has_compat_entries p \<longleftrightarrow> compat_checksum_index p \<noteq> []"

definition has_phrb_compat_entries :: "provider \<Rightarrow> bool" where
  "has_phrb_compat_entries p =
     list_ex (\<lambda>e. \<not> has_native_sampled_identity e \<and> is_phrb_cache_path (source_path e)) (entries p)"

section \<open>Reading pixels back\<close>

definition read_blob :: "file_system \<Rightarrow> entry \<Rightarrow> bytes option" where
  "read_blob fs e =
     (if inline_blob e then Some (blob e)
      else case fs (source_path e) of
             None \<Rightarrow> None
           | Some file \<Rightarrow>
               if sint (data_offset e) < 0 then None
               else read_exact file (unat (data_offset e)) (unat (data_size e)))"

end
