(* ===== verification/PHRB_Properties.thy ===== *)
theory PHRB_Properties
  imports PHRB_Loader
begin

text \<open>
  What loading a pack guarantees: the provider stays one the indices are right for, every
  entry it gains refers to bytes inside its file, and a serialized pack is read back.
\<close>

section \<open>Loading only adds entries\<close>

lemma foldl_load_entry:
  "foldl load_entry (p, c) es = (foldl add_entry p es, c + of_nat (length es))"
  by (induction es arbitrary: p c) (simp_all add: load_entry_def)

lemma entries_foldl_add_entry [simp]: "entries (foldl add_entry p es) = entries p @ es"
  by (induction es arbitrary: p) simp_all

lemma provider_built_foldl: "provider_built p \<Longrightarrow> provider_built (foldl add_entry p es)"
  by (induction es arbitrary: p) (auto intro: provider_built.added)

text \<open>The state after a loop is the state before it with entries of the given kind appended.\<close>

definition extends :: "(entry \<Rightarrow> bool) \<Rightarrow> load_state \<Rightarrow> load_state \<Rightarrow> bool" where
  "extends P st st' \<longleftrightarrow>
     (\<exists>es. st' = (foldl add_entry (fst st) es, snd st + of_nat (length es)) \<and> list_all P es)"

lemma extends_refl [simp]: "extends P st st"
  unfolding extends_def by (rule exI [of _ "[]"]) simp

lemma extends_trans: "extends P a b \<Longrightarrow> extends P b c \<Longrightarrow> extends P a c"
  unfolding extends_def
proof (elim exE conjE)
  fix es fs
  assume "b = (foldl add_entry (fst a) es, snd a + of_nat (length es))" "list_all P es"
    "c = (foldl add_entry (fst b) fs, snd b + of_nat (length fs))" "list_all P fs"
  then show "\<exists>es. c = (foldl add_entry (fst a) es, snd a + of_nat (length es)) \<and> list_all P es"
    by (intro exI [of _ "es @ fs"]) (simp add: add_ac)
qed

lemma extends_foldl: "list_all P es \<Longrightarrow> extends P st (foldl load_entry st es)"
  unfolding extends_def by (cases st) (auto simp: foldl_load_entry)

lemma load_assets_extends:
  assumes "\<And>a. list_all P (asset_entries pf rv a)"
  shows "extends P st (fst (load_assets pf rv b n ai st))"
proof (induction n arbitrary: ai st)
  case (Suc n)
  have "extends P st (fst (load_assets pf rv b n (ai + 1) (foldl load_entry st (asset_entries pf rv a))))" for a
    by (rule extends_trans [OF extends_foldl [OF assms, of st a] Suc])
  then show ?case by (simp split: option.splits)
qed simp

lemma load_records_extends:
  assumes "\<And>rv a. list_all P (asset_entries pf rv a)"
  shows "extends P st (fst (load_records pf n i b st))"
proof (induction n arbitrary: i b st)
  case (Suc n)
  show ?case
  proof (cases "read_phrb_record pf i")
    case (Some rf)
    obtain r flags where rf: "rf = (r, flags)" by (cases rf)
    obtain st' ok where l: "load_assets pf (record_view_of pf r) b
        (unat (r2_asset_candidate_count r)) 0 st = (st', ok)" by (cases "load_assets pf (record_view_of pf r) b
        (unat (r2_asset_candidate_count r)) 0 st")
    have "extends P st st'"
      using load_assets_extends [OF assms, of st "record_view_of pf r" b _ 0] l by (metis fst_conv)
    then have "extends P st (fst (load_records pf n (i + 1) (b + r2_asset_candidate_count r) st'))"
      by (rule extends_trans [OF _ Suc])
    with \<open>extends P st st'\<close> Some Suc rf l show ?thesis by (auto simp: Let_def)
  qed simp
qed simp

section \<open>Entries lie inside their file\<close>

definition entry_in_file :: "string \<Rightarrow> bytes \<Rightarrow> entry \<Rightarrow> bool" where
  "entry_in_file path file e \<longleftrightarrow>
     source_path e = path \<and> \<not> inline_blob e \<and> e_width e \<noteq> 0 \<and> e_height e \<noteq> 0 \<and> data_size e \<noteq> 0 \<and>
     unat (data_offset e) + unat (data_size e) \<le> length file"

lemma asset_entries_data:
  assumes "e \<in> set (asset_entries pf rv a)"
  shows "asset_loadable pf a" "source_path e = pf_path pf" "\<not> inline_blob e"
    "e_width e = av_width a" "e_height e = av_height a" "data_size e = ucast (av_rgba_size a)"
    "data_offset e = ucast (h_blob_offset (pf_header pf)) + av_rgba_offset a"
  using assms
  by (auto simp: asset_entries_def Let_def sampled_entry_def family_entry_def split: if_splits)

lemma open_phrb_SomeD:
  assumes "open_phrb fs path = Some pf"
  obtains f where "fs path = Some f" "pf_path pf = path" "32 \<le> length f"
    "unat (h_blob_offset (pf_header pf)) \<le> length f"
    "pf_rgba_blob_size pf = of_nat (length f) - ucast (h_blob_offset (pf_header pf))"
  using assms by (auto simp: open_phrb_def Let_def split: option.splits if_splits)

lemma unat_ucast_small:
  assumes "w \<le> (0xffffffff :: u64)"
  shows "unat (ucast w :: u32) = unat w"
proof -
  have "unat w < 2 ^ 32" using assms by (simp add: word_le_nat_alt)
  then show ?thesis by (simp add: unsigned_ucast_eq take_bit_nat_eq_self)
qed

lemma asset_entry_in_file:
  assumes pf: "open_phrb fs path = Some pf" "fs path = Some file" and len: "length file < 2 ^ 63"
    and e: "e \<in> set (asset_entries pf rv a)"
  shows "entry_in_file path file e"
proof -
  note d = asset_entries_data [OF e]
  from pf obtain f where f: "f = file" "pf_path pf = path" "unat (h_blob_offset (pf_header pf)) \<le> length file"
    "pf_rgba_blob_size pf = of_nat (length file) - ucast (h_blob_offset (pf_header pf))"
    by (elim open_phrb_SomeD) auto
  let ?b = "ucast (h_blob_offset (pf_header pf)) :: u64"
  have ub: "unat ?b = unat (h_blob_offset (pf_header pf))"
    by simp
  have ul: "unat (of_nat (length file) :: u64) = length file"
    using len by (simp add: unsigned_of_nat take_bit_nat_eq_self)
  have "?b \<le> of_nat (length file)" using f ub ul by (simp add: word_le_nat_alt)
  then have us: "unat (pf_rgba_blob_size pf) = length file - unat ?b"
    using f ul by (simp add: unat_sub)
  from d(1) have g: "av_rgba_offset a \<le> pf_rgba_blob_size pf"
    "av_rgba_size a \<le> pf_rgba_blob_size pf - av_rgba_offset a"
    "av_width a \<noteq> 0" "av_height a \<noteq> 0" "av_rgba_size a \<noteq> 0" "av_rgba_size a \<le> 0xffffffff"
    by (auto simp: asset_loadable_def not_less split: if_splits)
  have uo: "unat (av_rgba_offset a) + unat (av_rgba_size a) \<le> length file - unat ?b"
    using g(1,2) us by (simp add: word_le_nat_alt unat_sub)
  have "unat ?b + unat (av_rgba_offset a) < 2 ^ 64" using uo f(3) ub len by simp
  then have "unat (?b + av_rgba_offset a) = unat ?b + unat (av_rgba_offset a)"
    by (simp add: unat_word_ariths)
  moreover have "ucast (av_rgba_size a) \<noteq> (0 :: u32)"
    using unat_ucast_small [OF g(6)] g(5) by (metis unat_eq_zero)
  ultimately show ?thesis
    using d f g uo ub unat_ucast_small [OF g(6)] by (simp add: entry_in_file_def)
qed

lemma read_blob_in_file:
  assumes "entry_in_file path file e" "fs path = Some file" "length file < 2 ^ 63"
  shows "read_blob fs e = Some (take (unat (data_size e)) (drop (unat (data_offset e)) file))"
proof -
  have "unat (data_offset e) < 2 ^ 63" using assms by (simp add: entry_in_file_def)
  then have "unat (data_offset e) div 2 ^ 63 = 0" by simp
  then have "\<not> bit (unat (data_offset e)) 63" by (simp add: bit_iff_odd)
  then have "\<not> bit (data_offset e) 63" by (simp add: bit_unsigned_iff)
  then have "\<not> sint (data_offset e) < 0"
    by (simp add: sint_uint signed_take_bit_eq_if_positive bit_uint_iff not_less)
  with assms show ?thesis by (auto simp: read_blob_def entry_in_file_def read_exact_def)
qed

section \<open>Properties\<close>

lemma load_phrb_cases:
  assumes "load_phrb fs path p = (p', ok)"
  obtains (unopened) "open_phrb fs path = None" "p' = p" "\<not> ok"
    | (opened) pf es where "open_phrb fs path = Some pf" "p' = foldl add_entry p es"
        "\<forall>e \<in> set es. \<exists>rv a. e \<in> set (asset_entries pf rv a)" "ok \<longrightarrow> es \<noteq> []"
proof (cases "open_phrb fs path")
  case None
  with assms show ?thesis by (intro unopened) (auto simp: load_phrb_def)
next
  case (Some pf)
  let ?P = "\<lambda>e. \<exists>rv a. e \<in> set (asset_entries pf rv a)"
  obtain q c ok' where l: "load_records pf (unat (h_record_count (pf_header pf))) 0 0 (p, 0) = ((q, c), ok')"
    by (metis prod.exhaust)
  have "extends ?P (p, 0) (q, c)"
    using load_records_extends [of ?P pf "(p, 0)" "unat (h_record_count (pf_header pf))" 0 0] l
    by (auto simp: list_all_iff)
  then obtain es where "q = foldl add_entry p es" "c = of_nat (length es)" "\<forall>e \<in> set es. ?P e"
    by (auto simp: extends_def list_all_iff)
  with assms Some l show ?thesis by (intro opened [of pf es]) (auto simp: load_phrb_def)
qed

text \<open>
  C3. Loading a pack, whatever its bytes are: the table grows by entries that all refer to
  this file and whose pixel data lie inside it, so that reading them back while the file is
  unchanged always succeeds and gives exactly those bytes; the loader claims success only if
  it added an entry, and an unreadable file changes nothing.
\<close>

theorem load_phrb_entries_in_file:
  assumes "load_phrb fs path p = (p', ok)" "fs path = Some contents" "length contents < 2 ^ 63"
  shows "\<exists>es. entries p' = entries p @ es \<and> (ok \<longrightarrow> es \<noteq> []) \<and>
    (\<forall>e \<in> set es. source_path e = path \<and> e_width e \<noteq> 0 \<and> e_height e \<noteq> 0 \<and> data_size e \<noteq> 0 \<and>
       unat (data_offset e) + unat (data_size e) \<le> length contents \<and>
       read_blob fs e = Some (take (unat (data_size e)) (drop (unat (data_offset e)) contents)))"
  using assms(1)
proof (cases rule: load_phrb_cases)
  case unopened
  then show ?thesis by (intro exI [of _ "[]"]) simp
next
  case (opened pf es)
  have "entry_in_file path contents e" if "e \<in> set es" for e
    using opened(3) that asset_entry_in_file [OF opened(1) assms(2,3)] by blast
  moreover from this have "read_blob fs e =
      Some (take (unat (data_size e)) (drop (unat (data_offset e)) contents))" if "e \<in> set es" for e
    using that assms(2,3) by (intro read_blob_in_file)
  ultimately show ?thesis
    using opened by (intro exI [of _ es]) (auto simp: entry_in_file_def)
qed

definition sample_pack :: bytes where
  "sample_pack =
     pod_bytes phrb_header_words \<lparr>h_magic = 0x42524850, h_version = 3, h_record_count = 1, h_asset_count = 1,
       h_record_table_offset = 32, h_asset_table_offset = 84, h_string_table_offset = 140,
       h_blob_offset = 142\<rparr> @
     pod_bytes phrb_record_v2_words \<lparr>r2_policy_key_offset = 0, r2_sampled_object_id_offset = 9, r2_fmt = 2,
       r2_siz = 1, r2_tex_offset = 0, r2_stride = 8, r2_width = 1, r2_height = 1,
       r2_formatsize = 0x102, r2_sampled_low32 = 7, r2_sampled_entry_pcrc = 5,
       r2_sampled_sparse_pcrc = 6, r2_asset_candidate_count = 1\<rparr> @
     pod_bytes phrb_asset_v3_words \<lparr>a3_record_index = 0, a3_replacement_id_offset = 0,
       a3_legacy_source_path_offset = 0, a3_rgba_rel_path_offset = 0, a3_variant_group_id_offset = 0,
       a3_width = 1, a3_height = 1, a3_texture_format = 0x1908, a3_pixel_type = 0x1401,
       a3_legacy_formatsize = 0, a3_selector_checksum64 = 0, a3_rgba_blob_offset = 0,
       a3_rgba_blob_size = 4\<rparr> @ [0x6b, 0] @ [10, 20, 30, 255]"

definition sample_fs :: file_system where
  "sample_fs path = (if path = ''a.phrb'' then Some sample_pack else None)"

lemma length_sample_pack: "length sample_pack = 146"
  by code_simp

lemma sample_pack_loads:
  "map (\<lambda>e. (e_checksum64 e, data_offset e, data_size e, e_width e, e_height e, e_format e,
          texture_format e, pixel_type e))
     (entries (fst (load_phrb sample_fs ''a.phrb'' default_provider)))
   = [(0x600000007, 142, 4, 1, 1, 0x8058, 0x1908, 0x1401), (0x500000007, 142, 4, 1, 1, 0x8058, 0x1908, 0x1401)]"
  by code_simp

lemma load_phrb_built: "provider_built p \<Longrightarrow> provider_built (fst (load_phrb fs path p))"
  by (rule load_phrb_cases [of fs path p "fst (load_phrb fs path p)" "snd (load_phrb fs path p)"])
    (auto intro: provider_built_foldl)

lemma load_cache_dir_built:
  "provider_built (fst (load_cache_dir fs listing path p))"
proof -
  let ?step = "\<lambda>p f. if is_phrb_cache_path f then fst (load_phrb fs f p) else p"
  have fold: "provider_built q \<Longrightarrow> provider_built (foldl ?step q files)" for q files
    by (induction files arbitrary: q) (auto intro: load_phrb_built)
  have "provider_built ((clear_provider p)\<lparr>cache_dir := path\<rparr>)"
    by (intro provider_built.dir_set provider_built.cleared)
  then show ?thesis
    unfolding load_cache_dir_def Let_def by (auto intro: fold load_phrb_built split: option.splits)
qed

theorem load_phrb_entries_in_file_witness:
  "list_all (\<lambda>e. unat (data_offset e) + unat (data_size e) \<le> length sample_pack)
     (entries (fst (load_phrb sample_fs ''a.phrb'' default_provider)))"
proof -
  have fs: "sample_fs ''a.phrb'' = Some sample_pack" by (simp add: sample_fs_def)
  have "length sample_pack < 2 ^ 63" using length_sample_pack by simp
  with load_phrb_entries_in_file [of sample_fs "''a.phrb''" default_provider
      "fst (load_phrb sample_fs ''a.phrb'' default_provider)"
      "snd (load_phrb sample_fs ''a.phrb'' default_provider)"] fs
  show ?thesis by (auto simp: default_provider_def list_all_iff)
qed

section \<open>Reading back a serialized pack\<close>

text \<open>A version 7 pack in the layout of the header: records, assets, strings, pixel data.\<close>

definition pack_header :: "phrb_record_v4 list \<Rightarrow> phrb_asset_v7 list \<Rightarrow> bytes \<Rightarrow> phrb_header" where
  "pack_header rs as strs =
     \<lparr>h_magic = 0x42524850, h_version = 7, h_record_count = of_nat (length rs),
      h_asset_count = of_nat (length as), h_record_table_offset = 32,
      h_asset_table_offset = of_nat (32 + length rs * 56),
      h_string_table_offset = of_nat (32 + length rs * 56 + length as * 76),
      h_blob_offset = of_nat (32 + length rs * 56 + length as * 76 + length strs)\<rparr>"

definition pack_metadata :: "phrb_record_v4 list \<Rightarrow> phrb_asset_v7 list \<Rightarrow> bytes \<Rightarrow> bytes" where
  "pack_metadata rs as strs =
     pod_bytes phrb_header_words (pack_header rs as strs) @
     concat (map (pod_bytes phrb_record_v4_words) rs) @
     concat (map (pod_bytes phrb_asset_v7_words) as) @ strs"

definition pack_v7 :: "phrb_record_v4 list \<Rightarrow> phrb_asset_v7 list \<Rightarrow> bytes \<Rightarrow> bytes \<Rightarrow> bytes" where
  "pack_v7 rs as strs data = pack_metadata rs as strs @ data"

lemma length_pods [simp]:
  "length (pod_bytes phrb_header_words h) = 32"
  "length (concat (map (pod_bytes phrb_record_v4_words) rs)) = length rs * 56"
  "length (concat (map (pod_bytes phrb_asset_v7_words) as)) = length as * 76"
proof -
  show "length (pod_bytes phrb_header_words h) = 32" by simp
  show "length (concat (map (pod_bytes phrb_record_v4_words) rs)) = length rs * 56"
    by (induction rs) simp_all
  show "length (concat (map (pod_bytes phrb_asset_v7_words) as)) = length as * 76"
    by (induction as) simp_all
qed

lemma length_pack_metadata:
  "length (pack_metadata rs as strs) = 32 + length rs * 56 + length as * 76 + length strs"
  by (simp add: pack_metadata_def)

lemma pack_header_reads:
  "phrb_header_of_words (words32 (pod_bytes phrb_header_words h)) = h"
  by (simp add: pod_bytes_def h_codec.of_to_words)

lemma open_pack_v7:
  assumes "fs path = Some (pack_v7 rs as strs data)" "length (pack_v7 rs as strs data) < 2 ^ 32"
  shows "open_phrb fs path =
    Some \<lparr>pf_path = path, pf_header = pack_header rs as strs, pf_metadata = pack_metadata rs as strs,
          pf_strings = strs, pf_rgba_blob_size = of_nat (length data)\<rparr>"
proof -
  let ?h = "pack_header rs as strs" and ?m = "pack_metadata rs as strs"
  have lm: "length ?m < 2 ^ 32" using assms(2) by (simp add: pack_v7_def)
  have bo: "unat (h_blob_offset ?h) = length ?m"
    using lm
    by (simp add: pack_header_def unat_of_nat_u32 length_pack_metadata del: of_nat_add of_nat_mult)
  have so: "unat (h_string_table_offset ?h) = length ?m - length strs"
    using lm
    by (simp add: pack_header_def unat_of_nat_u32 length_pack_metadata del: of_nat_add of_nat_mult)
  have le: "h_string_table_offset ?h \<le> h_blob_offset ?h" by (simp add: word_le_nat_alt bo so)
  then have d: "unat (h_blob_offset ?h - h_string_table_offset ?h) = length strs"
    by (simp add: unat_sub bo so length_pack_metadata)
  have strs: "drop (length ?m - length strs) ?m = strs" by (simp add: length_pack_metadata) (simp add: pack_metadata_def)
  have "take 32 (pack_v7 rs as strs data) = pod_bytes phrb_header_words ?h"
    by (simp add: pack_v7_def pack_metadata_def)
  then have hd: "read_exact (pack_v7 rs as strs data) 0 32 = Some (pod_bytes phrb_header_words ?h)"
    by (simp add: read_exact_def pack_v7_def length_pack_metadata)
  have md: "read_exact (pack_v7 rs as strs data) 0 (length ?m) = Some ?m"
    by (simp add: read_exact_def pack_v7_def length_pack_metadata) 
  have ok: "phrb_magic_ok (h_magic ?h)" "phrb_version_ok (h_version ?h)"
    by (simp_all add: pack_header_def phrb_magic_ok_def phrb_version_ok_def le32_bytes_def)
  have sz: "(of_nat (length (pack_v7 rs as strs data)) :: u64) - ucast (h_blob_offset ?h) = of_nat (length data)"
  proof -
    have "(ucast (h_blob_offset ?h) :: u64) = of_nat (length ?m)"
      using bo lm by (simp add: word_unat_eq_iff unat_of_nat_u64)
    then show ?thesis by (simp add: pack_v7_def)
  qed
  show ?thesis
    unfolding open_phrb_def assms(1) option.case Let_def hd pack_header_reads bo md so
    using le ok sz d strs by (simp add: pack_v7_def length_pack_metadata not_less)
qed

text \<open>
  C35. A version 7 pack that is smaller than 4 GiB and laid out as its header says is read back
  field by field: opening it succeeds, the string and blob sections are found, the record with
  every index has the fields and flags that were written, and so has every asset.
\<close>

theorem phrb_pack_reads_back:
  assumes "fs path = Some (pack_v7 rs as strs data)" "length (pack_v7 rs as strs data) < 2 ^ 32"
  shows "\<exists>pf. open_phrb fs path = Some pf \<and> pf_path pf = path \<and> pf_strings pf = strs \<and>
    unat (pf_rgba_blob_size pf) = length data \<and>
    unat (h_record_count (pf_header pf)) = length rs \<and> unat (h_asset_count (pf_header pf)) = length as \<and>
    (\<forall>i < length rs. \<exists>r. read_phrb_record pf (of_nat i) = Some (r, r4_record_flags (rs ! i)) \<and>
       phrb_record_v2_words r =
         take 2 (phrb_record_v4_words (rs ! i)) @ drop 3 (phrb_record_v4_words (rs ! i))) \<and>
    (\<forall>j < length as. \<exists>a. read_phrb_asset pf (of_nat j) = Some a \<and>
       [av_width a, av_height a, av_format a, av_texture_format a, av_pixel_type a] =
         take 5 (drop 5 (phrb_asset_v7_words (as ! j))) \<and>
       [av_selector a, av_legacy_checksum64 a, av_rgba_offset a, av_rgba_size a] =
         [a7_selector_checksum64 (as ! j), a7_legacy_checksum64 (as ! j),
          a7_rgba_blob_offset (as ! j), a7_rgba_blob_size (as ! j)] \<and>
       av_legacy_formatsize a = ucast (a7_legacy_formatsize (as ! j)))"
proof -
  let ?m = "pack_metadata rs as strs" and ?h = "pack_header rs as strs"
  have lm: "length ?m + length data < 2 ^ 32" using assms(2) by (simp add: pack_v7_def)
  have m1: "?m = pod_bytes phrb_header_words ?h @ concat (map (pod_bytes phrb_record_v4_words) rs) @
      (concat (map (pod_bytes phrb_asset_v7_words) as) @ strs)"
    by (simp add: pack_metadata_def)
  have m2: "?m = (pod_bytes phrb_header_words ?h @ concat (map (pod_bytes phrb_record_v4_words) rs)) @
      concat (map (pod_bytes phrb_asset_v7_words) as) @ strs"
    by (simp add: pack_metadata_def)
  have rt: "unat (h_record_table_offset ?h) = 32" by (simp add: pack_header_def)
  have at: "unat (h_asset_table_offset ?h) = 32 + length rs * 56"
    using lm by (simp add: pack_header_def length_pack_metadata unat_of_nat_u32 del: of_nat_add of_nat_mult)
  have ver: "h_version ?h = 7" by (simp add: pack_header_def)
  have rec: "read_pod_from_blob 56 phrb_record_v4_of_words ?m (32 + i * 56) = Some (rs ! i)"
    if "i < length rs" for i
    using r4_codec.read_table [OF that, of "pod_bytes phrb_header_words ?h"
        "concat (map (pod_bytes phrb_asset_v7_words) as) @ strs"] m1 by simp
  have ass: "read_pod_from_blob 76 phrb_asset_v7_of_words ?m (32 + length rs * 56 + j * 76) = Some (as ! j)"
    if "j < length as" for j
    using a7_codec.read_table [OF that, of "pod_bytes phrb_header_words ?h @
        concat (map (pod_bytes phrb_record_v4_words) rs)" strs] m2 by simp
  have idx: "unat (of_nat i :: u32) = i" if "i \<le> length rs \<or> i \<le> length as" for i
    using that lm by (intro unat_of_nat_u32) (auto simp: length_pack_metadata)
  have cnt: "unat (h_record_count ?h) = length rs" "unat (h_asset_count ?h) = length as"
    using idx by (simp_all add: pack_header_def)
  show ?thesis
    unfolding open_pack_v7 [of fs path, OF assms]
    using lm idx by (auto simp: read_phrb_record_def read_phrb_asset_def Let_def ver rt at rec ass unat_of_nat_u64
        cnt phrb_record_v2_words_def phrb_record_v4_words_def phrb_asset_v7_words_def)
qed

definition sample_record_v4 :: phrb_record_v4 where
  "sample_record_v4 = phrb_record_v4_of_words [0, 0, 1, 2, 1, 0, 8, 16, 16, 0x102, 7, 5, 6, 0]"

theorem phrb_pack_reads_back_witness:
  "\<exists>pf r. open_phrb (\<lambda>_. Some (pack_v7 [sample_record_v4] [] [0] [])) ''p'' = Some pf \<and>
     read_phrb_record pf 0 = Some (r, 1) \<and>
     phrb_record_v2_words r = [0, 0, 2, 1, 0, 8, 16, 16, 0x102, 7, 5, 6, 0]"
proof -
  have "length (pack_v7 [sample_record_v4] [] [0] []) < 2 ^ 32"
    by (simp add: pack_v7_def length_pack_metadata)
  from phrb_pack_reads_back [of "\<lambda>_. Some (pack_v7 [sample_record_v4] [] [0] [])" "''p''", OF refl this]
  show ?thesis
    by (auto simp: sample_record_v4_def phrb_record_v4_of_words_def phrb_record_v4_words_def)
qed

section \<open>A size check that wraps\<close>

text \<open>
  The size check for packs before version 7 multiplies width, height and 4 in 64 bits: for
  dimensions whose product exceeds 2^62 the product wraps, and an asset of 2147549185 by
  2147418113 texels with 4 bytes of data passes all guards of the loader.
\<close>

theorem asset_size_check_wraps:
  "asset_loadable
     \<lparr>pf_path = path, pf_header = hdr\<lparr>h_version := 6\<rparr>, pf_metadata = md, pf_strings = strs,
      pf_rgba_blob_size = 4\<rparr>
     \<lparr>av_width = 2147549185, av_height = 2147418113, av_format = GL_RGBA8, av_texture_format = tf,
      av_pixel_type = pt, av_rgba_offset = 0, av_rgba_size = 4, av_selector = s,
      av_legacy_checksum64 = lc, av_legacy_formatsize = lf, av_replacement_id = rid\<rparr>"
  by (simp add: asset_loadable_def)

end
