(* ===== verification/Pixel_Decode.thy ===== *)
theory Pixel_Decode
  imports PHRB_Properties
begin

text \<open>
  Decoding a replacement image to RGBA8 (\<open>expected_decoded_size\<close>, \<open>decompress_if_needed\<close>,
  \<open>decode_pixels_rgba8\<close>, \<open>decode_entry_rgba8\<close> and the four \<open>decode_*\<close> lookups of
  \<open>texture_replacement.cpp\<close>).

  zlib's \<open>uncompress\<close> is a parameter: given the source and the size of the destination it
  answers the bytes it wrote, or \<open>None\<close> for any status but \<open>Z_OK\<close>. The one thing used of
  it is documented: it never writes more than the destination holds (\<open>uncompress_bounded\<close>).
\<close>

type_synonym uncompress_fn = "bytes \<Rightarrow> nat \<Rightarrow> bytes option"

definition uncompress_bounded :: "uncompress_fn \<Rightarrow> bool" where
  "uncompress_bounded unz \<longleftrightarrow> (\<forall>src n out. unz src n = Some out \<longrightarrow> length out \<le> n)"

section \<open>Channel expansion\<close>

definition expand_4_to_8 :: "u32 \<Rightarrow> u8" where
  "expand_4_to_8 v = ucast (shl v 4 OR v)"

definition expand_5_to_8 :: "u32 \<Rightarrow> u8" where
  "expand_5_to_8 v = ucast (shl v 3 OR shr v 2)"

definition expand_6_to_8 :: "u32 \<Rightarrow> u8" where
  "expand_6_to_8 v = ucast (shl v 2 OR shr v 4)"

section \<open>Sizes and decompression\<close>

definition bytes_per_pixel :: "entry \<Rightarrow> u64" where
  "bytes_per_pixel e =
     (if texture_format e = GL_RGBA \<and> pixel_type e = GL_UNSIGNED_BYTE then 4
      else if texture_format e = GL_RGB \<and> pixel_type e = GL_UNSIGNED_BYTE then 3
      else if texture_format e = GL_RGB \<and> pixel_type e = GL_UNSIGNED_SHORT_5_6_5 then 2
      else if texture_format e = GL_RGBA \<and>
              (pixel_type e = GL_UNSIGNED_SHORT_4_4_4_4 \<or> pixel_type e = GL_UNSIGNED_SHORT_5_5_5_1) then 2
      else if texture_format e = GL_LUMINANCE \<and> pixel_type e = GL_UNSIGNED_BYTE then 1
      else if e_format e = GL_RGBA8 then 4
      else if e_format e = GL_RGB8 then 3
      else 0)"

definition expected_decoded_size :: "entry \<Rightarrow> u32" where
  "expected_decoded_size e =
     (let bpp = bytes_per_pixel e;
          pixels = ucast (e_width e) * ucast (e_height e) :: u64;
          total = pixels * bpp
      in if bpp = 0 \<or> 0xffffffff < total then 0 else ucast total)"

definition decompress_if_needed :: "uncompress_fn \<Rightarrow> entry \<Rightarrow> bytes \<Rightarrow> bytes option" where
  "decompress_if_needed unz e src =
     (if e_format e AND GL_TEXFMT_GZ = 0 then Some src
      else let expected_size = expected_decoded_size e in
           if expected_size = 0 then None else unz src (unat expected_size))"

section \<open>Texel formats\<close>

definition texel16 :: "bytes \<Rightarrow> nat \<Rightarrow> u32" where
  "texel16 px i = ucast (px ! (2 * i)) OR shl (ucast (px ! (2 * i + 1))) 8"

definition texel_rgb :: "bytes \<Rightarrow> nat \<Rightarrow> bytes" where
  "texel_rgb px i = [px ! (3 * i), px ! (3 * i + 1), px ! (3 * i + 2), 255]"

definition texel_565 :: "u32 \<Rightarrow> bytes" where
  "texel_565 v =
     [expand_5_to_8 (field v 11 0x1f), expand_6_to_8 (field v 5 0x3f), expand_5_to_8 (v AND 0x1f), 255]"

definition texel_5551 :: "u32 \<Rightarrow> bytes" where
  "texel_5551 v =
     [expand_5_to_8 (field v 11 0x1f), expand_5_to_8 (field v 6 0x1f), expand_5_to_8 (field v 1 0x1f),
      if v AND 1 \<noteq> 0 then 255 else 0]"

definition texel_4444 :: "u32 \<Rightarrow> bytes" where
  "texel_4444 v =
     [expand_4_to_8 (field v 12 0x0f), expand_4_to_8 (field v 8 0x0f), expand_4_to_8 (field v 4 0x0f),
      expand_4_to_8 (v AND 0x0f)]"

definition texel_l8 :: "bytes \<Rightarrow> nat \<Rightarrow> bytes" where
  "texel_l8 px i = [px ! i, px ! i, px ! i, 255]"

text \<open>
  The loop over all texels, which every branch guards with the size of its input:
  \<open>stride\<close> bytes per texel.
\<close>

definition decode_loop :: "nat \<Rightarrow> nat \<Rightarrow> bytes \<Rightarrow> (nat \<Rightarrow> bytes) \<Rightarrow> bytes option" where
  "decode_loop stride n px texel =
     (if length px < n * stride then None else Some (concat (map texel [0..<n])))"

definition decode_pixels_rgba8 :: "entry \<Rightarrow> bytes \<Rightarrow> bytes option" where
  "decode_pixels_rgba8 e px =
     (let pixel_count = ucast (e_width e) * ucast (e_height e) :: u64; n = unat pixel_count in
      if pixel_count = 0 \<or> 0x3fffffffffffffff < pixel_count then None
      else if texture_format e = GL_RGBA \<and> pixel_type e = GL_UNSIGNED_BYTE then
        (if length px < n * 4 then None else Some (take (n * 4) px))
      else if texture_format e = GL_RGB \<and> pixel_type e = GL_UNSIGNED_BYTE then
        decode_loop 3 n px (texel_rgb px)
      else if texture_format e = GL_RGB \<and> pixel_type e = GL_UNSIGNED_SHORT_5_6_5 then
        decode_loop 2 n px (\<lambda>i. texel_565 (texel16 px i))
      else if texture_format e = GL_RGBA \<and> pixel_type e = GL_UNSIGNED_SHORT_5_5_5_1 then
        decode_loop 2 n px (\<lambda>i. texel_5551 (texel16 px i))
      else if texture_format e = GL_RGBA \<and> pixel_type e = GL_UNSIGNED_SHORT_4_4_4_4 then
        decode_loop 2 n px (\<lambda>i. texel_4444 (texel16 px i))
      else if texture_format e = GL_LUMINANCE \<and> pixel_type e = GL_UNSIGNED_BYTE then
        decode_loop 1 n px (texel_l8 px)
      else if length px = n * 4 then Some px
      else None)"

section \<open>Decoding an entry\<close>

record replacement_image =
  img_meta :: replacement_meta
  rgba8 :: bytes

definition decode_entry_rgba8 ::
    "uncompress_fn \<Rightarrow> file_system \<Rightarrow> entry \<Rightarrow> replacement_image option" where
  "decode_entry_rgba8 unz fs e =
     (case read_blob fs e of None \<Rightarrow> None | Some raw \<Rightarrow>
      case decompress_if_needed unz e raw of None \<Rightarrow> None | Some pixels \<Rightarrow>
      case decode_pixels_rgba8 e pixels of None \<Rightarrow> None | Some out \<Rightarrow>
      Some \<lparr>img_meta = \<lparr>repl_w = e_width e, repl_h = e_height e, orig_w = 0, orig_h = 0,
              vk_image_index = 0xffffffff, has_mips = False, srgb = False\<rparr>,
            rgba8 = out\<rparr>)"

definition decode_rgba8_with_selector ::
    "uncompress_fn \<Rightarrow> file_system \<Rightarrow> provider \<Rightarrow> u64 \<Rightarrow> u16 \<Rightarrow> u64 \<Rightarrow> replacement_image option" where
  "decode_rgba8_with_selector unz fs p checksum formatsize selector =
     (if \<not> enabled p then None
      else case find_any_entry p checksum formatsize selector of
             None \<Rightarrow> None | Some e \<Rightarrow> decode_entry_rgba8 unz fs e)"

definition decode_rgba8 ::
    "uncompress_fn \<Rightarrow> file_system \<Rightarrow> provider \<Rightarrow> u64 \<Rightarrow> u16 \<Rightarrow> replacement_image option" where
  "decode_rgba8 unz fs p checksum formatsize =
     decode_rgba8_with_selector unz fs p checksum formatsize 0"

definition decode_rgba8_native_with_selector ::
    "uncompress_fn \<Rightarrow> file_system \<Rightarrow> provider \<Rightarrow> u64 \<Rightarrow> u16 \<Rightarrow> u64 \<Rightarrow> replacement_image option" where
  "decode_rgba8_native_with_selector unz fs p checksum formatsize selector =
     (if \<not> enabled p then None
      else case find_native_entry p checksum formatsize selector of
             None \<Rightarrow> None | Some e \<Rightarrow> decode_entry_rgba8 unz fs e)"

definition decode_rgba8_compat_with_selector ::
    "uncompress_fn \<Rightarrow> file_system \<Rightarrow> provider \<Rightarrow> u64 \<Rightarrow> u16 \<Rightarrow> u64 \<Rightarrow> replacement_image option" where
  "decode_rgba8_compat_with_selector unz fs p checksum formatsize selector =
     (if \<not> enabled p then None
      else case find_compat_entry p checksum formatsize selector of
             None \<Rightarrow> None | Some e \<Rightarrow> decode_entry_rgba8 unz fs e)"

definition decode_sampled_rgba8_with_selector ::
    "uncompress_fn \<Rightarrow> file_system \<Rightarrow> provider \<Rightarrow> sampled_sig \<Rightarrow> u16 \<Rightarrow> u64 \<Rightarrow>
     (replacement_image \<times> u64) option" where
  "decode_sampled_rgba8_with_selector unz fs p sg formatsize selector =
     (if \<not> enabled p then None
      else case find_sampled_entry p sg formatsize selector of
             None \<Rightarrow> None
           | Some e \<Rightarrow> map_option (\<lambda>img. (img, e_checksum64 e)) (decode_entry_rgba8 unz fs e))"

section \<open>Correctness of the pixel decoder\<close>

text \<open>
  The reference: a texel as natural numbers. Expanding a channel repeats its leading bits.
\<close>

definition ref_expand :: "nat \<Rightarrow> nat \<Rightarrow> nat" where
  "ref_expand bits v = v * 2 ^ (8 - bits) + v div 2 ^ (2 * bits - 8)"

definition ref_texel16 :: "bytes \<Rightarrow> nat \<Rightarrow> nat" where
  "ref_texel16 px i = unat (px ! (2 * i)) + 256 * unat (px ! (2 * i + 1))"

definition ref_texel :: "u16 \<Rightarrow> u16 \<Rightarrow> bytes \<Rightarrow> nat \<Rightarrow> nat list" where
  "ref_texel tf pt px i =
     (let v = ref_texel16 px i; byte = (\<lambda>k. unat (px ! k)) in
      if (tf, pt) = (GL_RGB, GL_UNSIGNED_BYTE) then [byte (3 * i), byte (3 * i + 1), byte (3 * i + 2), 255]
      else if (tf, pt) = (GL_RGB, GL_UNSIGNED_SHORT_5_6_5) then
        [ref_expand 5 (v div 2 ^ 11 mod 32), ref_expand 6 (v div 2 ^ 5 mod 64), ref_expand 5 (v mod 32), 255]
      else if (tf, pt) = (GL_RGBA, GL_UNSIGNED_SHORT_5_5_5_1) then
        [ref_expand 5 (v div 2 ^ 11 mod 32), ref_expand 5 (v div 2 ^ 6 mod 32),
         ref_expand 5 (v div 2 mod 32), 255 * (v mod 2)]
      else if (tf, pt) = (GL_RGBA, GL_UNSIGNED_SHORT_4_4_4_4) then
        [ref_expand 4 (v div 2 ^ 12 mod 16), ref_expand 4 (v div 2 ^ 8 mod 16),
         ref_expand 4 (v div 2 ^ 4 mod 16), ref_expand 4 (v mod 16)]
      else if (tf, pt) = (GL_LUMINANCE, GL_UNSIGNED_BYTE) then [byte i, byte i, byte i, 255]
      else map byte [4 * i, 4 * i + 1, 4 * i + 2, 4 * i + 3])"

lemma expand_ref:
  "unat v < 16 \<Longrightarrow> unat (expand_4_to_8 v) = ref_expand 4 (unat v)"
  "unat v < 32 \<Longrightarrow> unat (expand_5_to_8 v) = ref_expand 5 (unat v)"
  "unat v < 64 \<Longrightarrow> unat (expand_6_to_8 v) = ref_expand 6 (unat v)"
proof -
  have "\<forall>n \<in> set [0..<16]. unat (expand_4_to_8 (of_nat n)) = ref_expand 4 (unat (of_nat n :: u32))"
    by code_simp
  then show "unat v < 16 \<Longrightarrow> unat (expand_4_to_8 v) = ref_expand 4 (unat v)"
    by (rule word_small_cases)
  have "\<forall>n \<in> set [0..<32]. unat (expand_5_to_8 (of_nat n)) = ref_expand 5 (unat (of_nat n :: u32))"
    by code_simp
  then show "unat v < 32 \<Longrightarrow> unat (expand_5_to_8 v) = ref_expand 5 (unat v)"
    by (rule word_small_cases)
  have "\<forall>n \<in> set [0..<64]. unat (expand_6_to_8 (of_nat n)) = ref_expand 6 (unat (of_nat n :: u32))"
    by code_simp
  then show "unat v < 64 \<Longrightarrow> unat (expand_6_to_8 v) = ref_expand 6 (unat v)"
    by (rule word_small_cases)
qed

lemma channel_masks: "(0xf :: u32) = mask 4" "(0x1f :: u32) = mask 5" "(0x3f :: u32) = mask 6" "(1 :: u32) = mask 1"
  by (simp_all add: mask_eq_exp_minus_1)

lemma unat_texel16: "unat (texel16 px i) = ref_texel16 px i"
proof -
  have disj: "(ucast a :: u32) AND push_bit 8 (ucast b) = 0" for a b :: u8
    by (rule bit_word_eqI) (auto simp: bit_and_iff bit_push_bit_iff bit_ucast_iff dest: bit_imp_le_length)
  have b: "unat (ucast a :: u32) = unat a" for a :: u8
    using unsigned_less [of a, where 'a = nat] by (simp add: unsigned_ucast_eq take_bit_nat_eq_self)
  have s: "unat (push_bit 8 (ucast a) :: u32) = 256 * unat a" for a :: u8
    using unsigned_less [of a, where 'a = nat]
    by (simp only: unsigned_push_bit_eq b) (simp add: push_bit_eq_mult take_bit_nat_eq_self)
  have "unat (ucast a + push_bit 8 (ucast c) :: u32) = unat a + 256 * unat c" for a c :: u8
    using unsigned_less [of a, where 'a = nat] unsigned_less [of c, where 'a = nat]
    by (simp only: unat_word_ariths b s) simp
  then show ?thesis
    unfolding texel16_def ref_texel16_def disjunctive_add_eq_or [OF disj, symmetric] .
qed

lemma channel_values:
  "unat (field v 12 0xf) = unat v div 2 ^ 12 mod 16" "unat (field v 8 0xf) = unat v div 2 ^ 8 mod 16"
  "unat (field v 4 0xf) = unat v div 2 ^ 4 mod 16" "unat (v AND 0xf) = unat v mod 16"
  "unat (field v 11 0x1f) = unat v div 2 ^ 11 mod 32" "unat (field v 6 0x1f) = unat v div 2 ^ 6 mod 32"
  "unat (field v 1 0x1f) = unat v div 2 mod 32" "unat (v AND 0x1f) = unat v mod 32"
  "unat (field v 5 0x3f) = unat v div 2 ^ 5 mod 64"
  for v :: u32
  unfolding channel_masks and_mask_mod unat_drop_bit_eq by (simp_all add: drop_bit_eq_div)

lemma texel_565_ref:
  "map unat (texel_565 (texel16 px i)) =
     (let v = ref_texel16 px i in
      [ref_expand 5 (v div 2 ^ 11 mod 32), ref_expand 6 (v div 2 ^ 5 mod 64), ref_expand 5 (v mod 32), 255])"
  unfolding texel_565_def
  by (simp add: expand_ref channel_values unat_texel16 unat_shr Let_def)

lemma texel_5551_ref:
  "map unat (texel_5551 (texel16 px i)) =
     (let v = ref_texel16 px i in
      [ref_expand 5 (v div 2 ^ 11 mod 32), ref_expand 5 (v div 2 ^ 6 mod 32),
       ref_expand 5 (v div 2 mod 32), 255 * (v mod 2)])"
proof -
  have "unat (texel16 px i AND 1) = ref_texel16 px i mod 2"
    unfolding channel_masks(4) and_mask_mod unat_texel16 by simp
  then have "texel16 px i AND 1 \<noteq> 0 \<longleftrightarrow> ref_texel16 px i mod 2 = 1"
    by (metis mod2_eq_if unat_eq_zero zero_neq_one)
  then show ?thesis
    unfolding texel_5551_def by (simp add: expand_ref channel_values unat_texel16 unat_shr Let_def mod2_eq_if)
qed

lemma texel_4444_ref:
  "map unat (texel_4444 (texel16 px i)) =
     (let v = ref_texel16 px i in
      [ref_expand 4 (v div 2 ^ 12 mod 16), ref_expand 4 (v div 2 ^ 8 mod 16),
       ref_expand 4 (v div 2 ^ 4 mod 16), ref_expand 4 (v mod 16)])"
  unfolding texel_4444_def by (simp add: expand_ref channel_values unat_texel16 unat_shr Let_def)

lemma concat_map_texel:
  assumes "\<And>i. length (f i) = 4" "i < n"
  shows "length (concat (map f [0..<n])) = 4 * n" "take 4 (drop (4 * i) (concat (map f [0..<n]))) = f i"
proof -
  have len: "length (concat (map f [0..<k])) = 4 * k" for k
    by (induction k) (simp_all add: assms(1))
  then show "length (concat (map f [0..<n])) = 4 * n" .
  have "[0..<n] = [0..<i] @ i # [Suc i..<n]"
    using assms(2) by (metis less_imp_add_positive upt_add_eq_append upt_conv_Cons zero_le assms(2))
  then have "concat (map f [0..<n]) = concat (map f [0..<i]) @ f i @ concat (map f [Suc i..<n])"
    by (metis concat.simps(2) concat_append list.simps(9) map_append)
  then show "take 4 (drop (4 * i) (concat (map f [0..<n]))) = f i"
    using len [of i] assms(1) by simp
qed

definition texel_count :: "entry \<Rightarrow> nat" where
  "texel_count e = unat (e_width e) * unat (e_height e)"

lemma unat_pixel_product: "unat (ucast a * ucast b :: u64) = unat (a :: u32) * unat (b :: u32)"
proof -
  have "unat a * unat b < 2 ^ 32 * 2 ^ 32"
    using unsigned_less [of a, where 'a = nat] unsigned_less [of b, where 'a = nat]
    by (intro mult_strict_mono) simp_all
  then show ?thesis by (simp add: unat_word_ariths)
qed

text \<open>Bytes of input per texel of a known format; any other format is copied if its size fits.\<close>

definition known_format :: "entry \<Rightarrow> nat option" where
  "known_format e =
     (let f = (texture_format e, pixel_type e) in
      if f = (GL_RGBA, GL_UNSIGNED_BYTE) then Some 4
      else if f = (GL_RGB, GL_UNSIGNED_BYTE) then Some 3
      else if f = (GL_RGB, GL_UNSIGNED_SHORT_5_6_5) \<or> f = (GL_RGBA, GL_UNSIGNED_SHORT_5_5_5_1) \<or>
              f = (GL_RGBA, GL_UNSIGNED_SHORT_4_4_4_4) then Some 2
      else if f = (GL_LUMINANCE, GL_UNSIGNED_BYTE) then Some 1 else None)"

lemma take_drop_4:
  assumes "4 * i + 4 \<le> length xs"
  shows "take 4 (drop (4 * i) xs) = [xs ! (4 * i), xs ! (4 * i + 1), xs ! (4 * i + 2), xs ! (4 * i + 3)]"
  using assms by (intro nth_equalityI) (auto simp: nth_Cons numeral_eq_Suc split: nat.splits)

lemma gl_distinct [simp]:
  "GL_RGB \<noteq> GL_RGBA" "GL_RGBA \<noteq> GL_RGB" "GL_LUMINANCE \<noteq> GL_RGBA" "GL_LUMINANCE \<noteq> GL_RGB"
  "GL_RGBA \<noteq> GL_LUMINANCE" "GL_RGB \<noteq> GL_LUMINANCE"
  "GL_UNSIGNED_BYTE \<noteq> GL_UNSIGNED_SHORT_5_6_5" "GL_UNSIGNED_SHORT_5_6_5 \<noteq> GL_UNSIGNED_BYTE"
  "GL_UNSIGNED_BYTE \<noteq> GL_UNSIGNED_SHORT_5_5_5_1" "GL_UNSIGNED_SHORT_5_5_5_1 \<noteq> GL_UNSIGNED_BYTE"
  "GL_UNSIGNED_BYTE \<noteq> GL_UNSIGNED_SHORT_4_4_4_4" "GL_UNSIGNED_SHORT_4_4_4_4 \<noteq> GL_UNSIGNED_BYTE"
  "GL_UNSIGNED_SHORT_5_5_5_1 \<noteq> GL_UNSIGNED_SHORT_4_4_4_4" "GL_UNSIGNED_SHORT_4_4_4_4 \<noteq> GL_UNSIGNED_SHORT_5_5_5_1"
  by (simp_all add: gl_defs)

lemma pixel_count_conds:
  "(ucast (e_width e) * ucast (e_height e) :: u64) = 0 \<longleftrightarrow> texel_count e = 0"
  "(0x3fffffffffffffff :: u64) < ucast (e_width e) * ucast (e_height e) \<longleftrightarrow> 2 ^ 62 \<le> texel_count e"
  "unat (ucast (e_width e) * ucast (e_height e) :: u64) = texel_count e"
  by (simp_all only: word_unat_eq_iff word_less_nat_alt unat_pixel_product texel_count_def) auto

lemma decode_loop_correct:
  assumes "\<And>i. map unat (f i) = g i" "\<And>i. length (f i) = 4" "decode_loop k n px f = Some out"
  shows "length out = 4 * n \<and> (\<forall>i < n. map unat (take 4 (drop (4 * i) out)) = g i)"
  using assms concat_map_texel [of f] by (cases "n = 0") (auto simp: decode_loop_def split: if_splits)

lemma copy_correct:
  assumes "4 * n \<le> length px"
  shows "\<forall>i < n. map unat (take 4 (drop (4 * i) (take (n * 4) px))) =
    map (\<lambda>k. unat (px ! k)) [4 * i, 4 * i + 1, 4 * i + 2, 4 * i + 3]"
  using assms by (auto simp: take_drop_4)

lemma decode_pixels_texels:
  assumes "decode_pixels_rgba8 e px = Some out"
  shows "length out = 4 * texel_count e \<and> (\<forall>i < texel_count e.
      map unat (take 4 (drop (4 * i) out)) = ref_texel (texture_format e) (pixel_type e) px i)"
proof -
  note D = assms [unfolded decode_pixels_rgba8_def Let_def pixel_count_conds]
  let ?f = "(texture_format e, pixel_type e)"
  consider "?f = (GL_RGB, GL_UNSIGNED_BYTE)" | "?f = (GL_RGB, GL_UNSIGNED_SHORT_5_6_5)"
    | "?f = (GL_RGBA, GL_UNSIGNED_SHORT_5_5_5_1)" | "?f = (GL_RGBA, GL_UNSIGNED_SHORT_4_4_4_4)"
    | "?f = (GL_LUMINANCE, GL_UNSIGNED_BYTE)"
    | (copy) "out = take (texel_count e * 4) px" "texel_count e * 4 \<le> length px"
        "?f \<notin> {(GL_RGB, GL_UNSIGNED_BYTE), (GL_RGB, GL_UNSIGNED_SHORT_5_6_5),
          (GL_RGBA, GL_UNSIGNED_SHORT_5_5_5_1), (GL_RGBA, GL_UNSIGNED_SHORT_4_4_4_4),
          (GL_LUMINANCE, GL_UNSIGNED_BYTE)}"
    using D by (auto split: if_splits)
  then show ?thesis
  proof cases
    case 1
    with D show ?thesis
      by (intro decode_loop_correct [of "texel_rgb px"]) (auto simp: texel_rgb_def ref_texel_def Let_def split: if_splits)
  next
    case 2
    with D show ?thesis
      by (intro decode_loop_correct [of "\<lambda>i. texel_565 (texel16 px i)"])
        (auto simp: texel_565_ref ref_texel_def Let_def split: if_splits, simp add: texel_565_def)
  next
    case 3
    with D show ?thesis
      by (intro decode_loop_correct [of "\<lambda>i. texel_5551 (texel16 px i)"])
        (auto simp: texel_5551_ref ref_texel_def Let_def split: if_splits, simp_all add: texel_5551_def)
  next
    case 4
    with D show ?thesis
      by (intro decode_loop_correct [of "\<lambda>i. texel_4444 (texel16 px i)"])
        (auto simp: texel_4444_ref ref_texel_def Let_def split: if_splits, simp add: texel_4444_def)
  next
    case 5
    with D show ?thesis
      by (intro decode_loop_correct [of "texel_l8 px"]) (auto simp: texel_l8_def ref_texel_def Let_def split: if_splits)
  next
    case copy
    then show ?thesis
      using copy_correct [of "texel_count e" px] by (auto simp: ref_texel_def Let_def mult.commute)
  qed
qed

text \<open>
  C29. Decoding texels to RGBA8, for every texture format: it succeeds exactly when the image
  is not empty, has fewer than 2^62 texels and enough input (for an unknown format: exactly
  four bytes per texel); the output has four bytes per texel, and those of each texel are the
  channels of the input's texel, expanded by repeating their leading bits, with alpha 255
  where the format has none.
\<close>

theorem decode_pixels_correct:
  "case decode_pixels_rgba8 e px of
     None \<Rightarrow> texel_count e = 0 \<or> 2 ^ 62 \<le> texel_count e \<or>
       (case known_format e of Some k \<Rightarrow> length px < texel_count e * k
        | None \<Rightarrow> length px \<noteq> texel_count e * 4)
   | Some out \<Rightarrow>
       0 < texel_count e \<and> texel_count e < 2 ^ 62 \<and>
       (case known_format e of Some k \<Rightarrow> texel_count e * k \<le> length px
        | None \<Rightarrow> length px = texel_count e * 4) \<and>
       length out = 4 * texel_count e \<and>
       (\<forall>i < texel_count e. map unat (take 4 (drop (4 * i) out)) =
          ref_texel (texture_format e) (pixel_type e) px i)"
proof (cases "decode_pixels_rgba8 e px")
  case None
  then show ?thesis
    unfolding decode_pixels_rgba8_def Let_def pixel_count_conds
    by (auto simp: known_format_def decode_loop_def Let_def split: if_splits)
next
  case (Some out)
  note D = Some [unfolded decode_pixels_rgba8_def Let_def pixel_count_conds]
  have size: "0 < texel_count e \<and> texel_count e < 2 ^ 62 \<and>
      (case known_format e of Some k \<Rightarrow> texel_count e * k \<le> length px | None \<Rightarrow> length px = texel_count e * 4)"
    using D by (auto simp: known_format_def decode_loop_def Let_def split: if_splits)
  with Some decode_pixels_texels [OF Some] show ?thesis by simp
qed

definition sample_image_entry :: "u32 \<Rightarrow> u16 \<Rightarrow> u16 \<Rightarrow> bytes \<Rightarrow> entry" where
  "sample_image_entry fmt tf pt raw =
     \<lparr>source_path = ''a.phrb'', phrb_policy_key = '''', phrb_replacement_id = '''',
      phrb_sampled_object_id = '''', e_checksum64 = 7, data_offset = 0, data_size = 4,
      e_width = 2, e_height = 1, e_format = fmt, texture_format = tf, pixel_type = pt,
      e_formatsize = 0, e_selector = 0,
      e_sig = \<lparr>sampled_fmt = 0, sampled_siz = 0, sampled_tex_offset = 0, sampled_stride = 0,
        sampled_width = 0, sampled_height = 0, sampled_low32 = 7, sampled_palette_crc = 0\<rparr>,
      sampled_entry_pcrc = 0, sampled_sparse_pcrc = 0, has_native_sampled_identity = False,
      is_runtime_family_compat = False, is_hires = True, inline_blob = True, blob = raw\<rparr>"

theorem decode_pixels_correct_witness:
  "decode_pixels_rgba8 (sample_image_entry GL_RGB8 GL_RGB GL_UNSIGNED_SHORT_5_6_5 []) [0x00, 0xf8, 0xff, 0xff] =
     Some [255, 0, 0, 255, 255, 255, 255, 255] \<and>
   map unat (take 4 (drop (4 * 0) [255, 0, 0, 255, 255, 255, 255, 255 :: u8])) =
     ref_texel GL_RGB GL_UNSIGNED_SHORT_5_6_5 [0x00, 0xf8, 0xff, 0xff] 0"
proof -
  let ?e = "sample_image_entry GL_RGB8 GL_RGB GL_UNSIGNED_SHORT_5_6_5 []"
  have d: "decode_pixels_rgba8 ?e [0x00, 0xf8, 0xff, 0xff] = Some [255, 0, 0, 255, 255, 255, 255, 255]"
    by code_simp
  have t: "texel_count ?e = 2" by code_simp
  have f: "texture_format ?e = GL_RGB" "pixel_type ?e = GL_UNSIGNED_SHORT_5_6_5"
    by (simp_all add: sample_image_entry_def)
  show ?thesis
    using decode_pixels_correct [of ?e "[0x00, 0xf8, 0xff, 0xff]"] unfolding d t f option.case
    by (auto elim!: allE [of _ "0 :: nat"])
qed

section \<open>Decoding loaded entries\<close>

lemma bytes_per_pixel_known: "known_format e = Some k \<Longrightarrow> unat (bytes_per_pixel e) = k \<and> 0 < k"
  by (auto simp: known_format_def bytes_per_pixel_def Let_def split: if_splits)

lemma expected_decoded_size_le:
  assumes "known_format e = Some k"
  shows "unat (expected_decoded_size e) \<le> texel_count e * k"
proof -
  let ?t = "ucast (e_width e) * ucast (e_height e) * bytes_per_pixel e :: u64"
  have "unat ?t \<le> texel_count e * k"
    unfolding unat_word_ariths(2) [of _ "bytes_per_pixel e"] pixel_count_conds
    using bytes_per_pixel_known [OF assms] by (simp only: mod_less_eq_dividend)
  moreover have "unat (ucast ?t :: u32) \<le> unat ?t"
    by (simp only: unsigned_ucast_eq take_bit_nat_less_eq_self)
  ultimately show ?thesis by (auto simp: expected_decoded_size_def Let_def)
qed

text \<open>
  A compressed image of a known format decodes only if the decompressor, which writes at
  most as much as it is allowed to, delivers exactly the bytes of all texels: no truncated or
  overlong stream is accepted.
\<close>

theorem compressed_decode_exact:
  assumes "uncompress_bounded unz" "e_format e AND GL_TEXFMT_GZ \<noteq> 0" "known_format e = Some k"
    and "decode_entry_rgba8 unz fs e = Some img"
  shows "\<exists>raw px. read_blob fs e = Some raw \<and> unz raw (texel_count e * k) = Some px \<and>
    length px = texel_count e * k \<and> decode_pixels_rgba8 e px = Some (rgba8 img) \<and>
    length (rgba8 img) = 4 * texel_count e"
proof -
  from assms(4) obtain raw px where r: "read_blob fs e = Some raw"
    "decompress_if_needed unz e raw = Some px" "decode_pixels_rgba8 e px = Some (rgba8 img)"
    by (auto simp: decode_entry_rgba8_def split: option.splits)
  from r(2) assms(2) have u: "unz raw (unat (expected_decoded_size e)) = Some px"
    by (auto simp: decompress_if_needed_def Let_def split: if_splits)
  then have le: "length px \<le> unat (expected_decoded_size e)"
    using assms(1) unfolding uncompress_bounded_def by blast
  have c: "texel_count e * k \<le> length px"
    using r(3) assms(3) unfolding decode_pixels_rgba8_def Let_def pixel_count_conds
    by (auto simp: known_format_def decode_loop_def Let_def split: if_splits)
  with le expected_decoded_size_le [OF assms(3)]
  have eq: "unat (expected_decoded_size e) = texel_count e * k" "length px = texel_count e * k" by auto
  with r u decode_pixels_texels [OF r(3)] show ?thesis by auto
qed

definition stored_stream :: uncompress_fn where
  "stored_stream src n = (if length src \<le> n then Some src else None)"

theorem compressed_decode_exact_witness:
  "\<exists>raw px. read_blob (\<lambda>_. None) (sample_image_entry 0x80008051 GL_LUMINANCE GL_UNSIGNED_BYTE [1, 2]) = Some raw \<and>
     stored_stream raw 2 = Some px \<and> length px = 2"
proof -
  let ?e = "sample_image_entry 0x80008051 GL_LUMINANCE GL_UNSIGNED_BYTE [1, 2]"
  have b: "uncompress_bounded stored_stream" by (auto simp: uncompress_bounded_def stored_stream_def split: if_splits)
  have g: "e_format ?e AND GL_TEXFMT_GZ \<noteq> 0" by (simp add: sample_image_entry_def GL_TEXFMT_GZ_def)
  have k: "known_format ?e = Some 1" by (simp add: known_format_def sample_image_entry_def Let_def)
  have t: "texel_count ?e = 2" by (simp add: texel_count_def sample_image_entry_def)
  have "decode_entry_rgba8 stored_stream (\<lambda>_. None) ?e \<noteq> None" by code_simp
  then obtain img where "decode_entry_rgba8 stored_stream (\<lambda>_. None) ?e = Some img" by blast
  from compressed_decode_exact [OF b g k this] show ?thesis unfolding t by auto
qed

text \<open>
  C34. From pack to pixels: an entry that loading a pack added, stored as uncompressed 8-bit
  RGBA with four bytes per texel, decodes to exactly the bytes of its range of the file, with
  the entry's dimensions.
\<close>

theorem decode_loaded_rgba:
  assumes "load_phrb fs path p = (p', ok)" "fs path = Some contents" "length contents < 2 ^ 63"
    and "e \<in> set (entries p')" "e \<notin> set (entries p)"
    and "e_format e AND GL_TEXFMT_GZ = 0" "texture_format e = GL_RGBA" "pixel_type e = GL_UNSIGNED_BYTE"
    and "unat (data_size e) = 4 * texel_count e"
  shows "\<exists>img. decode_entry_rgba8 unz fs e = Some img \<and>
    rgba8 img = take (unat (data_size e)) (drop (unat (data_offset e)) contents) \<and>
    repl_w (img_meta img) = e_width e \<and> repl_h (img_meta img) = e_height e"
proof -
  from assms(1) have "entry_in_file path contents e"
  proof (cases rule: load_phrb_cases)
    case unopened
    with assms(4,5) show ?thesis by simp
  next
    case (opened pf es)
    with assms(4,5) have "e \<in> set es" by simp
    with opened(3) asset_entry_in_file [OF opened(1) assms(2,3)] show ?thesis by blast
  qed
  note f = this
  let ?px = "take (unat (data_size e)) (drop (unat (data_offset e)) contents)"
  have rb: "read_blob fs e = Some ?px" using f assms(2,3) by (rule read_blob_in_file)
  have len: "length ?px = 4 * texel_count e" using f assms(9) by (auto simp: entry_in_file_def)
  have "unat (data_size e) < 2 ^ 32" using unsigned_less [of "data_size e", where 'a = nat] by simp
  then have "\<not> 2 ^ 62 \<le> texel_count e" using assms(9) by simp
  moreover have "texel_count e \<noteq> 0"
    using f by (auto simp: entry_in_file_def texel_count_def unat_eq_zero)
  ultimately have n: "texel_count e \<noteq> 0" "\<not> 2 ^ 62 \<le> texel_count e" by blast+
  have "decode_pixels_rgba8 e ?px = Some ?px"
    unfolding decode_pixels_rgba8_def Let_def pixel_count_conds
    using n assms(7,8,9) len by (simp add: mult.commute)
  then show ?thesis
    by (simp add: decode_entry_rgba8_def rb decompress_if_needed_def assms(6))
qed

definition sample_loaded :: entry where
  "sample_loaded = hd (entries (fst (load_phrb sample_fs ''a.phrb'' default_provider)))"

theorem decode_loaded_rgba_witness:
  "\<exists>img. decode_entry_rgba8 stored_stream sample_fs sample_loaded = Some img \<and>
     rgba8 img = [10, 20, 30, 255]"
proof -
  let ?p = "fst (load_phrb sample_fs ''a.phrb'' default_provider)"
  obtain es where es: "entries ?p = sample_loaded # es"
    "e_width sample_loaded = 1" "e_height sample_loaded = 1" "data_offset sample_loaded = 142"
    "data_size sample_loaded = 4" "e_format sample_loaded = 0x8058"
    "texture_format sample_loaded = 0x1908" "pixel_type sample_loaded = 0x1401"
    using sample_pack_loads by (cases "entries ?p") (auto simp: sample_loaded_def)
  have fs: "sample_fs ''a.phrb'' = Some sample_pack" by (simp add: sample_fs_def)
  have l: "length sample_pack < 2 ^ 63" using length_sample_pack by simp
  have g: "e_format sample_loaded AND GL_TEXFMT_GZ = 0" "texture_format sample_loaded = GL_RGBA"
    "pixel_type sample_loaded = GL_UNSIGNED_BYTE"
    "unat (data_size sample_loaded) = 4 * texel_count sample_loaded"
    using es by (simp_all add: gl_defs texel_count_def)
  have m: "sample_loaded \<in> set (entries ?p)" "sample_loaded \<notin> set (entries default_provider)"
    using es by (simp_all add: default_provider_def)
  have slice: "take 4 (drop 142 sample_pack) = [10, 20, 30, 255]" by code_simp
  have "load_phrb sample_fs ''a.phrb'' default_provider =
      (?p, snd (load_phrb sample_fs ''a.phrb'' default_provider))" by simp
  from decode_loaded_rgba [of sample_fs "''a.phrb''", OF this fs l m g] slice es show ?thesis by auto
qed

end
