(* ===== verification/Texture_Keying.thy ===== *)
theory Texture_Keying
  imports RDP_Common
begin

text \<open>
  Keys of textures: \<open>texture_keying.hpp\<close> and \<open>rdp_hires_texture_layout.hpp\<close>. Memory is
  a list of bytes whose length is the size the code passes along; an address is masked with
  that size minus one before every access. A null pointer is the empty list: the code treats
  both the same way in every function that tests for them.

  Nested loops over rows and columns are written as the list of addresses they visit, in order.
\<close>

definition formatsize_key :: "texture_format_t \<Rightarrow> texture_size \<Rightarrow> u16" where
  "formatsize_key fmt siz = ucast fmt OR push_bit 8 (ucast (texture_size_value siz))"

definition addr_mask :: "bytes \<Rightarrow> u32" where
  "addr_mask rdram = of_nat (length rdram - 1)"

definition wrapped_read_u8 :: "bytes \<Rightarrow> u32 \<Rightarrow> u8" where
  "wrapped_read_u8 rdram addr = rdram ! unat (addr AND addr_mask rdram)"

definition wrapped_read_u32 :: "bytes \<Rightarrow> u32 \<Rightarrow> u32" where
  "wrapped_read_u32 rdram addr =
     push_bit 0 (ucast (wrapped_read_u8 rdram (addr + 0))) OR
     push_bit 8 (ucast (wrapped_read_u8 rdram (addr + 1))) OR
     push_bit 16 (ucast (wrapped_read_u8 rdram (addr + 2))) OR
     push_bit 24 (ucast (wrapped_read_u8 rdram (addr + 3)))"

section \<open>The Rice CRC\<close>

text \<open>One step of the inner loop on \<open>(crc, esi)\<close>, at column \<open>x\<close>.\<close>

definition rice_column :: "bytes \<Rightarrow> u32 \<Rightarrow> u32 \<times> u32 \<Rightarrow> u32 \<Rightarrow> u32 \<times> u32" where
  "rice_column rdram row_addr st x =
     (let esi = wrapped_read_u32 rdram (row_addr + x) XOR x;
          crc = push_bit 4 (fst st) + (drop_bit 28 (fst st) AND 15)
      in (crc + esi, esi))"

text \<open>The columns \<open>bytes_per_line - 4\<close>, \<open>bytes_per_line - 8\<close>, \dots\ down to 0 or more.\<close>

definition rice_columns :: "u32 \<Rightarrow> u32 list" where
  "rice_columns bytes_per_line =
     map (\<lambda>k. of_nat (unat bytes_per_line - 4 * (k + 1))) [0..<unat bytes_per_line div 4]"

definition rice_row :: "bytes \<Rightarrow> u32 \<Rightarrow> u32 \<Rightarrow> u32 \<Rightarrow> u32 \<Rightarrow> u32 \<Rightarrow> u32 \<Rightarrow> u32" where
  "rice_row rdram base_addr row_stride bytes_per_line line y crc =
     (let row_addr = (base_addr + line * row_stride) AND addr_mask rdram;
          (crc, esi) = foldl (rice_column rdram row_addr) (crc, 0) (rice_columns bytes_per_line)
      in crc + (esi XOR y))"

text \<open>
  The loop \<open>for (int y = int(height) - 1; y >= 0; y--, line++)\<close>: it does not run for a height
  that is negative as an \<open>int\<close>.
\<close>

fun rice_rows :: "bytes \<Rightarrow> u32 \<Rightarrow> u32 \<Rightarrow> u32 \<Rightarrow> nat \<Rightarrow> u32 \<Rightarrow> u32 \<Rightarrow> u32" where
  "rice_rows rdram base_addr row_stride bytes_per_line 0 line crc = crc"
| "rice_rows rdram base_addr row_stride bytes_per_line (Suc n) line crc =
     rice_rows rdram base_addr row_stride bytes_per_line n (line + 1)
       (rice_row rdram base_addr row_stride bytes_per_line line (of_nat n) crc)"

definition rice_crc32_wrapped ::
    "bytes \<Rightarrow> u32 \<Rightarrow> u32 \<Rightarrow> u32 \<Rightarrow> nat \<Rightarrow> u32 \<Rightarrow> u32" where
  "rice_crc32_wrapped rdram base_addr width height siz row_stride =
     (if rdram = [] \<or> width = 0 \<or> height = 0 then 0
      else let bytes_per_line = drop_bit 1 (push_bit siz width) in
           if bytes_per_line < 4 then 0
           else rice_rows rdram base_addr row_stride bytes_per_line (nat (sint height)) 0 0)"

section \<open>The largest colour index\<close>

text \<open>The addresses of \<open>row_bytes\<close> bytes in each of \<open>height\<close> rows.\<close>

definition row_addresses :: "bytes \<Rightarrow> u32 \<Rightarrow> u32 \<Rightarrow> u32 \<Rightarrow> u32 \<Rightarrow> u32 list" where
  "row_addresses rdram base_addr row_bytes height row_stride =
     concat (map (\<lambda>y. let row_addr = (base_addr + of_nat y * row_stride) AND addr_mask rdram
                      in map (\<lambda>x. row_addr + of_nat x) [0..<unat row_bytes]) [0..<unat height])"

text \<open>The running maximum over groups of indices, which stops at the limit.\<close>

fun max_index_loop :: "u32 \<Rightarrow> u32 \<Rightarrow> u32 list list \<Rightarrow> u32" where
  "max_index_loop limit cimax [] = cimax"
| "max_index_loop limit cimax (g # gs) =
     (let cimax = foldl max cimax g in if cimax = limit then cimax else max_index_loop limit cimax gs)"

definition ci8_indices :: "bytes \<Rightarrow> u32 \<Rightarrow> u32 list" where
  "ci8_indices rdram addr = [ucast (wrapped_read_u8 rdram addr)]"

definition ci4_indices :: "bytes \<Rightarrow> u32 \<Rightarrow> u32 list" where
  "ci4_indices rdram addr =
     (let v = wrapped_read_u8 rdram addr in [ucast (field v 4 0xf), ucast (v AND 0xf)])"

definition compute_ci8_max_index :: "bytes \<Rightarrow> u32 \<Rightarrow> u32 \<Rightarrow> u32 \<Rightarrow> u32 \<Rightarrow> u32" where
  "compute_ci8_max_index rdram base_addr width height row_stride =
     max_index_loop 0xff 0 (map (ci8_indices rdram) (row_addresses rdram base_addr width height row_stride))"

definition compute_ci4_max_index :: "bytes \<Rightarrow> u32 \<Rightarrow> u32 \<Rightarrow> u32 \<Rightarrow> u32 \<Rightarrow> u32" where
  "compute_ci4_max_index rdram base_addr width height row_stride =
     (let row_bytes = drop_bit 1 (width + 1) in
      max_index_loop 0xf 0 (map (ci4_indices rdram) (row_addresses rdram base_addr row_bytes height row_stride)))"

definition compute_hires_texture_row_bytes :: "u32 \<Rightarrow> texture_size \<Rightarrow> u32" where
  "compute_hires_texture_row_bytes width siz =
     (if siz = Bpp4 then drop_bit 1 (width + 1)
      else drop_bit 1 (push_bit (unat (texture_size_value siz)) width))"

section \<open>Lemmas\<close>

lemma wrapped_in_range:
  assumes "rdram \<noteq> []" "length rdram \<le> 2 ^ 32"
  shows "unat (addr AND addr_mask rdram) < length rdram"
proof -
  have "unat (addr AND addr_mask rdram) \<le> unat (addr_mask rdram)" by (rule unat_and_le)
  also have "\<dots> = length rdram - 1"
    using assms by (simp add: addr_mask_def unat_of_nat_u32)
  finally show ?thesis using assms(1) by (cases rdram) auto
qed

text \<open>For memory of a power of two bytes the mask is the remainder.\<close>

lemma wrapped_read_mod:
  assumes "length rdram = 2 ^ k" "k \<le> 32"
  shows "wrapped_read_u8 rdram addr = rdram ! (unat addr mod length rdram)"
proof -
  have "addr_mask rdram = mask k"
    using assms by (simp add: addr_mask_def mask_eq_exp_minus_1 of_nat_diff)
  then show ?thesis using assms(1) by (simp add: wrapped_read_u8_def and_mask_mod del: take_bit_eq_mask)
qed

lemma Max_insert_Un:
  fixes m :: "'a::linorder"
  assumes "finite A" "finite B"
  shows "Max (insert m (A \<union> B)) = Max (insert (Max (insert m A)) B)"
proof (cases "B = {}")
  case False
  have "Max (insert m A \<union> B) = max (Max (insert m A)) (Max B)"
    using assms False by (intro Max_Un) auto
  then show ?thesis using assms False by (simp add: Max.insert)
qed simp

lemma foldl_max_Max: "foldl max m xs = Max (insert m (set xs))" for m :: "'a::linorder"
proof (induction xs arbitrary: m)
  case (Cons x xs)
  have "Max (insert m ({x} \<union> set xs)) = Max (insert (Max (insert m {x})) (set xs))"
    by (rule Max_insert_Un) auto
  with Cons show ?case by (simp add: max.commute)
qed simp

lemma max_index_loop_Max:
  assumes "\<forall>x \<in> set (concat gs). x \<le> limit" "m \<le> limit"
  shows "max_index_loop limit m gs = Max (insert m (set (concat gs)))"
  using assms
proof (induction gs arbitrary: m)
  case (Cons g gs)
  let ?m = "foldl max m g"
  have m: "?m = Max (insert m (set g))" by (rule foldl_max_Max)
  have le: "?m \<le> limit" using Cons.prems by (simp add: m)
  have u: "Max (insert m (set (concat (g # gs)))) = Max (insert ?m (set (concat gs)))"
    using Max_insert_Un [of "set g" "set (concat gs)" m] by (simp add: m)
  show ?case
  proof (cases "?m = limit")
    case True
    have "Max (insert ?m (set (concat gs))) = ?m"
      using Cons.prems True by (intro Max_eqI) auto
    with True u show ?thesis by (simp add: Let_def)
  next
    case False
    with Cons le u show ?thesis by (simp add: Let_def)
  qed
qed simp

end
