(* ===== verification/CI_Palette.thy ===== *)
theory CI_Palette
  imports Texture_Keying PHRB_Format
begin

text \<open>
  Palette identities of colour-indexed textures (\<open>rdp_hires_ci_palette_policy.hpp\<close>): which
  palette entries a texture uses, and checksums over those entries.

  The palette arrays are read with plain indexing, so those reads are bounds-checked here: a
  checksum is \<open>None\<close> where the code would read outside the array it was given. Texture
  memory is read with wrapped addresses as in \<open>texture_keying.hpp\<close>. A null pointer is the
  empty array. The two usage structures differ in the number of mask bytes (32 and 128) and in
  the names of two fields only, and share one record.
\<close>

section \<open>Hashes\<close>

definition hash_word_step :: "u32 \<Rightarrow> u32 \<Rightarrow> u32" where
  "hash_word_step hash w =
     (let hash = hash + w; hash = hash + push_bit 10 hash in hash XOR drop_bit 6 hash)"

definition legacy_hash_calculate_words :: "u32 \<Rightarrow> bytes \<Rightarrow> u32" where
  "legacy_hash_calculate_words hash data =
     (let hash = foldl hash_word_step hash (words32 data);
          hash = hash + push_bit 3 hash;
          hash = hash XOR drop_bit 11 hash
      in hash + push_bit 15 hash)"

definition crc_bit_step :: "u32 \<Rightarrow> u32" where
  "crc_bit_step crc = drop_bit 1 crc XOR (if crc AND 1 \<noteq> 0 then 0xedb88320 else 0)"

definition crc_byte_step :: "u32 \<Rightarrow> u8 \<Rightarrow> u32" where
  "crc_byte_step crc b = (crc_bit_step ^^ 8) (crc XOR ucast b)"

definition legacy_crc32_reflected :: "u32 \<Rightarrow> bytes \<Rightarrow> u32" where
  "legacy_crc32_reflected crc data = foldl crc_byte_step crc data"

text \<open>\<open>n\<close> bytes behind \<open>p + offset\<close>.\<close>

definition byte_slice :: "bytes \<Rightarrow> nat \<Rightarrow> nat \<Rightarrow> bytes option" where
  "byte_slice data offset n = (if offset + n \<le> length data then Some (take n (drop offset data)) else None)"

definition compute_hires_palette_bank_hash :: "u32 \<Rightarrow> bytes \<Rightarrow> bool \<Rightarrow> u32 option" where
  "compute_hires_palette_bank_hash bank tlut_shadow tlut_shadow_valid =
     (if \<not> tlut_shadow_valid \<or> length tlut_shadow < 512 then Some 0
      else map_option (legacy_hash_calculate_words 0xffffffff)
             (byte_slice tlut_shadow (unat (min bank 15 * 32)) 32))"

definition compute_hires_palette_bank_crc32 :: "u32 \<Rightarrow> bytes \<Rightarrow> bool \<Rightarrow> u32 option" where
  "compute_hires_palette_bank_crc32 bank tlut_shadow tlut_shadow_valid =
     (if \<not> tlut_shadow_valid \<or> length tlut_shadow < 512 then Some 0
      else map_option (legacy_crc32_reflected 0xffffffff)
             (byte_slice tlut_shadow (unat (min bank 15 * 32)) 32))"

section \<open>Which entries a texture uses\<close>

record palette_usage =
  used_mask :: bytes
  used_count :: u32
  min_index :: u32
  max_index :: u32
  usage_valid :: bool

definition empty_usage :: "nat \<Rightarrow> palette_usage" where
  "empty_usage mask_bytes =
     \<lparr>used_mask = replicate mask_bytes 0, used_count = 0, min_index = 0, max_index = 0,
      usage_valid = False\<rparr>"

definition mask_bit :: "bytes \<Rightarrow> u32 \<Rightarrow> bool" where
  "mask_bit msk index \<longleftrightarrow>
     msk ! unat (drop_bit 3 index) AND ucast (push_bit (unat (index AND 7)) (1 :: u32)) \<noteq> 0"

text \<open>The common tail of \<open>mark_index\<close> and \<open>mark_entry\<close>, for an index already masked.\<close>

definition mark_masked :: "palette_usage \<Rightarrow> u32 \<Rightarrow> palette_usage" where
  "mark_masked usage index =
     (let byte_index = unat (drop_bit 3 index);
          b = ucast (push_bit (unat (index AND 7)) (1 :: u32)) :: u8 in
      if used_mask usage ! byte_index AND b = 0 then
        let usage = usage\<lparr>used_mask := (used_mask usage)[byte_index := used_mask usage ! byte_index OR b]\<rparr>;
            usage = (if \<not> usage_valid usage
                     then usage\<lparr>min_index := index, max_index := index, usage_valid := True\<rparr>
                     else usage\<lparr>min_index := min (min_index usage) index,
                                max_index := max (max_index usage) index\<rparr>)
        in usage\<lparr>used_count := used_count usage + 1\<rparr>
      else usage)"

definition mark_index :: "texture_size \<Rightarrow> palette_usage \<Rightarrow> u32 \<Rightarrow> palette_usage" where
  "mark_index siz usage index =
     (case siz of
        Bpp4 \<Rightarrow> mark_masked usage (index AND 0xf)
      | Bpp8 \<Rightarrow> mark_masked usage (index AND 0xff)
      | _ \<Rightarrow> usage)"

definition compute_hires_ci_palette_usage ::
    "texture_size \<Rightarrow> bytes \<Rightarrow> u32 \<Rightarrow> u32 \<Rightarrow> u32 \<Rightarrow> u32 \<Rightarrow> palette_usage" where
  "compute_hires_ci_palette_usage siz cpu_rdram src_base_addr width height row_stride =
     (if cpu_rdram = [] then empty_usage 32
      else case siz of
        Bpp8 \<Rightarrow>
          foldl (mark_index siz) (empty_usage 32)
            (map (\<lambda>a. ucast (wrapped_read_u8 cpu_rdram a))
               (row_addresses cpu_rdram src_base_addr width height row_stride))
      | Bpp4 \<Rightarrow>
          foldl (mark_index siz) (empty_usage 32)
            (concat (map (ci4_indices cpu_rdram)
               (row_addresses cpu_rdram src_base_addr (drop_bit 1 (width + 1)) height row_stride)))
      | _ \<Rightarrow> empty_usage 32)"

definition compute_hires_ci_palette_usage_tmem ::
    "texture_size \<Rightarrow> bytes \<Rightarrow> u32 \<Rightarrow> u32 \<Rightarrow> u32 \<Rightarrow> u32 \<Rightarrow> palette_usage" where
  "compute_hires_ci_palette_usage_tmem siz tmem src_base_addr width height row_stride =
     (if tmem = [] then empty_usage 32
      else case siz of
        Bpp8 \<Rightarrow>
          foldl (mark_index siz) (empty_usage 32)
            (map (\<lambda>a. ucast (wrapped_read_u8 tmem a))
               (row_addresses tmem src_base_addr width height row_stride))
      | Bpp4 \<Rightarrow>
          foldl (mark_index siz) (empty_usage 32)
            (concat (map (ci4_indices tmem)
               (row_addresses tmem src_base_addr (drop_bit 1 (width + 1)) height row_stride)))
      | _ \<Rightarrow> empty_usage 32)"

definition compute_hires_ci_palette_entry_count ::
    "texture_size \<Rightarrow> bytes \<Rightarrow> u32 \<Rightarrow> u32 \<Rightarrow> u32 \<Rightarrow> u32 \<Rightarrow> u32" where
  "compute_hires_ci_palette_entry_count siz cpu_rdram src_base_addr width height row_stride =
     (if cpu_rdram = [] then 0
      else case siz of
        Bpp8 \<Rightarrow> min (compute_ci8_max_index cpu_rdram src_base_addr width height row_stride + 1) 256
      | Bpp4 \<Rightarrow> min (compute_ci4_max_index cpu_rdram src_base_addr width height row_stride + 1) 16
      | _ \<Rightarrow> 0)"

definition compute_hires_ci_palette_entry_count_tmem ::
    "texture_size \<Rightarrow> bytes \<Rightarrow> u32 \<Rightarrow> u32 \<Rightarrow> u32 \<Rightarrow> u32 \<Rightarrow> u32" where
  "compute_hires_ci_palette_entry_count_tmem siz tmem src_base_addr width height row_stride =
     (let usage = compute_hires_ci_palette_usage_tmem siz tmem src_base_addr width height row_stride in
      if \<not> usage_valid usage then 0
      else case siz of
        Bpp8 \<Rightarrow> min (max_index usage + 1) 256
      | Bpp4 \<Rightarrow> min (max_index usage + 1) 16
      | _ \<Rightarrow> 0)"

text \<open>The 16-bit word at a texel address, low byte first, and the group of entries it selects.\<close>

definition ci32_texel_address :: "bytes \<Rightarrow> u32 \<Rightarrow> u32 \<Rightarrow> u32 \<Rightarrow> u32 \<Rightarrow> u32" where
  "ci32_texel_address rdram base row_stride y x =
     (((base + y * row_stride) AND addr_mask rdram) + x * 2) AND addr_mask rdram"

definition ci32_word :: "bytes \<Rightarrow> u32 \<Rightarrow> u16" where
  "ci32_word rdram addr =
     ucast (wrapped_read_u8 rdram (addr + 0)) OR push_bit 8 (ucast (wrapped_read_u8 rdram (addr + 1)))"

definition ci32_base_entry :: "u16 \<Rightarrow> u32" where
  "ci32_base_entry word = (ucast (drop_bit 6 word) AND NOT 3) AND 0x3ff"

definition texel_grid :: "u32 \<Rightarrow> u32 \<Rightarrow> (u32 \<times> u32) list" where
  "texel_grid width height =
     concat (map (\<lambda>y. map (\<lambda>x. (of_nat y, of_nat x)) [0..<unat width]) [0..<unat height])"

definition compute_hires_ci32_tlut_usage ::
    "bytes \<Rightarrow> u32 \<Rightarrow> u32 \<Rightarrow> u32 \<Rightarrow> u32 \<Rightarrow> palette_usage" where
  "compute_hires_ci32_tlut_usage cpu_rdram src_base_addr width height row_stride =
     (if cpu_rdram = [] then empty_usage 128
      else foldl (\<lambda>usage (y, x).
               let base_entry = ci32_base_entry (ci32_word cpu_rdram
                     (ci32_texel_address cpu_rdram src_base_addr row_stride y x))
               in foldl (\<lambda>usage i. mark_masked usage ((base_entry + i) AND 0x3ff)) usage [0, 1, 2, 3])
             (empty_usage 128) (texel_grid width height))"

section \<open>Checksums over palette entries\<close>

text \<open>\<open>std::array<uint8_t, N> packed = {}\<close> after its first bytes have been written in order.\<close>

definition packed_array :: "nat \<Rightarrow> bytes \<Rightarrow> bytes" where
  "packed_array n bs = bs @ replicate (n - length bs) 0"

definition read_pair :: "bytes \<Rightarrow> nat \<Rightarrow> bytes option" where
  "read_pair tlut src =
     (case (rd tlut src, rd tlut (src + 1)) of (Some a, Some b) \<Rightarrow> Some [a, b] | _ \<Rightarrow> None)"

definition clamped_bank :: "u32 \<Rightarrow> nat" where
  "clamped_bank palette = unat (min palette 15)"

text \<open>
  Where entry \<open>index\<close> of a palette lies in a shadow with \<open>stride\<close> bytes per entry; a 4-bit
  texture selects one of 16 banks of 16 entries.
\<close>

definition tlut_source :: "texture_size \<Rightarrow> u32 \<Rightarrow> nat \<Rightarrow> nat \<Rightarrow> nat" where
  "tlut_source siz palette stride index =
     (if siz = Bpp4 then clamped_bank palette * 16 * stride + index * stride else index * stride)"

definition palette_length :: "texture_size \<Rightarrow> nat" where
  "palette_length siz = (case siz of Bpp8 \<Rightarrow> 256 | Bpp4 \<Rightarrow> 16 | _ \<Rightarrow> 0)"

definition used_indices :: "palette_usage \<Rightarrow> nat \<Rightarrow> nat list" where
  "used_indices usage n = filter (\<lambda>i. mask_bit (used_mask usage) (of_nat i)) [0..<n]"

text \<open>Copy the entries at the given positions into the packed array and take its CRC.\<close>

definition crc_of_pairs :: "nat \<Rightarrow> bytes \<Rightarrow> nat list \<Rightarrow> u32 option" where
  "crc_of_pairs capacity tlut srcs =
     (case those (map (read_pair tlut) srcs) of
        None \<Rightarrow> None
      | Some ps \<Rightarrow>
          let n = of_nat (length ps) :: u32 in
          if n = 0 then Some 0
          else Some (rice_crc32_wrapped (packed_array capacity (concat ps)) 0 n 1 2 (n * 2)))"

definition compute_hires_ci32_tlut_group_palette_crc ::
    "bytes \<Rightarrow> bool \<Rightarrow> palette_usage \<Rightarrow> u32 option" where
  "compute_hires_ci32_tlut_group_palette_crc tlut_tmem_shadow tlut_shadow_valid usage =
     (if \<not> usage_valid usage \<or> used_count usage = 0 then Some 0
      else if \<not> tlut_shadow_valid \<or> length tlut_tmem_shadow < 2048 then Some 0
      else crc_of_pairs 2048 tlut_tmem_shadow (map (\<lambda>i. i * 8) (used_indices usage 1024)))"

definition compute_hires_ci_palette_crc_for_used_indices ::
    "texture_size \<Rightarrow> u32 \<Rightarrow> bytes \<Rightarrow> bool \<Rightarrow> palette_usage \<Rightarrow> u32 option" where
  "compute_hires_ci_palette_crc_for_used_indices siz palette tlut_shadow tlut_shadow_valid usage =
     (if \<not> usage_valid usage \<or> used_count usage = 0 then Some 0
      else if \<not> tlut_shadow_valid \<or> length tlut_shadow < 512 then Some 0
      else if siz \<noteq> Bpp8 \<and> siz \<noteq> Bpp4 then Some 0
      else crc_of_pairs 512 tlut_shadow
             (map (tlut_source siz palette 2) (used_indices usage (palette_length siz))))"

definition compute_hires_ci_palette_crc_for_entries_tmem ::
    "texture_size \<Rightarrow> u32 \<Rightarrow> bytes \<Rightarrow> bool \<Rightarrow> u32 \<Rightarrow> u32 option" where
  "compute_hires_ci_palette_crc_for_entries_tmem siz palette tlut_tmem_shadow tlut_shadow_valid entries =
     (if \<not> tlut_shadow_valid \<or> length tlut_tmem_shadow < 2048 then Some 0
      else if siz \<noteq> Bpp8 \<and> siz \<noteq> Bpp4 then Some 0
      else crc_of_pairs 512 tlut_tmem_shadow
             (map (tlut_source siz palette 8) [0..<min (unat entries) (palette_length siz)]))"

definition compute_hires_ci_palette_crc_for_used_indices_tmem ::
    "texture_size \<Rightarrow> u32 \<Rightarrow> bytes \<Rightarrow> bool \<Rightarrow> palette_usage \<Rightarrow> u32 option" where
  "compute_hires_ci_palette_crc_for_used_indices_tmem siz palette tlut_tmem_shadow tlut_shadow_valid usage =
     (if \<not> usage_valid usage \<or> used_count usage = 0 then Some 0
      else if \<not> tlut_shadow_valid \<or> length tlut_tmem_shadow < 2048 then Some 0
      else if siz \<noteq> Bpp8 \<and> siz \<noteq> Bpp4 then Some 0
      else crc_of_pairs 512 tlut_tmem_shadow
             (map (tlut_source siz palette 8) (used_indices usage (palette_length siz))))"

definition compute_hires_ci_palette_crc_for_entries ::
    "texture_size \<Rightarrow> u32 \<Rightarrow> bytes \<Rightarrow> bool \<Rightarrow> u32 \<Rightarrow> u32" where
  "compute_hires_ci_palette_crc_for_entries siz palette tlut_shadow tlut_shadow_valid entries =
     (if \<not> tlut_shadow_valid \<or> length tlut_shadow < 512 then 0
      else case siz of
        Bpp8 \<Rightarrow>
          let entries = min entries 256 in
          if entries = 0 then 0 else rice_crc32_wrapped tlut_shadow 0 entries 1 2 512
      | Bpp4 \<Rightarrow>
          let entries = min entries 16 in
          if entries = 0 then 0
          else rice_crc32_wrapped tlut_shadow (min palette 15 * 32) entries 1 2 32
      | _ \<Rightarrow> 0)"

definition compute_hires_ci_palette_crc ::
    "texture_size \<Rightarrow> u32 \<Rightarrow> bytes \<Rightarrow> u32 \<Rightarrow> u32 \<Rightarrow> u32 \<Rightarrow> u32 \<Rightarrow> bytes \<Rightarrow> bool \<Rightarrow> u32" where
  "compute_hires_ci_palette_crc siz palette cpu_rdram src_base_addr width height row_stride
     tlut_shadow tlut_shadow_valid =
     compute_hires_ci_palette_crc_for_entries siz palette tlut_shadow tlut_shadow_valid
       (compute_hires_ci_palette_entry_count siz cpu_rdram src_base_addr width height row_stride)"

text \<open>A palette word as RGBA8: intensity and alpha, or 5551.\<close>

definition decode_hires_tlut_word_logical_rgba8 :: "u16 \<Rightarrow> bool \<Rightarrow> bytes" where
  "decode_hires_tlut_word_logical_rgba8 word tlut_type =
     (if tlut_type then
        let intensity = ucast (drop_bit 8 word); alpha = ucast (word AND 0xff)
        in [intensity, intensity, intensity, alpha]
      else
        let r5 = ucast (field word 11 31) :: u8; g5 = ucast (field word 6 31) :: u8;
            b5 = ucast (field word 1 31) :: u8
        in [push_bit 3 r5 OR drop_bit 2 r5, push_bit 3 g5 OR drop_bit 2 g5,
            push_bit 3 b5 OR drop_bit 2 b5, if word AND 1 \<noteq> 0 then 0xff else 0x00])"

definition decode_pair :: "bool \<Rightarrow> bytes \<Rightarrow> bytes" where
  "decode_pair tlut_type p =
     decode_hires_tlut_word_logical_rgba8 (ucast (p ! 0) OR push_bit 8 (ucast (p ! 1))) tlut_type"

definition crc_of_logical :: "bool \<Rightarrow> bytes \<Rightarrow> nat list \<Rightarrow> u32 option" where
  "crc_of_logical tlut_type tlut srcs =
     (case those (map (read_pair tlut) srcs) of
        None \<Rightarrow> None
      | Some ps \<Rightarrow>
          let n = of_nat (length ps) :: u32 in
          if n = 0 then Some 0
          else Some (rice_crc32_wrapped (packed_array 1024 (concat (map (decode_pair tlut_type) ps)))
                       0 n 1 3 (n * 4)))"

definition compute_hires_ci_palette_crc_for_entries_logical ::
    "texture_size \<Rightarrow> u32 \<Rightarrow> bytes \<Rightarrow> bool \<Rightarrow> u32 \<Rightarrow> bool \<Rightarrow> u32 option" where
  "compute_hires_ci_palette_crc_for_entries_logical siz palette tlut_shadow tlut_shadow_valid entries tlut_type =
     (if \<not> tlut_shadow_valid \<or> length tlut_shadow < 512 then Some 0
      else if siz \<noteq> Bpp8 \<and> siz \<noteq> Bpp4 then Some 0
      else crc_of_logical tlut_type tlut_shadow
             (map (tlut_source siz palette 2) [0..<min (unat entries) (palette_length siz)]))"

definition compute_hires_ci_palette_crc_for_used_indices_logical ::
    "texture_size \<Rightarrow> u32 \<Rightarrow> bytes \<Rightarrow> bool \<Rightarrow> palette_usage \<Rightarrow> bool \<Rightarrow> u32 option" where
  "compute_hires_ci_palette_crc_for_used_indices_logical siz palette tlut_shadow tlut_shadow_valid usage tlut_type =
     (if \<not> usage_valid usage \<or> used_count usage = 0 then Some 0
      else if \<not> tlut_shadow_valid \<or> length tlut_shadow < 512 then Some 0
      else if siz \<noteq> Bpp8 \<and> siz \<noteq> Bpp4 then Some 0
      else crc_of_logical tlut_type tlut_shadow
             (map (tlut_source siz palette 2) (used_indices usage (palette_length siz))))"

text \<open>
  The checksum of the texture with every texel replaced by its group: the packed image has no
  reason to be a power of two bytes long, and is read with wrapped addresses all the same.
\<close>

definition ci32_group_bytes :: "bytes \<Rightarrow> u32 \<Rightarrow> u32 \<Rightarrow> u32 \<times> u32 \<Rightarrow> bytes" where
  "ci32_group_bytes rdram base row_stride yx =
     (case yx of (y, x) \<Rightarrow>
        let group_word = ucast (ci32_base_entry (ci32_word rdram
              (ci32_texel_address rdram base row_stride y x))) :: u16
        in [ucast (group_word AND 0xff), ucast (drop_bit 8 group_word)])"

definition compute_hires_ci32_tlut_group_texture_crc ::
    "bytes \<Rightarrow> u32 \<Rightarrow> u32 \<Rightarrow> u32 \<Rightarrow> u32 \<Rightarrow> u32" where
  "compute_hires_ci32_tlut_group_texture_crc cpu_rdram src_base_addr width height row_stride =
     (if cpu_rdram = [] \<or> width = 0 \<or> height = 0 then 0
      else rice_crc32_wrapped
             (concat (map (ci32_group_bytes cpu_rdram src_base_addr row_stride) (texel_grid width height)))
             0 width height 2 (width * 2))"

section \<open>Checksums of whole banks\<close>

definition bank_array :: "(u32 \<Rightarrow> u32 option) \<Rightarrow> bytes option" where
  "bank_array f = map_option (\<lambda>ws. concat (map le32_bytes ws)) (those (map (\<lambda>i. f (of_nat i)) [0..<16]))"

definition compute_hires_ci_palette_crc_legacy_bank_hash ::
    "texture_size \<Rightarrow> u32 \<Rightarrow> bytes \<Rightarrow> bool \<Rightarrow> u32 option" where
  "compute_hires_ci_palette_crc_legacy_bank_hash siz palette tlut_shadow tlut_shadow_valid =
     (if \<not> tlut_shadow_valid \<or> length tlut_shadow < 512 then Some 0
      else case siz of
        Bpp4 \<Rightarrow> compute_hires_palette_bank_hash (min palette 15) tlut_shadow tlut_shadow_valid
      | Bpp8 \<Rightarrow>
          map_option (legacy_hash_calculate_words 0xffffffff)
            (bank_array (\<lambda>i. compute_hires_palette_bank_hash i tlut_shadow tlut_shadow_valid))
      | _ \<Rightarrow> Some 0)"

definition compute_hires_ci_palette_crc_legacy_bank_crc32 ::
    "texture_size \<Rightarrow> u32 \<Rightarrow> bytes \<Rightarrow> bool \<Rightarrow> u32 option" where
  "compute_hires_ci_palette_crc_legacy_bank_crc32 siz palette tlut_shadow tlut_shadow_valid =
     (if \<not> tlut_shadow_valid \<or> length tlut_shadow < 512 then Some 0
      else case siz of
        Bpp4 \<Rightarrow> compute_hires_palette_bank_crc32 (min palette 15) tlut_shadow tlut_shadow_valid
      | Bpp8 \<Rightarrow>
          map_option (legacy_crc32_reflected 0xffffffff)
            (bank_array (\<lambda>i. compute_hires_palette_bank_crc32 i tlut_shadow tlut_shadow_valid))
      | _ \<Rightarrow> Some 0)"

definition tmem_bank_hash :: "bytes \<Rightarrow> u32 \<Rightarrow> u32 option" where
  "tmem_bank_hash tlut_tmem_shadow bank =
     map_option (legacy_hash_calculate_words 0xffffffff) (byte_slice tlut_tmem_shadow (unat (bank * 128)) 16)"

definition compute_hires_ci_palette_crc_legacy_tmem_hash ::
    "texture_size \<Rightarrow> u32 \<Rightarrow> bytes \<Rightarrow> bool \<Rightarrow> u32 option" where
  "compute_hires_ci_palette_crc_legacy_tmem_hash siz palette tlut_tmem_shadow tlut_shadow_valid =
     (if \<not> tlut_shadow_valid \<or> length tlut_tmem_shadow < 2048 then Some 0
      else case siz of
        Bpp4 \<Rightarrow> tmem_bank_hash tlut_tmem_shadow (min palette 15)
      | Bpp8 \<Rightarrow>
          map_option (legacy_hash_calculate_words 0xffffffff) (bank_array (tmem_bank_hash tlut_tmem_shadow))
      | _ \<Rightarrow> Some 0)"

end
