(* ===== verification/CI_Palette_Properties.thy ===== *)
theory CI_Palette_Properties
  imports CI_Palette
begin

text \<open>
  What the palette identities promise: the usage is the exact set of colour indices of the
  texture; the two ways to count palette entries agree; checksums read only inside the palette
  arrays and depend only on the entries in use, with one exception that reads beyond its array.
\<close>

section \<open>The usage mask\<close>

lemma ucast_push_bit_1: "k < 8 \<Longrightarrow> (ucast (push_bit k (1 :: u32)) :: u8) = push_bit k 1"
  by (rule bit_word_eqI) (auto simp: bit_ucast_iff bit_exp_iff)

lemma u7_mask: "(7 :: u32) = mask 3" by (simp add: mask_eq_exp_minus_1)

lemma index_split: "unat (drop_bit 3 (i :: u32)) = unat i div 8" "unat (i AND 7) = unat i mod 8"
proof -
  show "unat (drop_bit 3 i) = unat i div 8" by (simp only: unat_shr) simp
  show "unat (i AND 7) = unat i mod 8" unfolding u7_mask and_mask_mod by simp
qed

lemma mask_bit_iff: "mask_bit m i \<longleftrightarrow> bit (m ! (unat i div 8)) (unat i mod 8)"
proof -
  have "mask_bit m i \<longleftrightarrow> flag_set (m ! (unat i div 8)) (push_bit (unat i mod 8) 1)"
    by (simp only: mask_bit_def index_split ucast_push_bit_1 mod_less_divisor flag_set_def zero_less_numeral)
  also have "\<dots> \<longleftrightarrow> bit (m ! (unat i div 8)) (unat i mod 8)"
    by (rule flag_set_single) simp
  finally show ?thesis .
qed

definition usage_inv :: "nat \<Rightarrow> palette_usage \<Rightarrow> u32 set \<Rightarrow> bool" where
  "usage_inv n u S \<longleftrightarrow>
     length (used_mask u) = n \<and> finite S \<and> (\<forall>i \<in> S. unat i < 8 * n) \<and>
     (\<forall>i. unat i < 8 * n \<longrightarrow> (mask_bit (used_mask u) i \<longleftrightarrow> i \<in> S)) \<and>
     used_count u = of_nat (card S) \<and> (usage_valid u \<longleftrightarrow> S \<noteq> {}) \<and>
     (S \<noteq> {} \<longrightarrow> min_index u = Min S \<and> max_index u = Max S)"

lemma usage_inv_empty: "usage_inv n (empty_usage n) {}"
  by (auto simp: usage_inv_def empty_usage_def mask_bit_iff)

lemma mask_bit_update:
  assumes "unat i < 8 * length m" "unat j < 8 * length m"
  shows "mask_bit (m[unat i div 8 := m ! (unat i div 8) OR push_bit (unat i mod 8) 1]) j \<longleftrightarrow>
    mask_bit m j \<or> j = i"
proof -
  have eq: "j = i \<longleftrightarrow> unat j div 8 = unat i div 8 \<and> unat j mod 8 = unat i mod 8"
    by (metis div_mod_decomp word_unat_eq_iff)
  have "unat i div 8 < length m" using assms(1) by (simp add: div_less_iff_less_mult mult.commute)
  then show ?thesis
    unfolding eq mask_bit_iff
    by (cases "unat j div 8 = unat i div 8") (auto simp: bit_or_iff bit_exp_iff)
qed

lemma mark_masked_inv:
  assumes inv: "usage_inv n u S" and r: "unat i < 8 * n"
  shows "usage_inv n (mark_masked u i) (insert i S)"
proof -
  let ?b = "unat i div 8" and ?k = "push_bit (unat i mod 8) 1 :: u8"
  have test: "used_mask u ! ?b AND ?k = 0 \<longleftrightarrow> i \<notin> S"
  proof -
    have "mask_bit (used_mask u) i \<longleftrightarrow> i \<in> S" using inv r by (simp add: usage_inv_def)
    then show ?thesis
      by (simp only: mask_bit_def index_split ucast_push_bit_1 mod_less_divisor) auto
  qed
  show ?thesis
  proof (cases "i \<in> S")
    case True
    with test have "mark_masked u i = u"
      by (simp only: mark_masked_def Let_def index_split ucast_push_bit_1 mod_less_divisor) simp
    with True inv show ?thesis by (simp add: insert_absorb)
  next
    case False
    let ?m = "(used_mask u)[?b := used_mask u ! ?b OR ?k]"
    have m: "mark_masked u i =
        (if usage_valid u
         then u\<lparr>used_mask := ?m, min_index := min (min_index u) i, max_index := max (max_index u) i,
                used_count := used_count u + 1\<rparr>
         else u\<lparr>used_mask := ?m, min_index := i, max_index := i, usage_valid := True,
                used_count := used_count u + 1\<rparr>)"
      using False test
      by (simp only: mark_masked_def Let_def index_split ucast_push_bit_1 mod_less_divisor) simp
    have bits: "\<forall>j. unat j < 8 * n \<longrightarrow> (mask_bit ?m j \<longleftrightarrow> j \<in> insert i S)"
      using inv r mask_bit_update [of i "used_mask u"] by (auto simp: usage_inv_def)
    show ?thesis
    proof (cases "S = {}")
      case True
      with inv m bits r show ?thesis by (simp add: usage_inv_def)
    next
      case ne: False
      with inv have "Min (insert i S) = min (Min S) i" "Max (insert i S) = max (Max S) i"
        by (auto simp: usage_inv_def Min_insert2 min.commute max.commute)
      with ne False inv m bits r show ?thesis by (simp add: usage_inv_def)
    qed
  qed
qed

lemma foldl_mark_inv:
  assumes "usage_inv n u S" "\<And>i. unat (f i) < 8 * n" "\<And>u i. g u i = mark_masked u (f i)"
  shows "usage_inv n (foldl g u is) (S \<union> f ` set is)"
  using assms
proof (induction "is" arbitrary: u S)
  case (Cons i "is")
  have "usage_inv n (g u i) (insert (f i) S)" using Cons.prems mark_masked_inv by simp
  from Cons.IH [OF this Cons.prems(2,3)] show ?case by simp
qed simp

section \<open>The set of indices of a texture\<close>

definition index_groups :: "texture_size \<Rightarrow> bytes \<Rightarrow> u32 \<Rightarrow> u32 \<Rightarrow> u32 \<Rightarrow> u32 \<Rightarrow> u32 list list" where
  "index_groups siz mem base width height row_stride =
     (case siz of
        Bpp8 \<Rightarrow> map (ci8_indices mem) (row_addresses mem base width height row_stride)
      | Bpp4 \<Rightarrow> map (ci4_indices mem) (row_addresses mem base (drop_bit 1 (width + 1)) height row_stride)
      | _ \<Rightarrow> [])"

definition texture_indices :: "texture_size \<Rightarrow> bytes \<Rightarrow> u32 \<Rightarrow> u32 \<Rightarrow> u32 \<Rightarrow> u32 \<Rightarrow> u32 set" where
  "texture_indices siz mem base width height row_stride =
     set (concat (index_groups siz mem base width height row_stride))"

definition index_limit :: "texture_size \<Rightarrow> u32" where
  "index_limit siz = (if siz = Bpp4 then 0xf else 0xff)"

lemma index_limit_mask: "index_limit siz = mask (if siz = Bpp4 then 4 else 8)"
  by (simp add: index_limit_def mask_eq_exp_minus_1)

lemma unat_ucast_u8_u32: "unat (ucast (b :: u8) :: u32) = unat b"
  using unsigned_less [of b, where 'a = nat] by (simp add: unsigned_ucast_eq take_bit_nat_eq_self)

lemma texture_indices_limit:
  assumes "i \<in> texture_indices siz mem base w h stride"
  shows "i \<le> index_limit siz"
proof -
  have b: "ucast (b :: u8) \<le> (0xff :: u32)" for b
    using unsigned_less [of b, where 'a = nat] by (simp add: word_le_nat_alt unat_ucast_u8_u32)
  have n: "ucast (b AND 0xf :: u8) \<le> (0xf :: u32)" for b
    using unat_and_le [of b "0xf"] by (simp add: word_le_nat_alt unat_ucast_u8_u32)
  show ?thesis
    using assms b n
    by (cases siz) (auto simp: texture_indices_def index_groups_def index_limit_def ci8_indices_def
        ci4_indices_def Let_def)
qed

lemma mark_index_limit:
  "siz = Bpp4 \<or> siz = Bpp8 \<Longrightarrow> mark_index siz u i = mark_masked u (i AND index_limit siz)"
  by (auto simp: mark_index_def index_limit_def)

lemma index_limit_range: "unat (i AND index_limit siz) < 8 * 32"
  using unat_and_le [of i "index_limit siz"] by (simp add: index_limit_def split: if_splits)

lemma usage_foldl:
  assumes "mem \<noteq> []" "siz = Bpp4 \<or> siz = Bpp8"
  shows "compute_hires_ci_palette_usage siz mem base w h stride =
    foldl (mark_index siz) (empty_usage 32) (concat (index_groups siz mem base w h stride))"
proof -
  have "concat (map (ci8_indices mem) as) = map (\<lambda>a. ucast (wrapped_read_u8 mem a)) as" for as
    by (induction as) (simp_all add: ci8_indices_def)
  with assms show ?thesis
    by (auto simp: compute_hires_ci_palette_usage_def index_groups_def)
qed

lemma usage_tmem_eq: "compute_hires_ci_palette_usage_tmem = compute_hires_ci_palette_usage"
  by (intro ext) (simp add: compute_hires_ci_palette_usage_tmem_def compute_hires_ci_palette_usage_def)

lemma usage_exact:
  assumes "mem \<noteq> []" "siz = Bpp4 \<or> siz = Bpp8"
  shows "usage_inv 32 (compute_hires_ci_palette_usage siz mem base w h stride)
    (texture_indices siz mem base w h stride)"
proof -
  let ?is = "concat (index_groups siz mem base w h stride)"
  have "usage_inv 32 (foldl (mark_index siz) (empty_usage 32) ?is) ({} \<union> (\<lambda>i. i AND index_limit siz) ` set ?is)"
    by (rule foldl_mark_inv [OF usage_inv_empty index_limit_range]) (rule mark_index_limit [OF assms(2)])
  moreover have "(\<lambda>i. i AND index_limit siz) ` set ?is = set ?is"
  proof -
    have "i AND index_limit siz = i" if "i \<in> set ?is" for i
    proof -
      have "i \<le> index_limit siz" using texture_indices_limit that by (simp add: texture_indices_def)
      then have "unat i < 2 ^ (if siz = Bpp4 then 4 else 8)"
        by (auto simp: index_limit_def word_le_nat_alt split: if_splits)
      then show ?thesis unfolding index_limit_mask by (rule and_mask_fixed)
    qed
    then show ?thesis by force
  qed
  ultimately show ?thesis using usage_foldl [OF assms] by (simp add: texture_indices_def)
qed

section \<open>Properties\<close>




lemma max_index_Max:
  assumes "siz = Bpp4 \<or> siz = Bpp8"
  shows "max_index_loop (index_limit siz) 0 (index_groups siz mem base w h stride) =
    Max (insert 0 (texture_indices siz mem base w h stride))"
proof -
  have "\<forall>i \<in> set (concat (index_groups siz mem base w h stride)). i \<le> index_limit siz"
    using texture_indices_limit [of _ siz mem base w h stride] unfolding texture_indices_def by blast
  then show ?thesis unfolding texture_indices_def by (rule max_index_loop_Max) simp
qed

text \<open>
  The number of palette entries computed with an early-exit maximum and the one computed
  from the usage mask are the same for every texture that has a texel; for a texture without
  texels the first is 1 and the second 0.
\<close>

theorem ci_entry_counts_agree:
  assumes "mem \<noteq> []" "siz = Bpp4 \<or> siz = Bpp8"
  shows "compute_hires_ci_palette_entry_count siz mem base w h stride =
    (if texture_indices siz mem base w h stride = {} then 1
     else compute_hires_ci_palette_entry_count_tmem siz mem base w h stride) \<and>
   (texture_indices siz mem base w h stride = {} \<longrightarrow>
     compute_hires_ci_palette_entry_count_tmem siz mem base w h stride = 0)"
proof -
  let ?S = "texture_indices siz mem base w h stride"
  have inv: "usage_inv 32 (compute_hires_ci_palette_usage siz mem base w h stride) ?S"
    by (rule usage_exact [OF assms])
  have fin: "finite ?S" by (simp add: texture_indices_def)
  have m: "compute_hires_ci_palette_entry_count siz mem base w h stride =
      min (Max (insert 0 ?S) + 1) (index_limit siz + 1)"
    using assms max_index_Max [OF assms(2), of mem base w h stride]
    by (auto simp: compute_hires_ci_palette_entry_count_def compute_ci8_max_index_def
        compute_ci4_max_index_def index_groups_def index_limit_def Let_def)
  show ?thesis
  proof (cases "?S = {}")
    case True
    with inv assms m show ?thesis
      by (auto simp: compute_hires_ci_palette_entry_count_tmem_def usage_tmem_eq usage_inv_def
          Let_def index_limit_def min_def)
  next
    case False
    then have "Max (insert 0 ?S) = Max ?S" using fin by simp
    with False inv assms m show ?thesis
      by (auto simp: compute_hires_ci_palette_entry_count_tmem_def usage_tmem_eq usage_inv_def
          Let_def index_limit_def)
  qed
qed

theorem ci_entry_counts_agree_witness:
  "compute_hires_ci_palette_entry_count Bpp4 [0x70, 0x12] 0 3 1 0 =
   compute_hires_ci_palette_entry_count_tmem Bpp4 [0x70, 0x12] 0 3 1 0"
proof -
  have S: "texture_indices Bpp4 [0x70, 0x12] 0 3 1 0 \<noteq> {}" by code_simp
  have "[0x70, 0x12 :: u8] \<noteq> []" "Bpp4 = Bpp4 \<or> Bpp4 = Bpp8" by simp_all
  from ci_entry_counts_agree [OF this, of 0 3 1 0] S show ?thesis by simp
qed

section \<open>Checksums stay inside their arrays\<close>

lemma those_map_Some_iff: "those (map f xs) \<noteq> None \<longleftrightarrow> (\<forall>x \<in> set xs. f x \<noteq> None)"
  by (induction xs) (auto split: option.splits)

lemma read_pair_Some: "read_pair tlut src \<noteq> None \<longleftrightarrow> src + 1 < length tlut"
  by (auto simp: read_pair_def rd_def split: option.splits if_splits)

lemma crc_of_pairs_in_bounds:
  "crc_of_pairs cap tlut srcs \<noteq> None \<longleftrightarrow> (\<forall>s \<in> set srcs. s + 1 < length tlut)"
proof -
  have "crc_of_pairs cap tlut srcs \<noteq> None \<longleftrightarrow> those (map (read_pair tlut) srcs) \<noteq> None"
    by (auto simp: crc_of_pairs_def Let_def split: option.splits)
  then show ?thesis unfolding those_map_Some_iff read_pair_Some .
qed

lemma crc_of_logical_in_bounds:
  "crc_of_logical t tlut srcs \<noteq> None \<longleftrightarrow> (\<forall>s \<in> set srcs. s + 1 < length tlut)"
proof -
  have "crc_of_logical t tlut srcs \<noteq> None \<longleftrightarrow> those (map (read_pair tlut) srcs) \<noteq> None"
    by (auto simp: crc_of_logical_def Let_def split: option.splits)
  then show ?thesis unfolding those_map_Some_iff read_pair_Some .
qed

lemma clamped_bank_le: "clamped_bank palette \<le> 15"
proof -
  have "min palette 15 \<le> 15" by simp
  then show ?thesis unfolding clamped_bank_def word_le_nat_alt by simp
qed

lemma tlut_source_range:
  assumes "i < palette_length siz"
  shows "tlut_source siz palette 2 i + 1 < 512" "tlut_source siz palette 8 i + 1 < 2048"
  using assms clamped_bank_le [of palette]
  by (cases siz; simp add: tlut_source_def palette_length_def)+

lemma bank_offset: "unat (min bank 15 * 32 :: u32) + 32 \<le> 512" "unat (min bank 15 * 128 :: u32) + 16 \<le> 2048"
proof -
  have "min bank 15 \<le> (15 :: u32)" by simp
  then have "unat (min bank 15) \<le> 15" unfolding word_le_nat_alt by simp
  then show "unat (min bank 15 * 32 :: u32) + 32 \<le> 512" "unat (min bank 15 * 128 :: u32) + 16 \<le> 2048"
    by (simp_all add: unat_word_ariths)
qed

lemma bank_array_Some: "(\<forall>i < 16. f (of_nat i) \<noteq> None) \<Longrightarrow> bank_array f \<noteq> None"
  unfolding bank_array_def map_option_is_None [symmetric] using those_map_Some_iff [of "\<lambda>i. f (of_nat i)" "[0..<16]"]
  by (auto simp del: upt_rec_numeral upt_Suc)

lemma bank_hashes_Some:
  "compute_hires_palette_bank_hash bank tlut valid \<noteq> None"
  "compute_hires_palette_bank_crc32 bank tlut valid \<noteq> None"
  using bank_offset(1) [of bank]
  by (auto simp: compute_hires_palette_bank_hash_def compute_hires_palette_bank_crc32_def byte_slice_def)

text \<open>
  The palette checksums never read outside the palette arrays they are given, for every
  texture size, palette number, entry count, usage and array length.
\<close>

theorem palette_checksums_in_bounds:
  "compute_hires_ci_palette_crc_for_used_indices siz palette tlut valid usage \<noteq> None \<and>
   compute_hires_ci_palette_crc_for_entries_tmem siz palette tlut valid entries \<noteq> None \<and>
   compute_hires_ci_palette_crc_for_used_indices_tmem siz palette tlut valid usage \<noteq> None \<and>
   compute_hires_ci_palette_crc_for_entries_logical siz palette tlut valid entries ty \<noteq> None \<and>
   compute_hires_ci_palette_crc_for_used_indices_logical siz palette tlut valid usage ty \<noteq> None \<and>
   compute_hires_ci_palette_crc_legacy_bank_hash siz palette tlut valid \<noteq> None \<and>
   compute_hires_ci_palette_crc_legacy_bank_crc32 siz palette tlut valid \<noteq> None \<and>
   compute_hires_ci_palette_crc_legacy_tmem_hash siz palette tlut valid \<noteq> None"
proof (intro conjI)
  let ?u = "used_indices usage (palette_length siz)" and ?e = "[0..<min (unat entries) (palette_length siz)]"
  have u2: "512 \<le> length tlut \<Longrightarrow> \<forall>s \<in> set (map (tlut_source siz palette 2) ?u). s + 1 < length tlut"
    and e2: "512 \<le> length tlut \<Longrightarrow> \<forall>s \<in> set (map (tlut_source siz palette 2) ?e). s + 1 < length tlut"
    using tlut_source_range(1) [of _ siz palette] by (force simp: used_indices_def)+
  have u8: "2048 \<le> length tlut \<Longrightarrow> \<forall>s \<in> set (map (tlut_source siz palette 8) ?u). s + 1 < length tlut"
    and e8: "2048 \<le> length tlut \<Longrightarrow> \<forall>s \<in> set (map (tlut_source siz palette 8) ?e). s + 1 < length tlut"
    using tlut_source_range(2) [of _ siz palette] by (force simp: used_indices_def)+
  have guard: "(if P then Some 0 else if Q \<or> length tlut < n then Some 0 else if R then Some 0 else x) \<noteq> None"
    "(if Q \<or> length tlut < n then Some 0 else if R then Some 0 else x) \<noteq> None"
    if "n \<le> length tlut \<Longrightarrow> x \<noteq> None" for P Q R n and x :: "u32 option"
    using that by auto
  show "compute_hires_ci_palette_crc_for_used_indices siz palette tlut valid usage \<noteq> None"
    unfolding compute_hires_ci_palette_crc_for_used_indices_def
    by (rule guard(1), unfold crc_of_pairs_in_bounds, erule u2)
  show "compute_hires_ci_palette_crc_for_entries_tmem siz palette tlut valid entries \<noteq> None"
    unfolding compute_hires_ci_palette_crc_for_entries_tmem_def
    by (rule guard(2), unfold crc_of_pairs_in_bounds, erule e8)
  show "compute_hires_ci_palette_crc_for_used_indices_tmem siz palette tlut valid usage \<noteq> None"
    unfolding compute_hires_ci_palette_crc_for_used_indices_tmem_def
    by (rule guard(1), unfold crc_of_pairs_in_bounds, erule u8)
  show "compute_hires_ci_palette_crc_for_entries_logical siz palette tlut valid entries ty \<noteq> None"
    unfolding compute_hires_ci_palette_crc_for_entries_logical_def
    by (rule guard(2), unfold crc_of_logical_in_bounds, erule e2)
  show "compute_hires_ci_palette_crc_for_used_indices_logical siz palette tlut valid usage ty \<noteq> None"
    unfolding compute_hires_ci_palette_crc_for_used_indices_logical_def
    by (rule guard(1), unfold crc_of_logical_in_bounds, erule u2)
  show "compute_hires_ci_palette_crc_legacy_bank_hash siz palette tlut valid \<noteq> None"
    using bank_hashes_Some(1) bank_array_Some [of "\<lambda>i. compute_hires_palette_bank_hash i tlut valid"]
    by (auto simp: compute_hires_ci_palette_crc_legacy_bank_hash_def split: texture_size.splits)
  show "compute_hires_ci_palette_crc_legacy_bank_crc32 siz palette tlut valid \<noteq> None"
    using bank_hashes_Some(2) bank_array_Some [of "\<lambda>i. compute_hires_palette_bank_crc32 i tlut valid"]
    by (auto simp: compute_hires_ci_palette_crc_legacy_bank_crc32_def split: texture_size.splits)
  have bank: "tmem_bank_hash tlut (min b 15) \<noteq> None" if "2048 \<le> length tlut" for b
    using that bank_offset(2) [of b] by (simp add: tmem_bank_hash_def byte_slice_def)
  moreover have "bank_array (tmem_bank_hash tlut) \<noteq> None" if "2048 \<le> length tlut"
  proof (rule bank_array_Some, intro allI impI)
    fix i :: nat assume "i < 16"
    then have "min (of_nat i) 15 = (of_nat i :: u32)"
      by (simp add: min_def word_le_nat_alt unat_of_nat_u32)
    with bank [OF that, of "of_nat i"] show "tmem_bank_hash tlut (of_nat i) \<noteq> None" by simp
  qed
  ultimately show "compute_hires_ci_palette_crc_legacy_tmem_hash siz palette tlut valid \<noteq> None"
    by (auto simp: compute_hires_ci_palette_crc_legacy_tmem_hash_def not_less split: texture_size.splits)
qed

text \<open>
  The checksum over the entry groups of a 32-bit CI texture reads outside the 2048-byte
  palette shadow as soon as the texture uses an entry beyond 255: the guard asks for 2048 bytes,
  but 1024 entries at a stride of eight bytes need 8186.
\<close>

theorem ci32_group_palette_crc_out_of_bounds:
  assumes "length shadow = 2048" "usage_valid usage" "used_count usage \<noteq> 0"
    and "256 \<le> i" "i < 1024" "mask_bit (used_mask usage) (of_nat i)"
  shows "compute_hires_ci32_tlut_group_palette_crc shadow True usage = None"
proof -
  have "i * 8 \<in> set (map (\<lambda>i. i * 8) (used_indices usage 1024))"
    using assms by (simp add: used_indices_def)
  then have "\<not> (\<forall>s \<in> set (map (\<lambda>i. i * 8) (used_indices usage 1024)). s + 1 < length shadow)"
    using assms(1,4) by fastforce
  then have "crc_of_pairs 2048 shadow (map (\<lambda>i. i * 8) (used_indices usage 1024)) = None"
    using crc_of_pairs_in_bounds by blast
  with assms show ?thesis by (simp add: compute_hires_ci32_tlut_group_palette_crc_def)
qed

text \<open>
  A texel whose word is 0x4000 uses the entries 256 to 259.
\<close>

theorem ci32_group_palette_crc_out_of_bounds_witness:
  "compute_hires_ci32_tlut_group_palette_crc (replicate 2048 0) True
     (compute_hires_ci32_tlut_usage [0x00, 0x40] 0 1 1 0) = None"
proof -
  let ?u = "compute_hires_ci32_tlut_usage [0x00, 0x40] 0 1 1 0"
  have "usage_valid ?u" "used_count ?u \<noteq> 0" "mask_bit (used_mask ?u) (of_nat 256)" by code_simp+
  then show ?thesis by (intro ci32_group_palette_crc_out_of_bounds [of _ _ 256]) simp_all
qed

section \<open>Checksums depend on the used entries only\<close>

lemma those_cong: "(\<forall>x \<in> set xs. f x = g x) \<Longrightarrow> those (map f xs) = those (map g xs)"
  by (metis (no_types, lifting) map_cong)

lemma crc_of_pairs_cong:
  assumes "\<forall>s \<in> set srcs. rd a s = rd b s \<and> rd a (s + 1) = rd b (s + 1)"
  shows "crc_of_pairs cap a srcs = crc_of_pairs cap b srcs"
proof -
  have "those (map (read_pair a) srcs) = those (map (read_pair b) srcs)"
    using assms by (intro those_cong) (simp add: read_pair_def)
  then show ?thesis by (simp add: crc_of_pairs_def)
qed

text \<open>
  The checksum of the used palette entries of a texture is determined by those entries:
  two palettes of the same size that agree on every colour the texture uses have the same
  checksum, whatever their other colours are.
\<close>

theorem sparse_crc_depends_on_used:
  assumes "mem \<noteq> []" "siz = Bpp8" "length a = length b"
    and "\<forall>i \<in> texture_indices siz mem base w h stride.
      a ! (2 * unat i) = b ! (2 * unat i) \<and> a ! (2 * unat i + 1) = b ! (2 * unat i + 1)"
  shows "compute_hires_ci_palette_crc_for_used_indices siz palette a valid
      (compute_hires_ci_palette_usage siz mem base w h stride) =
    compute_hires_ci_palette_crc_for_used_indices siz palette b valid
      (compute_hires_ci_palette_usage siz mem base w h stride)"
proof -
  let ?u = "compute_hires_ci_palette_usage siz mem base w h stride"
  let ?S = "texture_indices siz mem base w h stride"
  have inv: "usage_inv 32 ?u ?S" using usage_exact assms(1,2) by blast
  have "rd a s = rd b s \<and> rd a (s + 1) = rd b (s + 1)"
    if "s \<in> set (map (tlut_source siz palette 2) (used_indices ?u (palette_length siz)))" for s
  proof -
    from that obtain i where i: "s = i * 2" "i < 256" "mask_bit (used_mask ?u) (of_nat i)"
      using assms(2) by (auto simp: tlut_source_def used_indices_def palette_length_def)
    then have "of_nat i \<in> ?S" using inv by (simp add: usage_inv_def unat_of_nat_u32)
    then have "a ! (2 * i) = b ! (2 * i) \<and> a ! (2 * i + 1) = b ! (2 * i + 1)"
      using assms(4) i(2) unat_of_nat_u32 [of i] by force
    with i assms(3) show ?thesis by (simp add: rd_def mult.commute)
  qed
  then have "crc_of_pairs 512 a (map (tlut_source siz palette 2) (used_indices ?u (palette_length siz))) =
      crc_of_pairs 512 b (map (tlut_source siz palette 2) (used_indices ?u (palette_length siz)))"
    by (intro crc_of_pairs_cong) blast
  then show ?thesis
    using assms(2,3) by (simp add: compute_hires_ci_palette_crc_for_used_indices_def)
qed

theorem sparse_crc_depends_on_used_witness:
  "compute_hires_ci_palette_crc_for_used_indices Bpp8 0 (replicate 512 0) True
      (compute_hires_ci_palette_usage Bpp8 [7, 9, 7, 3] 0 3 1 0) =
   compute_hires_ci_palette_crc_for_used_indices Bpp8 0 ((replicate 512 0)[0 := 5]) True
      (compute_hires_ci_palette_usage Bpp8 [7, 9, 7, 3] 0 3 1 0)"
proof -
  have S: "texture_indices Bpp8 [7, 9, 7, 3] 0 3 1 0 = {7, 9}" by code_simp
  show ?thesis by (rule sparse_crc_depends_on_used) (simp_all add: S)
qed

section \<open>Wrapped reads of a packed image\<close>

text \<open>
  The group checksum of a 32-bit CI texture reads its packed image with masked addresses
  although the image need not be a power of two bytes long: for a texture of three texels, the
  bytes of the middle one are never read, and textures that differ only there get the same
  checksum.
\<close>

theorem ci32_group_texture_crc_skips_texel:
  "rice_crc32_wrapped [a, b, c, d, e, f] 0 3 1 2 6 = rice_crc32_wrapped [a, b, c', d', e, f] 0 3 1 2 6 \<and>
   compute_hires_ci32_tlut_group_texture_crc [0x00, 0x01, 0x00, 0x02, 0x00, 0x03, 0, 0] 0 3 1 0 =
   compute_hires_ci32_tlut_group_texture_crc [0x00, 0x01, 0x00, 0x40, 0x00, 0x03, 0, 0] 0 3 1 0"
proof -
  have "rice_crc32_wrapped [a, b, c, d, e, f] 0 3 1 2 6 = rice_crc32_wrapped [a, b, c', d', e, f] 0 3 1 2 6"
    for a b c d e f c' d'
    by (simp add: rice_crc32_wrapped_def rice_row_def rice_columns_def rice_column_def
        wrapped_read_u32_def wrapped_read_u8_def addr_mask_def Let_def)
  moreover have "compute_hires_ci32_tlut_group_texture_crc [0x00, 0x01, 0x00, 0x02, 0x00, 0x03, 0, 0] 0 3 1 0 =
      compute_hires_ci32_tlut_group_texture_crc [0x00, 0x01, 0x00, 0x40, 0x00, 0x03, 0, 0] 0 3 1 0"
    by code_simp
  ultimately show ?thesis by blast
qed

end
