(* ===== verification/Render_Queue.thy ===== *)
theory Render_Queue
  imports Step_Machine Bit_Ranges Coherency_Pages Command_Processor
begin

text \<open>
  The submission logic of \<open>rdp_renderer.cpp\<close>: \<open>flush_queues\<close>, \<open>maintain_queues\<close>,
  \<open>submit_to_queue\<close> and their callers. The renderer writes the data of a render pass into
  one of \<open>NumSyncStates\<close> sets of buffers and records commands that read them; a set may be
  written again only when the GPU is done with it. The functions return the events that matter
  for this, in order; what depends on the outside (the clock, the work of other threads, the
  contents of a pass) is an argument.
\<close>

section \<open>State\<close>

datatype queue_event =
    Wait_Fence nat
  | Upload nat
  | Render_Pass nat
  | Render_Pass_Upscaled nat
  | Submit nat
  | Submit_Empty nat
  | Submit_External
  | Enqueue_Fence_Wait nat
  | Enqueue_Coherency nat

text \<open>Fences are numbered by the submissions that signal them.\<close>

record queue_state =
  host_coherent :: bool
  buffer_instance :: nat
  internal_sync :: "nat option list"
  sync_indices_needs_flush :: u32
  base_primitive_index :: u32
  pending_render_passes :: u32
  pending_render_passes_upscaled :: u32
  pending_primitives :: u32
  pending_primitives_upscaled :: u32
  stream_cmd :: bool
  submissions :: nat

definition MaxPrimitives :: u32 where "MaxPrimitives = 256"
definition MaxPendingRenderPassesBeforeFlush :: u32 where "MaxPendingRenderPassesBeforeFlush = 8"
definition MinimumPrimitivesForIdleFlush :: u32 where "MinimumPrimitivesForIdleFlush = 32"
definition MinimumRenderPassesForIdleFlush :: u32 where "MinimumRenderPassesForIdleFlush = 2"

definition initial_queue :: "bool \<Rightarrow> queue_state" where
  "initial_queue coherent =
     \<lparr>host_coherent = coherent, buffer_instance = 0, internal_sync = replicate NumSyncStates None,
      sync_indices_needs_flush = 0, base_primitive_index = 0, pending_render_passes = 0,
      pending_render_passes_upscaled = 0, pending_primitives = 0, pending_primitives_upscaled = 0,
      stream_cmd = False, submissions = 0\<rparr>"

section \<open>Submitting\<close>

text \<open>
  \<open>submit_to_queue\<close>; \<open>copies\<close> says whether the coherency operation got any copies. The
  fences of all instances whose bit is set become the one of this submission.
\<close>

definition set_fences :: "nat list \<Rightarrow> nat \<Rightarrow> nat option list \<Rightarrow> nat option list" where
  "set_fences bits fence sync = foldl (\<lambda>sync b. sync[b := Some fence]) sync bits"

definition submit_to_queue :: "bool \<Rightarrow> queue_state \<Rightarrow> queue_state \<times> queue_event list" where
  "submit_to_queue copies q =
     (let pending_host_visible_render_passes = pending_render_passes q \<noteq> 0;
          q = q\<lparr>pending_render_passes := 0, pending_render_passes_upscaled := 0,
                pending_primitives := 0, pending_primitives_upscaled := 0\<rparr>;
          fence = submissions q
      in if \<not> stream_cmd q then
           (if pending_host_visible_render_passes
            then (q\<lparr>submissions := fence + 1\<rparr>, [Submit_Empty fence, Enqueue_Fence_Wait fence])
            else (q, []))
         else
           (q\<lparr>submissions := fence + 1,
              internal_sync := set_fences (for_each_bit (sync_indices_needs_flush q)) fence (internal_sync q),
              sync_indices_needs_flush := 0, stream_cmd := False\<rparr>,
            Submit fence #
            (if pending_host_visible_render_passes
             then Enqueue_Fence_Wait fence #
                  (if \<not> host_coherent q \<and> copies then [Enqueue_Coherency fence] else [])
             else [])))"

text \<open>
  \<open>maintain_queues\<close>: the number of submissions still active and the time since the last one
  are read from outside.
\<close>

record queue_env =
  env_active :: u32
  env_elapsed_ns :: int
  env_copies :: bool

definition maintain_queues :: "queue_env \<Rightarrow> queue_state \<Rightarrow> queue_state \<times> queue_event list" where
  "maintain_queues env q =
     (if pending_render_passes q \<ge> MaxPendingRenderPassesBeforeFlush \<or>
         pending_primitives q \<ge> MaxPrimitives \<or>
         pending_primitives_upscaled q \<ge> MaxPrimitives \<or>
         env_active env = 0 \<or> env_elapsed_ns env > 1000000
      then submit_to_queue (env_copies env) q else (q, []))"

definition begin_new_context :: "queue_state \<Rightarrow> queue_state" where
  "begin_new_context q = q\<lparr>buffer_instance := (buffer_instance q + 1) mod NumSyncStates\<rparr>"

section \<open>Flushing\<close>

text \<open>The render pass being flushed, and the environments of the submissions it may cause.\<close>

record flush_env =
  fl_empty :: bool
  fl_triangles :: u32
  fl_upscaled :: bool
  fl_early_copies :: bool
  fl_between :: queue_env
  fl_after :: queue_env

definition flush_queues :: "flush_env \<Rightarrow> queue_state \<Rightarrow> queue_state \<times> queue_event list" where
  "flush_queues env q =
     (if fl_empty env then (q\<lparr>base_primitive_index := base_primitive_index q + fl_triangles env\<rparr>, [])
      else
        let i = buffer_instance q;
            (q, early) = (if flag_set (sync_indices_needs_flush q) (push_bit i 1)
                          then submit_to_queue (fl_early_copies env) q else (q, []));
            q = q\<lparr>sync_indices_needs_flush := sync_indices_needs_flush q OR push_bit i 1\<rparr>;
            (q, wait) = (case internal_sync q ! i of
                           Some f \<Rightarrow> (q\<lparr>internal_sync := (internal_sync q)[i := None]\<rparr>, [Wait_Fence f])
                         | None \<Rightarrow> (q, []));
            q = q\<lparr>stream_cmd := True, pending_render_passes := pending_render_passes q + 1\<rparr>;
            (q, upscaled) =
              (if fl_upscaled env then
                 let (q, between) = maintain_queues (fl_between env) q
                 in (q\<lparr>stream_cmd := True,
                       sync_indices_needs_flush := sync_indices_needs_flush q OR push_bit i 1,
                       pending_render_passes_upscaled := pending_render_passes_upscaled q + 1,
                       pending_primitives_upscaled := pending_primitives_upscaled q + fl_triangles env\<rparr>,
                     between @ [Render_Pass_Upscaled i])
               else (q, []));
            q = q\<lparr>base_primitive_index := base_primitive_index q + fl_triangles env\<rparr>;
            (q, after) = maintain_queues (fl_after env) (begin_new_context q)
        in (q, early @ wait @ [Upload i, Render_Pass i] @ upscaled @ after))"

definition flush_and_signal :: "flush_env \<Rightarrow> bool \<Rightarrow> queue_state \<Rightarrow> queue_state \<times> queue_event list" where
  "flush_and_signal env copies q =
     (let (q, flush) = flush_queues env q;
          (q, submit) = submit_to_queue copies q
      in (q, flush @ submit))"

definition maintain_queues_idle :: "flush_env \<Rightarrow> bool \<Rightarrow> queue_state \<Rightarrow> queue_state \<times> queue_event list" where
  "maintain_queues_idle env copies q =
     (if pending_primitives q \<ge> MinimumPrimitivesForIdleFlush \<or>
         pending_render_passes q \<ge> MinimumRenderPassesForIdleFlush
      then let (q, flush) = flush_queues env q;
               (q, submit) = submit_to_queue copies q
           in (q, flush @ submit)
      else (q, []))"

text \<open>\<open>resolve_coherency_external\<close> submits without a fence; the scanout sequence calls it.\<close>

definition resolve_coherency_external :: "queue_state \<Rightarrow> queue_state \<times> queue_event list" where
  "resolve_coherency_external q = (q\<lparr>stream_cmd := False\<rparr>, [Submit_External])"

definition run_scanout_coherency_sequence ::
  "flush_env \<Rightarrow> bool \<Rightarrow> queue_state \<Rightarrow> queue_state \<times> queue_event list" where
  "run_scanout_coherency_sequence env copies q =
     (let (q, flush) = flush_and_signal env copies q
      in if host_coherent q then (q, flush)
         else let (q, external) = resolve_coherency_external q in (q, flush @ external))"

datatype queue_op =
    Draw_Primitive
  | Flush_Queues flush_env
  | Flush_Signal flush_env bool
  | Idle flush_env bool
  | Scanout flush_env bool

fun queue_step :: "queue_state \<Rightarrow> queue_op \<Rightarrow> (queue_state \<times> queue_event list) option" where
  "queue_step q Draw_Primitive = Some (q\<lparr>pending_primitives := pending_primitives q + 1\<rparr>, [])"
| "queue_step q (Flush_Queues env) = Some (flush_queues env q)"
| "queue_step q (Flush_Signal env copies) = Some (flush_and_signal env copies q)"
| "queue_step q (Idle env copies) = Some (maintain_queues_idle env copies q)"
| "queue_step q (Scanout env copies) = Some (run_scanout_coherency_sequence env copies q)"


section \<open>The GPU\<close>

text \<open>
  What the GPU may still do with a set of buffers: nothing; read it once the commands recorded
  so far are submitted; or read it until the fence of the submission is signalled. Waiting for
  a fence waits for everything submitted before it as well. Writing a set that is not free, or
  submitting commands that read one without a fence, is a fault.
\<close>

datatype usage = Free | Recorded | In_Flight nat

fun gpu_event :: "usage list \<Rightarrow> queue_event \<Rightarrow> usage list option" where
  "gpu_event us (Wait_Fence f) = Some (map (\<lambda>u. if u = In_Flight f then Free else u) us)"
| "gpu_event us (Upload i) = (if i < length us \<and> us ! i = Free then Some (us[i := Recorded]) else None)"
| "gpu_event us (Render_Pass i) = (if i < length us \<and> us ! i = Recorded then Some us else None)"
| "gpu_event us (Render_Pass_Upscaled i) = (if i < length us then Some (us[i := Recorded]) else None)"
| "gpu_event us (Submit f) = Some (map (\<lambda>u. if u = Recorded then In_Flight f else u) us)"
| "gpu_event us Submit_External = (if Recorded \<in> set us then None else Some us)"
| "gpu_event us e = Some us"

abbreviation gpu_run :: "usage list \<Rightarrow> queue_event list \<Rightarrow> usage list option" where
  "gpu_run \<equiv> monitor_all gpu_event"

lemmas gpu_run_append = monitor_all_append [of gpu_event]

lemma gpu_run_appendI: "gpu_run us as = Some us' \<Longrightarrow> gpu_run us' bs = Some us'' \<Longrightarrow> gpu_run us (as @ bs) = Some us''"
  by (simp add: gpu_run_append)

text \<open>
  The host waits for a render pass through the operations pushed to the timeline worker:
  whether there is a pass whose submission no pushed operation waits for.
\<close>

fun unawaited :: "bool \<Rightarrow> queue_event \<Rightarrow> bool" where
  "unawaited u (Render_Pass i) = True"
| "unawaited u (Enqueue_Fence_Wait f) = False"
| "unawaited u e = u"

section \<open>Invariant\<close>

definition queue_inv :: "queue_state \<Rightarrow> usage list \<Rightarrow> bool" where
  "queue_inv q us \<longleftrightarrow> length us = 32 \<and> length (internal_sync q) = 32 \<and> buffer_instance q < 32 \<and>
     (\<forall>i < 32. (us ! i = Recorded \<longleftrightarrow> bit (sync_indices_needs_flush q) i) \<and>
        (\<forall>f. us ! i = In_Flight f \<longrightarrow> internal_sync q ! i = Some f)) \<and>
     (Recorded \<in> set us \<longrightarrow> stream_cmd q)"

lemma set_fences_nth:
  assumes "distinct bits" "\<forall>b \<in> set bits. b < length sync"
  shows "length (set_fences bits f sync) = length sync"
    "i < length sync \<Longrightarrow> set_fences bits f sync ! i = (if i \<in> set bits then Some f else sync ! i)"
  using assms
proof (induction bits arbitrary: sync)
  case (Cons b bits)
  { case 1 then show ?case using Cons.IH(1) [of "sync[b := Some f]"] by (simp add: set_fences_def) }
  { case 2 then show ?case using Cons.IH(2) [of "sync[b := Some f]"] by (auto simp: set_fences_def nth_list_update) }
qed (simp_all add: set_fences_def)

lemma submit_inv:
  assumes "queue_inv q us" "submit_to_queue copies q = (q', es)"
  obtains us' where "gpu_run us es = Some us'" "queue_inv q' us'" "Recorded \<notin> set us'"
    "sync_indices_needs_flush q' = 0" "\<not> stream_cmd q'" "buffer_instance q' = buffer_instance q"
proof (cases "stream_cmd q")
  case False
  then have "Recorded \<notin> set us" using assms(1) by (auto simp: queue_inv_def)
  then have none: "\<not> bit (sync_indices_needs_flush q) i" if "i < 32" for i
    using assms(1) that by (metis nth_mem queue_inv_def)
  then have "sync_indices_needs_flush q = 0" by (intro bit_eqI) simp
  moreover have "queue_inv q' us" "gpu_run us es = Some us"
    using False assms by (auto simp: submit_to_queue_def Let_def queue_inv_def split: if_splits)
  ultimately show ?thesis
    using that [of us] False \<open>Recorded \<notin> set us\<close> assms(2)
    by (auto simp: submit_to_queue_def Let_def split: if_splits)
next
  case True
  let ?us = "map (\<lambda>u. if u = Recorded then In_Flight (submissions q) else u) us"
  let ?bits = "for_each_bit (sync_indices_needs_flush q)"
  have bits: "set ?bits = {i. i < 32 \<and> bit (sync_indices_needs_flush q) i}" "distinct ?bits"
    by (auto simp: for_each_bit_eq set_bits_of_def)
  have len: "length (internal_sync q) = 32" using assms(1) by (simp add: queue_inv_def)
  then have "\<forall>b \<in> set ?bits. b < length (internal_sync q)" using bits(1) by auto
  then have sync: "length (set_fences ?bits (submissions q) (internal_sync q)) = 32"
    "\<forall>i < 32. set_fences ?bits (submissions q) (internal_sync q) ! i =
       (if bit (sync_indices_needs_flush q) i then Some (submissions q) else internal_sync q ! i)"
    using set_fences_nth [OF bits(2)] len bits(1) by auto
  have q': "internal_sync q' = set_fences ?bits (submissions q) (internal_sync q)" "\<not> stream_cmd q'"
    "sync_indices_needs_flush q' = 0" "buffer_instance q' = buffer_instance q" "gpu_run us es = Some ?us"
    using True assms(2) by (auto simp: submit_to_queue_def Let_def split: if_splits)
  have "queue_inv q' ?us"
    using assms(1) sync unfolding queue_inv_def q' by auto
  moreover have "Recorded \<notin> set ?us" by auto
  ultimately show ?thesis using that q' by blast
qed

lemma maintain_inv:
  assumes "queue_inv q us" "maintain_queues env q = (q', es)"
  obtains us' where "gpu_run us es = Some us'" "queue_inv q' us'" "buffer_instance q' = buffer_instance q"
proof (cases "es = [] \<and> q' = q")
  case True
  then show ?thesis using that [of us] assms(1) by simp
next
  case False
  then have "submit_to_queue (env_copies env) q = (q', es)"
    using assms(2) by (auto simp: maintain_queues_def split: if_splits)
  from submit_inv [OF assms(1) this] show ?thesis using that by metis
qed


section \<open>Flushing keeps the invariant\<close>

text \<open>The start of a flush: the set of the current instance is free once its fence is waited for.\<close>

lemma early_submit_inv:
  assumes "queue_inv q us" "i = buffer_instance q"
    "(if flag_set (sync_indices_needs_flush q) (push_bit i 1) then submit_to_queue copies q else (q, [])) = (q1, es)"
  obtains us1 where "gpu_run us es = Some us1" "queue_inv q1 us1" "us1 ! i \<noteq> Recorded" "buffer_instance q1 = i"
proof -
  have i: "i < 32" using assms(1,2) by (simp add: queue_inv_def)
  then have fs: "flag_set (sync_indices_needs_flush q) (push_bit i 1) = bit (sync_indices_needs_flush q) i"
    by (intro flag_set_single) simp
  show ?thesis
  proof (cases "bit (sync_indices_needs_flush q) i")
    case True
    then have "submit_to_queue copies q = (q1, es)" using assms(3) unfolding fs by simp
    from submit_inv [OF assms(1) this] obtain us1 where "gpu_run us es = Some us1" "queue_inv q1 us1"
      "Recorded \<notin> set us1" "buffer_instance q1 = i" using assms(2) by metis
    moreover from this have "us1 ! i \<noteq> Recorded" using i by (metis nth_mem queue_inv_def)
    ultimately show ?thesis by (intro that)
  next
    case False
    then have "q1 = q" "es = []" using assms(3) unfolding fs by simp_all
    then show ?thesis using that [of us] assms(1,2) False i by (simp add: queue_inv_def)
  qed
qed

lemma wait_upload_inv:
  assumes "queue_inv q us" "i = buffer_instance q" "us ! i \<noteq> Recorded"
    "q0 = q\<lparr>sync_indices_needs_flush := sync_indices_needs_flush q OR push_bit i 1\<rparr>"
    "(case internal_sync q0 ! i of Some f \<Rightarrow> (q0\<lparr>internal_sync := (internal_sync q0)[i := None]\<rparr>, [Wait_Fence f])
        | None \<Rightarrow> (q0, [])) = (q1, es)"
  obtains us1 where "gpu_run us (es @ [Upload i, Render_Pass i]) = Some us1" "us1 ! i = Recorded"
    "queue_inv (q1\<lparr>stream_cmd := True\<rparr>) us1"
    "buffer_instance q1 = i"
proof -
  let ?us = "case internal_sync q ! i of Some f \<Rightarrow> map (\<lambda>u. if u = In_Flight f then Free else u) us | None \<Rightarrow> us"
  have i: "i < 32" "length us = 32" "length (internal_sync q) = 32" using assms(1,2) by (auto simp: queue_inv_def)
  have run: "gpu_run us es = Some ?us" "length ?us = 32"
    using assms(4,5) i by (auto split: option.splits)
  have "us ! i = Free \<or> (\<exists>f. us ! i = In_Flight f \<and> internal_sync q ! i = Some f)"
    using assms(1,3) i by (cases "us ! i") (auto simp: queue_inv_def)
  then have free: "?us ! i = Free" using i by (auto split: option.split)
  have other: "?us ! j = us ! j \<or> ?us ! j = Free" "us ! j = Recorded \<Longrightarrow> ?us ! j = Recorded" if "j < 32" for j
    using that i by (auto split: option.split)
  have q1: "\<And>j. j \<noteq> i \<Longrightarrow> internal_sync q1 ! j = internal_sync q ! j" "length (internal_sync q1) = 32"
    "sync_indices_needs_flush q1 = sync_indices_needs_flush q OR push_bit i 1" "buffer_instance q1 = i"
    using assms(2,4,5) i by (auto split: option.splits)
  have "gpu_run us (es @ [Upload i, Render_Pass i]) = Some (?us[i := Recorded])"
    unfolding gpu_run_append run(1) using i(1) run(2) free by simp
  moreover have "?us[i := Recorded] ! i = Recorded" using i run(2) by simp
  moreover have "queue_inv (q1\<lparr>stream_cmd := True\<rparr>) (?us[i := Recorded])"
    unfolding queue_inv_def
  proof (intro conjI allI impI)
    fix j :: nat
    assume "j < 32"
    then show "(?us[i := Recorded] ! j = Recorded) = bit (sync_indices_needs_flush (q1\<lparr>stream_cmd := True\<rparr>)) j"
      using assms(1) other [of j] q1(3) run(2) i(1)
      by (cases "j = i") (auto simp: queue_inv_def bit_or_iff bit_exp_iff)
    fix f
    assume "?us[i := Recorded] ! j = In_Flight f"
    then show "internal_sync (q1\<lparr>stream_cmd := True\<rparr>) ! j = Some f"
      using assms(1) other [of j] q1(1) run(2) i(1) \<open>j < 32\<close>
      by (cases "j = i") (auto simp: queue_inv_def)
  qed (use q1 run(2) i in auto)
  ultimately show ?thesis using that q1(4) by blast
qed


definition awaited_inv :: "u32 \<Rightarrow> queue_state \<Rightarrow> bool \<Rightarrow> bool" where
  "awaited_inv n q u \<longleftrightarrow> (u \<longleftrightarrow> pending_render_passes q \<noteq> 0) \<and> pending_render_passes q \<le> n"

lemma submit_awaited:
  assumes "awaited_inv n q u" "submit_to_queue copies q = (q', es)"
  shows "foldl unawaited u es = False" "pending_render_passes q' = 0"
  using assms by (auto simp: awaited_inv_def submit_to_queue_def Let_def split: if_splits)

lemma submit_awaited_inv:
  "awaited_inv n q u \<Longrightarrow> submit_to_queue copies q = (q', es) \<Longrightarrow> awaited_inv m q' (foldl unawaited u es)"
  using submit_awaited [of n q u copies q' es] by (simp add: awaited_inv_def)

lemma maintain_awaited:
  assumes "awaited_inv 8 q u" "maintain_queues env q = (q', es)"
  shows "awaited_inv 7 q' (foldl unawaited u es)"
proof (cases "pending_render_passes q \<ge> 8")
  case True
  then have "submit_to_queue (env_copies env) q = (q', es)"
    using assms(2) by (simp add: maintain_queues_def MaxPendingRenderPassesBeforeFlush_def)
  with assms(1) show ?thesis by (rule submit_awaited_inv)
next
  case False
  then have "pending_render_passes q \<le> 7" by (simp add: word_le_nat_alt word_less_nat_alt not_le)
  then show ?thesis using assms submit_awaited_inv
    by (auto simp: maintain_queues_def awaited_inv_def split: if_splits)
qed

lemma queue_inv_upscaled:
  assumes "queue_inv q us" "i < 32"
  shows "queue_inv (q\<lparr>stream_cmd := True, sync_indices_needs_flush := sync_indices_needs_flush q OR push_bit i 1,
      pending_render_passes_upscaled := a, pending_primitives_upscaled := b\<rparr>) (us[i := Recorded])"
  using assms by (auto simp: queue_inv_def nth_list_update bit_or_iff bit_exp_iff)

lemma queue_inv_frame [simp]:
  "queue_inv (q\<lparr>pending_render_passes := a\<rparr>) us \<longleftrightarrow> queue_inv q us"
  "queue_inv (q\<lparr>pending_primitives := a\<rparr>) us \<longleftrightarrow> queue_inv q us"
  "queue_inv (q\<lparr>base_primitive_index := a\<rparr>) us \<longleftrightarrow> queue_inv q us"
  by (simp_all add: queue_inv_def)

lemma queue_inv_new_context: "queue_inv q us \<Longrightarrow> queue_inv (begin_new_context q) us"
  by (simp add: queue_inv_def begin_new_context_def NumSyncStates_def)

lemma awaited_weaken: "awaited_inv 7 q u \<Longrightarrow> awaited_inv 8 q u"
  by (auto simp: awaited_inv_def word_le_nat_alt)

lemma flush_start_awaited:
  assumes "awaited_inv 7 q u"
    "(if b then submit_to_queue copies q else (q, [])) = (q1, early)"
    "q0 = q1\<lparr>sync_indices_needs_flush := x\<rparr>"
    "(case internal_sync q0 ! i of Some f \<Rightarrow> (q0\<lparr>internal_sync := (internal_sync q0)[i := None]\<rparr>, [Wait_Fence f])
        | None \<Rightarrow> (q0, [])) = (q2, wait)"
  shows "awaited_inv 8 (q2\<lparr>stream_cmd := True, pending_render_passes := pending_render_passes q2 + 1\<rparr>)
    (foldl unawaited u (early @ wait @ [Upload i, Render_Pass i]))"
proof -
  have "awaited_inv 7 q1 (foldl unawaited u early)"
    using assms(1,2) submit_awaited_inv by (auto split: if_splits)
  then have "pending_render_passes q2 \<le> 7"
    using assms(3,4) by (auto simp: awaited_inv_def split: option.splits)
  then have "unat (pending_render_passes q2) \<le> 7" by (simp add: word_le_nat_alt)
  then have "unat (pending_render_passes q2 + 1) = unat (pending_render_passes q2) + 1"
    by (simp add: unat_word_ariths)
  with \<open>unat (pending_render_passes q2) \<le> 7\<close> show ?thesis
    by (auto simp: awaited_inv_def word_le_nat_alt unat_eq_zero [symmetric])
qed

lemma flush_queues_inv:
  assumes "queue_inv q us" "awaited_inv 7 q u" "flush_queues env q = (q', es)"
  shows "\<exists>us'. gpu_run us es = Some us' \<and> queue_inv q' us' \<and> awaited_inv 7 q' (foldl unawaited u es)"
proof (cases "fl_empty env")
  case True
  then show ?thesis using assms by (auto simp: flush_queues_def awaited_inv_def)
next
  case False
  define i where "i = buffer_instance q"
  obtain q1 early where 1: "(if flag_set (sync_indices_needs_flush q) (push_bit i 1)
      then submit_to_queue (fl_early_copies env) q else (q, [])) = (q1, early)" by fastforce
  define q0 where "q0 = q1\<lparr>sync_indices_needs_flush := sync_indices_needs_flush q1 OR push_bit i 1\<rparr>"
  obtain q2 wait where 2: "(case internal_sync q0 ! i of
      Some f \<Rightarrow> (q0\<lparr>internal_sync := (internal_sync q0)[i := None]\<rparr>, [Wait_Fence f]) | None \<Rightarrow> (q0, [])) = (q2, wait)"
    by fastforce
  define q3 where "q3 = q2\<lparr>stream_cmd := True,
      pending_render_passes := pending_render_passes q2 + 1\<rparr>"
  obtain q4 up where 4: "(if fl_upscaled env then let (q, between) = maintain_queues (fl_between env) q3
      in (q\<lparr>stream_cmd := True, sync_indices_needs_flush := sync_indices_needs_flush q OR push_bit i 1,
            pending_render_passes_upscaled := pending_render_passes_upscaled q + 1,
            pending_primitives_upscaled := pending_primitives_upscaled q + fl_triangles env\<rparr>,
          between @ [Render_Pass_Upscaled i]) else (q3, [])) = (q4, up)" by fastforce
  obtain q5 after where 5: "maintain_queues (fl_after env)
      (begin_new_context (q4\<lparr>base_primitive_index := base_primitive_index q4 + fl_triangles env\<rparr>)) = (q5, after)"
    by fastforce
  have eq: "flush_queues env q = (q5, early @ wait @ [Upload i, Render_Pass i] @ up @ after)"
    unfolding flush_queues_def i_def [symmetric] Let_def
    by (simp only: False if_False 1 prod.case q0_def [symmetric] 2 q3_def [symmetric] 4 [unfolded Let_def] 5)
  obtain us1 where us1: "gpu_run us early = Some us1" "queue_inv q1 us1" "us1 ! i \<noteq> Recorded" "buffer_instance q1 = i"
    using early_submit_inv [OF assms(1) i_def 1] .
  obtain us2 where us2: "gpu_run us1 (wait @ [Upload i, Render_Pass i]) = Some us2" "us2 ! i = Recorded"
    "queue_inv (q2\<lparr>stream_cmd := True\<rparr>) us2" "buffer_instance q2 = i"
    using wait_upload_inv [OF us1(2) us1(4) [symmetric] us1(3) q0_def 2] .
  then have q3: "queue_inv q3 us2" by (simp add: q3_def)
  have i: "i < 32" using assms(1) by (simp add: i_def queue_inv_def)
  have aw3: "awaited_inv 8 q3 (foldl unawaited u (early @ wait @ [Upload i, Render_Pass i]))"
    using flush_start_awaited [OF assms(2) 1 q0_def 2] by (simp add: q3_def)
  obtain us3 where us3: "gpu_run us2 up = Some us3" "queue_inv q4 us3"
    "awaited_inv 8 q4 (foldl unawaited u (early @ wait @ [Upload i, Render_Pass i] @ up))"
  proof (cases "fl_upscaled env")
    case True
    obtain qm between where m: "maintain_queues (fl_between env) q3 = (qm, between)" by fastforce
    from maintain_inv [OF q3 m] obtain usm where usm: "gpu_run us2 between = Some usm" "queue_inv qm usm" by metis
    have "awaited_inv 8 qm (foldl unawaited u ((early @ wait @ [Upload i, Render_Pass i]) @ between))"
      using awaited_weaken [OF maintain_awaited [OF aw3 m]] by simp
    then have "awaited_inv 8 q4 (foldl unawaited u (early @ wait @ [Upload i, Render_Pass i] @ up))"
      using 4 True m by (auto simp: awaited_inv_def)
    moreover have "gpu_run us2 up = Some (usm[i := Recorded])" "queue_inv q4 (usm[i := Recorded])"
      using 4 True m usm i queue_inv_upscaled [OF usm(2) i] by (auto simp: gpu_run_append queue_inv_def)
    ultimately show ?thesis using that by blast
  next
    case False
    then show ?thesis using that [of us2] 4 q3 aw3 by simp
  qed
  have "queue_inv (begin_new_context (q4\<lparr>base_primitive_index := base_primitive_index q4 + fl_triangles env\<rparr>)) us3"
    using us3(2) by (intro queue_inv_new_context) simp
  from maintain_inv [OF this 5] obtain us5 where us5: "gpu_run us3 after = Some us5" "queue_inv q5 us5" by metis
  have es: "es = early @ (wait @ [Upload i, Render_Pass i]) @ up @ after" using assms(3) eq by simp
  have "gpu_run us es = Some us5"
    unfolding es by (rule gpu_run_appendI [OF us1(1) gpu_run_appendI [OF us2(1) gpu_run_appendI [OF us3(1) us5(1)]]])
  moreover have "awaited_inv 7 q5 (foldl unawaited u es)"
  proof -
    have "awaited_inv 8 (begin_new_context (q4\<lparr>base_primitive_index := base_primitive_index q4 + fl_triangles env\<rparr>))
        (foldl unawaited u (early @ wait @ [Upload i, Render_Pass i] @ up))"
      using us3(3) by (simp add: awaited_inv_def begin_new_context_def)
    from maintain_awaited [OF this 5] show ?thesis unfolding es by simp
  qed
  ultimately show ?thesis using us5(2) assms(3) eq by auto
qed


section \<open>Any sequence of operations\<close>

definition queue_judge :: "usage list \<times> bool \<Rightarrow> queue_event \<Rightarrow> (usage list \<times> bool) option" where
  "queue_judge m e = do { us \<leftarrow> gpu_event (fst m) e; Some (us, unawaited (snd m) e) }"

definition queue_related :: "queue_state \<Rightarrow> usage list \<times> bool \<Rightarrow> bool" where
  "queue_related q m \<longleftrightarrow> queue_inv q (fst m) \<and> awaited_inv 7 q (snd m)"

lemma queue_judge_all:
  "gpu_run us es = Some us' \<Longrightarrow> monitor_all queue_judge (us, u) es = Some (us', foldl unawaited u es)"
  by (induction es arbitrary: us u) (auto simp: queue_judge_def bind_eq_Some_conv)

lemma queue_judge_all_conv:
  "monitor_all queue_judge (us, u) es = Some m \<Longrightarrow> gpu_run us es = Some (fst m) \<and> snd m = foldl unawaited u es"
  by (induction es arbitrary: us u) (auto simp: queue_judge_def bind_eq_Some_conv)

lemma flush_and_submit_inv:
  assumes "queue_inv q us" "awaited_inv 7 q u" "flush_queues env q = (q1, es1)" "submit_to_queue copies q1 = (q2, es2)"
  shows "\<exists>us'. gpu_run us (es1 @ es2) = Some us' \<and> queue_inv q2 us' \<and> awaited_inv 7 q2 (foldl unawaited u (es1 @ es2)) \<and>
    Recorded \<notin> set us' \<and> \<not> stream_cmd q2 \<and> \<not> foldl unawaited u (es1 @ es2)"
proof -
  obtain us1 where us1: "gpu_run us es1 = Some us1" "queue_inv q1 us1" "awaited_inv 7 q1 (foldl unawaited u es1)"
    using flush_queues_inv [OF assms(1-3)] by blast
  obtain us2 where us2: "gpu_run us1 es2 = Some us2" "queue_inv q2 us2" "Recorded \<notin> set us2" "\<not> stream_cmd q2"
    using submit_inv [OF us1(2) assms(4)] by metis
  have "gpu_run us (es1 @ es2) = Some us2" using us1(1) us2(1) by (rule gpu_run_appendI)
  moreover have "awaited_inv 7 q2 (foldl unawaited u (es1 @ es2))" "\<not> foldl unawaited u (es1 @ es2)"
    using submit_awaited [OF us1(3) assms(4)] submit_awaited_inv [OF us1(3) assms(4)] by simp_all
  ultimately show ?thesis using us2 by blast
qed

lemma scanout_inv:
  assumes "queue_inv q us" "awaited_inv 7 q u" "run_scanout_coherency_sequence env copies q = (q', es)"
  shows "\<exists>us'. gpu_run us es = Some us' \<and> queue_inv q' us' \<and> awaited_inv 7 q' (foldl unawaited u es)"
proof -
  obtain q1 es1 where 1: "flush_queues env q = (q1, es1)" by fastforce
  obtain q2 es2 where 2: "submit_to_queue copies q1 = (q2, es2)" by fastforce
  obtain us' where us': "gpu_run us (es1 @ es2) = Some us'" "queue_inv q2 us'"
    "awaited_inv 7 q2 (foldl unawaited u (es1 @ es2))" "Recorded \<notin> set us'"
    using flush_and_submit_inv [OF assms(1,2) 1 2] by blast
  have "queue_inv (q2\<lparr>stream_cmd := False\<rparr>) us'" using us'(2,4) by (simp add: queue_inv_def)
  moreover have "gpu_run us ((es1 @ es2) @ [Submit_External]) = Some us'"
    by (rule gpu_run_appendI [OF us'(1)]) (simp add: us'(4))
  ultimately show ?thesis
    using us' assms(3) 1 2
    by (auto simp: run_scanout_coherency_sequence_def flush_and_signal_def resolve_coherency_external_def
        awaited_inv_def split: if_splits)
qed

lemma queue_step_related:
  assumes "queue_related q m"
  shows "\<exists>q' es m'. queue_step q op = Some (q', es) \<and> monitor_all queue_judge m es = Some m' \<and> queue_related q' m'"
proof -
  obtain us u where m: "m = (us, u)" by (cases m)
  have inv: "queue_inv q us" "awaited_inv 7 q u" using assms by (simp_all add: queue_related_def m)
  have "queue_step q op \<noteq> None" by (cases op) simp_all
  then obtain q' es where s: "queue_step q op = Some (q', es)" by auto
  have "\<exists>us'. gpu_run us es = Some us' \<and> queue_inv q' us' \<and> awaited_inv 7 q' (foldl unawaited u es)"
  proof (cases op)
    case Draw_Primitive
    then show ?thesis using s inv by (auto simp: awaited_inv_def)
  next
    case (Flush_Queues env)
    then show ?thesis using s flush_queues_inv [OF inv] by simp
  next
    case (Flush_Signal env copies)
    then show ?thesis using s flush_and_submit_inv [OF inv]
      by (fastforce simp: flush_and_signal_def split: prod.splits)
  next
    case (Idle env copies)
    then show ?thesis using s flush_and_submit_inv [OF inv] inv
      by (fastforce simp: maintain_queues_idle_def split: prod.splits if_splits)
  next
    case (Scanout env copies)
    then show ?thesis using s scanout_inv [OF inv] by simp
  qed
  then show ?thesis using s queue_judge_all unfolding m queue_related_def by fastforce
qed

interpretation queue: monitored_machine queue_step queue_judge queue_related
  by unfold_locales (rule queue_step_related)

lemma initial_related: "queue_related (initial_queue coherent) (replicate 32 Free, False)"
  by (simp add: queue_related_def queue_inv_def awaited_inv_def initial_queue_def NumSyncStates_def)

text \<open>
  C17. The renderer never writes buffers the GPU may still read: whatever sequence of draws,
  flushes, idle flushes and scanouts runs, with whatever timing, a set of buffers is written
  only after the fence of the last submission that reads it has been waited for, and work that
  reads a set is never submitted without a fence. After \<open>flush_and_signal\<close> everything
  recorded has been submitted (its assertion holds) and the timeline worker has been given a
  wait for every render pass.
\<close>

theorem render_buffers_never_overwritten:
  "\<exists>q es us. run_all queue_step (initial_queue coherent) (ops @ [Flush_Signal env copies]) = Some (q, es) \<and>
     gpu_run (replicate 32 Free) es = Some us \<and>
     \<not> stream_cmd q \<and> Recorded \<notin> set us \<and> \<not> foldl unawaited False es"
proof -
  obtain q1 es1 m1 where 1: "run_all queue_step (initial_queue coherent) ops = Some (q1, es1)"
    "monitor_all queue_judge (replicate 32 Free, False) es1 = Some m1" "queue_related q1 m1"
    using queue.run_judged [OF initial_related] by blast
  have us1: "gpu_run (replicate 32 Free) es1 = Some (fst m1)" "snd m1 = foldl unawaited False es1"
    using queue_judge_all_conv [OF 1(2)] by simp_all
  obtain q2 es2 where 2: "flush_queues env q1 = (q2, es2)" by fastforce
  obtain q3 es3 where 3: "submit_to_queue copies q2 = (q3, es3)" by fastforce
  obtain us where us: "gpu_run (fst m1) (es2 @ es3) = Some us" "Recorded \<notin> set us" "\<not> stream_cmd q3"
    "\<not> foldl unawaited (snd m1) (es2 @ es3)"
    using flush_and_submit_inv [OF _ _ 2 3, of "fst m1" "snd m1"] 1(3) unfolding queue_related_def by blast
  have "run_all queue_step (initial_queue coherent) (ops @ [Flush_Signal env copies]) = Some (q3, es1 @ es2 @ es3)"
    by (simp add: run_all_append 1(1) flush_and_signal_def 2 3)
  moreover have "gpu_run (replicate 32 Free) (es1 @ es2 @ es3) = Some us"
    using us1(1) us(1) by (rule gpu_run_appendI)
  ultimately show ?thesis using us us1(2) by auto
qed

end
