(* ===== verification/Framebuffer_Hazards.thy ===== *)
theory Framebuffer_Hazards
  imports Command_Processor Coherency_Properties
begin

text \<open>
  The bound frame buffers of \<open>rdp_renderer.cpp\<close>: their sizes, when binding another one
  flushes, and the test \<open>tmem_upload_needs_flush\<close> that keeps a texture load from reading
  pixels whose render pass has not been flushed.
\<close>

section \<open>Bound frame buffers\<close>

record fb_state =
  fb_addr :: u32
  fb_depth_addr :: u32
  fb_width :: u32
  fb_deduced_height :: u32
  fb_fmt :: fb_format
  fb_color_write_pending :: bool
  fb_depth_write_pending :: bool

definition get_byte_size_for_bound_color_framebuffer :: "fb_state \<Rightarrow> u32" where
  "get_byte_size_for_bound_color_framebuffer fb =
     (let pixel_count = fb_width fb * fb_deduced_height fb in
      case fb_fmt fb of
        FB_RGBA8888 \<Rightarrow> pixel_count * 4
      | FB_RGBA5551 \<Rightarrow> pixel_count * 2
      | FB_IA88 \<Rightarrow> pixel_count * 2
      | _ \<Rightarrow> pixel_count)"


text \<open>The part of \<open>reset_context\<close>, run at the end of every flush, that concerns the frame buffers.\<close>

definition reset_fb :: "fb_state \<Rightarrow> fb_state" where
  "reset_fb fb = fb\<lparr>fb_deduced_height := 0, fb_color_write_pending := False, fb_depth_write_pending := False\<rparr>"

text \<open>Binding returns whether the queues were flushed first.\<close>

definition set_color_framebuffer :: "fb_state \<Rightarrow> u32 \<Rightarrow> u32 \<Rightarrow> fb_format \<Rightarrow> fb_state \<times> bool" where
  "set_color_framebuffer fb addr width fmt =
     (let flush = fb_addr fb \<noteq> addr \<or> fb_width fb \<noteq> width \<or> fb_fmt fb \<noteq> fmt;
          fb = (if flush then reset_fb fb else fb)
      in (fb\<lparr>fb_addr := addr, fb_width := width, fb_fmt := fmt\<rparr>, flush))"

definition set_depth_framebuffer :: "fb_state \<Rightarrow> u32 \<Rightarrow> fb_state \<times> bool" where
  "set_depth_framebuffer fb addr =
     (let flush = fb_depth_addr fb \<noteq> addr;
          fb = (if flush then reset_fb fb else fb)
      in (fb\<lparr>fb_depth_addr := addr\<rparr>, flush))"

section \<open>Texture loads\<close>

definition color_hazard :: "u32 \<Rightarrow> fb_state \<Rightarrow> u32 \<Rightarrow> bool" where
  "color_hazard rdram_size fb addr =
     (let offset = (addr - fb_addr fb) AND (rdram_size - 1);
          pending_pixels = fb_deduced_height fb * fb_width fb;
          offset = (case fb_fmt fb of
                      FB_RGBA5551 \<Rightarrow> shr offset 1
                    | FB_I8 \<Rightarrow> shr offset 1
                    | FB_RGBA8888 \<Rightarrow> shr offset 2
                    | _ \<Rightarrow> offset)
      in offset < pending_pixels)"

definition depth_hazard :: "u32 \<Rightarrow> fb_state \<Rightarrow> u32 \<Rightarrow> bool" where
  "depth_hazard rdram_size fb addr =
     (let offset = (addr - fb_depth_addr fb) AND (rdram_size - 1);
          pending_pixels = fb_deduced_height fb * fb_width fb
      in shr offset 1 < pending_pixels)"

definition tmem_upload_needs_flush :: "u32 \<Rightarrow> fb_state \<Rightarrow> u32 \<Rightarrow> bool" where
  "tmem_upload_needs_flush rdram_size fb addr =
     (if fb_color_write_pending fb \<and> color_hazard rdram_size fb addr then True
      else if fb_depth_write_pending fb \<and> depth_hazard rdram_size fb addr then True
      else False)"

section \<open>Which loads are held back\<close>

text \<open>An address lies in a buffer of \<open>n\<close> bytes at \<open>base\<close>, memory taken modulo its size.\<close>

definition in_buffer :: "u32 \<Rightarrow> u32 \<Rightarrow> u32 \<Rightarrow> u32 \<Rightarrow> bool" where
  "in_buffer rdram_size base n addr \<longleftrightarrow> (addr - base) AND (rdram_size - 1) < n"



lemma pixel_count:
  assumes "unat (fb_width fb) * unat (fb_deduced_height fb) * 4 < 2 ^ 32"
  shows "unat (fb_deduced_height fb * fb_width fb) * 2 ^ 2 < 2 ^ 32"
    "unat (fb_deduced_height fb * fb_width fb) * 2 ^ 1 < 2 ^ 32"
  using assms by (simp_all add: unat_word_ariths mult.commute)


definition example_fb :: "fb_format \<Rightarrow> fb_state" where
  "example_fb fmt = \<lparr>fb_addr = 0x100000, fb_depth_addr = 0x200000, fb_width = 320, fb_deduced_height = 240,
     fb_fmt = fmt, fb_color_write_pending = True, fb_depth_write_pending = False\<rparr>"


text \<open>
  The test has no case for the 16-bit format IA88: for such a buffer the offset in bytes is
  compared with the number of pixels, and a load from its second half is not held back although
  the pixels it reads are still to be rendered.
\<close>

theorem tmem_flush_misses_ia88:
  "in_buffer 0x800000 (fb_addr (example_fb FB_IA88))
      (get_byte_size_for_bound_color_framebuffer (example_fb FB_IA88)) 0x120000 \<and>
   fb_color_write_pending (example_fb FB_IA88) \<and>
   \<not> tmem_upload_needs_flush 0x800000 (example_fb FB_IA88) 0x120000"
  by code_simp

end
