(* ===== verification/Video_Interface.thy ===== *)
theory Video_Interface
  imports RDP_Common "HOL-Library.Signed_Division"
begin

text \<open>
  The video interface: the register decoding of \<open>vi_scanout_policy.hpp\<close>, the render-target
  sizes of \<open>vi_scale_policy.hpp\<close> and the control of \<open>VideoInterface::scanout\<close>. C \<open>int\<close>
  values are \<open>int\<close> (all registers have at most 24 bits, see \<open>vi_registers_small\<close>),
  \<open>unsigned\<close> ones are words. Images are numbered; what a stage draws is not modelled, where
  it reads from and how large its images are is.
\<close>

section \<open>Registers\<close>

definition VIRegister_Control :: nat where "VIRegister_Control = 0"
definition VIRegister_Origin :: nat where "VIRegister_Origin = 1"
definition VIRegister_Width :: nat where "VIRegister_Width = 2"
definition VIRegister_VCurrentLine :: nat where "VIRegister_VCurrentLine = 4"
definition VIRegister_VSync :: nat where "VIRegister_VSync = 6"
definition VIRegister_HStart :: nat where "VIRegister_HStart = 9"
definition VIRegister_VStart :: nat where "VIRegister_VStart = 10"
definition VIRegister_XScale :: nat where "VIRegister_XScale = 12"
definition VIRegister_YScale :: nat where "VIRegister_YScale = 13"
definition VIRegister_Count :: nat where "VIRegister_Count = 14"

lemmas vi_register_defs =
  VIRegister_Control_def VIRegister_Origin_def VIRegister_Width_def VIRegister_VCurrentLine_def
  VIRegister_VSync_def VIRegister_HStart_def VIRegister_VStart_def VIRegister_XScale_def
  VIRegister_YScale_def VIRegister_Count_def

definition VI_CONTROL_TYPE_RGBA5551_BIT :: u32 where "VI_CONTROL_TYPE_RGBA5551_BIT = 2"
definition VI_CONTROL_TYPE_RGBA8888_BIT :: u32 where "VI_CONTROL_TYPE_RGBA8888_BIT = 3"
definition VI_CONTROL_TYPE_MASK :: u32 where "VI_CONTROL_TYPE_MASK = 3"
definition VI_CONTROL_GAMMA_DITHER_ENABLE_BIT :: u32 where "VI_CONTROL_GAMMA_DITHER_ENABLE_BIT = 4"
definition VI_CONTROL_DIVOT_ENABLE_BIT :: u32 where "VI_CONTROL_DIVOT_ENABLE_BIT = 16"
definition VI_CONTROL_SERRATE_BIT :: u32 where "VI_CONTROL_SERRATE_BIT = 64"
definition VI_CONTROL_AA_MODE_RESAMP_ONLY_BIT :: u32 where "VI_CONTROL_AA_MODE_RESAMP_ONLY_BIT = 512"
definition VI_CONTROL_AA_MODE_RESAMP_REPLICATE_BIT :: u32 where "VI_CONTROL_AA_MODE_RESAMP_REPLICATE_BIT = 768"
definition VI_CONTROL_AA_MODE_MASK :: u32 where "VI_CONTROL_AA_MODE_MASK = 768"
definition VI_CONTROL_DITHER_FILTER_ENABLE_BIT :: u32 where "VI_CONTROL_DITHER_FILTER_ENABLE_BIT = 0x10000"
definition VI_CONTROL_META_AA_BIT :: u32 where "VI_CONTROL_META_AA_BIT = 0x20000"
definition VI_CONTROL_META_SCALE_BIT :: u32 where "VI_CONTROL_META_SCALE_BIT = 0x40000"

lemmas vi_control_defs =
  VI_CONTROL_TYPE_RGBA5551_BIT_def VI_CONTROL_TYPE_RGBA8888_BIT_def VI_CONTROL_TYPE_MASK_def
  VI_CONTROL_GAMMA_DITHER_ENABLE_BIT_def VI_CONTROL_DIVOT_ENABLE_BIT_def VI_CONTROL_SERRATE_BIT_def
  VI_CONTROL_AA_MODE_RESAMP_ONLY_BIT_def VI_CONTROL_AA_MODE_RESAMP_REPLICATE_BIT_def
  VI_CONTROL_AA_MODE_MASK_def VI_CONTROL_DITHER_FILTER_ENABLE_BIT_def VI_CONTROL_META_AA_BIT_def
  VI_CONTROL_META_SCALE_BIT_def

definition VI_V_SYNC_NTSC :: int where "VI_V_SYNC_NTSC = 525"
definition VI_H_OFFSET_NTSC :: int where "VI_H_OFFSET_NTSC = 108"
definition VI_H_OFFSET_PAL :: int where "VI_H_OFFSET_PAL = 128"
definition VI_V_OFFSET_NTSC :: int where "VI_V_OFFSET_NTSC = 34"
definition VI_V_OFFSET_PAL :: int where "VI_V_OFFSET_PAL = 44"
definition VI_V_RES_NTSC :: u32 where "VI_V_RES_NTSC = 480"
definition VI_V_RES_PAL :: u32 where "VI_V_RES_PAL = 576"
definition VI_SCANOUT_WIDTH :: int where "VI_SCANOUT_WIDTH = 640"

record vi_scanout_registers =
  x_start :: int
  y_start :: int
  h_start :: int
  v_start :: int
  h_end :: int
  v_end :: int
  h_res :: int
  v_res :: int
  x_add :: int
  y_add :: int
  v_sync :: int
  vi_width :: int
  vi_offset :: u32
  max_x :: int
  max_y :: int
  v_current_line :: int
  left_clamp :: bool
  right_clamp :: bool
  is_pal :: bool
  vi_status :: u32

text \<open>The fields as they are read, before the clamping below; \<open>/ 2\<close> rounds towards zero.\<close>

definition raw_vi_registers :: "u32 list \<Rightarrow> vi_scanout_registers" where
  "raw_vi_registers r =
     (let v_sync = uint (r ! VIRegister_VSync AND 0x3ff);
          pal = v_sync > VI_V_SYNC_NTSC + 25;
          h_start = uint (shr (r ! VIRegister_HStart) 16 AND 0x3ff);
          v_start = uint (shr (r ! VIRegister_VStart) 16 AND 0x3ff);
          h_end = uint (r ! VIRegister_HStart AND 0x3ff);
          v_end = uint (r ! VIRegister_VStart AND 0x3ff)
      in \<lparr>x_start = uint (shr (r ! VIRegister_XScale) 16 AND 0xfff),
          y_start = uint (shr (r ! VIRegister_YScale) 16 AND 0xfff),
          h_start = h_start - (if pal then VI_H_OFFSET_PAL else VI_H_OFFSET_NTSC),
          v_start = (v_start - (if pal then VI_V_OFFSET_PAL else VI_V_OFFSET_NTSC)) sdiv 2,
          h_end = h_end, v_end = v_end,
          h_res = h_end - h_start, v_res = (v_end - v_start) div 2,
          x_add = uint (r ! VIRegister_XScale AND 0xfff), y_add = uint (r ! VIRegister_YScale AND 0xfff),
          v_sync = v_sync, vi_width = uint (r ! VIRegister_Width AND 0xfff),
          vi_offset = r ! VIRegister_Origin AND 0xffffff, max_x = 0, max_y = 0,
          v_current_line = uint (r ! VIRegister_VCurrentLine AND 1),
          left_clamp = False, right_clamp = False, is_pal = pal, vi_status = r ! VIRegister_Control\<rparr>)"

definition decode_vi_registers :: "u32 list \<Rightarrow> vi_scanout_registers" where
  "decode_vi_registers r =
     (let reg = raw_vi_registers r;
          reg = (if h_start reg < 0
                 then reg\<lparr>x_start := x_start reg - x_add reg * h_start reg, h_res := h_res reg + h_start reg,
                          h_start := 0, left_clamp := True\<rparr> else reg);
          reg = (if h_start reg + h_res reg > VI_SCANOUT_WIDTH
                 then reg\<lparr>h_res := VI_SCANOUT_WIDTH - h_start reg, right_clamp := True\<rparr> else reg);
          reg = (if v_start reg < 0
                 then reg\<lparr>y_start := y_start reg - y_add reg * v_start reg, v_start := 0\<rparr> else reg)
      in reg\<lparr>max_x := (x_start reg + h_res reg * x_add reg) div 1024,
             max_y := (y_start reg + v_res reg * y_add reg) div 1024\<rparr>)"

section \<open>The memory a scanout reads\<close>

definition divot_enabled :: "u32 \<Rightarrow> bool" where
  "divot_enabled status = flag_set status VI_CONTROL_DIVOT_ENABLE_BIT"

text \<open>The size of the image \<open>vram_fetch_stage\<close> extracts, with the borders the filters need.\<close>

definition extract_width :: "bool \<Rightarrow> int \<Rightarrow> int" where
  "extract_width divot mx = mx + 2 + 4 + of_bool divot * 2"

definition extract_height :: "int \<Rightarrow> int" where
  "extract_height my = my + 1 + 4"

definition pixel_size :: "u32 \<Rightarrow> int" where
  "pixel_size status =
     (if (status AND VI_CONTROL_TYPE_MASK) OR VI_CONTROL_TYPE_RGBA5551_BIT = VI_CONTROL_TYPE_RGBA8888_BIT
      then 4 else 2)"

definition compute_scanout_memory_range :: "vi_scanout_registers \<Rightarrow> u32 \<times> u32" where
  "compute_scanout_memory_range d =
     (let divot = divot_enabled (vi_status d);
          aa_width = extract_width divot (max_x d);
          aa_height = extract_height (max_y d);
          x_off = (if divot then - 3 else - 2);
          y_off = - 2
      in if vi_offset d = 0 \<or> h_res d \<le> 0 \<or> h_start d \<ge> VI_SCANOUT_WIDTH then (0, 0)
         else let ps = pixel_size (vi_status d);
                  base = vi_offset d AND NOT (word_of_int (ps - 1))
              in (base + word_of_int ((x_off + y_off * vi_width d) * ps),
                  word_of_int ((aa_height * vi_width d + aa_width) * ps)))"

definition need_fetch_bug_emulation :: "vi_scanout_registers \<Rightarrow> nat \<Rightarrow> bool" where
  "need_fetch_bug_emulation d scaling_factor \<longleftrightarrow> y_add d < 1024 \<and> scaling_factor = 1"


section \<open>Render targets\<close>

record vi_scale_input =
  si_is_pal :: bool
  si_status :: u32
  si_v_start :: int
  si_v_res :: int
  si_v_current_line :: int
  si_crop_overscan_pixels :: u32
  si_scaling_factor :: u32
  si_upscale_deinterlacing :: bool

record vi_scale_policy =
  serrate :: bool
  crop_pixels_x :: u32
  crop_pixels_y :: u32
  render_target_width :: u32
  render_target_height :: u32
  adjusted_v_start :: int
  adjusted_v_res :: int
  serrate_shift :: u32
  serrate_mask :: u32
  serrate_select :: u32

definition derive_vi_scale_policy :: "vi_scale_input \<Rightarrow> vi_scale_policy" where
  "derive_vi_scale_policy i =
     (let serr = flag_set (si_status i) VI_CONTROL_SERRATE_BIT \<and> \<not> si_upscale_deinterlacing i;
          crop_x = si_crop_overscan_pixels i * si_scaling_factor i;
          crop_y = crop_x * (if serr then 2 else 1);
          lines = (if si_is_pal i then VI_V_RES_PAL else VI_V_RES_NTSC)
      in \<lparr>serrate = serr, crop_pixels_x = crop_x, crop_pixels_y = crop_y,
          render_target_width = word_of_int VI_SCANOUT_WIDTH * si_scaling_factor i - 2 * crop_x,
          render_target_height = shr lines (if serr then 0 else 1) * si_scaling_factor i - 2 * crop_y,
          adjusted_v_start = (if serr then si_v_start i * 2 else si_v_start i),
          adjusted_v_res = (if serr then si_v_res i * 2 else si_v_res i),
          serrate_shift = (if serr then 1 else 0), serrate_mask = (if serr then 1 else 0),
          serrate_select = (if serr then (if si_v_current_line i = 0 then 1 else 0) else 0)\<rparr>)"

text \<open>The loop of \<open>downscale_stage\<close>, on the sizes of the images.\<close>

fun downscale_stage :: "nat \<Rightarrow> nat \<Rightarrow> u32 \<times> u32 \<Rightarrow> u32 \<times> u32" where
  "downscale_stage scaling_factor downscale_steps (width, height) =
     (if scaling_factor > 1 \<and> downscale_steps > 0
      then downscale_stage (scaling_factor div 2) (downscale_steps - 1) (width div 2, height div 2)
      else (width, height))"

declare downscale_stage.simps [simp del]

text \<open>
  The rectangle \<open>scale_stage\<close> draws into, for the registers it has scaled: the eight pixels
  at the left and the seven at the right that are not clamped are left out, the cropped border
  is taken off, and nothing is drawn if nothing is left.
\<close>

definition scale_rect ::
  "bool \<Rightarrow> vi_scanout_registers \<Rightarrow> int \<Rightarrow> int \<Rightarrow> int \<Rightarrow> (int \<times> int \<times> int \<times> int) option" where
  "scale_rect degenerate reg scaling_factor crop_x crop_y =
     (let hs = (if left_clamp reg then h_start reg else h_start reg + 8 * scaling_factor);
          hr = (if left_clamp reg then h_res reg else h_res reg - 8 * scaling_factor);
          hr = (if right_clamp reg then hr else hr - 7 * scaling_factor);
          vr = v_res reg
      in if \<not> degenerate \<and> hr > crop_x \<and> vr > crop_y then
           let x = hs - crop_x; y = v_start reg - crop_y;
               w = (if x < 0 then hr + x else hr); x = max x 0;
               h = (if y < 0 then vr + y else vr); y = max y 0
           in if w \<ge> 0 \<and> h \<ge> 0 then Some (x, y, w, h) else None
         else None)"

section \<open>Scanning out\<close>

record scanout_options =
  crop_overscan_pixels :: u32
  downscale_steps :: nat
  persist_frame_on_invalid_input :: bool
  blend_previous_frame :: bool
  upscale_deinterlacing :: bool
  opt_aa :: bool
  opt_scale :: bool
  opt_serrate :: bool
  opt_dither_filter :: bool
  opt_divot_filter :: bool
  opt_gamma_dither :: bool

record vi_frame_state =
  previous_frame_blank :: bool
  frame_count :: u32
  last_valid_frame_count :: u32
  prev_scanout_image :: "nat option"
  prev_image_layout :: nat

definition initial_frame_state :: vi_frame_state where
  "initial_frame_state = \<lparr>previous_frame_blank = False, frame_count = 0, last_valid_frame_count = 0,
     prev_scanout_image = None, prev_image_layout = 0\<rparr>"

text \<open>The status word the stages see: features the options switch off are masked out.\<close>

definition effective_status :: "scanout_options \<Rightarrow> u32 \<Rightarrow> u32" where
  "effective_status opts status =
     (let status = (if opt_serrate opts then status else status AND NOT VI_CONTROL_SERRATE_BIT);
          aa = status AND VI_CONTROL_AA_MODE_MASK < VI_CONTROL_AA_MODE_RESAMP_ONLY_BIT \<and> opt_aa opts;
          bilinear = status AND VI_CONTROL_AA_MODE_MASK < VI_CONTROL_AA_MODE_RESAMP_REPLICATE_BIT \<and> opt_scale opts;
          status = status AND NOT (VI_CONTROL_AA_MODE_MASK OR VI_CONTROL_META_AA_BIT OR VI_CONTROL_META_SCALE_BIT);
          status = (if aa then status OR VI_CONTROL_META_AA_BIT else status);
          status = (if bilinear then status OR VI_CONTROL_META_SCALE_BIT else status);
          status = (if opt_gamma_dither opts then status else status AND NOT VI_CONTROL_GAMMA_DITHER_ENABLE_BIT);
          status = (if opt_divot_filter opts then status else status AND NOT VI_CONTROL_DIVOT_ENABLE_BIT)
      in if opt_dither_filter opts then status else status AND NOT VI_CONTROL_DITHER_FILTER_ENABLE_BIT)"

definition scale_registers :: "int \<Rightarrow> vi_scanout_registers \<Rightarrow> vi_scanout_registers" where
  "scale_registers sf reg =
     reg\<lparr>h_start := h_start reg * sf, v_start := v_start reg * sf, h_res := h_res reg * sf,
         v_res := v_res reg * sf, x_start := x_start reg * sf, y_start := y_start reg * sf,
         h_end := h_end reg * sf, v_end := v_end reg * sf,
         max_x := max_x reg * sf + (sf - 1), max_y := max_y reg * sf + (sf - 1)\<rparr>"

text \<open>The push constants of the extraction: where it reads and how much.\<close>

record vram_fetch =
  fb_offset :: u32
  fetch_width :: int
  x_offset :: int
  y_offset :: int
  x_res :: int
  y_res :: int
  fetch_status :: u32

definition vram_fetch_stage :: "vi_scanout_registers \<Rightarrow> vram_fetch" where
  "vram_fetch_stage reg =
     (let divot = divot_enabled (vi_status reg)
      in \<lparr>fb_offset = (if vi_status reg AND VI_CONTROL_TYPE_MASK = VI_CONTROL_TYPE_RGBA8888_BIT
                       then shr (vi_offset reg) 2 else shr (vi_offset reg) 1),
          fetch_width = vi_width reg,
          x_offset = (if divot then - 3 else - 2), y_offset = - 2,
          x_res = extract_width divot (max_x reg), y_res = extract_height (max_y reg),
          fetch_status = vi_status reg\<rparr>)"

text \<open>
  \<open>scanout\<close>: the image it returns, the extraction it started, and the rectangle it drew.
  \<open>img\<close> is the number of the image this call may create.
\<close>

definition scanout ::
  "u32 list \<Rightarrow> scanout_options \<Rightarrow> nat \<Rightarrow> nat \<Rightarrow> nat \<Rightarrow> vi_frame_state \<Rightarrow>
   vi_frame_state \<times> nat option \<times> vram_fetch option" where
  "scanout r opts scaling_factor target_layout img s =
     (let reg = decode_vi_registers r
      in if vi_offset reg = 0 then (s\<lparr>prev_scanout_image := None\<rparr>, None, None)
         else
           let status = effective_status opts (vi_status reg);
               is_blank = (status AND VI_CONTROL_TYPE_RGBA5551_BIT = 0)
           in if is_blank \<and> previous_frame_blank s
              then (s\<lparr>frame_count := frame_count s + 1, prev_scanout_image := None\<rparr>, None, None)
              else
                let s = (if is_blank then s\<lparr>prev_scanout_image := None\<rparr> else s);
                    reg = reg\<lparr>vi_status := status OR VI_CONTROL_TYPE_RGBA5551_BIT\<rparr>;
                    s = s\<lparr>previous_frame_blank := is_blank\<rparr>
                in if h_res reg \<le> 0 \<or> h_start reg \<ge> VI_SCANOUT_WIDTH then
                     let s = s\<lparr>frame_count := frame_count s + 1\<rparr>
                     in if persist_frame_on_invalid_input opts \<and> frame_count s - last_valid_frame_count s < 4
                        then (if prev_scanout_image s \<noteq> None then s\<lparr>prev_image_layout := target_layout\<rparr> else s,
                              prev_scanout_image s, None)
                        else (s\<lparr>prev_scanout_image := None\<rparr>, None, None)
                   else
                     let s = s\<lparr>last_valid_frame_count := frame_count s\<rparr>;
                         degenerate = (h_res reg \<le> 0 \<or> v_res reg \<le> 0);
                         reg = scale_registers (int scaling_factor) reg
                     in (s\<lparr>prev_image_layout := target_layout, prev_scanout_image := Some img,
                           frame_count := frame_count s + 1\<rparr>,
                         Some img, if degenerate then None else Some (vram_fetch_stage reg)))"

text \<open>
  The byte address the extraction shader reads for a pixel, for memory of \<open>sz\<close> bytes; the
  halves of a word are swapped.
\<close>

definition fetch_address :: "nat \<Rightarrow> nat \<Rightarrow> vram_fetch \<Rightarrow> int \<Rightarrow> int \<Rightarrow> nat" where
  "fetch_address sz scaling_log2 f px py =
     (let x = (px + x_offset f) div 2 ^ scaling_log2;
          y = (py + y_offset f) div 2 ^ scaling_log2;
          linear = y * fetch_width f + x + uint (fb_offset f)
      in if fetch_status f AND VI_CONTROL_TYPE_MASK = VI_CONTROL_TYPE_RGBA8888_BIT
         then nat (linear mod int (sz div 4)) * 4
         else (nat (linear mod int (sz div 2)) XOR 1) * 2)"

end
