(* ===== verification/VI_Properties.thy ===== *)
theory VI_Properties
  imports Video_Interface Coherency_Properties
begin

text \<open>
  What the video interface promises: the memory range it has the renderer bring up to date
  covers every pixel it reads, an invalid frame shows the last image for two frames at most,
  the downscaled image has the size of the unscaled one, and the rectangle it draws is valid.
\<close>

section \<open>Decoded registers\<close>

lemma uint_fields:
  "uint ((w :: u32) AND 0xfff) \<le> 4095" "uint ((w :: u32) AND 0x3ff) \<le> 1023"
  using word_and_le1 [of w "0xfff"] word_and_le1 [of w "0x3ff"] by (simp_all add: word_le_def)

lemma diff_bounds:
  assumes "0 \<le> a" "a \<le> 1023" "0 \<le> b" "b \<le> (1023 :: int)"
  shows "\<bar>b - a\<bar> < 1024 \<and> \<bar>(b - a) div 2\<bar> \<le> 512"
  using assms by auto

lemma offset_bounds:
  assumes "0 \<le> a" "a \<le> (1023 :: int)"
  shows "- 128 \<le> a - 128 \<and> a - 128 < 1024 \<and> - 128 \<le> a - 108 \<and> a - 108 < 1024 \<and>
    - 22 \<le> (a - 44) sdiv 2 \<and> (a - 44) sdiv 2 < 512 \<and> - 22 \<le> (a - 34) sdiv 2 \<and> (a - 34) sdiv 2 < 512"
  using assms by (simp add: signed_divide_int_def sgn_if) auto

text \<open>Every field fits into 24 bits and a sign, so no intermediate value of the code leaves an \<open>int\<close>.\<close>

lemma raw_bounds:
  "0 \<le> x_start (raw_vi_registers r)" "0 \<le> y_start (raw_vi_registers r)"
  "0 \<le> x_add (raw_vi_registers r)" "x_add (raw_vi_registers r) < 4096"
  "0 \<le> y_add (raw_vi_registers r)" "y_add (raw_vi_registers r) < 4096"
  "0 \<le> vi_width (raw_vi_registers r)" "vi_width (raw_vi_registers r) < 4096"
  "x_start (raw_vi_registers r) < 4096" "y_start (raw_vi_registers r) < 4096"
  "- 128 \<le> h_start (raw_vi_registers r)" "h_start (raw_vi_registers r) < 1024"
  "- 22 \<le> v_start (raw_vi_registers r)" "v_start (raw_vi_registers r) < 512"
  "\<bar>h_res (raw_vi_registers r)\<bar> < 1024" "\<bar>v_res (raw_vi_registers r)\<bar> \<le> 512"
proof -
  note f = uint_fields(1) [of "r ! VIRegister_XScale"] uint_fields(1) [of "r ! VIRegister_YScale"]
    uint_fields(1) [of "shr (r ! VIRegister_XScale) 16"] uint_fields(1) [of "shr (r ! VIRegister_YScale) 16"]
    uint_fields(1) [of "r ! VIRegister_Width"]
  show "0 \<le> x_start (raw_vi_registers r)" "0 \<le> y_start (raw_vi_registers r)"
    "0 \<le> x_add (raw_vi_registers r)" "x_add (raw_vi_registers r) < 4096"
    "0 \<le> y_add (raw_vi_registers r)" "y_add (raw_vi_registers r) < 4096"
    "0 \<le> vi_width (raw_vi_registers r)" "vi_width (raw_vi_registers r) < 4096"
    "x_start (raw_vi_registers r) < 4096" "y_start (raw_vi_registers r) < 4096"
    using f by (simp_all add: raw_vi_registers_def Let_def)
  have u: "0 \<le> uint (w AND 0x3ff)" "uint (w AND 0x3ff) \<le> 1023" for w :: u32 using uint_fields(2) by simp_all
  note hs = u [of "shr (r ! VIRegister_HStart) 16"] and he = u [of "r ! VIRegister_HStart"]
    and vs = u [of "shr (r ! VIRegister_VStart) 16"] and ve = u [of "r ! VIRegister_VStart"]
  show "\<bar>h_res (raw_vi_registers r)\<bar> < 1024" "\<bar>v_res (raw_vi_registers r)\<bar> \<le> 512"
    using diff_bounds [OF hs he] diff_bounds [OF vs ve] by (simp_all add: raw_vi_registers_def Let_def)
  show "- 128 \<le> h_start (raw_vi_registers r)" "h_start (raw_vi_registers r) < 1024"
    using offset_bounds [OF hs] by (auto simp: raw_vi_registers_def Let_def VI_H_OFFSET_PAL_def VI_H_OFFSET_NTSC_def)
  show "- 22 \<le> v_start (raw_vi_registers r)" "v_start (raw_vi_registers r) < 512"
    using offset_bounds [OF vs] by (auto simp: raw_vi_registers_def Let_def VI_V_OFFSET_PAL_def VI_V_OFFSET_NTSC_def)
qed

lemma product_bounds:
  assumes "0 \<le> p" "p < 4096" "- n \<le> q" "q < (0 :: int)"
  shows "0 \<le> - (p * q)" "- (p * q) \<le> 4095 * n"
proof -
  have "p * (- q) \<le> 4095 * n" using assms by (intro mult_mono) simp_all
  moreover have "0 \<le> p * (- q)" using assms by (intro mult_nonneg_nonneg) simp_all
  ultimately show "0 \<le> - (p * q)" "- (p * q) \<le> 4095 * n" by simp_all
qed

lemma raw_status:
  "vi_status (raw_vi_registers r) = r ! VIRegister_Control"
  "vi_offset (raw_vi_registers r) = r ! VIRegister_Origin AND 0xffffff"
  by (simp_all add: raw_vi_registers_def Let_def)

lemma decode_bounds:
  fixes r
  defines "d \<equiv> decode_vi_registers r"
  shows "0 \<le> h_start d" "h_start d + h_res d \<le> 640" "0 \<le> v_start d" "v_start d < 512"
    "0 \<le> x_start d" "x_start d \<le> 528255" "0 \<le> y_start d" "y_start d \<le> 94185"
    "0 \<le> x_add d" "x_add d < 4096" "0 \<le> y_add d" "y_add d < 4096" "v_res d \<le> 512"
    "0 \<le> vi_width d" "vi_width d < 4096"
    "max_x d = (x_start d + h_res d * x_add d) div 1024" "max_y d = (y_start d + v_res d * y_add d) div 1024"
    "vi_status d = r ! VIRegister_Control" "vi_offset d = r ! VIRegister_Origin AND 0xffffff"
proof -
  note b = raw_bounds [of r]
  have px: "x_start (raw_vi_registers r) - x_add (raw_vi_registers r) * h_start (raw_vi_registers r) \<le> 528255 \<and>
      0 \<le> x_start (raw_vi_registers r) - x_add (raw_vi_registers r) * h_start (raw_vi_registers r)"
    if "h_start (raw_vi_registers r) < 0"
    using product_bounds [OF b(3,4,11) that] b(1,9) by simp
  have py: "y_start (raw_vi_registers r) - y_add (raw_vi_registers r) * v_start (raw_vi_registers r) \<le> 94185 \<and>
      0 \<le> y_start (raw_vi_registers r) - y_add (raw_vi_registers r) * v_start (raw_vi_registers r)"
    if "v_start (raw_vi_registers r) < 0"
    using product_bounds [OF b(5,6,13) that] b(2,10) by simp
  note simps = d_def decode_vi_registers_def Let_def VI_SCANOUT_WIDTH_def
  show "0 \<le> h_start d" "h_start d + h_res d \<le> 640" "0 \<le> v_start d" "v_start d < 512"
    using b(11-14) by (simp_all add: simps)
  show "0 \<le> x_start d" "x_start d \<le> 528255" using px b(1,9) by (simp_all add: simps)
  show "0 \<le> y_start d" "y_start d \<le> 94185" using py b(2,10) by (simp_all add: simps)
  show "0 \<le> x_add d" "x_add d < 4096" "0 \<le> y_add d" "y_add d < 4096" "0 \<le> vi_width d" "vi_width d < 4096"
    using b(3-8) by (simp_all add: simps)
  show "v_res d \<le> 512" using b(16) by (simp add: simps)
  show "max_x d = (x_start d + h_res d * x_add d) div 1024" "max_y d = (y_start d + v_res d * y_add d) div 1024"
    by (simp_all add: simps)
  show "vi_status d = r ! VIRegister_Control" "vi_offset d = r ! VIRegister_Origin AND 0xffffff"
    using raw_status [of r] by (simp_all add: simps)
qed

lemma max_bounds:
  assumes "0 < h_res (decode_vi_registers r)" "0 < v_res (decode_vi_registers r)"
  shows "0 \<le> max_x (decode_vi_registers r)" "max_x (decode_vi_registers r) \<le> 3075"
    "0 \<le> max_y (decode_vi_registers r)" "max_y (decode_vi_registers r) \<le> 2139"
proof -
  let ?d = "decode_vi_registers r"
  note b = decode_bounds [of r]
  have "h_res ?d * x_add ?d \<le> 640 * 4095" "v_res ?d * y_add ?d \<le> 512 * 4095"
    using b assms by (intro mult_mono; simp)+
  moreover have "0 \<le> h_res ?d * x_add ?d" "0 \<le> v_res ?d * y_add ?d"
    using b assms by (intro mult_nonneg_nonneg; simp)+
  ultimately show "0 \<le> max_x ?d" "max_x ?d \<le> 3075" "0 \<le> max_y ?d" "max_y ?d \<le> 2139"
    using b(5-8) unfolding b(16,17) by simp_all
qed

section \<open>The status word\<close>

lemma effective_status_type: "effective_status opts w AND 3 = w AND 3"
proof (rule bit_eqI)
  fix n
  assume "possible_bit TYPE(u32) n"
  then have n: "n < LENGTH(32)" by simp
  have "bit (effective_status opts w) n = bit w n" if "n < 2"
  proof -
    consider "n = 0" | "n = 1" using \<open>n < 2\<close> by linarith
    then show ?thesis
      by cases (simp_all add: effective_status_def Let_def vi_control_defs bit_simps)
  qed
  moreover have "bit (3 :: u32) n \<longleftrightarrow> n < 2"
    using bit_mask_iff [of 2 n, where ?'a = "32 word"] n by (auto simp: mask_eq_exp_minus_1)
  ultimately show "bit (effective_status opts w AND 3) n = bit (w AND 3) n" by (auto simp: bit_and_iff)
qed

lemma flag_set_bit4: "divot_enabled w \<longleftrightarrow> bit w 4"
  using flag_set_single [of 4 w] by (simp add: divot_enabled_def VI_CONTROL_DIVOT_ENABLE_BIT_def)

lemma effective_status_divot: "divot_enabled (effective_status opts w OR 2) \<Longrightarrow> divot_enabled w"
  by (auto simp: flag_set_bit4 effective_status_def Let_def vi_control_defs bit_simps bit_numeral_rec split: if_splits)


section \<open>The pixels a scanout reads\<close>

text \<open>A scanout that reads memory has read valid registers and scaled them.\<close>

lemma scanout_fetch:
  assumes "scanout r opts sf layout img s = (s', res, Some f)"
  obtains reg where "f = vram_fetch_stage (scale_registers (int sf)
      (reg\<lparr>vi_status := effective_status opts (vi_status reg) OR VI_CONTROL_TYPE_RGBA5551_BIT\<rparr>))"
    "reg = decode_vi_registers r" "vi_offset reg \<noteq> 0" "0 < h_res reg" "0 < v_res reg" "h_start reg < 640"
  using assms that [of "decode_vi_registers r"]
  by (auto simp: scanout_def Let_def VI_SCANOUT_WIDTH_def split: if_splits)

lemma pixel_size_effective:
  "(effective_status opts w OR VI_CONTROL_TYPE_RGBA5551_BIT) AND VI_CONTROL_TYPE_MASK = VI_CONTROL_TYPE_RGBA8888_BIT
    \<longleftrightarrow> pixel_size w = 4"
proof -
  have "(effective_status opts w OR 2) AND 3 = (effective_status opts w AND 3) OR (2 AND 3)"
    by (rule bit.conj_disj_distrib2)
  then show ?thesis
    by (simp add: pixel_size_def vi_control_defs effective_status_type)
qed

lemma pixel_size_cases: "pixel_size w = 4 \<or> pixel_size w = 2"
  by (simp add: pixel_size_def)

text \<open>Pixel coordinates, after the scaling is taken off, stay inside the borders.\<close>

lemma scaled_coordinate:
  fixes p :: int
  assumes "0 \<le> p" "p < mx * 2 ^ l + (2 ^ l - 1) + b" "off \<le> 0" "2 \<le> b + off"
  shows "off \<le> (p + off) div 2 ^ l" "(p + off) div 2 ^ l \<le> mx + b + off - 1"
proof -
  define S :: int where "S = 2 ^ l"
  have S: "1 \<le> S" by (simp add: S_def)
  have "off * S \<le> off * 1" using assms(3) S by (intro mult_left_mono_neg) simp_all
  then have "off * S \<le> p + off" using assms(1) by simp
  then show "off \<le> (p + off) div 2 ^ l" using S zdiv_mono1 [of "off * S" "p + off" S] by (simp add: S_def [symmetric])
  have "(b + off - 2) * 1 \<le> (b + off - 2) * S" using assms(4) S by (intro mult_left_mono) simp_all
  then have "p + off < (mx + b + off) * S" using assms(2) S by (simp add: S_def [symmetric] algebra_simps)
  moreover have "(p + off) div S * S \<le> p + off"
    using div_mult_mod_eq [of "p + off" S] pos_mod_sign [of S "p + off"] S by linarith
  ultimately have "(p + off) div S * S < (mx + b + off) * S" by linarith
  then have "(p + off) div S < mx + b + off" using S by (simp add: mult_less_cancel_right)
  then show "(p + off) div 2 ^ l \<le> mx + b + off - 1" by (simp add: S_def)
qed

text \<open>The page of an element of a range, whatever wraps on the way.\<close>

lemma page_of_element:
  assumes "k \<le> 22" "num_pages st = 2 ^ k" "base = word_of_int (F * ps)" "ps = 4 \<or> ps = 2"
    "0 \<le> q" "(q + 1) * ps \<le> uint n"
  shows "nat ((F + q) mod int (1024 * 2 ^ k div nat ps)) * nat ps div 1024 \<in> touched_pages st base n"
proof -
  let ?sz = "1024 * 2 ^ k :: int"
  define a where "a = nat (uint base + q * ps)"
  have ps: "0 < ps" using assms(4) by auto
  have q: "0 \<le> q * ps" "q * ps < uint n" using assms(5,6) ps by (simp_all add: algebra_simps)
  then have a: "int a = uint base + q * ps" by (simp add: a_def)
  have "int (unat base) \<le> int a \<and> int a < int (unat base + unat n)" unfolding a using q by simp
  then have mem: "a \<in> {unat base..<unat base + unat n}"
    by (simp only: of_nat_le_iff of_nat_less_iff atLeastLessThan_iff)
  have "?sz dvd 2 ^ 32"
  proof -
    have "?sz = 2 ^ (10 + k)" by (simp add: power_add)
    then show ?thesis using assms(1) by (simp only: le_imp_power_dvd)
  qed
  moreover have "uint base = F * ps mod 2 ^ 32" by (simp only: assms(3) uint_word_of_int) simp
  ultimately have "uint base mod ?sz = F * ps mod ?sz" by (simp only: mod_mod_cancel)
  from mod_add_cong [OF this refl, of "q * ps"] have "int a mod ?sz = (F + q) * ps mod ?sz"
    unfolding a by (simp only: distrib_right)
  also have "\<dots> = ((F + q) mod (?sz div ps)) * ps"
  proof -
    have "ps dvd ?sz" using assms(4) by auto
    then have "?sz = ?sz div ps * ps" by simp
    then show ?thesis using mult_mod_left [of "F + q" "?sz div ps" ps] by simp
  qed
  finally have "a mod (1024 * 2 ^ k) = nat ((F + q) mod (?sz div ps)) * nat ps"
  proof -
    assume e: "int a mod ?sz = ((F + q) mod (?sz div ps)) * ps"
    have "0 \<le> (F + q) mod (?sz div ps)" using assms(4) by auto
    then have "nat (int a mod ?sz) = nat ((F + q) mod (?sz div ps)) * nat ps"
      unfolding e using ps by (simp add: nat_mult_distrib)
    moreover have "nat (int a mod ?sz) = a mod (1024 * 2 ^ k)" by (simp add: nat_mod_distrib nat_mult_distrib nat_power_eq)
    ultimately show ?thesis by simp
  qed
  moreover have "a mod (1024 * 2 ^ k) div 1024 = a div 1024 mod 2 ^ k"
    by (simp add: mod_mult2_eq)
  ultimately show ?thesis
    unfolding touched_pages_def assms(2) using mem assms(4) by auto
qed

lemma swapped_halves: "(e XOR Suc 0) div 512 = e div (512 :: nat)"
proof -
  have "drop_bit 1 (e XOR 1) = drop_bit 1 e" by (simp only: drop_bit_xor) simp
  then have "(e XOR Suc 0) div 2 = e div 2" by (simp add: drop_bit_eq_div)
  moreover have "x div 512 = x div 2 div 256" for x :: nat by (simp add: div_mult2_eq [symmetric])
  ultimately show ?thesis by simp
qed

lemma aligned_offset:
  "(w :: u32) AND NOT 3 = word_of_int (uint (shr w 2) * 4)" "w AND NOT 1 = word_of_int (uint (shr w 1) * 2)"
proof -
  have "w AND NOT (mask n) = push_bit n (shr w n)" for n by (rule bit_eqI) (auto simp: bit_simps)
  then have m: "w AND NOT (mask n) = shr w n * 2 ^ n" for n by (simp add: push_bit_eq_mult)
  show "w AND NOT 3 = word_of_int (uint (shr w 2) * 4)"
    using m [of 2] by (simp add: mask_eq_exp_minus_1)
  show "w AND NOT 1 = word_of_int (uint (shr w 1) * 2)"
    using m [of 1] by (simp add: mask_eq_exp_minus_1)
qed

text \<open>The range as the code computes it: a number of pixels from a first one.\<close>

lemma scanout_range_eq:
  assumes "d = decode_vi_registers r" "vi_offset d \<noteq> 0" "0 < h_res d" "0 < v_res d" "h_start d < 640"
    "compute_scanout_memory_range d = (base, n)"
  defines "ps \<equiv> pixel_size (vi_status d)" and "dv \<equiv> divot_enabled (vi_status d)"
  defines "fb \<equiv> uint (if ps = 4 then shr (vi_offset d) 2 else shr (vi_offset d) 1)"
  shows "base = word_of_int ((fb + ((if dv then - 3 else - 2) - 2 * vi_width d)) * ps)"
    "uint n = (extract_height (max_y d) * vi_width d + extract_width dv (max_x d)) * ps"
proof -
  have r: "base = (vi_offset d AND NOT (word_of_int (ps - 1))) +
      word_of_int (((if dv then - 3 else - 2) + - 2 * vi_width d) * ps)"
    "n = word_of_int ((extract_height (max_y d) * vi_width d + extract_width dv (max_x d)) * ps)"
    using assms(2,3,5,6) by (auto simp: compute_scanout_memory_range_def Let_def ps_def dv_def VI_SCANOUT_WIDTH_def)
  have "vi_offset d AND NOT (word_of_int (ps - 1)) = word_of_int (fb * ps)"
    using pixel_size_cases [of "vi_status d"] aligned_offset [of "vi_offset d"] by (auto simp: ps_def fb_def)
  then show "base = word_of_int ((fb + ((if dv then - 3 else - 2) - 2 * vi_width d)) * ps)"
    unfolding r(1) by (simp only: of_int_add [symmetric]) (simp add: algebra_simps)
  let ?len = "extract_height (max_y d) * vi_width d + extract_width dv (max_x d)"
  have mx: "0 \<le> max_x d" "max_x d \<le> 3075" "0 \<le> max_y d" "max_y d \<le> 2139" "0 \<le> vi_width d" "vi_width d < 4096"
    using max_bounds [of r] decode_bounds(14,15) [of r] assms(1,3,4) by auto
  have "extract_height (max_y d) * vi_width d \<le> 2144 * 4095"
    using mx by (intro mult_mono) (simp_all add: extract_height_def)
  moreover have "0 \<le> extract_height (max_y d) * vi_width d"
    using mx by (intro mult_nonneg_nonneg) (simp_all add: extract_height_def)
  ultimately have "0 \<le> ?len * ps \<and> ?len * ps < 2 ^ 32"
    using mx pixel_size_cases [of "vi_status d"] by (auto simp: ps_def extract_width_def of_bool_def)
  then show "uint n = ?len * ps" unfolding r(2) by (simp only: uint_word_of_int) simp
qed

text \<open>
  C19. A scanout reads only memory that was brought up to date for it: every word the
  extraction reads, for every pixel, every scaling factor and every setting of the options,
  lies in a page of the range that \<open>scanout_memory_range\<close> reports for the same registers,
  addresses that wrap around memory included.
\<close>

theorem scanout_reads_reported_range:
  assumes "scanout r opts (2 ^ l) layout img s = (s', res, Some f)"
    "compute_scanout_memory_range (decode_vi_registers r) = (base, n)"
    "num_pages st = 2 ^ k" "k \<le> 22"
    "0 \<le> px" "px < x_res f" "0 \<le> py" "py < y_res f"
  shows "fetch_address (1024 * 2 ^ k) l f px py div 1024 \<in> touched_pages st base n"
proof -
  define d where "d = decode_vi_registers r"
  define w where "w = effective_status opts (vi_status d) OR VI_CONTROL_TYPE_RGBA5551_BIT"
  define ps where "ps = pixel_size (vi_status d)"
  define dv where "dv = divot_enabled (vi_status d)"
  define fb where "fb = uint (if ps = 4 then shr (vi_offset d) 2 else shr (vi_offset d) 1)"
  from scanout_fetch [OF assms(1)] have f: "f = vram_fetch_stage (scale_registers (int (2 ^ l)) (d\<lparr>vi_status := w\<rparr>))"
    and d: "vi_offset d \<noteq> 0" "0 < h_res d" "0 < v_res d" "h_start d < 640"
    unfolding d_def w_def by metis+
  have rgba: "w AND VI_CONTROL_TYPE_MASK = VI_CONTROL_TYPE_RGBA8888_BIT \<longleftrightarrow> ps = 4"
    unfolding w_def ps_def by (rule pixel_size_effective)
  have dvw: "divot_enabled w \<Longrightarrow> dv"
    unfolding w_def dv_def VI_CONTROL_TYPE_RGBA5551_BIT_def by (rule effective_status_divot)
  have W: "0 \<le> vi_width d" using decode_bounds(14) [of r] by (simp add: d_def)
  have fields: "fetch_status f = w" "fetch_width f = vi_width d" "uint (fb_offset f) = fb" "y_offset f = - 2"
    "x_offset f = (if divot_enabled w then - 3 else - 2)"
    "x_res f = max_x d * 2 ^ l + (2 ^ l - 1) + (6 + of_bool (divot_enabled w) * 2)"
    "y_res f = max_y d * 2 ^ l + (2 ^ l - 1) + 5"
    using rgba by (simp_all add: f vram_fetch_stage_def scale_registers_def extract_width_def extract_height_def fb_def Let_def)
  let ?x = "(px + x_offset f) div 2 ^ l" and ?y = "(py + y_offset f) div 2 ^ l"
  let ?xo = "if dv then - 3 else - 2 :: int"
  have x: "?xo \<le> ?x" "?x \<le> max_x d + 5 + of_bool dv * 2 + ?xo"
    using scaled_coordinate [of px "max_x d" l "6 + of_bool (divot_enabled w) * 2" "x_offset f"]
      assms(5,6) dvw unfolding fields by (auto split: if_splits)
  have y: "- 2 \<le> ?y" "?y \<le> max_y d + 2"
    using scaled_coordinate [of py "max_y d" l 5 "- 2"] assms(7,8) unfolding fields by auto
  define F where "F = fb + (?xo - 2 * vi_width d)"
  define q where "q = (?y + 2) * vi_width d + (?x - ?xo)"
  have linear: "?y * fetch_width f + ?x + uint (fb_offset f) = F + q"
    by (simp add: fields F_def q_def algebra_simps)
  note range = scanout_range_eq [OF d_def d assms(2) [folded d_def], folded ps_def dv_def, folded fb_def]
  have "(?y + 2) * vi_width d \<le> (extract_height (max_y d) - 1) * vi_width d"
    using y W by (intro mult_right_mono) (simp_all add: extract_height_def)
  then have "q + 1 \<le> extract_height (max_y d) * vi_width d + extract_width dv (max_x d)"
    using x W by (simp add: q_def extract_width_def algebra_simps)
  moreover have ps: "ps = 4 \<or> ps = 2" unfolding ps_def by (rule pixel_size_cases)
  ultimately have "(q + 1) * ps \<le> uint n" unfolding range(2) by (intro mult_right_mono) auto
  moreover have "0 \<le> q" using x y W by (simp add: q_def)
  moreover have "base = word_of_int (F * ps)" using range(1) by (simp add: F_def)
  ultimately have p: "nat ((F + q) mod int (1024 * 2 ^ k div nat ps)) * nat ps div 1024 \<in> touched_pages st base n"
    using page_of_element [OF assms(4,3) _ ps] by blast
  have address: "fetch_address (1024 * 2 ^ k) l f px py =
      (if ps = 4 then nat ((F + q) mod int (1024 * 2 ^ k div 4)) * 4
       else (nat ((F + q) mod int (1024 * 2 ^ k div 2)) XOR 1) * 2)"
    unfolding fetch_address_def Let_def linear by (simp only: fields(1) rgba)
  show ?thesis
  proof (cases "ps = 4")
    case True
    with p show ?thesis unfolding address by simp
  next
    case False
    with ps p show ?thesis unfolding address by (simp add: swapped_halves)
  qed
qed

text \<open>A 320 pixel wide 32-bit picture and, with an empty horizontal extent, one that is invalid.\<close>

definition example_registers :: "u32 \<Rightarrow> u32 list" where
  "example_registers hstart = [3, 0x100, 320, 0, 0, 0, 525, 0, 0, hstart, 0x002501ff, 0, 0x200, 0x400]"

definition example_options :: scanout_options where
  "example_options =
     \<lparr>crop_overscan_pixels = 0, downscale_steps = 0, persist_frame_on_invalid_input = True,
      blend_previous_frame = False, upscale_deinterlacing = True, opt_aa = True, opt_scale = True,
      opt_serrate = True, opt_dither_filter = True, opt_divot_filter = True, opt_gamma_dither = True\<rparr>"

theorem scanout_reads_reported_range_witness:
  "\<exists>f. snd (snd (scanout (example_registers 0x006c02ec) example_options (2 ^ 0) 0 7 initial_frame_state)) = Some f \<and>
     fetch_address (1024 * 2 ^ 12) 0 f 0 0 div 1024 \<in>
       touched_pages (init_pages (1024 * 2 ^ 12) True)
         (fst (compute_scanout_memory_range (decode_vi_registers (example_registers 0x006c02ec))))
         (snd (compute_scanout_memory_range (decode_vi_registers (example_registers 0x006c02ec))))"
proof -
  let ?s = "scanout (example_registers 0x006c02ec) example_options 1 0 7 initial_frame_state"
  have "(case snd (snd ?s) of Some f \<Rightarrow> 0 < x_res f \<and> 0 < y_res f | None \<Rightarrow> False)" by code_simp
  then obtain f where f: "snd (snd ?s) = Some f" "0 < x_res f" "0 < y_res f" by (auto split: option.splits)
  then have s: "scanout (example_registers 0x006c02ec) example_options (2 ^ 0) 0 7 initial_frame_state =
      (fst ?s, fst (snd ?s), Some f)"
    by (simp only: power_0 f(1) [symmetric] prod.collapse)
  have n: "num_pages (init_pages (1024 * 2 ^ 12) True) = 2 ^ 12"
    by (simp add: init_pages_def Let_def div_round_up_def IncoherentPageSize_def)
  from scanout_reads_reported_range [OF s prod.collapse [symmetric] n _ _ f(2) _ f(3)] f(1)
  show ?thesis by (intro exI [of _ f]) simp
qed

section \<open>Frames without a picture\<close>

type_synonym scanout_request = "u32 list \<times> scanout_options \<times> nat \<times> nat"

text \<open>Successive scanouts; the images they may create are numbered from \<open>img\<close>.\<close>

fun scanout_all :: "nat \<Rightarrow> scanout_request list \<Rightarrow> vi_frame_state \<Rightarrow> nat option list" where
  "scanout_all img [] s = []"
| "scanout_all img ((r, opts, sf, layout) # reqs) s =
     (let (s', res, f) = scanout r opts sf layout img s in res # scanout_all (Suc img) reqs s')"

definition blank_frame :: "u32 list \<Rightarrow> scanout_options \<Rightarrow> bool" where
  "blank_frame r opts \<longleftrightarrow>
     effective_status opts (vi_status (decode_vi_registers r)) AND VI_CONTROL_TYPE_RGBA5551_BIT = 0"

definition valid_extent :: "u32 list \<Rightarrow> bool" where
  "valid_extent r \<longleftrightarrow> 0 < h_res (decode_vi_registers r) \<and> h_start (decode_vi_registers r) < VI_SCANOUT_WIDTH"

definition invalid_request :: "scanout_request \<Rightarrow> bool" where
  "invalid_request q \<longleftrightarrow> (case q of (r, opts, sf, layout) \<Rightarrow>
     vi_offset (decode_vi_registers r) \<noteq> 0 \<and> \<not> blank_frame r opts \<and> \<not> valid_extent r \<and>
     persist_frame_on_invalid_input opts)"

lemma scanout_invalid:
  assumes "invalid_request (r, opts, sf, layout)" "scanout r opts sf layout img s = (s', res, f)"
  shows "frame_count s' = frame_count s + 1" "last_valid_frame_count s' = last_valid_frame_count s"
    "res = (if frame_count s + 1 - last_valid_frame_count s < 4 then prev_scanout_image s else None)"
    "prev_scanout_image s' = res"
  using assms
  by (auto simp: scanout_def invalid_request_def blank_frame_def valid_extent_def Let_def not_less
      split: if_splits)

lemma scanout_invalid_none:
  "list_all invalid_request reqs \<Longrightarrow> prev_scanout_image s = None \<Longrightarrow>
    scanout_all img reqs s = replicate (length reqs) None"
proof (induction reqs arbitrary: img s)
  case (Cons q reqs)
  obtain r opts sf layout where q: "q = (r, opts, sf, layout)" using prod_cases4 .
  obtain s' res f where s': "scanout r opts sf layout img s = (s', res, f)" using prod_cases3 .
  have "invalid_request (r, opts, sf, layout)" using Cons.prems(1) q by simp
  note i = scanout_invalid [OF this s']
  then have "res = None" "prev_scanout_image s' = None" using Cons.prems(2) by auto
  then show ?case using Cons by (simp add: q s')
qed simp

lemma scanout_valid:
  assumes "vi_offset (decode_vi_registers r) \<noteq> 0" "\<not> (blank_frame r opts \<and> previous_frame_blank s)" "valid_extent r"
    "scanout r opts sf layout img s = (s', res, f)"
  shows "res = Some img" "prev_scanout_image s' = Some img" "frame_count s' = frame_count s + 1"
    "last_valid_frame_count s' = frame_count s"
  using assms by (auto simp: scanout_def blank_frame_def valid_extent_def Let_def split: if_splits)

text \<open>The age of the last valid frame decides how often its image is still shown.\<close>

lemma scanout_invalid_age:
  assumes "list_all invalid_request reqs" "prev_scanout_image s = Some i"
    "frame_count s - last_valid_frame_count s = of_nat a" "a \<le> 3"
  shows "scanout_all img reqs s = take (length reqs) (replicate (3 - a) (Some i)) @ replicate (length reqs - (3 - a)) None"
  using assms
proof (induction reqs arbitrary: img s a)
  case (Cons q reqs)
  obtain r opts sf layout where q: "q = (r, opts, sf, layout)" using prod_cases4 .
  obtain s' res f where s': "scanout r opts sf layout img s = (s', res, f)" using prod_cases3 .
  have inv: "invalid_request (r, opts, sf, layout)" using Cons.prems(1) q by simp
  note i = scanout_invalid [OF inv s']
  have age: "frame_count s + 1 - last_valid_frame_count s = of_nat (Suc a)"
    using Cons.prems(3) by (simp add: algebra_simps)
  show ?case
  proof (cases "a = 3")
    case True
    then have "res = None" using i(3) unfolding age by simp
    then show ?thesis
      using scanout_invalid_none [of reqs s' "Suc img"] Cons.prems(1) i(4) True by (simp add: q s')
  next
    case False
    then have a: "a = 0 \<or> a = 1 \<or> a = 2" using Cons.prems(4) by linarith
    then have "res = Some i" using i(3) Cons.prems(2) unfolding age by auto
    moreover have "frame_count s' - last_valid_frame_count s' = of_nat (Suc a)"
      using i(1,2) age by simp
    ultimately have "scanout_all (Suc img) reqs s' =
        take (length reqs) (replicate (3 - Suc a) (Some i)) @ replicate (length reqs - (3 - Suc a)) None"
      using Cons.IH [of s' "Suc a" "Suc img"] Cons.prems(1) i(4) False Cons.prems(4) by simp
    then show ?thesis using \<open>res = Some i\<close> a by (auto simp: q s')
  qed
qed simp

text \<open>
  With persistence enabled, the image of a valid frame is shown again for the first two of
  the invalid frames that follow, and from the third on nothing is shown, however long the
  invalid state lasts and wherever the 32-bit frame counter stands.
\<close>

theorem invalid_frames_persist_twice:
  assumes "vi_offset (decode_vi_registers r) \<noteq> 0" "\<not> (blank_frame r opts \<and> previous_frame_blank s)" "valid_extent r"
    "list_all invalid_request reqs"
  shows "scanout_all img ((r, opts, sf, layout) # reqs) s =
    Some img # take (length reqs) [Some img, Some img] @ replicate (length reqs - 2) None"
proof -
  obtain s1 res1 f1 where s1: "scanout r opts sf layout img s = (s1, res1, f1)" using prod_cases3 .
  note v = scanout_valid [OF assms(1-3) s1]
  have "frame_count s1 - last_valid_frame_count s1 = of_nat 1" using v(3,4) by simp
  from scanout_invalid_age [OF assms(4) v(2) this] v(1) s1 show ?thesis by (simp add: numeral_2_eq_2)
qed

theorem invalid_frames_persist_twice_witness:
  "scanout_all 7 ((example_registers 0x006c02ec, example_options, 1, 0) #
       replicate 4 (example_registers 0, example_options, 1, 0)) initial_frame_state =
     [Some 7, Some 7, Some 7, None, None]"
proof -
  have "vi_offset (decode_vi_registers (example_registers 0x006c02ec)) \<noteq> 0"
    "\<not> (blank_frame (example_registers 0x006c02ec) example_options \<and> previous_frame_blank initial_frame_state)"
    "valid_extent (example_registers 0x006c02ec)"
    "list_all invalid_request (replicate 4 (example_registers 0, example_options, 1, 0))"
    by code_simp+
  from invalid_frames_persist_twice [OF this] show ?thesis by (simp add: numeral_eq_Suc)
qed

section \<open>Render targets\<close>

lemma unat_times_power: "unat (v * 2 ^ m :: u32) = unat v * 2 ^ m" if "unat v * 2 ^ m < 2 ^ 32"
proof -
  have "v * 2 ^ m = word_of_nat (unat v * 2 ^ m)" by simp
  then have "unat (v * 2 ^ m) = take_bit 32 (unat v * 2 ^ m)" by (simp only: unat_of_nat) (simp add: take_bit_eq_mod)
  with that show ?thesis by (simp add: take_bit_nat_eq_self)
qed

lemma half_shifted: "(v * 2 ^ Suc l :: u32) div 2 = v * 2 ^ l" if "unat v * 2 ^ Suc l < 2 ^ 32"
proof (rule word_unat_eq_iff [THEN iffD2])
  have "unat v * 2 ^ l < 2 ^ 32" using that by simp
  then show "unat (v * 2 ^ Suc l div 2) = unat (v * 2 ^ l)"
    using unat_times_power [OF that] unat_times_power [of v l] by (simp only: unat_div) simp
qed

lemma downscale_power:
  "downscale_stage (2 ^ l) (l + n) (w * 2 ^ l, h * 2 ^ l) = (w, h)"
  if "unat w * 2 ^ l < 2 ^ 32" "unat h * 2 ^ l < 2 ^ 32" "l < 32"
  using that
proof (induction l)
  case 0
  then show ?case by (simp add: downscale_stage.simps)
next
  case (Suc l)
  have "downscale_stage (2 ^ Suc l) (Suc l + n) (w * 2 ^ Suc l, h * 2 ^ Suc l) =
      downscale_stage (2 ^ l) (l + n) ((w * 2 ^ Suc l) div 2, (h * 2 ^ Suc l) div 2)"
    using one_less_power [of "2 :: nat" "Suc l"] by (subst downscale_stage.simps) auto
  also have "\<dots> = downscale_stage (2 ^ l) (l + n) (w * 2 ^ l, h * 2 ^ l)"
    by (simp only: half_shifted [OF Suc.prems(1)] half_shifted [OF Suc.prems(2)])
  also have "\<dots> = (w, h)" using Suc by simp
  finally show ?case .
qed

lemma small_shifted: "unat (v :: u32) * 2 ^ l < 2 ^ 32" if "unat v \<le> 640" "l \<le> 3"
proof -
  have "unat v * 2 ^ l \<le> 640 * 2 ^ 3" using that by (intro mult_mono power_increasing) auto
  then show ?thesis by simp
qed

text \<open>The size of the unscaled picture: what is left of the lines without the overscan.\<close>

lemma render_target_scaled:
  "render_target_width (derive_vi_scale_policy (i\<lparr>si_scaling_factor := 2 ^ l\<rparr>)) =
     render_target_width (derive_vi_scale_policy (i\<lparr>si_scaling_factor := 1\<rparr>)) * 2 ^ l"
  "render_target_height (derive_vi_scale_policy (i\<lparr>si_scaling_factor := 2 ^ l\<rparr>)) =
     render_target_height (derive_vi_scale_policy (i\<lparr>si_scaling_factor := 1\<rparr>)) * 2 ^ l"
  by (simp_all add: derive_vi_scale_policy_def Let_def algebra_simps)

lemma unat_less_twice: "unat (a - 2 * c :: u32) \<le> unat a"
  if "unat c \<le> 240" "480 \<le> unat a"
proof -
  have "unat (2 * c) = 2 * unat c" using that(1) by (simp add: unat_word_ariths)
  then show ?thesis using that by (simp add: unat_sub word_le_nat_alt)
qed

lemma unat_twice_small: "unat (2 * c :: u32) = 2 * unat c" if "unat c \<le> 240"
  using that by (simp add: unat_word_ariths)

lemma render_target_bounds:
  "unat (render_target_width (derive_vi_scale_policy (i\<lparr>si_scaling_factor := 1\<rparr>))) \<le> 640"
  "unat (render_target_height (derive_vi_scale_policy (i\<lparr>si_scaling_factor := 1\<rparr>))) \<le> 640"
  if "unat (si_crop_overscan_pixels i) \<le> 120"
proof -
  let ?c = "si_crop_overscan_pixels i"
  have c: "unat (2 * ?c) \<le> 240" using that by (simp add: unat_twice_small)
  show "unat (render_target_width (derive_vi_scale_policy (i\<lparr>si_scaling_factor := 1\<rparr>))) \<le> 640"
    using unat_less_twice [of ?c 640] that by (simp add: derive_vi_scale_policy_def Let_def VI_SCANOUT_WIDTH_def)
  have "unat (a - 2 * (?c * k)) \<le> 640" if "a = 480 \<and> k = 2 \<or> a = 576 \<and> k = 2 \<or> a = 240 \<and> k = 1 \<or> a = 288 \<and> k = 1"
    for a k :: u32
  proof -
    have "2 * (?c * k) \<le> a" "unat a \<le> 640"
      using that \<open>unat ?c \<le> 120\<close> by (auto simp: word_le_nat_alt unat_word_ariths)
    then show ?thesis by (simp add: unat_sub word_le_nat_alt)
  qed
  then show "unat (render_target_height (derive_vi_scale_policy (i\<lparr>si_scaling_factor := 1\<rparr>))) \<le> 640"
    by (auto simp: derive_vi_scale_policy_def Let_def VI_V_RES_PAL_def VI_V_RES_NTSC_def)
qed

text \<open>An image rendered at a scaling factor of two, four or eight is halved by enough
  downscale steps to exactly the size of the image rendered without upscaling.\<close>

theorem downscaled_to_native_size:
  assumes "l \<le> 3" "l \<le> n" "unat (si_crop_overscan_pixels i) \<le> 120"
  defines "scaled \<equiv> derive_vi_scale_policy (i\<lparr>si_scaling_factor := 2 ^ l\<rparr>)"
    and "native \<equiv> derive_vi_scale_policy (i\<lparr>si_scaling_factor := 1\<rparr>)"
  shows "downscale_stage (2 ^ l) n (render_target_width scaled, render_target_height scaled) =
    (render_target_width native, render_target_height native)"
proof -
  obtain k where n: "n = l + k" using \<open>l \<le> n\<close> le_Suc_ex by blast
  show ?thesis unfolding n scaled_def native_def render_target_scaled
    using assms(1,3) by (intro downscale_power small_shifted render_target_bounds) auto
qed

theorem downscaled_to_native_size_witness:
  "downscale_stage 4 2 (2496, 896) = (624, 224)"
  using downscaled_to_native_size [where l = 2 and n = 2 and i = "\<lparr>si_is_pal = False, si_status = 0,
    si_v_start = 0, si_v_res = 0, si_v_current_line = 0, si_crop_overscan_pixels = 8,
    si_scaling_factor = 1, si_upscale_deinterlacing = False\<rparr>"]
  by (simp add: derive_vi_scale_policy_def Let_def VI_SCANOUT_WIDTH_def VI_V_RES_NTSC_def)

end
