(* ===== verification/Event_Pool.thy ===== *)
theory Event_Pool
  imports RDP_Prelude "HOL-Library.Monad_Syntax"
begin

text \<open>
  The interrupt event queue of \<open>mupen64plus-core/src/r4300/interrupt.c\<close> as it is laid out in
  memory: a pool of sixteen nodes with a stack of free ones, and a singly linked list through
  the nodes. A pointer to a node is its index, \<open>NULL\<close> is \<open>None\<close>. A function whose result is
  an \<open>option\<close> answers \<open>None\<close> where the code would follow a null pointer or never leave a
  loop over the list; that neither happens is shown in \<open>Event_Queue\<close>.
\<close>

section \<open>Registers of coprocessor 0\<close>

datatype cp0_registers =
    CP0_INDEX_REG | CP0_RANDOM_REG | CP0_ENTRYLO0_REG | CP0_ENTRYLO1_REG | CP0_CONTEXT_REG
  | CP0_PAGEMASK_REG | CP0_WIRED_REG | CP0_BADVADDR_REG | CP0_COUNT_REG | CP0_ENTRYHI_REG
  | CP0_COMPARE_REG | CP0_STATUS_REG | CP0_CAUSE_REG | CP0_EPC_REG | CP0_PREVID_REG
  | CP0_CONFIG_REG | CP0_LLADDR_REG | CP0_WATCHLO_REG | CP0_WATCHHI_REG | CP0_XCONTEXT_REG
  | CP0_TAGLO_REG | CP0_TAGHI_REG | CP0_ERROREPC_REG

section \<open>Event types\<close>

definition VI_INT :: u32 where "VI_INT = 0x001"
definition COMPARE_INT :: u32 where "COMPARE_INT = 0x002"
definition CHECK_INT :: u32 where "CHECK_INT = 0x004"
definition SI_INT :: u32 where "SI_INT = 0x008"
definition PI_INT :: u32 where "PI_INT = 0x010"
definition SPECIAL_INT :: u32 where "SPECIAL_INT = 0x020"
definition AI_INT :: u32 where "AI_INT = 0x040"
definition SP_INT :: u32 where "SP_INT = 0x080"
definition DP_INT :: u32 where "DP_INT = 0x100"
definition HW2_INT :: u32 where "HW2_INT = 0x200"
definition NMI_INT :: u32 where "NMI_INT = 0x400"
definition CART_INT :: u32 where "CART_INT = 0x800"

lemmas event_types = VI_INT_def COMPARE_INT_def CHECK_INT_def SI_INT_def PI_INT_def SPECIAL_INT_def
  AI_INT_def SP_INT_def DP_INT_def HW2_INT_def NMI_INT_def CART_INT_def

section \<open>The pool\<close>

definition POOL_CAPACITY :: nat where "POOL_CAPACITY = 16"

record event_node =
  ev_type :: u32
  ev_count :: u32
  ev_next :: "nat option"

record event_pool =
  pool_nodes :: "event_node list"
  pool_stack :: "nat list"
  pool_index :: nat

definition alloc_node :: "event_pool \<Rightarrow> (nat \<times> event_pool) option" where
  "alloc_node p =
     (if pool_index p \<ge> POOL_CAPACITY then None
      else Some (pool_stack p ! pool_index p, p\<lparr>pool_index := pool_index p + 1\<rparr>))"

definition free_node :: "event_pool \<Rightarrow> nat option \<Rightarrow> event_pool" where
  "free_node p node =
     (case node of
        None \<Rightarrow> p
      | Some n \<Rightarrow>
          if pool_index p = 0 then p
          else p\<lparr>pool_index := pool_index p - 1,
                 pool_stack := (pool_stack p)[pool_index p - 1 := n]\<rparr>)"

definition clear_pool :: "event_pool \<Rightarrow> event_pool" where
  "clear_pool p = p\<lparr>pool_stack := [0..<POOL_CAPACITY], pool_index := 0\<rparr>"

definition update_node :: "nat \<Rightarrow> (event_node \<Rightarrow> event_node) \<Rightarrow> event_pool \<Rightarrow> event_pool" where
  "update_node n f p = p\<lparr>pool_nodes := (pool_nodes p)[n := f (pool_nodes p ! n)]\<rparr>"

section \<open>The queue\<close>

record interrupt_queue =
  q_pool :: event_pool
  q_first :: "nat option"

text \<open>The variables the queue operations share: the queue, the registers and two statics.\<close>

record event_state =
  q :: interrupt_queue
  SPECIAL_done :: bool
  next_interrupt :: u32
  g_cp0_regs :: "cp0_registers \<Rightarrow> u32"

abbreviation count_reg :: "'a event_state_scheme \<Rightarrow> u32" where
  "count_reg s \<equiv> g_cp0_regs s CP0_COUNT_REG"

abbreviation q_node :: "'a event_state_scheme \<Rightarrow> nat \<Rightarrow> event_node" where
  "q_node s n \<equiv> pool_nodes (q_pool (q s)) ! n"

definition set_cp0 :: "cp0_registers \<Rightarrow> u32 \<Rightarrow> 'a event_state_scheme \<Rightarrow> 'a event_state_scheme" where
  "set_cp0 r v s = s\<lparr>g_cp0_regs := (g_cp0_regs s)(r := v)\<rparr>"

definition clear_queue :: "interrupt_queue \<Rightarrow> interrupt_queue" where
  "clear_queue qu = qu\<lparr>q_first := None, q_pool := clear_pool (q_pool qu)\<rparr>"

definition before_event :: "u32 \<Rightarrow> bool \<Rightarrow> u32 \<Rightarrow> u32 \<Rightarrow> u32 \<Rightarrow> bool" where
  "before_event count special evt1 evt2 type2 =
     (if evt1 - count < 0x80000000 then
        if evt2 - count < 0x80000000 then evt1 - count < evt2 - count
        else if count - evt2 < 0x10000000 then type2 = SPECIAL_INT \<and> special
        else True
      else False)"

text \<open>
  The loops over the list have one form: start at a node and go to the next one while there is
  one and it satisfies a condition.
\<close>

partial_function (option) walk :: "event_node list \<Rightarrow> (event_node \<Rightarrow> bool) \<Rightarrow> nat \<Rightarrow> nat option" where
  "walk nodes c e =
     (case ev_next (nodes ! e) of
        None \<Rightarrow> Some e
      | Some n \<Rightarrow> if c (nodes ! n) then walk nodes c n else Some e)"

definition get_event :: "'a event_state_scheme \<Rightarrow> u32 \<Rightarrow> u32 option" where
  "get_event s type =
     (case q_first (q s) of
        None \<Rightarrow> Some 0
      | Some e \<Rightarrow>
          if ev_type (q_node s e) = type then Some (ev_count (q_node s e))
          else do {
            e \<leftarrow> walk (pool_nodes (q_pool (q s))) (\<lambda>x. ev_type x \<noteq> type) e;
            Some (case ev_next (q_node s e) of None \<Rightarrow> 0 | Some n \<Rightarrow> ev_count (q_node s n)) })"

definition get_next_event_type :: "'a event_state_scheme \<Rightarrow> u32" where
  "get_next_event_type s = (case q_first (q s) of None \<Rightarrow> 0 | Some e \<Rightarrow> ev_type (q_node s e))"

definition set_next :: "nat \<Rightarrow> nat option \<Rightarrow> interrupt_queue \<Rightarrow> interrupt_queue" where
  "set_next n next qu = qu\<lparr>q_pool := update_node n (\<lambda>x. x\<lparr>ev_next := next\<rparr>) (q_pool qu)\<rparr>"

text \<open>
  \<open>link_event\<close> is the part of \<open>add_interrupt_event_count\<close> after the node has been filled in.
\<close>

definition link_event :: "nat \<Rightarrow> u32 \<Rightarrow> bool \<Rightarrow> 'a event_state_scheme \<Rightarrow> 'a event_state_scheme option" where
  "link_event event count special s =
     (let before = (\<lambda>x. before_event (count_reg s) (SPECIAL_done s) count (ev_count x) (ev_type x)) in
      case q_first (q s) of
        None \<Rightarrow>
          Some (s\<lparr>q := set_next event None ((q s)\<lparr>q_first := Some event\<rparr>), next_interrupt := count\<rparr>)
      | Some f \<Rightarrow>
          if before (q_node s f) \<and> \<not> special then
            Some (s\<lparr>q := set_next event (Some f) ((q s)\<lparr>q_first := Some event\<rparr>), next_interrupt := count\<rparr>)
          else do {
            e \<leftarrow> walk (pool_nodes (q_pool (q s))) (\<lambda>x. \<not> before x \<or> special) f;
            if ev_next (q_node s e) = None then
              Some (s\<lparr>q := set_next event None (set_next e (Some event) (q s))\<rparr>)
            else do {
              e \<leftarrow> (if special then Some e
                   else walk (pool_nodes (q_pool (q s))) (\<lambda>x. ev_count x = count) e);
              Some (s\<lparr>q := set_next e (Some event) (set_next event (ev_next (q_node s e)) (q s))\<rparr>) } })"

definition fill_event :: "nat \<Rightarrow> u32 \<Rightarrow> u32 \<Rightarrow> event_pool \<Rightarrow> 'a event_state_scheme \<Rightarrow> 'a event_state_scheme" where
  "fill_event event type count pool s =
     s\<lparr>q := (q s)\<lparr>q_pool := update_node event (\<lambda>x. x\<lparr>ev_count := count, ev_type := type\<rparr>) pool\<rparr>\<rparr>"

definition add_interrupt_event_count :: "u32 \<Rightarrow> u32 \<Rightarrow> 'a event_state_scheme \<Rightarrow> 'a event_state_scheme option" where
  "add_interrupt_event_count type count s =
     (let special = (type = SPECIAL_INT);
          s = (if count_reg s > 0x80000000 then s\<lparr>SPECIAL_done := False\<rparr> else s)
      in do {
        duplicate \<leftarrow> get_event s type;
        case alloc_node (q_pool (q s)) of
          None \<Rightarrow> Some s
        | Some (event, pool) \<Rightarrow> link_event event count special (fill_event event type count pool s) })"

definition add_interrupt_event :: "u32 \<Rightarrow> u32 \<Rightarrow> 'a event_state_scheme \<Rightarrow> 'a event_state_scheme option" where
  "add_interrupt_event type delay s = add_interrupt_event_count type (count_reg s + delay) s"

text \<open>The value \<open>next_interrupt\<close> gets when the head of the queue has changed.\<close>

definition next_interrupt_of :: "u32 \<Rightarrow> u32 option \<Rightarrow> u32" where
  "next_interrupt_of count head =
     (case head of
        None \<Rightarrow> 0
      | Some c \<Rightarrow> if c > count \<or> count - c < 0x80000000 then c else 0)"

definition remove_interrupt_event :: "'a event_state_scheme \<Rightarrow> 'a event_state_scheme option" where
  "remove_interrupt_event s =
     (case q_first (q s) of
        None \<Rightarrow> None
      | Some e \<Rightarrow>
          let qu = (q s)\<lparr>q_first := ev_next (q_node s e), q_pool := free_node (q_pool (q s)) (Some e)\<rparr>;
              head = map_option (\<lambda>n. ev_count (pool_nodes (q_pool qu) ! n)) (q_first qu)
          in Some (s\<lparr>q := qu, next_interrupt := next_interrupt_of (count_reg s) head\<rparr>))"

definition remove_event :: "u32 \<Rightarrow> 'a event_state_scheme \<Rightarrow> 'a event_state_scheme option" where
  "remove_event type s =
     (case q_first (q s) of
        None \<Rightarrow> Some s
      | Some e \<Rightarrow>
          if ev_type (q_node s e) = type then
            Some (s\<lparr>q := (q s)\<lparr>q_first := ev_next (q_node s e), q_pool := free_node (q_pool (q s)) (Some e)\<rparr>\<rparr>)
          else do {
            e \<leftarrow> walk (pool_nodes (q_pool (q s))) (\<lambda>x. ev_type x \<noteq> type) e;
            Some (case ev_next (q_node s e) of
                    None \<Rightarrow> s
                  | Some to_del \<Rightarrow>
                      let qu = set_next e (ev_next (q_node s to_del)) (q s)
                      in s\<lparr>q := qu\<lparr>q_pool := free_node (q_pool qu) (Some to_del)\<rparr>\<rparr>) })"

text \<open>The end of \<open>check_interrupt\<close>: an event for the current instant goes to the front.\<close>

definition push_check_event :: "'a event_state_scheme \<Rightarrow> 'a event_state_scheme" where
  "push_check_event s =
     (case alloc_node (q_pool (q s)) of
        None \<Rightarrow> s
      | Some (event, pool) \<Rightarrow>
          let s = fill_event event CHECK_INT (count_reg s) pool s
          in s\<lparr>q := set_next event (q_first (q s)) ((q s)\<lparr>q_first := Some event\<rparr>),
               next_interrupt := count_reg s\<rparr>)"

section \<open>Whole-queue operations\<close>

partial_function (option) map_counts ::
  "(u32 \<Rightarrow> u32) \<Rightarrow> nat option \<Rightarrow> event_pool \<Rightarrow> event_pool option" where
  "map_counts f e p =
     (case e of
        None \<Rightarrow> Some p
      | Some n \<Rightarrow> map_counts f (ev_next (pool_nodes p ! n)) (update_node n (\<lambda>x. x\<lparr>ev_count := f (ev_count x)\<rparr>) p))"

definition translate_event_queue :: "u32 \<Rightarrow> 'a event_state_scheme \<Rightarrow> 'a event_state_scheme option" where
  "translate_event_queue base s =
     do { s \<leftarrow> remove_event COMPARE_INT s;
          s \<leftarrow> remove_event SPECIAL_INT s;
          p \<leftarrow> map_counts (\<lambda>c. (c - count_reg s) + base) (q_first (q s)) (q_pool (q s));
          s \<leftarrow> Some (s\<lparr>q := (q s)\<lparr>q_pool := p\<rparr>\<rparr>);
          s \<leftarrow> add_interrupt_event_count COMPARE_INT (g_cp0_regs s CP0_COMPARE_REG) s;
          add_interrupt_event_count SPECIAL_INT 0 s }"

text \<open>A saved queue is its image in 32-bit words, in the byte order of the host.\<close>

partial_function (option) save_events :: "event_pool \<Rightarrow> nat option \<Rightarrow> u32 list option" where
  "save_events p e =
     (case e of
        None \<Rightarrow> Some [0xFFFFFFFF]
      | Some n \<Rightarrow> do { rest \<leftarrow> save_events p (ev_next (pool_nodes p ! n));
                      Some (ev_type (pool_nodes p ! n) # ev_count (pool_nodes p ! n) # rest) })"

definition save_eventqueue_infos :: "'a event_state_scheme \<Rightarrow> u32 list option" where
  "save_eventqueue_infos s = save_events (q_pool (q s)) (q_first (q s))"

text \<open>Loading reads words until the end mark; a buffer without one is read past its end.\<close>

fun load_events :: "u32 list \<Rightarrow> 'a event_state_scheme \<Rightarrow> 'a event_state_scheme option" where
  "load_events [] s = None"
| "load_events (type # buf) s =
     (if type = 0xFFFFFFFF then Some s
      else case buf of
             [] \<Rightarrow> None
           | count # buf \<Rightarrow> do { s \<leftarrow> add_interrupt_event_count type count s; load_events buf s })"

definition load_eventqueue_infos :: "u32 list \<Rightarrow> 'a event_state_scheme \<Rightarrow> 'a event_state_scheme option" where
  "load_eventqueue_infos buf s = load_events buf (s\<lparr>q := clear_queue (q s)\<rparr>)"

definition init_interrupt :: "'a event_state_scheme \<Rightarrow> 'a event_state_scheme option" where
  "init_interrupt s =
     add_interrupt_event_count SPECIAL_INT 0 (s\<lparr>SPECIAL_done := True, q := clear_queue (q s)\<rparr>)"

text \<open>The handler of the event that marks the wrap of \<open>Count\<close>.\<close>

definition special_int_handler :: "'a event_state_scheme \<Rightarrow> 'a event_state_scheme option" where
  "special_int_handler s =
     (if count_reg s > 0x10000000 then Some s
      else do { s \<leftarrow> remove_interrupt_event (s\<lparr>SPECIAL_done := True\<rparr>);
                add_interrupt_event_count SPECIAL_INT 0 s })"

end
