(* ===== verification/Event_Queue.thy ===== *)
theory Event_Queue
  imports Event_Pool Step_Machine
begin

text \<open>
  The event queue as a list. \<open>represents\<close> relates the linked nodes of \<open>Event_Pool\<close> to a list
  of events; every operation returns, meets no null pointer, and acts on the list as its
  specification says, whatever state the pool has been brought to.
\<close>

section \<open>Linked lists\<close>

fun path :: "event_node list \<Rightarrow> nat option \<Rightarrow> nat list \<Rightarrow> nat option \<Rightarrow> bool" where
  "path ns p [] r \<longleftrightarrow> p = r"
| "path ns p (n # xs) r \<longleftrightarrow> p = Some n \<and> n < length ns \<and> path ns (ev_next (ns ! n)) xs r"

lemma path_append: "path ns p (xs @ ys) r \<longleftrightarrow> (\<exists>m. path ns p xs m \<and> path ns m ys r)"
  by (induction xs arbitrary: p) auto

lemma path_update: "n \<notin> set xs \<Longrightarrow> path (ns[n := x]) p xs r \<longleftrightarrow> path ns p xs r"
  by (induction xs arbitrary: p) auto

lemma path_less: "path ns p xs r \<Longrightarrow> n \<in> set xs \<Longrightarrow> n < length ns"
  by (induction xs arbitrary: p) auto

lemma path_first: "path ns p xs None \<Longrightarrow> p = (case xs of [] \<Rightarrow> None | n # _ \<Rightarrow> Some n)"
  by (cases xs) auto

lemma path_head: "path ns (Some e) xs None \<Longrightarrow> \<exists>ys. xs = e # ys"
  by (cases xs) auto

lemma path_cong:
  "(\<And>n. n \<in> set xs \<Longrightarrow> ev_next (ms ! n) = ev_next (ns ! n)) \<Longrightarrow> length ms = length ns \<Longrightarrow>
     path ms p xs r \<longleftrightarrow> path ns p xs r"
  by (induction xs arbitrary: p) auto

lemma walk_next_None: "ev_next (ns ! e) = None \<Longrightarrow> walk ns c e = Some e"
  by (subst walk.simps) simp

lemma walk_next_Some:
  "ev_next (ns ! e) = Some n \<Longrightarrow> walk ns c e = (if c (ns ! n) then walk ns c n else Some e)"
  by (subst walk.simps) simp

text \<open>Where a walk ends, as a splitting of the list behind the starting node.\<close>

lemma walk_split:
  assumes "path ns (Some e) (e # xs) None"
  obtains as e' where "e # takeWhile (\<lambda>n. c (ns ! n)) xs = as @ [e']" "walk ns c e = Some e'"
    "ev_next (ns ! e') = (case dropWhile (\<lambda>n. c (ns ! n)) xs of [] \<Rightarrow> None | n # _ \<Rightarrow> Some n)"
  using assms
proof (induction xs arbitrary: e thesis)
  case Nil
  from Nil(1) [of "[]" e] Nil(2) show ?case by (simp add: walk_next_None)
next
  case (Cons n xs)
  then have nx: "ev_next (ns ! e) = Some n" "path ns (Some n) (n # xs) None" by auto
  show ?case
  proof (cases "c (ns ! n)")
    case True
    obtain as e' where "n # takeWhile (\<lambda>n. c (ns ! n)) xs = as @ [e']" "walk ns c n = Some e'"
      "ev_next (ns ! e') = (case dropWhile (\<lambda>n. c (ns ! n)) xs of [] \<Rightarrow> None | n # _ \<Rightarrow> Some n)"
      using Cons.IH [OF _ nx(2)] by blast
    with Cons.prems(1) [of "e # as" e'] True nx(1) show ?thesis by (simp add: walk_next_Some)
  next
    case False
    with Cons.prems(1) [of "[]" e] nx(1) show ?thesis by (simp add: walk_next_Some)
  qed
qed

section \<open>The queue as a list\<close>

type_synonym event = "u32 \<times> u32"

definition event_at :: "event_node list \<Rightarrow> nat \<Rightarrow> event" where
  "event_at ns n = (ev_type (ns ! n), ev_count (ns ! n))"

definition pool_ok :: "event_pool \<Rightarrow> nat list \<Rightarrow> bool" where
  "pool_ok p ps \<longleftrightarrow> length (pool_nodes p) = 16 \<and> length (pool_stack p) = 16 \<and> pool_index p \<le> 16 \<and>
     distinct (ps @ drop (pool_index p) (pool_stack p)) \<and>
     set ps \<union> set (drop (pool_index p) (pool_stack p)) = {..<16}"

definition represents :: "interrupt_queue \<Rightarrow> event list \<Rightarrow> bool" where
  "represents qu evs \<longleftrightarrow>
     (\<exists>ps. pool_ok (q_pool qu) ps \<and> path (pool_nodes (q_pool qu)) (q_first qu) ps None \<and>
        evs = map (event_at (pool_nodes (q_pool qu))) ps)"

lemma pool_index_length:
  assumes "pool_ok p ps"
  shows "length ps = pool_index p"
proof -
  let ?all = "ps @ drop (pool_index p) (pool_stack p)"
  have "card (set ?all) = 16" using assms by (simp add: pool_ok_def)
  then have "length ?all = 16" using assms by (metis distinct_card pool_ok_def)
  with assms show ?thesis by (simp add: pool_ok_def)
qed

lemma alloc_node_ok:
  assumes "pool_ok p ps"
  shows "length ps = 16 \<and> alloc_node p = None \<or>
    (\<exists>n p'. length ps < 16 \<and> alloc_node p = Some (n, p') \<and> n \<notin> set ps \<and> n < 16 \<and>
       pool_nodes p' = pool_nodes p \<and>
       (\<forall>qs. set qs = insert n (set ps) \<longrightarrow> distinct qs \<longrightarrow> pool_ok p' qs))"
proof (cases "pool_index p \<ge> 16")
  case True
  then show ?thesis using pool_index_length [OF assms] assms
    by (simp add: alloc_node_def POOL_CAPACITY_def pool_ok_def)
next
  case False
  let ?i = "pool_index p" and ?st = "pool_stack p"
  have d: "drop ?i ?st = ?st ! ?i # drop (Suc ?i) ?st"
    using False assms by (simp add: Cons_nth_drop_Suc pool_ok_def)
  have *: "pool_ok (p\<lparr>pool_index := ?i + 1\<rparr>) qs" if "set qs = insert (?st ! ?i) (set ps)" "distinct qs" for qs
    using that assms False unfolding pool_ok_def d by auto
  have "?st ! ?i \<notin> set ps" "?st ! ?i < 16" using assms unfolding pool_ok_def d by auto
  with False * show ?thesis using pool_index_length [OF assms]
    by (simp add: alloc_node_def POOL_CAPACITY_def)
qed

lemma free_node_ok:
  assumes "pool_ok p ps" "set ps = insert n (set qs)" "n \<notin> set qs" "distinct qs"
  shows "pool_ok (free_node p (Some n)) qs" "pool_nodes (free_node p (Some n)) = pool_nodes p"
proof -
  have "ps \<noteq> []" using assms(2) by auto
  then obtain i where i: "pool_index p = Suc i" using pool_index_length [OF assms(1)] by (cases "pool_index p") auto
  have len: "i < length (pool_stack p)" using assms(1) i by (simp add: pool_ok_def)
  have d: "drop i ((pool_stack p)[i := n]) = n # drop (Suc i) (pool_stack p)"
    using len by (simp add: Cons_nth_drop_Suc [symmetric] drop_update_cancel)
  show "pool_ok (free_node p (Some n)) qs" using assms d
    by (auto simp: pool_ok_def free_node_def i)
  show "pool_nodes (free_node p (Some n)) = pool_nodes p" by (simp add: free_node_def)
qed

section \<open>Inserting\<close>

definition goes_before :: "u32 \<Rightarrow> bool \<Rightarrow> event \<Rightarrow> event \<Rightarrow> bool" where
  "goes_before count special_done new old \<longleftrightarrow>
     before_event count special_done (snd new) (snd old) (fst old) \<and> fst new \<noteq> SPECIAL_INT"

definition insert_event :: "(event \<Rightarrow> bool) \<Rightarrow> event \<Rightarrow> event list \<Rightarrow> event list" where
  "insert_event P ev evs = takeWhile (\<lambda>e. \<not> P e) evs @ ev # dropWhile (\<lambda>e. \<not> P e) evs"

text \<open>Events with equal counts are never before one another: the second loop does not move.\<close>

lemma before_event_neq: "before_event count d c1 c2 t \<Longrightarrow> c1 \<noteq> c2"
  by (auto simp: before_event_def split: if_splits)

lemma pool_ok_nodes: "length ns = 16 \<Longrightarrow> pool_ok p ps \<Longrightarrow> pool_ok (p\<lparr>pool_nodes := ns\<rparr>) ps"
  by (simp add: pool_ok_def)

lemma set_next_simps:
  "q_first (set_next n x qu) = q_first qu"
  "q_pool (set_next n x qu) = (q_pool qu)\<lparr>pool_nodes :=
     (pool_nodes (q_pool qu))[n := (pool_nodes (q_pool qu) ! n)\<lparr>ev_next := x\<rparr>]\<rparr>"
  by (simp_all add: set_next_def update_node_def)

lemma event_at_next:
  "ev_type x = ev_type (ns ! n) \<Longrightarrow> ev_count x = ev_count (ns ! n) \<Longrightarrow> event_at (ns[n := x]) m = event_at ns m"
  by (cases "m = n"; cases "n < length ns") (simp_all add: event_at_def list_update_beyond)

text \<open>A node is put at the front, or behind the node \<open>e\<close>.\<close>

lemma path_push:
  assumes "path ns p xs None" "n \<notin> set xs" "n < length ns"
  shows "path (ns[n := (ns ! n)\<lparr>ev_next := p\<rparr>]) (Some n) (n # xs) None"
  using assms by (simp add: path_update)

lemma path_insert:
  assumes "path ns p (as @ e # bs) None" "n \<notin> set (as @ e # bs)" "n < length ns" "distinct (as @ e # bs)"
  shows "path (ns[n := (ns ! n)\<lparr>ev_next := ev_next (ns ! e)\<rparr>, e := (ns ! e)\<lparr>ev_next := Some n\<rparr>]) p
    (as @ e # n # bs) None"
  using assms by (auto simp: path_append path_update)

definition linked :: "interrupt_queue \<Rightarrow> interrupt_queue \<Rightarrow> nat list \<Rightarrow> event list \<Rightarrow> bool" where
  "linked qu qu' ps evs \<longleftrightarrow>
     (\<exists>ns. q_pool qu' = (q_pool qu)\<lparr>pool_nodes := ns\<rparr> \<and> length ns = length (pool_nodes (q_pool qu)) \<and>
        path ns (q_first qu') ps None \<and> map (event_at ns) ps = evs)"

lemma linked_push:
  assumes "path (pool_nodes (q_pool qu)) (q_first qu) xs None" "n \<notin> set xs" "n < length (pool_nodes (q_pool qu))"
  shows "linked qu (set_next n (q_first qu) (qu\<lparr>q_first := Some n\<rparr>)) (n # xs)
    (map (event_at (pool_nodes (q_pool qu))) (n # xs))"
  unfolding linked_def set_next_simps
  by (intro exI [where x = "(pool_nodes (q_pool qu))[n := (pool_nodes (q_pool qu) ! n)\<lparr>ev_next := q_first qu\<rparr>]"])
    (use assms in \<open>simp add: event_at_next set_next_simps path_update\<close>)

lemma linked_insert:
  assumes "path (pool_nodes (q_pool qu)) (q_first qu) (as @ e # bs) None" "n \<notin> set (as @ e # bs)"
    "n < length (pool_nodes (q_pool qu))" "distinct (as @ e # bs)"
  shows "linked qu (set_next e (Some n) (set_next n (ev_next (pool_nodes (q_pool qu) ! e)) qu)) (as @ e # n # bs)
    (map (event_at (pool_nodes (q_pool qu))) (as @ e # n # bs))"
proof -
  have "n \<noteq> e" using assms(2) by auto
  then show ?thesis using path_insert [OF assms]
    by (auto simp: linked_def set_next_simps event_at_next intro!: exI)
qed

lemma linked_insert_last:
  assumes "path (pool_nodes (q_pool qu)) (q_first qu) (as @ [e]) None" "n \<notin> set (as @ [e])"
    "n < length (pool_nodes (q_pool qu))" "distinct (as @ [e])"
  shows "linked qu (set_next n None (set_next e (Some n) qu)) (as @ [e, n])
    (map (event_at (pool_nodes (q_pool qu))) (as @ [e, n]))"
proof -
  have "n \<noteq> e" "ev_next (pool_nodes (q_pool qu) ! e) = None" using assms(1,2) by (auto simp: path_append)
  then have "set_next n None (set_next e (Some n) qu) =
      set_next e (Some n) (set_next n (ev_next (pool_nodes (q_pool qu) ! e)) qu)"
    by (simp add: set_next_def update_node_def list_update_swap)
  with linked_insert [of qu as e "[]" n] assms show ?thesis by simp
qed

lemma link_event_ok:
  assumes path: "path (pool_nodes (q_pool (q s))) (q_first (q s)) ps None"
    and ev: "event \<notin> set ps" "event < length (pool_nodes (q_pool (q s)))" "distinct ps"
    and type: "ev_type (q_node s event) = type" "ev_count (q_node s event) = count" "special = (type = SPECIAL_INT)"
  defines "P \<equiv> goes_before (count_reg s) (SPECIAL_done s) (type, count)"
    and "evs \<equiv> map (event_at (pool_nodes (q_pool (q s)))) ps"
  obtains qu' qs where
    "link_event event count special s =
       Some (s\<lparr>q := qu', next_interrupt := if evs = [] \<or> P (hd evs) then count else next_interrupt s\<rparr>)"
    "linked (q s) qu' qs (insert_event P (type, count) evs)" "set qs = insert event (set ps)" "distinct qs"
proof -
  let ?ns = "pool_nodes (q_pool (q s))"
  let ?b = "\<lambda>x. before_event (count_reg s) (SPECIAL_done s) count (ev_count x) (ev_type x)"
  have P: "P (event_at ?ns n) \<longleftrightarrow> ?b (?ns ! n) \<and> \<not> special" for n
    by (simp add: P_def goes_before_def event_at_def type)
  have this_event: "event_at ?ns event = (type, count)" by (simp add: event_at_def type)
  show ?thesis
  proof (cases ps)
    case Nil
    then have f: "q_first (q s) = None" using path by simp
    have "linked (q s) (set_next event None ((q s)\<lparr>q_first := Some event\<rparr>)) [event] [(type, count)]"
      using linked_push [of "q s" ps event] path ev this_event f Nil by simp
    then show ?thesis
      by (intro that [of "set_next event None ((q s)\<lparr>q_first := Some event\<rparr>)" "[event]"])
        (simp_all add: link_event_def f insert_event_def evs_def Nil)
  next
    case (Cons f fs)
    then have f: "q_first (q s) = Some f" and path': "path ?ns (Some f) (f # fs) None" using path by auto
    show ?thesis
    proof (cases "?b (?ns ! f) \<and> \<not> special")
      case True
      let ?qu = "set_next event (Some f) ((q s)\<lparr>q_first := Some event\<rparr>)"
      have "linked (q s) ?qu (event # ps) ((type, count) # evs)"
        using linked_push [of "q s" ps event] path ev this_event f by (simp add: evs_def)
      moreover have "P (event_at ?ns f)" using True P by simp
      ultimately show ?thesis using True ev
        by (intro that [of ?qu "event # ps"])
          (simp_all add: link_event_def f insert_event_def evs_def Cons Let_def)
    next
      case False
      let ?c = "\<lambda>x. \<not> ?b x \<or> special"
      obtain as e where w: "f # takeWhile (\<lambda>n. ?c (?ns ! n)) fs = as @ [e]" "walk ?ns ?c f = Some e"
        "ev_next (?ns ! e) = (case dropWhile (\<lambda>n. ?c (?ns ! n)) fs of [] \<Rightarrow> None | n # _ \<Rightarrow> Some n)"
        using walk_split [OF path', of ?c] by blast
      define bs where "bs = dropWhile (\<lambda>n. ?c (?ns ! n)) fs"
      note w(3) [folded bs_def]
      note nx = this
      have "ps = (f # takeWhile (\<lambda>n. ?c (?ns ! n)) fs) @ bs" by (simp add: Cons bs_def)
      then have ps: "ps = as @ e # bs" unfolding w(1) by simp
      have "insert_event P (type, count) evs = map (event_at ?ns) (as @ e # event # bs)"
      proof -
        have "\<not> P (event_at ?ns f)" using False P by simp
        then have "takeWhile (\<lambda>e. \<not> P e) evs = map (event_at ?ns) (as @ [e])"
          unfolding evs_def Cons w(1) [symmetric] by (simp add: takeWhile_map o_def P)
        moreover have "dropWhile (\<lambda>e. \<not> P e) evs = map (event_at ?ns) bs"
          using \<open>\<not> P (event_at ?ns f)\<close> unfolding evs_def bs_def Cons by (simp add: dropWhile_map o_def P)
        ultimately show ?thesis by (simp add: insert_event_def this_event)
      qed
      note ins = this
      have nf: "\<not> (evs = [] \<or> P (hd evs))" using False P by (simp add: evs_def Cons)
      show ?thesis
      proof (cases bs)
        case Nil
        let ?qu = "set_next event None (set_next e (Some event) (q s))"
        have "linked (q s) ?qu (as @ [e, event]) (insert_event P (type, count) evs)"
          using linked_insert_last [of "q s" as e event] path ev ps Nil ins by simp
        then show ?thesis using ps Nil ev w(2) nx False nf
          by (intro that [of ?qu "as @ [e, event]"]) (auto simp: link_event_def f Let_def)
      next
        case (Cons b cs)
        let ?qu = "set_next e (Some event) (set_next event (ev_next (?ns ! e)) (q s))"
        have "linked (q s) ?qu (as @ e # event # bs) (insert_event P (type, count) evs)"
          using linked_insert [of "q s" as e bs event] path ev ps ins by simp
        moreover have nb: "\<not> ?c (?ns ! b)" using hd_dropWhile [of "\<lambda>n. ?c (?ns ! n)" fs, folded bs_def] unfolding Cons by simp
        moreover have "(if special then Some e else walk ?ns (\<lambda>x. ev_count x = count) e) = Some e"
        proof -
          have "count \<noteq> ev_count (?ns ! b)" using nb before_event_neq by blast
          then show ?thesis using nx Cons by (simp add: walk_next_Some)
        qed
        ultimately show ?thesis using ps Cons ev w(2) nx False nf
          by (intro that [of ?qu "as @ e # event # bs"]) (auto simp: link_event_def f Let_def)
      qed
    qed
  qed
qed

section \<open>What the operations do to the list\<close>

definition find_count :: "u32 \<Rightarrow> event list \<Rightarrow> u32" where
  "find_count type evs = (case find (\<lambda>e. fst e = type) evs of None \<Rightarrow> 0 | Some e \<Rightarrow> snd e)"

definition remove_type :: "u32 \<Rightarrow> event list \<Rightarrow> event list" where
  "remove_type type evs = takeWhile (\<lambda>e. fst e \<noteq> type) evs @ tl (dropWhile (\<lambda>e. fst e \<noteq> type) evs)"

definition head_count :: "event list \<Rightarrow> u32 option" where
  "head_count evs = (case evs of [] \<Rightarrow> None | e # _ \<Rightarrow> Some (snd e))"

definition done_after :: "'a event_state_scheme \<Rightarrow> bool" where
  "done_after s = (if count_reg s > 0x80000000 then False else SPECIAL_done s)"

definition added_events :: "u32 \<Rightarrow> bool \<Rightarrow> event \<Rightarrow> event list \<Rightarrow> event list" where
  "added_events count d ev evs =
     (if length evs \<ge> POOL_CAPACITY then evs else insert_event (goes_before count d ev) ev evs)"

definition at_front :: "u32 \<Rightarrow> bool \<Rightarrow> event \<Rightarrow> event list \<Rightarrow> bool" where
  "at_front count d ev evs \<longleftrightarrow> length evs < POOL_CAPACITY \<and> (evs = [] \<or> goes_before count d ev (hd evs))"

lemma representsI:
  "pool_ok (q_pool qu) ps \<Longrightarrow> path (pool_nodes (q_pool qu)) (q_first qu) ps None \<Longrightarrow>
     represents qu (map (event_at (pool_nodes (q_pool qu))) ps)"
  by (auto simp: represents_def)

lemma representsE:
  assumes "represents qu evs"
  obtains ps where "pool_ok (q_pool qu) ps" "path (pool_nodes (q_pool qu)) (q_first qu) ps None"
    "evs = map (event_at (pool_nodes (q_pool qu))) ps" "distinct ps" "length ps = length evs"
  using assms unfolding represents_def by (auto simp: pool_ok_def)

lemma find_split: "find P xs = (case dropWhile (\<lambda>x. \<not> P x) xs of [] \<Rightarrow> None | x # _ \<Rightarrow> Some x)"
  by (induction xs) auto

lemma get_event_ok:
  assumes "represents (q s) evs"
  shows "get_event s type = Some (find_count type evs)"
proof -
  let ?ns = "pool_nodes (q_pool (q s))"
  obtain ps where p: "path ?ns (q_first (q s)) ps None" "evs = map (event_at ?ns) ps"
    using assms by (rule representsE)
  show ?thesis
  proof (cases ps)
    case Nil
    with p show ?thesis by (simp add: get_event_def find_count_def)
  next
    case (Cons f fs)
    with p(1) have f: "q_first (q s) = Some f" and path: "path ?ns (Some f) (f # fs) None" by auto
    obtain as e where "walk ?ns (\<lambda>x. ev_type x \<noteq> type) f = Some e"
      "ev_next (?ns ! e) = (case dropWhile (\<lambda>n. ev_type (?ns ! n) \<noteq> type) fs of [] \<Rightarrow> None | n # _ \<Rightarrow> Some n)"
      using walk_split [OF path, of "\<lambda>x. ev_type x \<noteq> type"] by blast
    then show ?thesis
      by (cases "dropWhile (\<lambda>n. ev_type (?ns ! n) \<noteq> type) fs")
        (simp_all add: get_event_def f find_count_def p(2) Cons find_split dropWhile_map o_def event_at_def
          del: dropWhile_eq_Nil_conv)
  qed
qed

lemma add_ok:
  assumes "represents (q s) evs"
  obtains qu where
    "add_interrupt_event_count type count s = Some (s\<lparr>q := qu, SPECIAL_done := done_after s,
       next_interrupt := if at_front (count_reg s) (done_after s) (type, count) evs then count else next_interrupt s\<rparr>)"
    "represents qu (added_events (count_reg s) (done_after s) (type, count) evs)"
proof -
  define t where "t = (if count_reg s > 0x80000000 then s\<lparr>SPECIAL_done := False\<rparr> else s)"
  have t: "t = s\<lparr>SPECIAL_done := done_after s\<rparr>" by (simp add: t_def done_after_def)
  have ge: "get_event t type = Some (find_count type evs)" using assms by (intro get_event_ok) (simp add: t)
  obtain ps where p: "pool_ok (q_pool (q s)) ps" "path (pool_nodes (q_pool (q s))) (q_first (q s)) ps None"
    "evs = map (event_at (pool_nodes (q_pool (q s)))) ps" "distinct ps" "length ps = length evs"
    using assms by (rule representsE)
  have unfold: "add_interrupt_event_count type count s =
      (case alloc_node (q_pool (q t)) of None \<Rightarrow> Some t
       | Some (event, pool) \<Rightarrow> link_event event count (type = SPECIAL_INT) (fill_event event type count pool t))"
    unfolding add_interrupt_event_count_def Let_def t_def [symmetric] ge by simp
  show ?thesis
  proof (cases "alloc_node (q_pool (q s))")
    case None
    then have "length ps = 16" using alloc_node_ok [OF p(1)] by simp
    with None p(5) unfold assms show ?thesis
      by (intro that [of "q s"]) (simp_all add: t at_front_def added_events_def POOL_CAPACITY_def)
  next
    case (Some a)
    then obtain n p' where alloc: "alloc_node (q_pool (q s)) = Some (n, p')" by (cases a) auto
    then have room: "length ps < 16" "n \<notin> set ps" "n < 16" "pool_nodes p' = pool_nodes (q_pool (q s))"
      "\<forall>qs. set qs = insert n (set ps) \<longrightarrow> distinct qs \<longrightarrow> pool_ok p' qs"
      using alloc_node_ok [OF p(1)] by auto
    let ?u = "fill_event n type count p' t"
    have u: "pool_nodes (q_pool (q ?u)) = (pool_nodes (q_pool (q s)))[n := (pool_nodes (q_pool (q s)) ! n)\<lparr>ev_count := count, ev_type := type\<rparr>]"
      "q_first (q ?u) = q_first (q s)" "count_reg ?u = count_reg s" "SPECIAL_done ?u = done_after s"
      using room(4) by (simp_all add: fill_event_def update_node_def t)
    have len: "length (pool_nodes (q_pool (q s))) = 16" using p(1) by (simp add: pool_ok_def)
    have path: "path (pool_nodes (q_pool (q ?u))) (q_first (q ?u)) ps None"
      using p(2) room(2) by (simp add: u path_update)
    have evs: "map (event_at (pool_nodes (q_pool (q ?u)))) ps = evs"
      using room(2) by (simp add: p(3) u event_at_def) (metis nth_list_update_neq)
    have n: "n < length (pool_nodes (q_pool (q ?u)))" "ev_type (q_node ?u n) = type" "ev_count (q_node ?u n) = count"
      using room(3) len by (simp_all add: u)
    obtain qu qs where link: "link_event n count (type = SPECIAL_INT) ?u =
        Some (?u\<lparr>q := qu, next_interrupt := if evs = [] \<or> goes_before (count_reg s) (done_after s) (type, count) (hd evs)
          then count else next_interrupt ?u\<rparr>)"
      "linked (q ?u) qu qs (insert_event (goes_before (count_reg s) (done_after s) (type, count)) (type, count) evs)"
      "set qs = insert n (set ps)" "distinct qs"
      using link_event_ok [OF path room(2) n(1) p(4) n(2,3) refl, unfolded u(3,4) evs] by blast
    obtain ns where ns: "q_pool qu = (q_pool (q ?u))\<lparr>pool_nodes := ns\<rparr>" "length ns = 16" "path ns (q_first qu) qs None"
      "map (event_at ns) qs = insert_event (goes_before (count_reg s) (done_after s) (type, count)) (type, count) evs"
      using link(2) len by (auto simp: linked_def u)
    have "q_pool qu = p'\<lparr>pool_nodes := ns\<rparr>" unfolding ns(1) by (simp add: fill_event_def update_node_def)
    then have "pool_ok (q_pool qu) qs"
      using pool_ok_nodes [OF ns(2) room(5) [rule_format, OF link(3,4)]] by simp
    then have "represents qu (insert_event (goes_before (count_reg s) (done_after s) (type, count)) (type, count) evs)"
      using representsI [of qu qs] ns by simp
    with link(1) unfold alloc room(1) p(5) show ?thesis
      by (intro that [of qu])
        (simp_all add: t fill_event_def at_front_def added_events_def POOL_CAPACITY_def)
  qed
qed

lemma pool_ok_less: "pool_ok p ps \<Longrightarrow> n \<in> set ps \<Longrightarrow> n < 16"
  by (auto simp: pool_ok_def)

lemma push_check_ok:
  assumes "represents (q s) evs"
  obtains qu where
    "push_check_event s = s\<lparr>q := qu, next_interrupt := if length evs < POOL_CAPACITY then count_reg s else next_interrupt s\<rparr>"
    "represents qu (if length evs < POOL_CAPACITY then (CHECK_INT, count_reg s) # evs else evs)"
proof -
  let ?ns = "pool_nodes (q_pool (q s))"
  obtain ps where p: "pool_ok (q_pool (q s)) ps" "path ?ns (q_first (q s)) ps None"
    "evs = map (event_at ?ns) ps" "distinct ps" "length ps = length evs"
    using assms by (rule representsE)
  show ?thesis
  proof (cases "alloc_node (q_pool (q s))")
    case None
    then have "length ps = 16" using alloc_node_ok [OF p(1)] by simp
    with None p(5) assms show ?thesis
      by (intro that [of "q s"]) (simp_all add: push_check_event_def POOL_CAPACITY_def)
  next
    case (Some a)
    then obtain n p' where alloc: "alloc_node (q_pool (q s)) = Some (n, p')" by (cases a) auto
    then have room: "length ps < 16" "n \<notin> set ps" "n < 16" "pool_nodes p' = ?ns"
      "\<forall>qs. set qs = insert n (set ps) \<longrightarrow> distinct qs \<longrightarrow> pool_ok p' qs"
      using alloc_node_ok [OF p(1)] by auto
    let ?u = "fill_event n CHECK_INT (count_reg s) p' s"
    let ?qu = "set_next n (q_first (q ?u)) ((q ?u)\<lparr>q_first := Some n\<rparr>)"
    have len: "length ?ns = 16" using p(1) by (simp add: pool_ok_def)
    have u: "pool_nodes (q_pool (q ?u)) = ?ns[n := (?ns ! n)\<lparr>ev_count := count_reg s, ev_type := CHECK_INT\<rparr>]"
      "q_first (q ?u) = q_first (q s)"
      using room(4) by (simp_all add: fill_event_def update_node_def)
    have "event_at (pool_nodes (q_pool (q ?u))) m = event_at ?ns m" if "m \<in> set ps" for m
      using that room(2) by (simp add: u event_at_def) (metis nth_list_update_neq)
    then have evs: "map (event_at (pool_nodes (q_pool (q ?u)))) (n # ps) = (CHECK_INT, count_reg s) # evs"
      using room(3) len by (simp add: p(3)) (simp add: u event_at_def)
    have "path (pool_nodes (q_pool (q ?u))) (q_first (q ?u)) ps None"
      using p(2) room(2) by (simp add: u path_update)
    then have "linked (q ?u) ?qu (n # ps) ((CHECK_INT, count_reg s) # evs)"
      using linked_push [OF _ room(2), of "q ?u"] room(3) len unfolding evs by (simp add: u)
    then obtain ns where ns: "q_pool ?qu = (q_pool (q ?u))\<lparr>pool_nodes := ns\<rparr>" "length ns = 16"
      "path ns (q_first ?qu) (n # ps) None" "map (event_at ns) (n # ps) = (CHECK_INT, count_reg s) # evs"
      using len by (auto simp: linked_def u)
    have "q_pool ?qu = p'\<lparr>pool_nodes := ns\<rparr>" unfolding ns(1) by (simp add: fill_event_def update_node_def)
    moreover have "pool_ok p' (n # ps)" using room(5) p(4) room(2) by simp
    ultimately have "pool_ok (q_pool ?qu) (n # ps)" using pool_ok_nodes [OF ns(2)] by simp
    from representsI [OF this] ns have "represents ?qu ((CHECK_INT, count_reg s) # evs)" by simp
    with alloc room(1) p(5) show ?thesis
      by (intro that [of ?qu]) (simp_all add: push_check_event_def Let_def fill_event_def POOL_CAPACITY_def)
  qed
qed

lemma remove_interrupt_event_ok:
  assumes "represents (q s) (e # evs)"
  obtains qu where
    "remove_interrupt_event s = Some (s\<lparr>q := qu, next_interrupt := next_interrupt_of (count_reg s) (head_count evs)\<rparr>)"
    "represents qu evs"
proof -
  let ?p = "q_pool (q s)" and ?ns = "pool_nodes (q_pool (q s))"
  obtain ps where p: "pool_ok ?p ps" "path ?ns (q_first (q s)) ps None" "e # evs = map (event_at ?ns) ps" "distinct ps"
    using assms by (rule representsE)
  then obtain n ms where ps: "ps = n # ms" by (cases ps) auto
  have f: "q_first (q s) = Some n" "path ?ns (ev_next (?ns ! n)) ms None" using p(2) ps by auto
  note fr = free_node_ok [OF p(1), of n ms]
  have free: "pool_ok (free_node ?p (Some n)) ms" "pool_nodes (free_node ?p (Some n)) = ?ns"
    using fr p(4) ps by simp_all
  let ?qu = "(q s)\<lparr>q_first := ev_next (?ns ! n), q_pool := free_node ?p (Some n)\<rparr>"
  have "represents ?qu evs"
    using representsI [of ?qu ms] free f(2) p(3) ps by simp
  moreover have "map_option (\<lambda>n. ev_count (?ns ! n)) (ev_next (?ns ! n)) = head_count evs"
    using path_first [OF f(2)] p(3) ps by (cases ms) (auto simp: head_count_def event_at_def)
  ultimately show ?thesis
    by (intro that [of ?qu]) (simp_all add: remove_interrupt_event_def f(1) Let_def free(2))
qed

lemma remove_interrupt_event_empty: "represents (q s) [] \<Longrightarrow> remove_interrupt_event s = None"
  by (auto simp: represents_def remove_interrupt_event_def)

lemma remove_event_ok:
  assumes "represents (q s) evs"
  obtains qu where "remove_event type s = Some (s\<lparr>q := qu\<rparr>)" "represents qu (remove_type type evs)"
proof -
  let ?p = "q_pool (q s)" and ?ns = "pool_nodes (q_pool (q s))"
  obtain ps where p: "pool_ok ?p ps" "path ?ns (q_first (q s)) ps None" "evs = map (event_at ?ns) ps" "distinct ps"
    using assms by (rule representsE)
  have ty: "fst (event_at ?ns n) = ev_type (?ns ! n)" for n by (simp add: event_at_def)
  show ?thesis
  proof (cases ps)
    case Nil
    with p assms show ?thesis by (intro that [of "q s"]) (simp_all add: remove_event_def remove_type_def)
  next
    case (Cons f fs)
    with p(2) have f: "q_first (q s) = Some f" and path: "path ?ns (Some f) (f # fs) None" by auto
    show ?thesis
    proof (cases "ev_type (?ns ! f) = type")
      case True
      let ?qu = "(q s)\<lparr>q_first := ev_next (?ns ! f), q_pool := free_node ?p (Some f)\<rparr>"
      have "represents ?qu (map (event_at ?ns) fs)"
        using free_node_ok [OF p(1), of f fs] p(4) Cons path representsI [of ?qu fs] by simp
      with True f show ?thesis
        by (intro that [of ?qu]) (simp_all add: remove_event_def remove_type_def p(3) Cons ty)
    next
      case False
      let ?c = "\<lambda>n. ev_type (?ns ! n) \<noteq> type"
      obtain as e where w: "f # takeWhile ?c fs = as @ [e]" "walk ?ns (\<lambda>x. ev_type x \<noteq> type) f = Some e"
        "ev_next (?ns ! e) = (case dropWhile ?c fs of [] \<Rightarrow> None | n # _ \<Rightarrow> Some n)"
        using walk_split [OF path, of "\<lambda>x. ev_type x \<noteq> type"] by blast
      define bs where "bs = dropWhile ?c fs"
      have "ps = (f # takeWhile ?c fs) @ bs" by (simp add: Cons bs_def)
      then have ps: "ps = as @ e # bs" unfolding w(1) by simp
      have rem: "remove_type type evs = map (event_at ?ns) (as @ e # tl bs)"
      proof -
        have "takeWhile (\<lambda>e. fst e \<noteq> type) evs = map (event_at ?ns) (as @ [e])"
          unfolding p(3) Cons w(1) [symmetric] using False by (simp add: takeWhile_map o_def ty)
        moreover have "dropWhile (\<lambda>e. fst e \<noteq> type) evs = map (event_at ?ns) bs"
          unfolding p(3) Cons bs_def using False by (simp add: dropWhile_map o_def ty)
        ultimately show ?thesis by (simp add: remove_type_def map_tl)
      qed
      note nx = w(3) [folded bs_def]
      show ?thesis
      proof (cases bs)
        case Nil
        with rem ps have "remove_type type evs = evs" by (simp add: p(3))
        with Nil f False w(2) nx assms show ?thesis
          by (intro that [of "q s"]) (simp_all add: remove_event_def)
      next
        case (Cons b cs)
        let ?ns' = "?ns[e := (?ns ! e)\<lparr>ev_next := ev_next (?ns ! b)\<rparr>]"
        let ?p' = "?p\<lparr>pool_nodes := ?ns'\<rparr>"
        let ?qu = "(set_next e (ev_next (?ns ! b)) (q s))\<lparr>q_pool := free_node ?p' (Some b)\<rparr>"
        have ok: "pool_ok ?p' ps" using p(1) by (intro pool_ok_nodes) (simp_all add: pool_ok_def)
        have "path ?ns' (q_first (q s)) (as @ e # cs) None"
          using p(2,4) unfolding ps Cons by (auto simp: path_append path_update)
        moreover have "event_at ?ns' = event_at ?ns" by (rule ext) (simp add: event_at_next)
        moreover have "pool_ok (free_node ?p' (Some b)) (as @ e # cs)" "pool_nodes (free_node ?p' (Some b)) = ?ns'"
          using free_node_ok [OF ok, of b "as @ e # cs"] p(4) unfolding ps Cons by auto
        ultimately have "represents ?qu (remove_type type evs)"
          using representsI [of ?qu "as @ e # cs"] rem Cons by (simp add: set_next_simps)
        with f False w(2) nx Cons show ?thesis
          by (intro that [of ?qu]) (simp_all add: remove_event_def Let_def set_next_simps)
      qed
    qed
  qed
qed

section \<open>Operations on the whole queue\<close>

lemma map_counts_None: "map_counts f None p = Some p"
  by (subst map_counts.simps) simp

lemma map_counts_Some:
  "map_counts f (Some n) p =
     map_counts f (ev_next (pool_nodes p ! n)) (update_node n (\<lambda>x. x\<lparr>ev_count := f (ev_count x)\<rparr>) p)"
  by (subst map_counts.simps) simp

lemma map_counts_ok:
  assumes "path (pool_nodes p) r ps None" "distinct ps"
  obtains p' where "map_counts f r p = Some p'" "p' = p\<lparr>pool_nodes := pool_nodes p'\<rparr>"
    "length (pool_nodes p') = length (pool_nodes p)"
    "\<forall>n. ev_next (pool_nodes p' ! n) = ev_next (pool_nodes p ! n)"
    "\<forall>n. event_at (pool_nodes p') n =
       (if n \<in> set ps then (ev_type (pool_nodes p ! n), f (ev_count (pool_nodes p ! n))) else event_at (pool_nodes p) n)"
  using assms
proof (induction ps arbitrary: r p thesis)
  case Nil
  then show ?case by (intro Nil(1) [of p]) (auto simp: map_counts_None)
next
  case (Cons n ps)
  let ?u = "update_node n (\<lambda>x. x\<lparr>ev_count := f (ev_count x)\<rparr>) p"
  from Cons.prems have r: "r = Some n" "n < length (pool_nodes p)" "path (pool_nodes p) (ev_next (pool_nodes p ! n)) ps None"
    "n \<notin> set ps" "distinct ps" by auto
  have u: "length (pool_nodes ?u) = length (pool_nodes p)" "ev_next (pool_nodes ?u ! m) = ev_next (pool_nodes p ! m)"
    "m \<noteq> n \<Longrightarrow> pool_nodes ?u ! m = pool_nodes p ! m" "pool_nodes ?u ! n = (pool_nodes p ! n)\<lparr>ev_count := f (ev_count (pool_nodes p ! n))\<rparr>"
    "?u = p\<lparr>pool_nodes := pool_nodes ?u\<rparr>" for m
    using r(2) by (simp_all add: update_node_def nth_list_update)
  have "path (pool_nodes ?u) (ev_next (pool_nodes p ! n)) ps None"
    using r(3) by (subst path_cong [of _ _ "pool_nodes p"]) (simp_all add: u(1,2))
  from Cons.IH [OF _ this r(5)] obtain p' where p': "map_counts f (ev_next (pool_nodes p ! n)) ?u = Some p'"
    "p' = ?u\<lparr>pool_nodes := pool_nodes p'\<rparr>" "length (pool_nodes p') = length (pool_nodes ?u)"
    "\<forall>m. ev_next (pool_nodes p' ! m) = ev_next (pool_nodes ?u ! m)"
    "\<forall>m. event_at (pool_nodes p') m =
       (if m \<in> set ps then (ev_type (pool_nodes ?u ! m), f (ev_count (pool_nodes ?u ! m))) else event_at (pool_nodes ?u) m)"
    by blast
  show ?case
  proof (rule Cons.prems(1))
    show "map_counts f r p = Some p'" using p'(1) by (simp add: r(1) map_counts_Some)
    show "p' = p\<lparr>pool_nodes := pool_nodes p'\<rparr>" using p'(2) by (subst (asm) u(5)) simp
    show "length (pool_nodes p') = length (pool_nodes p)" using p'(3) u(1) by simp
    show "\<forall>m. ev_next (pool_nodes p' ! m) = ev_next (pool_nodes p ! m)" using p'(4) u(2) by simp
    show "\<forall>m. event_at (pool_nodes p') m = (if m \<in> set (n # ps)
        then (ev_type (pool_nodes p ! m), f (ev_count (pool_nodes p ! m))) else event_at (pool_nodes p) m)"
    proof
      fix m
      show "event_at (pool_nodes p') m = (if m \<in> set (n # ps)
          then (ev_type (pool_nodes p ! m), f (ev_count (pool_nodes p ! m))) else event_at (pool_nodes p) m)"
        using p'(5) u(3) [of m] u(4) r(4) by (cases "m = n") (simp_all add: event_at_def)
    qed
  qed
qed

lemma map_queue_counts_ok:
  assumes "represents (q s) evs"
  obtains p where "map_counts f (q_first (q s)) (q_pool (q s)) = Some p"
    "represents ((q s)\<lparr>q_pool := p\<rparr>) (map (\<lambda>(t, c). (t, f c)) evs)"
proof -
  obtain ps where p: "pool_ok (q_pool (q s)) ps" "path (pool_nodes (q_pool (q s))) (q_first (q s)) ps None"
    "evs = map (event_at (pool_nodes (q_pool (q s)))) ps" "distinct ps"
    using assms by (rule representsE)
  obtain p' where m: "map_counts f (q_first (q s)) (q_pool (q s)) = Some p'"
    "p' = (q_pool (q s))\<lparr>pool_nodes := pool_nodes p'\<rparr>" "length (pool_nodes p') = length (pool_nodes (q_pool (q s)))"
    "\<forall>n. ev_next (pool_nodes p' ! n) = ev_next (pool_nodes (q_pool (q s)) ! n)"
    "\<forall>n. event_at (pool_nodes p') n =
       (if n \<in> set ps then (ev_type (q_node s n), f (ev_count (q_node s n))) else event_at (pool_nodes (q_pool (q s))) n)"
    using map_counts_ok [OF p(2,4), of f] by blast
  have "pool_ok p' ps"
    using pool_ok_nodes [OF _ p(1), of "pool_nodes p'"] m(3) p(1) by (subst m(2)) (simp add: pool_ok_def)
  moreover have "path (pool_nodes p') (q_first (q s)) ps None"
    using p(2) m(3,4) by (subst path_cong [of _ _ "pool_nodes (q_pool (q s))"]) simp_all
  moreover have "map (event_at (pool_nodes p')) ps = map (\<lambda>(t, c). (t, f c)) evs"
    using m(5) unfolding p(3) by (simp add: event_at_def)
  ultimately have "represents ((q s)\<lparr>q_pool := p'\<rparr>) (map (\<lambda>(t, c). (t, f c)) evs)"
    using representsI [of "(q s)\<lparr>q_pool := p'\<rparr>" ps] by simp
  with m(1) show ?thesis by (rule that)
qed

definition saved_words :: "event list \<Rightarrow> u32 list" where
  "saved_words evs = concat (map (\<lambda>(t, c). [t, c]) evs) @ [0xFFFFFFFF]"

lemma save_ok:
  assumes "represents (q s) evs"
  shows "save_eventqueue_infos s = Some (saved_words evs)"
proof -
  obtain ps where p: "path (pool_nodes (q_pool (q s))) (q_first (q s)) ps None"
    "evs = map (event_at (pool_nodes (q_pool (q s)))) ps"
    using assms by (rule representsE)
  have "save_events pl r = Some (saved_words (map (event_at (pool_nodes pl)) ps))"
    if "path (pool_nodes pl) r ps None" for pl r
    using that
  proof (induction ps arbitrary: r)
    case Nil
    then show ?case by (subst save_events.simps) (simp add: saved_words_def)
  next
    case (Cons n ps)
    then show ?case by (subst save_events.simps) (simp add: saved_words_def event_at_def o_def split_def)
  qed
  with p show ?thesis by (simp add: save_eventqueue_infos_def)
qed

lemma clear_queue_ok:
  assumes "represents qu evs"
  shows "represents (clear_queue qu) []"
proof -
  obtain ps where "pool_ok (q_pool qu) ps" using assms by (rule representsE)
  then have "pool_ok (clear_pool (q_pool qu)) []"
    by (auto simp: pool_ok_def clear_pool_def POOL_CAPACITY_def)
  then show ?thesis using representsI [of "clear_queue qu" "[]"] by (simp add: clear_queue_def)
qed

section \<open>The queue as a machine\<close>

datatype event_call =
    Add_Event_Count u32 u32
  | Add_Event u32 u32
  | Get_Event u32
  | Get_Next_Type
  | Remove_Head
  | Remove_Event u32
  | Translate_Queue u32
  | Check_Event
  | Save_Queue
  | Load_Queue "u32 list"
  | Init_Interrupt
  | Set_Register cp0_registers u32

text \<open>The outputs are the words a call returns.\<close>

fun event_step :: "'a event_state_scheme \<Rightarrow> event_call \<Rightarrow> ('a event_state_scheme \<times> u32 list) option" where
  "event_step s (Add_Event_Count type count) = do { s \<leftarrow> add_interrupt_event_count type count s; Some (s, []) }"
| "event_step s (Add_Event type delay) = do { s \<leftarrow> add_interrupt_event type delay s; Some (s, []) }"
| "event_step s (Get_Event type) = do { c \<leftarrow> get_event s type; Some (s, [c]) }"
| "event_step s Get_Next_Type = Some (s, [get_next_event_type s])"
| "event_step s Remove_Head = do { s \<leftarrow> remove_interrupt_event s; Some (s, []) }"
| "event_step s (Remove_Event type) = do { s \<leftarrow> remove_event type s; Some (s, []) }"
| "event_step s (Translate_Queue base) = do { s \<leftarrow> translate_event_queue base s; Some (s, []) }"
| "event_step s Check_Event = Some (push_check_event s, [])"
| "event_step s Save_Queue = do { ws \<leftarrow> save_eventqueue_infos s; Some (s, ws) }"
| "event_step s (Load_Queue ws) = do { s \<leftarrow> load_eventqueue_infos ws s; Some (s, []) }"
| "event_step s Init_Interrupt = do { s \<leftarrow> init_interrupt s; Some (s, []) }"
| "event_step s (Set_Register r v) = Some (set_cp0 r v s, [])"

text \<open>The specification works on a list of events and shares the other variables.\<close>

record event_spec =
  sp_events :: "event list"
  sp_done :: bool
  sp_next :: u32
  sp_regs :: "cp0_registers \<Rightarrow> u32"

definition spec_add :: "u32 \<Rightarrow> u32 \<Rightarrow> event_spec \<Rightarrow> event_spec" where
  "spec_add type count a =
     (let now = sp_regs a CP0_COUNT_REG; d = (if now > 0x80000000 then False else sp_done a)
      in a\<lparr>sp_done := d,
           sp_next := if at_front now d (type, count) (sp_events a) then count else sp_next a,
           sp_events := added_events now d (type, count) (sp_events a)\<rparr>)"

definition spec_translate :: "u32 \<Rightarrow> event_spec \<Rightarrow> event_spec" where
  "spec_translate base a =
     (let kept = remove_type SPECIAL_INT (remove_type COMPARE_INT (sp_events a));
          moved = map (\<lambda>(t, c). (t, c - sp_regs a CP0_COUNT_REG + base)) kept
      in spec_add SPECIAL_INT 0 (spec_add COMPARE_INT (sp_regs a CP0_COMPARE_REG) (a\<lparr>sp_events := moved\<rparr>)))"

fun spec_load :: "u32 list \<Rightarrow> event_spec \<Rightarrow> event_spec option" where
  "spec_load [] a = None"
| "spec_load (t # ws) a =
     (if t = 0xFFFFFFFF then Some a else case ws of [] \<Rightarrow> None | c # ws \<Rightarrow> spec_load ws (spec_add t c a))"

fun list_step :: "event_spec \<Rightarrow> event_call \<Rightarrow> (event_spec \<times> u32 list) option" where
  "list_step a (Add_Event_Count type count) = Some (spec_add type count a, [])"
| "list_step a (Add_Event type delay) = Some (spec_add type (sp_regs a CP0_COUNT_REG + delay) a, [])"
| "list_step a (Get_Event type) = Some (a, [find_count type (sp_events a)])"
| "list_step a Get_Next_Type = Some (a, [case sp_events a of [] \<Rightarrow> 0 | e # _ \<Rightarrow> fst e])"
| "list_step a Remove_Head =
     (case sp_events a of
        [] \<Rightarrow> None
      | _ # evs \<Rightarrow> Some (a\<lparr>sp_events := evs, sp_next := next_interrupt_of (sp_regs a CP0_COUNT_REG) (head_count evs)\<rparr>, []))"
| "list_step a (Remove_Event type) = Some (a\<lparr>sp_events := remove_type type (sp_events a)\<rparr>, [])"
| "list_step a (Translate_Queue base) = Some (spec_translate base a, [])"
| "list_step a Check_Event =
     Some (if length (sp_events a) < POOL_CAPACITY
           then a\<lparr>sp_events := (CHECK_INT, sp_regs a CP0_COUNT_REG) # sp_events a, sp_next := sp_regs a CP0_COUNT_REG\<rparr>
           else a, [])"
| "list_step a Save_Queue = Some (a, saved_words (sp_events a))"
| "list_step a (Load_Queue ws) = do { a \<leftarrow> spec_load ws (a\<lparr>sp_events := []\<rparr>); Some (a, []) }"
| "list_step a Init_Interrupt = Some (spec_add SPECIAL_INT 0 (a\<lparr>sp_done := True, sp_events := []\<rparr>), [])"
| "list_step a (Set_Register r v) = Some (a\<lparr>sp_regs := (sp_regs a)(r := v)\<rparr>, [])"

definition abstracts :: "'a event_state_scheme \<Rightarrow> event_spec \<Rightarrow> bool" where
  "abstracts s a \<longleftrightarrow> represents (q s) (sp_events a) \<and> SPECIAL_done s = sp_done a \<and>
     next_interrupt s = sp_next a \<and> g_cp0_regs s = sp_regs a"

lemma add_refines:
  assumes "abstracts s a"
  shows "\<exists>s'. add_interrupt_event_count type count s = Some s' \<and> abstracts s' (spec_add type count a)"
proof -
  have "represents (q s) (sp_events a)" using assms by (simp add: abstracts_def)
  from add_ok [OF this, of type count] obtain qu where
    "add_interrupt_event_count type count s = Some (s\<lparr>q := qu, SPECIAL_done := done_after s,
       next_interrupt := if at_front (count_reg s) (done_after s) (type, count) (sp_events a) then count else next_interrupt s\<rparr>)"
    "represents qu (added_events (count_reg s) (done_after s) (type, count) (sp_events a))" .
  with assms show ?thesis by (auto simp: abstracts_def spec_add_def Let_def done_after_def)
qed

lemma remove_event_refines:
  assumes "abstracts s a"
  shows "\<exists>s'. remove_event type s = Some s' \<and> abstracts s' (a\<lparr>sp_events := remove_type type (sp_events a)\<rparr>)"
proof -
  have "represents (q s) (sp_events a)" using assms by (simp add: abstracts_def)
  from remove_event_ok [OF this, of type] obtain qu where
    "remove_event type s = Some (s\<lparr>q := qu\<rparr>)" "represents qu (remove_type type (sp_events a))" .
  with assms show ?thesis by (simp add: abstracts_def)
qed

lemma translate_refines:
  assumes "abstracts s a"
  shows "\<exists>s'. translate_event_queue base s = Some s' \<and> abstracts s' (spec_translate base a)"
proof -
  obtain s1 where 1: "remove_event COMPARE_INT s = Some s1"
    "abstracts s1 (a\<lparr>sp_events := remove_type COMPARE_INT (sp_events a)\<rparr>)"
    using remove_event_refines [OF assms] by blast
  obtain s2 where 2: "remove_event SPECIAL_INT s1 = Some s2"
    "abstracts s2 (a\<lparr>sp_events := remove_type SPECIAL_INT (remove_type COMPARE_INT (sp_events a))\<rparr>)"
    using remove_event_refines [OF 1(2), of SPECIAL_INT] by auto
  let ?kept = "remove_type SPECIAL_INT (remove_type COMPARE_INT (sp_events a))"
  have r: "represents (q s2) ?kept" using 2(2) by (simp add: abstracts_def)
  obtain p where p: "map_counts (\<lambda>c. (c - count_reg s2) + base) (q_first (q s2)) (q_pool (q s2)) = Some p"
    "represents ((q s2)\<lparr>q_pool := p\<rparr>) (map (\<lambda>(t, c). (t, (c - count_reg s2) + base)) ?kept)"
    using map_queue_counts_ok [OF r] by blast
  let ?s3 = "s2\<lparr>q := (q s2)\<lparr>q_pool := p\<rparr>\<rparr>"
  let ?a3 = "a\<lparr>sp_events := map (\<lambda>(t, c). (t, c - sp_regs a CP0_COUNT_REG + base)) ?kept\<rparr>"
  have regs: "g_cp0_regs s2 = sp_regs a" using 2(2) by (simp add: abstracts_def)
  have 3: "abstracts ?s3 ?a3" using 2(2) p(2) by (simp add: abstracts_def)
  obtain s4 where 4: "add_interrupt_event_count COMPARE_INT (sp_regs a CP0_COMPARE_REG) ?s3 = Some s4"
    "abstracts s4 (spec_add COMPARE_INT (sp_regs a CP0_COMPARE_REG) ?a3)"
    using add_refines [OF 3] by blast
  obtain s5 where "add_interrupt_event_count SPECIAL_INT 0 s4 = Some s5"
    "abstracts s5 (spec_add SPECIAL_INT 0 (spec_add COMPARE_INT (sp_regs a CP0_COMPARE_REG) ?a3))"
    using add_refines [OF 4(2)] by blast
  with 1(1) 2(1) p(1) 4(1) regs show ?thesis
    by (simp add: translate_event_queue_def spec_translate_def Let_def)
qed

lemma load_refines:
  assumes "abstracts s a" "spec_load ws a = Some a'"
  shows "\<exists>s'. load_events ws s = Some s' \<and> abstracts s' a'"
  using assms
proof (induction ws a arbitrary: s rule: spec_load.induct)
  case (2 t ws a)
  show ?case
  proof (cases "t = 0xFFFFFFFF")
    case False
    then obtain c ws' where ws: "ws = c # ws'" "spec_load ws' (spec_add t c a) = Some a'"
      using 2(3) by (cases ws) auto
    obtain s1 where "add_interrupt_event_count t c s = Some s1" "abstracts s1 (spec_add t c a)"
      using add_refines [OF 2(2)] by blast
    with 2(1) [OF False ws(1) this(2) ws(2)] False ws(1) show ?thesis by simp
  qed (use 2 in simp)
qed simp

lemma clear_any_queue:
  "length (pool_nodes (q_pool qu)) = 16 \<Longrightarrow> represents (clear_queue qu) []"
  using representsI [of "clear_queue qu" "[]"]
  by (auto simp: pool_ok_def clear_queue_def clear_pool_def POOL_CAPACITY_def lessThan_atLeast0)

lemma init_refines:
  assumes "length (pool_nodes (q_pool (q s))) = 16"
  shows "\<exists>s'. init_interrupt s = Some s' \<and> abstracts s'
    (spec_add SPECIAL_INT 0 \<lparr>sp_events = [], sp_done = True, sp_next = next_interrupt s, sp_regs = g_cp0_regs s\<rparr>)"
  unfolding init_interrupt_def using clear_any_queue [OF assms] by (intro add_refines) (simp add: abstracts_def)

lemma represents_length: "represents qu evs \<Longrightarrow> length (pool_nodes (q_pool qu)) = 16"
  by (auto simp: represents_def pool_ok_def)

interpretation events: refined_machine event_step list_step abstracts
proof (unfold_locales, goal_cases)
  case (1 s a i a' os)
  have r: "represents (q s) (sp_events a)" and e: "SPECIAL_done s = sp_done a" "next_interrupt s = sp_next a"
    "g_cp0_regs s = sp_regs a"
    using 1(1) by (simp_all add: abstracts_def)
  show ?case
  proof (cases i)
    case (Add_Event_Count t c)
    with 1 add_refines [OF 1(1), of t c] show ?thesis by auto
  next
    case (Add_Event t d)
    with 1 add_refines [OF 1(1), of t "sp_regs a CP0_COUNT_REG + d"] e show ?thesis
      by (auto simp: add_interrupt_event_def)
  next
    case (Get_Event t)
    with 1 get_event_ok [OF r, of t] show ?thesis by auto
  next
    case Get_Next_Type
    obtain ps where "path (pool_nodes (q_pool (q s))) (q_first (q s)) ps None"
      "sp_events a = map (event_at (pool_nodes (q_pool (q s)))) ps" using r by (rule representsE)
    then have "get_next_event_type s = (case sp_events a of [] \<Rightarrow> 0 | e # _ \<Rightarrow> fst e)"
      by (cases ps) (auto simp: get_next_event_type_def event_at_def)
    with 1 Get_Next_Type show ?thesis by auto
  next
    case Remove_Head
    then obtain e' evs where a: "sp_events a = e' # evs" using 1(2) by (cases "sp_events a") auto
    obtain qu where "remove_interrupt_event s =
        Some (s\<lparr>q := qu, next_interrupt := next_interrupt_of (count_reg s) (head_count evs)\<rparr>)" "represents qu evs"
      using remove_interrupt_event_ok [of s e' evs] r a by auto
    with 1 Remove_Head a e show ?thesis by (auto simp: abstracts_def)
  next
    case (Remove_Event t)
    with 1 remove_event_refines [OF 1(1), of t] show ?thesis by auto
  next
    case (Translate_Queue b)
    with 1 translate_refines [OF 1(1), of b] show ?thesis by auto
  next
    case Check_Event
    obtain qu where
      "push_check_event s = s\<lparr>q := qu, next_interrupt := if length (sp_events a) < POOL_CAPACITY then count_reg s else next_interrupt s\<rparr>"
      "represents qu (if length (sp_events a) < POOL_CAPACITY then (CHECK_INT, count_reg s) # sp_events a else sp_events a)"
      using push_check_ok [OF r] by blast
    with 1 Check_Event e show ?thesis by (auto simp: abstracts_def)
  next
    case Save_Queue
    with 1 save_ok [OF r] show ?thesis by auto
  next
    case (Load_Queue ws)
    have "abstracts (s\<lparr>q := clear_queue (q s)\<rparr>) (a\<lparr>sp_events := []\<rparr>)"
      using clear_queue_ok [OF r] e by (simp add: abstracts_def)
    with 1 Load_Queue load_refines [of "s\<lparr>q := clear_queue (q s)\<rparr>" "a\<lparr>sp_events := []\<rparr>" ws] show ?thesis
      by (auto simp: load_eventqueue_infos_def split: bind_splits)
  next
    case Init_Interrupt
    have "abstracts (s\<lparr>SPECIAL_done := True, q := clear_queue (q s)\<rparr>) (a\<lparr>sp_done := True, sp_events := []\<rparr>)"
      using clear_queue_ok [OF r] e by (simp add: abstracts_def)
    from add_refines [OF this, of SPECIAL_INT 0] 1 Init_Interrupt show ?thesis
      by (auto simp: init_interrupt_def)
  next
    case (Set_Register r v)
    with 1 e show ?thesis by (auto simp: abstracts_def set_cp0_def)
  qed
qed

text \<open>
  C4. From its initialisation on, whatever is in the memory of the pool and whatever calls are
  made, the linked queue behaves like the list of its events: every call the list allows
  returns, with the same results, and follows no null pointer. Only the removal of the head of
  an empty queue and the loading of an image without an end mark are not allowed.
\<close>

theorem event_queue_refines_list:
  assumes "length (pool_nodes (q_pool (q s))) = POOL_CAPACITY"
    "a = spec_add SPECIAL_INT 0 \<lparr>sp_events = [], sp_done = True, sp_next = next_interrupt s, sp_regs = g_cp0_regs s\<rparr>"
    "run_all list_step a calls = Some (a', os)"
  shows "\<exists>s'. run_all event_step s (Init_Interrupt # calls) = Some (s', os) \<and> abstracts s' a'"
proof -
  obtain s1 where i: "init_interrupt s = Some s1" and s1: "abstracts s1 a"
    using init_refines [of s] assms(1,2) by (auto simp: POOL_CAPACITY_def)
  from events.run_refines [OF s1 assms(3)] i show ?thesis by auto
qed

definition cold_state :: event_state where
  "cold_state = \<lparr>q = \<lparr>q_pool = \<lparr>pool_nodes = replicate 16 \<lparr>ev_type = 0, ev_count = 0, ev_next = None\<rparr>,
     pool_stack = replicate 16 0, pool_index = 0\<rparr>, q_first = None\<rparr>, SPECIAL_done = False,
     next_interrupt = 0, g_cp0_regs = (\<lambda>_. 0)(CP0_COUNT_REG := 0x5000)\<rparr>"

theorem event_queue_refines_list_witness:
  "map_option snd (run_all event_step cold_state (Init_Interrupt #
     [Add_Event VI_INT 5000, Add_Event AI_INT 700, Add_Event SI_INT 900, Remove_Head, Get_Event VI_INT, Save_Queue])) =
   Some [25480, SI_INT, 21380, VI_INT, 25480, SPECIAL_INT, 0, 0xFFFFFFFF]"
proof -
  let ?a = "spec_add SPECIAL_INT 0 \<lparr>sp_events = [], sp_done = True,
    sp_next = next_interrupt cold_state, sp_regs = g_cp0_regs cold_state\<rparr>"
  let ?calls = "[Add_Event VI_INT 5000, Add_Event AI_INT 700, Add_Event SI_INT 900, Remove_Head,
    Get_Event VI_INT, Save_Queue]"
  have "map_option snd (run_all list_step ?a ?calls) =
      Some [25480, SI_INT, 21380, VI_INT, 25480, SPECIAL_INT, 0, 0xFFFFFFFF]"
    by code_simp
  then obtain a' where "run_all list_step ?a ?calls =
      Some (a', [25480, SI_INT, 21380, VI_INT, 25480, SPECIAL_INT, 0, 0xFFFFFFFF])" by auto
  from event_queue_refines_list [OF _ refl this] show ?thesis by (auto simp: cold_state_def POOL_CAPACITY_def)
qed

end
