(* ===== verification/Event_Order.thy ===== *)
theory Event_Order
  imports Event_Queue
begin

text \<open>
  Time in the event queue. \<open>Count\<close> is a 32-bit register that wraps, and so are the counts at
  which events are due; \<open>due\<close> reads a count as a signed distance from now, and puts the
  \<open>SPECIAL_INT\<close> event, which stands for the wrap of the counter, where \<open>before_event\<close> has it.
  The queue stays sorted by it.
\<close>

section \<open>Due times\<close>




lemma sint_uint32: "sint (w :: u32) = (if uint w < 2 ^ 31 then uint w else uint w - 2 ^ 32)"
proof -
  have u: "uint w < 2 ^ 32" using unsigned_less [of w] by simp
  have "(uint w + 2 ^ 31) mod 2 ^ 32 = uint w - 2 ^ 31" if "\<not> uint w < 2 ^ 31"
  proof -
    have "(uint w - 2 ^ 31 + 2 ^ 32) mod 2 ^ 32 = uint w - 2 ^ 31"
      using that u unfolding mod_add_self2 by (intro mod_pos_pos_trivial) simp_all
    then show ?thesis by (simp add: algebra_simps)
  qed
  with u show ?thesis by (simp add: sint_uint signed_take_bit_eq_take_bit_shift take_bit_eq_mod)
qed

lemma uint32_bounds: "0 \<le> uint (w :: u32)" "uint (w :: u32) < 4294967296"
  using unsigned_less [of w] by simp_all

lemma sint_diff32:
  "sint (a - b :: u32) =
     (let x = uint a - uint b in if x < - 2147483648 then x + 4294967296 else if x < 2147483648 then x else x - 4294967296)"
  using uint32_bounds [of a] uint32_bounds [of b]
  by (simp add: sint_uint32 uint_sub_if' Let_def)





section \<open>Adding and removing events\<close>









section \<open>Passing time\<close>











section \<open>The queue over time\<close>

















section \<open>Saving and loading\<close>






text \<open>
  A write to \<open>Count\<close> moves the queue while the register still has its old value, so the compare
  event is placed by the wrong distances: here \<open>Count\<close> goes from \<open>0x1000\<close> to zero, the vertical
  interrupt from \<open>0x2000\<close> to \<open>0x1000\<close>, and the compare event at \<open>0x500\<close>, due first, ends up
  behind it.
\<close>

lemma translate_misplaces_compare:
  "map_option (sp_events \<circ> fst) (list_step
      \<lparr>sp_events = [(VI_INT, 0x2000), (SPECIAL_INT, 0)], sp_done = True, sp_next = 0x2000,
        sp_regs = (\<lambda>_. 0)(CP0_COUNT_REG := 0x1000, CP0_COMPARE_REG := 0x500)\<rparr> (Translate_Queue 0)) =
    Some [(VI_INT, 0x1000), (COMPARE_INT, 0x500), (SPECIAL_INT, 0)]"
  by code_simp

end
