(* ===== verification/Interrupts.thy ===== *)
theory Interrupts
  imports Event_Order
begin

text \<open>
  Interrupts of the emulated processor: \<open>check_interrupt\<close>, \<open>raise_maskable_interrupt\<close> and the
  handlers of \<open>r4300/interrupt.c\<close>, \<open>exception_general\<close> of \<open>r4300/exception.c\<close>,
  \<open>cp0_update_count\<close> of \<open>r4300/cp0.c\<close> and the interrupt controller
  \<open>r4300/mi_controller.c\<close>. The emulation mode is one of the interpreters: there
  \<open>generic_jump_to\<close> leaves \<open>PC->addr\<close> at its argument and \<open>wrapped_exception_general\<close> is
  \<open>exception_general\<close>.
\<close>

section \<open>State\<close>

datatype mi_registers = MI_INIT_MODE_REG | MI_VERSION_REG | MI_INTR_REG | MI_INTR_MASK_REG

record r4300_core = event_state +
  mi_regs :: "mi_registers \<Rightarrow> u32"
  PC_addr :: u32
  last_addr :: u32
  delay_slot :: u32
  skip_jump :: u32
  dyna_interp :: bool
  count_per_op :: u32

definition MI_INTR_SP :: u32 where "MI_INTR_SP = 0x01"
definition MI_INTR_SI :: u32 where "MI_INTR_SI = 0x02"
definition MI_INTR_AI :: u32 where "MI_INTR_AI = 0x04"
definition MI_INTR_VI :: u32 where "MI_INTR_VI = 0x08"
definition MI_INTR_PI :: u32 where "MI_INTR_PI = 0x10"
definition MI_INTR_DP :: u32 where "MI_INTR_DP = 0x20"

definition CP0_STATUS_IE :: u32 where "CP0_STATUS_IE = 0x00000001"
definition CP0_STATUS_EXL :: u32 where "CP0_STATUS_EXL = 0x00000002"
definition CP0_STATUS_ERL :: u32 where "CP0_STATUS_ERL = 0x00000004"
definition CP0_STATUS_IM4 :: u32 where "CP0_STATUS_IM4 = 0x00001000"
definition CP0_STATUS_SR :: u32 where "CP0_STATUS_SR = 0x00100000"
definition CP0_STATUS_TS :: u32 where "CP0_STATUS_TS = 0x00200000"
definition CP0_CAUSE_EXCCODE_MASK :: u32 where "CP0_CAUSE_EXCCODE_MASK = 0x7c"
definition CP0_CAUSE_IP2 :: u32 where "CP0_CAUSE_IP2 = 0x00000400"
definition CP0_CAUSE_IP4 :: u32 where "CP0_CAUSE_IP4 = 0x00001000"
definition CP0_CAUSE_IP7 :: u32 where "CP0_CAUSE_IP7 = 0x00008000"
definition CP0_CAUSE_BD :: u32 where "CP0_CAUSE_BD = 0x80000000"

abbreviation status_reg :: "'a event_state_scheme \<Rightarrow> u32" where
  "status_reg s \<equiv> g_cp0_regs s CP0_STATUS_REG"

abbreviation cause_reg :: "'a event_state_scheme \<Rightarrow> u32" where
  "cause_reg s \<equiv> g_cp0_regs s CP0_CAUSE_REG"

definition set_mi :: "mi_registers \<Rightarrow> u32 \<Rightarrow> 'a r4300_core_scheme \<Rightarrow> 'a r4300_core_scheme" where
  "set_mi r v s = s\<lparr>mi_regs := (mi_regs s)(r := v)\<rparr>"

section \<open>Exceptions\<close>

definition cp0_update_count :: "'a r4300_core_scheme \<Rightarrow> 'a r4300_core_scheme" where
  "cp0_update_count s =
     (set_cp0 CP0_COUNT_REG (count_reg s + shr (PC_addr s - last_addr s) 2 * count_per_op s) s)
       \<lparr>last_addr := PC_addr s\<rparr>"

definition generic_jump_to :: "u32 \<Rightarrow> 'a r4300_core_scheme \<Rightarrow> 'a r4300_core_scheme" where
  "generic_jump_to address s = s\<lparr>PC_addr := address\<rparr>"

definition exception_general :: "'a r4300_core_scheme \<Rightarrow> 'a r4300_core_scheme" where
  "exception_general s =
     (let s = cp0_update_count s;
          s = set_cp0 CP0_STATUS_REG (status_reg s OR CP0_STATUS_EXL) s;
          s = set_cp0 CP0_EPC_REG (PC_addr s) s;
          s = (if delay_slot s = 1 \<or> delay_slot s = 3
               then set_cp0 CP0_EPC_REG (g_cp0_regs s CP0_EPC_REG - 4)
                      (set_cp0 CP0_CAUSE_REG (cause_reg s OR CP0_CAUSE_BD) s)
               else set_cp0 CP0_CAUSE_REG (cause_reg s AND NOT CP0_CAUSE_BD) s);
          s = generic_jump_to 0x80000180 s;
          s = s\<lparr>last_addr := PC_addr s, dyna_interp := False\<rparr>
      in if delay_slot s \<noteq> 0 then s\<lparr>skip_jump := PC_addr s, next_interrupt := 0\<rparr> else s)"

definition raise_maskable_interrupt :: "u32 \<Rightarrow> 'a r4300_core_scheme \<Rightarrow> 'a r4300_core_scheme" where
  "raise_maskable_interrupt cause s =
     (let s = set_cp0 CP0_CAUSE_REG ((cause_reg s OR cause) AND NOT CP0_CAUSE_EXCCODE_MASK) s
      in if status_reg s AND cause_reg s AND 0xff00 = 0 then s
         else if status_reg s AND (CP0_STATUS_IE OR CP0_STATUS_EXL OR CP0_STATUS_ERL) \<noteq> CP0_STATUS_IE then s
         else exception_general s)"

definition check_interrupt :: "'a r4300_core_scheme \<Rightarrow> 'a r4300_core_scheme" where
  "check_interrupt s =
     (let s = (if mi_regs s MI_INTR_REG AND mi_regs s MI_INTR_MASK_REG \<noteq> 0
               then set_cp0 CP0_CAUSE_REG ((cause_reg s OR CP0_CAUSE_IP2) AND NOT CP0_CAUSE_EXCCODE_MASK) s
               else set_cp0 CP0_CAUSE_REG (cause_reg s AND NOT CP0_CAUSE_IP2) s)
      in if status_reg s AND (CP0_STATUS_IE OR CP0_STATUS_EXL OR CP0_STATUS_ERL) \<noteq> CP0_STATUS_IE then s
         else if status_reg s AND cause_reg s AND 0xFF00 \<noteq> 0 then push_check_event s
         else s)"

section \<open>The interrupt controller\<close>

text \<open>Bits of \<open>w\<close> clear and set bits of a register: \<open>apply_masks\<close> runs the listed pairs in order.\<close>

definition clear_if :: "u32 \<Rightarrow> u32 \<Rightarrow> u32 \<Rightarrow> u32 \<Rightarrow> u32" where
  "clear_if w m bits r = (if w AND m \<noteq> 0 then r AND NOT bits else r)"

definition set_if :: "u32 \<Rightarrow> u32 \<Rightarrow> u32 \<Rightarrow> u32 \<Rightarrow> u32" where
  "set_if w m bits r = (if w AND m \<noteq> 0 then r OR bits else r)"

definition update_mi_init_mode :: "u32 \<Rightarrow> u32 \<Rightarrow> u32 \<times> bool" where
  "update_mi_init_mode mi_init_mode w =
     (let r = mi_init_mode AND NOT 0x7f;
          r = r OR (w AND 0x7f);
          r = clear_if w 0x80 0x80 r;
          r = set_if w 0x100 0x80 r;
          r = clear_if w 0x200 0x100 r;
          r = set_if w 0x400 0x100 r;
          clear_dp = (w AND 0x800 \<noteq> 0);
          r = clear_if w 0x1000 0x200 r;
          r = set_if w 0x2000 0x200 r
      in (r, clear_dp))"

definition update_mi_intr_mask :: "u32 \<Rightarrow> u32 \<Rightarrow> u32" where
  "update_mi_intr_mask mi_intr_mask w =
     (let r = clear_if w 0x1 MI_INTR_SP mi_intr_mask;
          r = set_if w 0x2 MI_INTR_SP r;
          r = clear_if w 0x4 MI_INTR_SI r;
          r = set_if w 0x8 MI_INTR_SI r;
          r = clear_if w 0x10 MI_INTR_AI r;
          r = set_if w 0x20 MI_INTR_AI r;
          r = clear_if w 0x40 MI_INTR_VI r;
          r = set_if w 0x80 MI_INTR_VI r;
          r = clear_if w 0x100 MI_INTR_PI r;
          r = set_if w 0x200 MI_INTR_PI r;
          r = clear_if w 0x400 MI_INTR_DP r
      in set_if w 0x800 MI_INTR_DP r)"

definition raise_rcp_interrupt :: "u32 \<Rightarrow> 'a r4300_core_scheme \<Rightarrow> 'a r4300_core_scheme" where
  "raise_rcp_interrupt mi_intr s =
     (let s = set_mi MI_INTR_REG (mi_regs s MI_INTR_REG OR mi_intr) s
      in if mi_regs s MI_INTR_REG AND mi_regs s MI_INTR_MASK_REG \<noteq> 0 then raise_maskable_interrupt 0x400 s else s)"

definition signal_rcp_interrupt :: "u32 \<Rightarrow> 'a r4300_core_scheme \<Rightarrow> 'a r4300_core_scheme" where
  "signal_rcp_interrupt mi_intr s =
     check_interrupt (set_mi MI_INTR_REG (mi_regs s MI_INTR_REG OR mi_intr) s)"

definition clear_rcp_interrupt :: "u32 \<Rightarrow> 'a r4300_core_scheme \<Rightarrow> 'a r4300_core_scheme" where
  "clear_rcp_interrupt mi_intr s =
     check_interrupt (set_mi MI_INTR_REG (mi_regs s MI_INTR_REG AND NOT mi_intr) s)"

definition poweron_mi :: "'a r4300_core_scheme \<Rightarrow> 'a r4300_core_scheme" where
  "poweron_mi s = s\<lparr>mi_regs := (\<lambda>_. 0)(MI_VERSION_REG := 0x02020102)\<rparr>"

text \<open>The register an address names, if there is one.\<close>

definition mi_reg :: "u32 \<Rightarrow> mi_registers option" where
  "mi_reg address =
     (let reg = shr (address AND 0xffff) 2
      in if reg = 0 then Some MI_INIT_MODE_REG else if reg = 1 then Some MI_VERSION_REG
         else if reg = 2 then Some MI_INTR_REG else if reg = 3 then Some MI_INTR_MASK_REG else None)"

definition read_mi_regs :: "u32 \<Rightarrow> 'a r4300_core_scheme \<Rightarrow> u32" where
  "read_mi_regs address s = (case mi_reg address of Some reg \<Rightarrow> mi_regs s reg | None \<Rightarrow> 0)"

section \<open>Handlers\<close>

definition compare_int_handler :: "'a r4300_core_scheme \<Rightarrow> 'a r4300_core_scheme option" where
  "compare_int_handler s =
     do { s \<leftarrow> remove_interrupt_event s;
          let s = set_cp0 CP0_COUNT_REG (count_reg s + count_per_op s) s;
          s \<leftarrow> add_interrupt_event_count COMPARE_INT (g_cp0_regs s CP0_COMPARE_REG) s;
          let s = set_cp0 CP0_COUNT_REG (count_reg s - count_per_op s) s;
          Some (raise_maskable_interrupt CP0_CAUSE_IP7 s) }"

definition check_int_handler :: "'a r4300_core_scheme \<Rightarrow> 'a r4300_core_scheme option" where
  "check_int_handler s = do { s \<leftarrow> remove_interrupt_event s; Some (exception_general s) }"

definition hw2_int_handler :: "'a r4300_core_scheme \<Rightarrow> 'a r4300_core_scheme option" where
  "hw2_int_handler s =
     do { s \<leftarrow> remove_interrupt_event s;
          let s = set_cp0 CP0_STATUS_REG
            ((status_reg s AND NOT (CP0_STATUS_SR OR CP0_STATUS_TS OR 0x00080000)) OR CP0_STATUS_IM4) s;
          let s = set_cp0 CP0_CAUSE_REG ((cause_reg s OR CP0_CAUSE_IP4) AND NOT CP0_CAUSE_EXCCODE_MASK) s;
          Some (exception_general s) }"

definition cart_int_handler :: "'a r4300_core_scheme \<Rightarrow> 'a r4300_core_scheme option" where
  "cart_int_handler s =
     (let s = set_cp0 CP0_CAUSE_REG (cause_reg s OR 0x00000800) s;
          s = set_cp0 CP0_CAUSE_REG (cause_reg s AND 0xFFFFFF83) s
      in remove_interrupt_event s)"

end
