(* ===== verification/Controllers.thy ===== *)
theory Controllers
  imports Interrupts
begin

text \<open>
  The controllers that live on the event queue: the audio interface \<open>ai/ai_controller.c\<close>, the
  video interface \<open>vi/vi_controller.c\<close>, the ends of the DMAs of \<open>si/si_controller.c\<close>,
  \<open>pi/pi_controller.c\<close>, \<open>rsp/rsp_core.c\<close> and \<open>rdp/rdp_core.c\<close>, and \<open>gen_interrupt\<close> of
  \<open>r4300/interrupt.c\<close>, which runs the handler of the event at the head of the queue. An array of
  registers is a function of the index, used below the number of registers only. What the
  controllers ask of the frontend and the graphics plugin is logged.
\<close>

definition MASKED_WRITE :: "u32 \<Rightarrow> u32 \<Rightarrow> u32 \<Rightarrow> u32" where
  "MASKED_WRITE dst val mask_bits = (dst AND NOT mask_bits) OR (val AND mask_bits)"

definition reg_index :: "u32 \<Rightarrow> nat" where
  "reg_index address = unat (shr (address AND 0xFFFF) 2)"

section \<open>State\<close>

definition AI_DRAM_ADDR_REG :: nat where "AI_DRAM_ADDR_REG = 0"
definition AI_LEN_REG :: nat where "AI_LEN_REG = 1"
definition AI_STATUS_REG :: nat where "AI_STATUS_REG = 3"
definition AI_DACRATE_REG :: nat where "AI_DACRATE_REG = 4"
definition AI_BITRATE_REG :: nat where "AI_BITRATE_REG = 5"
definition AI_REGS_COUNT :: nat where "AI_REGS_COUNT = 6"
definition AI_STATUS_BUSY :: u32 where "AI_STATUS_BUSY = 0x40000000"
definition AI_STATUS_FULL :: u32 where "AI_STATUS_FULL = 0x80000000"

definition VI_STATUS_REG :: nat where "VI_STATUS_REG = 0"
definition VI_WIDTH_REG :: nat where "VI_WIDTH_REG = 2"
definition VI_CURRENT_REG :: nat where "VI_CURRENT_REG = 4"
definition VI_V_SYNC_REG :: nat where "VI_V_SYNC_REG = 6"
definition VI_REGS_COUNT :: nat where "VI_REGS_COUNT = 14"

lemmas ai_registers = AI_DRAM_ADDR_REG_def AI_LEN_REG_def AI_STATUS_REG_def AI_DACRATE_REG_def
  AI_BITRATE_REG_def AI_REGS_COUNT_def

record ai_dma =
  dma_address :: u32
  dma_length :: u32
  dma_duration :: u32

record ai_controller =
  ai_regs :: "nat \<Rightarrow> u32"
  fifo0 :: ai_dma
  fifo1 :: ai_dma
  samples_format_changed :: bool
  fixed_audio_pos :: bool
  audio_pos :: u32
  last_read :: u32

record vi_controller =
  vi_regs :: "nat \<Rightarrow> u32"
  vi_field :: u32
  vi_clock :: u32
  expected_refresh_rate :: u32
  vi_delay :: u32
  next_vi :: u32

datatype device_event =
    Set_Audio_Format u32 u32
  | Push_Audio_Samples u32 u32 u32
  | Update_Screen
  | New_Vi
  | Check_Inputs
  | Retro_Return
  | Vi_Status_Changed
  | Vi_Width_Changed
  | Dd_Update_Bm

record device = r4300_core +
  ai :: ai_controller
  vi :: vi_controller
  g_vi_refresh_rate :: u32
  alternate_vi_timing :: bool
  si_status_reg :: u32
  pif_ram_last :: u8
  pi_status_reg :: u32
  pi_cart_addr_reg :: u32
  sp_status_reg :: u32
  dev_log :: "device_event list"

definition emit :: "device_event \<Rightarrow> device \<Rightarrow> device" where
  "emit e d = d\<lparr>dev_log := dev_log d @ [e]\<rparr>"

definition set_ai_reg :: "nat \<Rightarrow> u32 \<Rightarrow> device \<Rightarrow> device" where
  "set_ai_reg r v d = d\<lparr>ai := (ai d)\<lparr>ai_regs := (ai_regs (ai d))(r := v)\<rparr>\<rparr>"

definition set_vi_reg :: "nat \<Rightarrow> u32 \<Rightarrow> device \<Rightarrow> device" where
  "set_vi_reg r v d = d\<lparr>vi := (vi d)\<lparr>vi_regs := (vi_regs (vi d))(r := v)\<rparr>\<rparr>"

section \<open>Audio interface\<close>

text \<open>
  \<open>get_dma_duration\<close> divides by the sample rate: \<open>None\<close> is a division by zero.
\<close>

definition get_dma_duration :: "device \<Rightarrow> u32 option" where
  "get_dma_duration d =
     (let rate = 1 + ai_regs (ai d) AI_DACRATE_REG;
          samples_per_sec = vi_clock (vi d) div rate;
          bytes_per_sample = 4;
          cpu_counts_per_sec = vi_delay (vi d) * expected_refresh_rate (vi d)
      in if rate = 0 \<or> bytes_per_sample * samples_per_sec = 0 then None
         else Some (ai_regs (ai d) AI_LEN_REG * (cpu_counts_per_sec div (bytes_per_sample * samples_per_sec))))"

definition set_format :: "device \<Rightarrow> device option" where
  "set_format d =
     (if samples_format_changed (ai d) then
        let dacrate = ai_regs (ai d) AI_DACRATE_REG;
            bitrate = ai_regs (ai d) AI_BITRATE_REG;
            bits = (if bitrate = 0 then 16 else 1 + bitrate)
        in if dacrate \<noteq> 0 \<and> 1 + dacrate = 0 then None
           else let frequency = (if dacrate = 0 then 44100 else vi_clock (vi d) div (1 + dacrate))
                in Some ((emit (Set_Audio_Format frequency bits) d)
                     \<lparr>ai := (ai d)\<lparr>samples_format_changed := False, last_read := 0\<rparr>\<rparr>)
      else Some d)"

definition do_dma :: "ai_dma \<Rightarrow> device \<Rightarrow> device option" where
  "do_dma dma d =
     do { d \<leftarrow> set_format d;
          let d = d\<lparr>ai := (ai d)\<lparr>last_read := dma_length dma\<rparr>\<rparr>;
          add_interrupt_event AI_INT (dma_duration dma) (cp0_update_count d) }"

definition fifo_push :: "device \<Rightarrow> device option" where
  "fifo_push d =
     do { duration \<leftarrow> get_dma_duration d;
          let dma = \<lparr>dma_address = ai_regs (ai d) AI_DRAM_ADDR_REG, dma_length = ai_regs (ai d) AI_LEN_REG,
                     dma_duration = duration\<rparr>;
          let status = ai_regs (ai d) AI_STATUS_REG;
          if status AND AI_STATUS_BUSY \<noteq> 0
          then Some (set_ai_reg AI_STATUS_REG (status OR AI_STATUS_FULL) (d\<lparr>ai := (ai d)\<lparr>fifo1 := dma\<rparr>\<rparr>))
          else do_dma dma (set_ai_reg AI_STATUS_REG (status OR AI_STATUS_BUSY) (d\<lparr>ai := (ai d)\<lparr>fifo0 := dma\<rparr>\<rparr>)) }"

definition fifo_pop :: "device \<Rightarrow> device option" where
  "fifo_pop d =
     (let status = ai_regs (ai d) AI_STATUS_REG
      in if status AND AI_STATUS_FULL \<noteq> 0
         then do_dma (fifo1 (ai d))
           (set_ai_reg AI_STATUS_REG (status AND NOT AI_STATUS_FULL) (d\<lparr>ai := (ai d)\<lparr>fifo0 := fifo1 (ai d)\<rparr>\<rparr>))
         else Some (set_ai_reg AI_STATUS_REG (status AND NOT AI_STATUS_BUSY) d))"

definition poweron_ai :: "device \<Rightarrow> device" where
  "poweron_ai d = d\<lparr>ai := (ai d)\<lparr>ai_regs := \<lambda>_. 0,
     fifo0 := \<lparr>dma_address = 0, dma_length = 0, dma_duration = 0\<rparr>,
     fifo1 := \<lparr>dma_address = 0, dma_length = 0, dma_duration = 0\<rparr>,
     samples_format_changed := False, audio_pos := 0, last_read := 0\<rparr>\<rparr>"

definition get_remaining_dma_length :: "device \<Rightarrow> (u32 \<times> device) option" where
  "get_remaining_dma_length d =
     (if dma_duration (fifo0 (ai d)) = 0 then Some (0, d)
      else
        let d = cp0_update_count d
        in do { next_ai_event \<leftarrow> get_event d AI_INT;
                if next_ai_event = 0 \<or> next_ai_event \<le> count_reg d then Some (0, d)
                else
                  let remaining_dma_duration = next_ai_event - count_reg d;
                      dma_len = (ucast remaining_dma_duration * ucast (dma_length (fifo0 (ai d))) :: u64)
                                  div ucast (dma_duration (fifo0 (ai d)))
                  in Some (ucast (dma_len AND NOT 7), d) })"

text \<open>Samples are pushed from an offset into the buffer of the current DMA.\<close>

definition push_samples :: "u32 \<Rightarrow> u32 \<Rightarrow> device \<Rightarrow> device" where
  "push_samples diff len d = emit (Push_Audio_Samples (dma_address (fifo0 (ai d)) div 4 * 4) diff len) d"

definition read_ai_regs :: "u32 \<Rightarrow> device \<Rightarrow> (u32 \<times> device) option" where
  "read_ai_regs address d =
     (let reg = reg_index address
      in if reg = AI_LEN_REG then
           do { (val, d) \<leftarrow> get_remaining_dma_length d;
                let d = (if val < last_read (ai d)
                         then push_samples (dma_length (fifo0 (ai d)) - last_read (ai d)) (last_read (ai d) - val) d
                         else d);
                Some (val, d\<lparr>ai := (ai d)\<lparr>last_read := val\<rparr>\<rparr>) }
         else Some (if reg < AI_REGS_COUNT then ai_regs (ai d) reg else 0, d))"

definition write_ai_regs :: "u32 \<Rightarrow> u32 \<Rightarrow> u32 \<Rightarrow> device \<Rightarrow> device option" where
  "write_ai_regs address val mask_bits d =
     (let reg = reg_index address;
          written = MASKED_WRITE (ai_regs (ai d) reg) val mask_bits
      in if reg = AI_DRAM_ADDR_REG then
           (let d = set_ai_reg AI_DRAM_ADDR_REG written d
            in if fixed_audio_pos (ai d) then
                 let d = (if audio_pos (ai d) = 0 then d\<lparr>ai := (ai d)\<lparr>audio_pos := ai_regs (ai d) AI_DRAM_ADDR_REG\<rparr>\<rparr> else d)
                 in Some (set_ai_reg AI_DRAM_ADDR_REG (audio_pos (ai d)) d)
               else Some d)
         else if reg = AI_LEN_REG then fifo_push (set_ai_reg AI_LEN_REG written d)
         else if reg = AI_STATUS_REG then Some (clear_rcp_interrupt MI_INTR_AI d)
         else if reg = AI_BITRATE_REG \<or> reg = AI_DACRATE_REG then
           (let d = (if ai_regs (ai d) reg \<noteq> val AND mask_bits then d\<lparr>ai := (ai d)\<lparr>samples_format_changed := True\<rparr>\<rparr> else d)
            in Some (set_ai_reg reg written d))
         else if reg < AI_REGS_COUNT then Some (set_ai_reg reg written d)
         else Some d)"

definition ai_end_of_dma_event :: "device \<Rightarrow> device option" where
  "ai_end_of_dma_event d =
     (let d = (if last_read (ai d) \<noteq> 0
               then push_samples (dma_length (fifo0 (ai d)) - last_read (ai d)) (last_read (ai d)) d else d)
      in do { d \<leftarrow> fifo_pop d; Some (raise_rcp_interrupt MI_INTR_AI d) })"

section \<open>Video interface\<close>

definition poweron_vi :: "device \<Rightarrow> device" where
  "poweron_vi d = d\<lparr>vi := (vi d)\<lparr>vi_regs := \<lambda>_. 0, vi_field := 0, vi_delay := 5000, next_vi := 5000\<rparr>\<rparr>"

text \<open>Reading the current line divides by the refresh rate unless the alternate timing is on.\<close>

definition read_vi_regs :: "u32 \<Rightarrow> device \<Rightarrow> (u32 \<times> device) option" where
  "read_vi_regs address d =
     (let reg = reg_index address
      in do { d \<leftarrow> (if reg = VI_CURRENT_REG then
                let d = cp0_update_count d;
                    elapsed = vi_delay (vi d) - (next_vi (vi d) - count_reg d)
                in if alternate_vi_timing d
                   then Some (set_vi_reg VI_CURRENT_REG (((elapsed mod 526) AND NOT 1) OR vi_field (vi d)) d)
                   else if g_vi_refresh_rate d = 0 then None
                   else Some (set_vi_reg VI_CURRENT_REG (((elapsed div g_vi_refresh_rate d) AND NOT 1) OR vi_field (vi d)) d)
              else Some d);
              Some (if reg < VI_REGS_COUNT then vi_regs (vi d) reg else 0, d) })"

definition write_vi_regs :: "u32 \<Rightarrow> u32 \<Rightarrow> u32 \<Rightarrow> device \<Rightarrow> device" where
  "write_vi_regs address word mask_bits d =
     (let reg = reg_index address;
          written = MASKED_WRITE (vi_regs (vi d) reg) word mask_bits
      in if reg = VI_STATUS_REG then
           (if vi_regs (vi d) VI_STATUS_REG AND mask_bits \<noteq> word AND mask_bits
            then emit Vi_Status_Changed (set_vi_reg VI_STATUS_REG written d) else d)
         else if reg = VI_WIDTH_REG then
           (if vi_regs (vi d) VI_WIDTH_REG AND mask_bits \<noteq> word AND mask_bits
            then emit Vi_Width_Changed (set_vi_reg VI_WIDTH_REG written d) else d)
         else if reg = VI_CURRENT_REG then clear_rcp_interrupt MI_INTR_VI d
         else if reg < VI_REGS_COUNT then set_vi_reg reg written d
         else d)"

definition vi_vertical_interrupt_event :: "device \<Rightarrow> device option" where
  "vi_vertical_interrupt_event d =
     (let d = emit Check_Inputs (emit New_Vi (emit Update_Screen d));
          field_bit = shr (vi_regs (vi d) VI_STATUS_REG) 6 AND 1;
          delay = (if vi_regs (vi d) VI_V_SYNC_REG = 0 then 500000
                   else (vi_regs (vi d) VI_V_SYNC_REG + 1) * g_vi_refresh_rate d);
          d = d\<lparr>vi := (vi d)\<lparr>vi_field := vi_field (vi d) XOR field_bit, vi_delay := delay,
                             next_vi := next_vi (vi d) + delay\<rparr>\<rparr>
      in do { d \<leftarrow> add_interrupt_event_count VI_INT (next_vi (vi d)) d;
              Some (raise_rcp_interrupt MI_INTR_VI d) })"

section \<open>The ends of the other DMAs\<close>

definition SI_STATUS_DMA_BUSY :: u32 where "SI_STATUS_DMA_BUSY = 0x0001"
definition SI_STATUS_INTERRUPT :: u32 where "SI_STATUS_INTERRUPT = 0x1000"
definition PI_STATUS_DMA_BUSY :: u32 where "PI_STATUS_DMA_BUSY = 0x01"
definition PI_STATUS_IO_BUSY :: u32 where "PI_STATUS_IO_BUSY = 0x02"
definition SP_STATUS_INTR_BREAK :: u32 where "SP_STATUS_INTR_BREAK = 0x0040"

definition si_end_of_dma_event :: "device \<Rightarrow> device" where
  "si_end_of_dma_event d =
     (let d = (emit Check_Inputs d)\<lparr>pif_ram_last := 0,
                si_status_reg := (si_status_reg d AND NOT SI_STATUS_DMA_BUSY) OR SI_STATUS_INTERRUPT\<rparr>
      in raise_rcp_interrupt MI_INTR_SI d)"

definition pi_end_of_dma_event :: "device \<Rightarrow> device" where
  "pi_end_of_dma_event d =
     (let d = d\<lparr>pi_status_reg := pi_status_reg d AND NOT (PI_STATUS_DMA_BUSY OR PI_STATUS_IO_BUSY)\<rparr>;
          d = raise_rcp_interrupt MI_INTR_PI d
      in if pi_cart_addr_reg d = 0x05000000 \<or> pi_cart_addr_reg d = 0x05000400 then emit Dd_Update_Bm d else d)"

definition rsp_interrupt_event :: "device \<Rightarrow> device" where
  "rsp_interrupt_event d =
     (if sp_status_reg d AND SP_STATUS_INTR_BREAK \<noteq> 0 then raise_rcp_interrupt MI_INTR_SP d else d)"

definition rdp_interrupt_event :: "device \<Rightarrow> device" where
  "rdp_interrupt_event d = raise_rcp_interrupt MI_INTR_DP d"

section \<open>Dispatch\<close>

text \<open>
  \<open>gen_interrupt\<close> while the emulator runs on, without a pending hard reset; the soft reset an
  \<open>NMI_INT\<close> event makes is an argument. \<open>handle_event\<close> is its switch.
\<close>

definition handle_event :: "(device \<Rightarrow> device option) \<Rightarrow> u32 \<Rightarrow> device \<Rightarrow> device option" where
  "handle_event nmi type d =
     (if type = SPECIAL_INT then special_int_handler d
      else if type = VI_INT then
        do { d \<leftarrow> remove_interrupt_event d; d \<leftarrow> vi_vertical_interrupt_event d; Some (emit Retro_Return d) }
      else if type = COMPARE_INT then compare_int_handler d
      else if type = CHECK_INT then check_int_handler d
      else if type = SI_INT then do { d \<leftarrow> remove_interrupt_event d; Some (si_end_of_dma_event d) }
      else if type = PI_INT then do { d \<leftarrow> remove_interrupt_event d; Some (pi_end_of_dma_event d) }
      else if type = AI_INT then do { d \<leftarrow> remove_interrupt_event d; ai_end_of_dma_event d }
      else if type = SP_INT then do { d \<leftarrow> remove_interrupt_event d; Some (rsp_interrupt_event d) }
      else if type = DP_INT then do { d \<leftarrow> remove_interrupt_event d; Some (rdp_interrupt_event d) }
      else if type = HW2_INT then hw2_int_handler d
      else if type = NMI_INT then nmi d
      else if type = CART_INT then cart_int_handler d
      else check_int_handler d)"

definition gen_interrupt :: "(device \<Rightarrow> device option) \<Rightarrow> device \<Rightarrow> device option" where
  "gen_interrupt nmi d =
     (case q_first (q d) of
        None \<Rightarrow> None
      | Some f \<Rightarrow>
          if skip_jump d \<noteq> 0 then
            let dest = skip_jump d;
                d = d\<lparr>skip_jump := 0, next_interrupt := next_interrupt_of (count_reg d) (Some (ev_count (q_node d f)))\<rparr>
            in Some (generic_jump_to dest (d\<lparr>last_addr := dest\<rparr>))
          else handle_event nmi (ev_type (q_node d f)) d)"

definition write_mi_regs :: "(device \<Rightarrow> device option) \<Rightarrow> u32 \<Rightarrow> u32 \<Rightarrow> u32 \<Rightarrow> device \<Rightarrow> device option" where
  "write_mi_regs nmi address val mask_bits d =
     (case mi_reg address of
        Some MI_INIT_MODE_REG \<Rightarrow>
          let (mode, clear_dp) = update_mi_init_mode (mi_regs d MI_INIT_MODE_REG) (val AND mask_bits);
              d = set_mi MI_INIT_MODE_REG mode d
          in Some (if clear_dp then clear_rcp_interrupt MI_INTR_DP d else d)
      | Some MI_INTR_MASK_REG \<Rightarrow>
          let d = set_mi MI_INTR_MASK_REG (update_mi_intr_mask (mi_regs d MI_INTR_MASK_REG) (val AND mask_bits)) d;
              d = cp0_update_count (check_interrupt d)
          in if next_interrupt d \<le> count_reg d then gen_interrupt nmi d else Some d
      | _ \<Rightarrow> Some d)"

end
