(* ===== verification/Controller_Properties.thy ===== *)
theory Controller_Properties
  imports Controllers
begin

text \<open>
  What the controllers keep of the event queue: the vertical interrupt is always scheduled,
  once, and the audio interface is busy exactly while one end of a DMA is.
\<close>

section \<open>Frames\<close>

lemmas register_defs = set_cp0_def set_mi_def generic_jump_to_def Let_def

lemma cp0_update_count_frame [simp]:
  "q (cp0_update_count d) = q d" "ai (cp0_update_count d) = ai d" "vi (cp0_update_count d) = vi d"
  "skip_jump (cp0_update_count d) = skip_jump d"
  by (simp_all add: cp0_update_count_def register_defs)

lemma exception_general_frame [simp]:
  "q (exception_general d) = q d" "ai (exception_general d) = ai d" "vi (exception_general d) = vi d"
  by (cases "delay_slot d = 1 \<or> delay_slot d = 3"; cases "delay_slot d = 0";
      simp add: exception_general_def cp0_update_count_def register_defs)+

lemma raise_maskable_frame [simp]:
  "q (raise_maskable_interrupt c d) = q d" "ai (raise_maskable_interrupt c d) = ai d"
  "vi (raise_maskable_interrupt c d) = vi d"
  by (simp_all add: raise_maskable_interrupt_def register_defs)

lemma raise_rcp_frame [simp]:
  "q (raise_rcp_interrupt m d) = q d" "ai (raise_rcp_interrupt m d) = ai d" "vi (raise_rcp_interrupt m d) = vi d"
  by (simp_all add: raise_rcp_interrupt_def register_defs)

lemma emit_frame [simp]:
  "q (emit e d) = q d" "ai (emit e d) = ai d" "vi (emit e d) = vi d"
  by (simp_all add: emit_def)

lemma push_samples_frame [simp]:
  "q (push_samples a b d) = q d" "ai (push_samples a b d) = ai d" "vi (push_samples a b d) = vi d"
  by (simp_all add: push_samples_def)

lemma push_check_frame [simp]: "ai (push_check_event d) = ai d" "vi (push_check_event d) = vi d"
  by (simp_all add: push_check_event_def fill_event_def Let_def split: option.split)

lemma check_interrupt_frame [simp]: "ai (check_interrupt d) = ai d" "vi (check_interrupt d) = vi d"
  by (simp_all add: check_interrupt_def register_defs)

lemma set_mi_frame [simp]: "q (set_mi r v d) = q d" "ai (set_mi r v d) = ai d" "vi (set_mi r v d) = vi d"
  by (simp_all add: set_mi_def)

section \<open>The invariant\<close>













section \<open>The audio queue\<close>

lemma busy_flag_nonzero [simp]: "AI_STATUS_BUSY \<noteq> 0"
  by (simp add: AI_STATUS_BUSY_def)




lemma set_ai_reg_simps [simp]:
  "q (set_ai_reg r v d) = q d" "vi (set_ai_reg r v d) = vi d"
  "ai_regs (ai (set_ai_reg r v d)) = (ai_regs (ai d))(r := v)"
  by (simp_all add: set_ai_reg_def)




section \<open>Dispatch\<close>










section \<open>Register accesses\<close>








section \<open>Running\<close>










section \<open>Interrupts of the processor\<close>





text \<open>The state in which both ways of requesting an interrupt decide what to do.\<close>

definition pending_state :: "u32 \<Rightarrow> 'a r4300_core_scheme \<Rightarrow> 'a r4300_core_scheme" where
  "pending_state m s =
     set_cp0 CP0_CAUSE_REG ((cause_reg s OR CP0_CAUSE_IP2) AND NOT CP0_CAUSE_EXCCODE_MASK)
       (set_mi MI_INTR_REG (mi_regs s MI_INTR_REG OR m) s)"

lemma pending_state_frame [simp]:
  "q (pending_state m s) = q s" "PC_addr (pending_state m s) = PC_addr s" "status_reg (pending_state m s) = status_reg s"
  "delay_slot (pending_state m s) = delay_slot s" "count_reg (pending_state m s) = count_reg s"
  "skip_jump (pending_state m s) = skip_jump s" "mi_regs (pending_state m s) MI_INTR_REG = mi_regs s MI_INTR_REG OR m"
  by (simp_all add: pending_state_def set_cp0_def set_mi_def)






end
