(* ===== verification/TLB.thy ===== *)
theory TLB
  imports Interrupts
begin

text \<open>
  The translation lookaside buffer of the emulated processor: \<open>r4300/tlb.c\<close>, its exception in
  \<open>r4300/exception.c\<close> and the TLB instructions of \<open>r4300/mips_instructions.def\<close>. The entries
  \<open>tlb_e\<close> are what the guest reads and writes; the tables \<open>tlb_LUT_r\<close> and \<open>tlb_LUT_w\<close> hold a word
  for every page of the address space and are what memory accesses consult. The tables are
  functions of the page number, an index outside them cannot occur.

  The emulation mode is one of the interpreters. The recompilers' bookkeeping of invalid code
  in \<open>TLBWrite\<close> is not modelled. A loop over pages that never ends has no value.
\<close>

section \<open>State\<close>

record tlb =
  tlb_mask :: "16 word"
  tlb_vpn2 :: u32
  tlb_g :: u8
  tlb_asid :: u8
  pfn_even :: u32
  c_even :: u8
  d_even :: u8
  v_even :: u8
  pfn_odd :: u32
  c_odd :: u8
  d_odd :: u8
  v_odd :: u8
  start_even :: u32
  end_even :: u32
  phys_even :: u32
  start_odd :: u32
  end_odd :: u32
  phys_odd :: u32

datatype special_rom_type = NORMAL_ROM | GOLDEN_EYE | RAT_ATTACK

record tlb_core = r4300_core +
  tlb_e :: "tlb list"
  tlb_LUT_r :: "u32 \<Rightarrow> u32"
  tlb_LUT_w :: "u32 \<Rightarrow> u32"
  special_rom :: special_rom_type
  destination_code :: u8
  pure_interpreter :: bool

definition poweron_tlb :: "tlb_core \<Rightarrow> tlb_core" where
  "poweron_tlb s =
     s\<lparr>tlb_e := replicate 32 \<lparr>tlb_mask = 0, tlb_vpn2 = 0, tlb_g = 0, tlb_asid = 0,
         pfn_even = 0, c_even = 0, d_even = 0, v_even = 0, pfn_odd = 0, c_odd = 0, d_odd = 0, v_odd = 0,
         start_even = 0, end_even = 0, phys_even = 0, start_odd = 0, end_odd = 0, phys_odd = 0\<rparr>,
       tlb_LUT_r := \<lambda>_. 0, tlb_LUT_w := \<lambda>_. 0\<rparr>"

section \<open>The page tables\<close>

text \<open>All eight loops over the pages of a range differ only in the table and the value stored.\<close>

partial_function (option) fill_pages :: "(u32 \<Rightarrow> u32) \<Rightarrow> u32 \<Rightarrow> u32 \<Rightarrow> (u32 \<Rightarrow> u32) \<Rightarrow> (u32 \<Rightarrow> u32) option" where
  "fill_pages f i limit lut =
     (if i < limit then fill_pages f (i + 0x1000) limit (lut(shr i 12 := f i)) else Some lut)"

definition unmap_range :: "u32 \<Rightarrow> u32 \<Rightarrow> bool \<Rightarrow> tlb_core \<Rightarrow> tlb_core option" where
  "unmap_range first limit dirty s =
     do { lut \<leftarrow> fill_pages (\<lambda>_. 0) first limit (tlb_LUT_r s);
          let s = s\<lparr>tlb_LUT_r := lut\<rparr>;
          if dirty then
            do { lut \<leftarrow> fill_pages (\<lambda>_. 0) first limit (tlb_LUT_w s); Some (s\<lparr>tlb_LUT_w := lut\<rparr>) }
          else Some s }"

definition tlb_unmap :: "tlb \<Rightarrow> tlb_core \<Rightarrow> tlb_core option" where
  "tlb_unmap e s =
     do { s \<leftarrow> (if v_even e \<noteq> 0 then unmap_range (start_even e) (end_even e) (d_even e \<noteq> 0) s else Some s);
          if v_odd e \<noteq> 0 then unmap_range (start_odd e) (end_odd e) (d_odd e \<noteq> 0) s else Some s }"

text \<open>The ranges that are entered in the tables, and the word entered for a page.\<close>

definition mappable :: "u32 \<Rightarrow> u32 \<Rightarrow> u32 \<Rightarrow> bool" where
  "mappable first limit phys \<longleftrightarrow>
     first < limit \<and> \<not> (first \<ge> 0x80000000 \<and> limit < 0xC0000000) \<and> phys < 0x20000000"

definition page_word :: "u32 \<Rightarrow> u32 \<Rightarrow> u32 \<Rightarrow> u32" where
  "page_word first phys i = 0x80000000 OR (phys + (i - first) + 0xFFF)"

definition map_range :: "u32 \<Rightarrow> u32 \<Rightarrow> u32 \<Rightarrow> bool \<Rightarrow> tlb_core \<Rightarrow> tlb_core option" where
  "map_range first limit phys dirty s =
     (if mappable first limit phys then
        do { lut \<leftarrow> fill_pages (page_word first phys) first limit (tlb_LUT_r s);
             let s = s\<lparr>tlb_LUT_r := lut\<rparr>;
             if dirty then
               do { lut \<leftarrow> fill_pages (page_word first phys) first limit (tlb_LUT_w s); Some (s\<lparr>tlb_LUT_w := lut\<rparr>) }
             else Some s }
      else Some s)"

definition tlb_map :: "tlb \<Rightarrow> tlb_core \<Rightarrow> tlb_core option" where
  "tlb_map e s =
     do { s \<leftarrow> (if v_even e \<noteq> 0 then map_range (start_even e) (end_even e) (phys_even e) (d_even e \<noteq> 0) s else Some s);
          if v_odd e \<noteq> 0 then map_range (start_odd e) (end_odd e) (phys_odd e) (d_odd e \<noteq> 0) s else Some s }"

section \<open>The refill exception\<close>

definition CP0_CAUSE_EXCCODE_TLBL :: u32 where "CP0_CAUSE_EXCCODE_TLBL = 2 * 4"
definition CP0_CAUSE_EXCCODE_TLBS :: u32 where "CP0_CAUSE_EXCCODE_TLBS = 3 * 4"

definition entry_near :: "u32 \<Rightarrow> tlb \<Rightarrow> bool" where
  "entry_near address e \<longleftrightarrow>
     start_even e \<le> address \<and> address \<le> end_even e \<or> start_odd e \<le> address \<and> address \<le> end_odd e"

definition set_cause_bd :: "'a r4300_core_scheme \<Rightarrow> 'a r4300_core_scheme" where
  "set_cause_bd s =
     set_cp0 CP0_CAUSE_REG (if delay_slot s = 1 \<or> delay_slot s = 3 then cause_reg s OR CP0_CAUSE_BD
                            else cause_reg s AND NOT CP0_CAUSE_BD) s"

text \<open>The kind of access \<open>w\<close> is 0 for a read, 1 for a write and 2 for an instruction.\<close>

definition TLB_refill_exception :: "u32 \<Rightarrow> nat \<Rightarrow> tlb_core \<Rightarrow> tlb_core" where
  "TLB_refill_exception address w s =
     (let s = (if w \<noteq> 2 then cp0_update_count s else s);
          s = set_cp0 CP0_CAUSE_REG (if w = 1 then CP0_CAUSE_EXCCODE_TLBS else CP0_CAUSE_EXCCODE_TLBL) s;
          s = set_cp0 CP0_BADVADDR_REG address s;
          s = set_cp0 CP0_CONTEXT_REG ((g_cp0_regs s CP0_CONTEXT_REG AND 0xFF80000F) OR (shr address 9 AND 0x007FFFF0)) s;
          s = set_cp0 CP0_ENTRYHI_REG (address AND 0xFFFFE000) s;
          s = (if status_reg s AND CP0_STATUS_EXL \<noteq> 0 then set_cause_bd (generic_jump_to 0x80000180 s)
               else
                 let s = set_cp0 CP0_EPC_REG (if \<not> pure_interpreter s \<and> w = 2 then address else PC_addr s) s;
                     s = set_cp0 CP0_CAUSE_REG (cause_reg s AND NOT CP0_CAUSE_BD) s;
                     s = set_cp0 CP0_STATUS_REG (status_reg s OR CP0_STATUS_EXL) s;
                     usual_handler = (address \<ge> 0x80000000 \<and> address < 0xC0000000 \<or>
                                      list_ex (entry_near address) (take 32 (tlb_e s)))
                 in generic_jump_to (if usual_handler then 0x80000180 else 0x80000000) s);
          s = set_cause_bd s;
          s = (if delay_slot s = 1 \<or> delay_slot s = 3
               then set_cp0 CP0_EPC_REG (g_cp0_regs s CP0_EPC_REG - 4) s else s);
          s = (if w \<noteq> 2 then set_cp0 CP0_EPC_REG (g_cp0_regs s CP0_EPC_REG - 4) s else s);
          s = s\<lparr>last_addr := PC_addr s, dyna_interp := False\<rparr>
      in if delay_slot s \<noteq> 0 then s\<lparr>skip_jump := PC_addr s, next_interrupt := 0\<rparr> else s)"

definition golden_eye_base :: "u8 \<Rightarrow> u32" where
  "golden_eye_base code =
     (if code = 0x45 then 0xb0034b30 else if code = 0x4A then 0xb0034b70
      else if code = 0x50 then 0xb00329f0 else 0xb0034b30)"

definition virtual_to_physical_address :: "u32 \<Rightarrow> nat \<Rightarrow> tlb_core \<Rightarrow> u32 \<times> tlb_core" where
  "virtual_to_physical_address address w s =
     (if address \<ge> 0x7f000000 \<and> address < 0x80000000 \<and> special_rom s = GOLDEN_EYE then
        (golden_eye_base (destination_code s) + (address AND 0xFFFFFF), s)
      else
        let word = (if w = 1 then tlb_LUT_w s (shr address 12) else tlb_LUT_r s (shr address 12))
        in if word \<noteq> 0 then ((word AND 0xFFFFF000) OR (address AND 0xFFF), s)
           else (0, if special_rom s \<noteq> RAT_ATTACK then TLB_refill_exception address w s else s))"

section \<open>Instructions\<close>

text \<open>
  The instructions without the step of the program counter. An index outside \<open>tlb_e\<close> is an
  access outside the array and has no value.
\<close>

definition TLBR :: "tlb_core \<Rightarrow> tlb_core option" where
  "TLBR s =
     do { e \<leftarrow> rd (tlb_e s) (unat (g_cp0_regs s CP0_INDEX_REG AND 0x1F));
          let s = set_cp0 CP0_PAGEMASK_REG (shl (scast (tlb_mask e)) 13) s;
          let s = set_cp0 CP0_ENTRYHI_REG (shl (tlb_vpn2 e) 13 OR ucast (tlb_asid e)) s;
          let s = set_cp0 CP0_ENTRYLO0_REG (shl (pfn_even e) 6 OR shl (ucast (c_even e)) 3 OR
                    shl (ucast (d_even e)) 2 OR shl (ucast (v_even e)) 1 OR ucast (tlb_g e)) s;
          Some (set_cp0 CP0_ENTRYLO1_REG (shl (pfn_odd e) 6 OR shl (ucast (c_odd e)) 3 OR
                    shl (ucast (d_odd e)) 2 OR shl (ucast (v_odd e)) 1 OR ucast (tlb_g e)) s) }"

text \<open>The entry made from the registers; its ranges follow from the page number and the mask.\<close>

definition set_ranges :: "tlb \<Rightarrow> tlb" where
  "set_ranges e =
     (let e = e\<lparr>start_even := shl (tlb_vpn2 e) 13\<rparr>;
          e = e\<lparr>end_even := start_even e + shl (scast (tlb_mask e)) 12 + 0xFFF\<rparr>;
          e = e\<lparr>phys_even := shl (pfn_even e) 12\<rparr>;
          e = e\<lparr>start_odd := end_even e + 1\<rparr>;
          e = e\<lparr>end_odd := start_odd e + shl (scast (tlb_mask e)) 12 + 0xFFF\<rparr>
      in e\<lparr>phys_odd := shl (pfn_odd e) 12\<rparr>)"

definition entry_of_registers :: "(cp0_registers \<Rightarrow> u32) \<Rightarrow> tlb \<Rightarrow> tlb" where
  "entry_of_registers regs e =
     (let lo0 = regs CP0_ENTRYLO0_REG; lo1 = regs CP0_ENTRYLO1_REG; hi = regs CP0_ENTRYHI_REG
      in set_ranges (e\<lparr>tlb_g := ucast (lo0 AND lo1 AND 1),
           pfn_even := shr (lo0 AND 0x3FFFFFC0) 6, pfn_odd := shr (lo1 AND 0x3FFFFFC0) 6,
           c_even := ucast (shr (lo0 AND 0x38) 3), c_odd := ucast (shr (lo1 AND 0x38) 3),
           d_even := ucast (shr (lo0 AND 0x4) 2), d_odd := ucast (shr (lo1 AND 0x4) 2),
           v_even := ucast (shr (lo0 AND 0x2) 1), v_odd := ucast (shr (lo1 AND 0x2) 1),
           tlb_asid := ucast (hi AND 0xFF), tlb_vpn2 := shr (hi AND 0xFFFFE000) 13,
           tlb_mask := ucast (shr (regs CP0_PAGEMASK_REG AND 0x1FFE000) 13)\<rparr>))"

text \<open>The program counter lies in the entry, so that the guest would unmap the code it executes.\<close>

definition executing_from :: "tlb \<Rightarrow> u32 \<Rightarrow> bool" where
  "executing_from e pc \<longleftrightarrow>
     start_even e \<le> pc \<and> pc < end_even e \<and> v_even e \<noteq> 0 \<or> start_odd e \<le> pc \<and> pc < end_odd e \<and> v_odd e \<noteq> 0"

definition TLBWrite :: "u32 \<Rightarrow> tlb_core \<Rightarrow> tlb_core option" where
  "TLBWrite idx s =
     do { e \<leftarrow> rd (tlb_e s) (unat idx);
          if executing_from e (PC_addr s) then Some s
          else do { s \<leftarrow> tlb_unmap e s;
                    let e' = entry_of_registers (g_cp0_regs s) e;
                    tlb_map e' (s\<lparr>tlb_e := (tlb_e s)[unat idx := e']\<rparr>) } }"

definition TLBWI :: "tlb_core \<Rightarrow> tlb_core option" where
  "TLBWI s = TLBWrite (g_cp0_regs s CP0_INDEX_REG AND 0x3F) s"

text \<open>A division by zero if \<open>Wired\<close> is 32.\<close>

definition TLBWR :: "tlb_core \<Rightarrow> tlb_core option" where
  "TLBWR s =
     (let s = cp0_update_count s; wired = g_cp0_regs s CP0_WIRED_REG
      in if 32 - wired = 0 then None
         else let s = set_cp0 CP0_RANDOM_REG (count_reg s div 2 mod (32 - wired) + wired) s
              in TLBWrite (g_cp0_regs s CP0_RANDOM_REG) s)"

definition entry_matches :: "u32 \<Rightarrow> tlb \<Rightarrow> bool" where
  "entry_matches hi e \<longleftrightarrow>
     tlb_vpn2 e AND NOT (scast (tlb_mask e)) = shr (hi AND 0xFFFFE000) 13 AND NOT (scast (tlb_mask e)) \<and>
     (tlb_g e \<noteq> 0 \<or> ucast (tlb_asid e) = hi AND 0xFF)"

fun probe :: "u32 \<Rightarrow> u32 \<Rightarrow> tlb list \<Rightarrow> u32 option" where
  "probe hi i [] = None"
| "probe hi i (e # es) = (if entry_matches hi e then Some i else probe hi (i + 1) es)"

definition TLBP :: "tlb_core \<Rightarrow> tlb_core" where
  "TLBP s =
     (let s = set_cp0 CP0_INDEX_REG (g_cp0_regs s CP0_INDEX_REG OR 0x80000000) s
      in case probe (g_cp0_regs s CP0_ENTRYHI_REG) 0 (take 32 (tlb_e s)) of
           None \<Rightarrow> s
         | Some i \<Rightarrow> set_cp0 CP0_INDEX_REG i s)"

end
