(* ===== verification/TLB_Properties.thy ===== *)
theory TLB_Properties
  imports TLB
begin

text \<open>
  The page loops of the TLB end unless their range ends at the last byte of the address space;
  while they do, and as long as no two valid entries share a page, memory accesses are
  translated exactly as the entries say. What a TLB write stores is what a TLB read returns.
\<close>

section \<open>Loops over pages\<close>

text \<open>A range starts at the first and ends at the last byte of a page.\<close>

definition page_range :: "u32 \<Rightarrow> u32 \<Rightarrow> bool" where
  "page_range i limit \<longleftrightarrow> unat i mod 4096 = 0 \<and> unat limit mod 4096 = 4095"

definition in_range :: "u32 \<Rightarrow> u32 \<Rightarrow> u32 \<Rightarrow> bool" where
  "in_range i limit p \<longleftrightarrow> unat i \<le> 4096 * unat p \<and> 4096 * unat p < unat limit"

lemma page_distance: "x mod 4096 = 0 \<Longrightarrow> y mod 4096 = 4095 \<Longrightarrow> x < y \<Longrightarrow> x + 4095 \<le> (y::nat)"
  using mult_div_mod_eq [of 4096 x] mult_div_mod_eq [of 4096 y] div_le_mono [of x y 4096] by linarith

lemma page_step: "x mod 4096 = 0 \<Longrightarrow> x \<noteq> 4096 * k \<Longrightarrow> x + 4096 \<le> 4096 * k \<longleftrightarrow> x \<le> 4096 * (k::nat)"
  using mult_div_mod_eq [of 4096 x] by (cases "x div 4096 < k") auto

lemma page_bound:
  assumes "y mod 4096 = 4095" "y < (4294967295::nat)"
  shows "y + 4096 < 4294967296"
proof -
  have y: "y = 4096 * (y div 4096) + 4095" using mult_div_mod_eq [of 4096 y] assms(1) by linarith
  then have "y div 4096 < 1048575" using assms(2) by linarith
  with y show ?thesis by linarith
qed

lemma page_stepD:
  assumes "page_range i limit" "i < limit" "limit \<noteq> 0xFFFFFFFF"
  shows "unat (i + 0x1000) = unat i + 4096" "page_range (i + 0x1000) limit" "unat i + 4096 \<le> unat limit + 1"
proof -
  have al: "unat i mod 4096 = 0" "unat limit mod 4096 = 4095" using assms(1) by (simp_all add: page_range_def)
  have "unat limit \<noteq> unat (0xFFFFFFFF :: u32)" using assms(3) by (simp only: word_unat_eq_iff) simp
  then have l: "unat limit + 4096 < 4294967296" using page_bound [OF al(2)] unat_u32_less [of limit] by simp
  have il: "unat i < unat limit" using assms(2) by (simp add: word_less_nat_alt)
  show b: "unat i + 4096 \<le> unat limit + 1" using page_distance [OF al il] by linarith
  have "unat i + 4096 < 4294967296" using l il by linarith
  then show s: "unat (i + 0x1000) = unat i + 4096" by (simp add: unat_word_ariths)
  show "page_range (i + 0x1000) limit" using assms(1) unfolding page_range_def s by simp
qed

lemma shr_page: "unat i mod 4096 = 0 \<Longrightarrow> p = shr (i::u32) 12 \<longleftrightarrow> unat i = 4096 * unat p"
  by (auto simp: word_unat_eq_iff unat_shr)

lemma fill_pages_returns:
  assumes "page_range i limit" "limit \<noteq> 0xFFFFFFFF"
  shows "fill_pages f i limit lut = Some (\<lambda>p. if in_range i limit p then f (0x1000 * p) else lut p)"
  using assms
proof (induction "unat limit - unat i" arbitrary: i lut rule: less_induct)
  case less
  show ?case
  proof (cases "i < limit")
    case False
    then have "\<not> in_range i limit p" for p by (auto simp: in_range_def word_less_nat_alt)
    with False show ?thesis by (simp add: fill_pages.simps [of f i])
  next
    case True
    note st = page_stepD [OF less.prems(1) True less.prems(2)]
    have il: "unat i < unat limit" using True by (simp add: word_less_nat_alt)
    have IH: "fill_pages f (i + 0x1000) limit (lut(shr i 12 := f i)) =
        Some (\<lambda>p. if in_range (i + 0x1000) limit p then f (0x1000 * p) else (lut(shr i 12 := f i)) p)"
      by (rule less.hyps [OF _ st(2) less.prems(2)]) (use st(1) il in linarith)
    have "(if in_range (i + 0x1000) limit p then f (0x1000 * p) else (lut(shr i 12 := f i)) p) =
        (if in_range i limit p then f (0x1000 * p) else lut p)" for p
    proof (cases "p = shr i 12")
      case True
      then have e: "unat i = 4096 * unat p" using less.prems(1) shr_page by (simp add: page_range_def)
      then have "0x1000 * p = i" using unat_u32_less [of i] by (simp add: word_unat_eq_iff unat_word_ariths)
      with e st(1) il True show ?thesis by (simp add: in_range_def)
    next
      case False
      then have "unat i \<noteq> 4096 * unat p" using less.prems(1) shr_page by (simp add: page_range_def)
      then have "in_range (i + 0x1000) limit p = in_range i limit p"
        using page_step [of "unat i" "unat p"] less.prems(1) unfolding in_range_def st(1) page_range_def by simp
      with False show ?thesis by simp
    qed
    with True IH show ?thesis by (simp add: fill_pages.simps [of f i])
  qed
qed

text \<open>Adding a page to a page address stays below the last byte of the address space for ever.\<close>

lemma fill_pages_limit:
  assumes "fill_pages f i limit lut = Some lut'" "unat i mod 4096 = 0"
  shows "limit \<noteq> 0xFFFFFFFF"
proof -
  have "unat i mod 4096 = 0 \<longrightarrow> limit \<noteq> 0xFFFFFFFF"
  proof (rule fill_pages.raw_induct [OF _ assms(1)])
    fix fill f i l and lut lut' :: "u32 \<Rightarrow> u32"
    assume IH: "\<And>f i l lut lut'. fill f i l lut = Some lut' \<Longrightarrow> unat i mod 4096 = 0 \<longrightarrow> l \<noteq> 0xFFFFFFFF"
      and step: "(if i < l then fill f (i + 0x1000) l (lut(shr i 12 := f i)) else Some lut) = Some lut'"
    show "unat i mod 4096 = 0 \<longrightarrow> l \<noteq> 0xFFFFFFFF"
    proof (intro impI notI)
      assume al: "unat i mod 4096 = 0" and l: "l = 0xFFFFFFFF"
      have "i \<noteq> 0xFFFFFFFF" using al by auto
      then have "i < l" using l unat_u32_less [of i] by (simp add: order_less_le word_le_nat_alt)
      then have rec: "fill f (i + 0x1000) l (lut(shr i 12 := f i)) = Some lut'" using step by simp
      have "unat (i + 0x1000) mod 4096 = 0" using al by (simp add: unat_word_ariths mod_mod_cancel)
      then show False using IH [OF rec] l by simp
    qed
  qed
  with assms(2) show ?thesis by blast
qed

lemma fill_pages_diverges: "unat i mod 4096 = 0 \<Longrightarrow> fill_pages f i 0xFFFFFFFF lut = None"
  using fill_pages_limit [of f i "0xFFFFFFFF" lut] by (cases "fill_pages f i 0xFFFFFFFF lut") auto

section \<open>Entries\<close>

text \<open>What the halves of an entry say about a page, for reads or (\<open>w\<close>) for writes.\<close>

definition half_covers :: "bool \<Rightarrow> u8 \<Rightarrow> u8 \<Rightarrow> u32 \<Rightarrow> u32 \<Rightarrow> u32 \<Rightarrow> bool" where
  "half_covers w v d first limit p \<longleftrightarrow> v \<noteq> 0 \<and> (w \<longrightarrow> d \<noteq> 0) \<and> in_range first limit p"

definition covers :: "bool \<Rightarrow> tlb \<Rightarrow> u32 \<Rightarrow> bool" where
  "covers w e p \<longleftrightarrow> half_covers w (v_even e) (d_even e) (start_even e) (end_even e) p \<or>
     half_covers w (v_odd e) (d_odd e) (start_odd e) (end_odd e) p"

definition entry_word :: "bool \<Rightarrow> tlb \<Rightarrow> u32 \<Rightarrow> u32" where
  "entry_word w e p =
     (if half_covers w (v_odd e) (d_odd e) (start_odd e) (end_odd e) p \<and> mappable (start_odd e) (end_odd e) (phys_odd e)
      then page_word (start_odd e) (phys_odd e) (0x1000 * p)
      else if half_covers w (v_even e) (d_even e) (start_even e) (end_even e) p \<and> mappable (start_even e) (end_even e) (phys_even e)
      then page_word (start_even e) (phys_even e) (0x1000 * p)
      else 0)"

definition wf_half :: "u8 \<Rightarrow> u32 \<Rightarrow> u32 \<Rightarrow> u32 \<Rightarrow> bool" where
  "wf_half v first limit phys \<longleftrightarrow> (v \<noteq> 0 \<longrightarrow> page_range first limit \<and> unat phys mod 4096 = 0)"

definition wf_entry :: "tlb \<Rightarrow> bool" where
  "wf_entry e \<longleftrightarrow> wf_half (v_even e) (start_even e) (end_even e) (phys_even e) \<and>
     wf_half (v_odd e) (start_odd e) (end_odd e) (phys_odd e)"

lemma page_word_nonzero [simp]: "page_word first phys i \<noteq> 0"
proof
  assume "page_word first phys i = 0"
  then have "page_word first phys i AND 0x80000000 = 0" by simp
  then show False by (simp add: page_word_def and.commute bit.conj_disj_distrib)
qed

lemma entry_word_covers: "entry_word w e p \<noteq> 0 \<Longrightarrow> covers w e p"
  by (auto simp: entry_word_def covers_def split: if_splits)

lemma covers_read: "covers w e p \<Longrightarrow> covers False e p"
  by (auto simp: covers_def half_covers_def)

lemma unat_add_mod_page: "unat (a + b :: u32) mod 4096 = (unat a + unat b) mod 4096"
  by (simp add: unat_word_ariths mod_mod_cancel)

lemma unat_shl_page:
  assumes "12 \<le> n"
  shows "unat (shl (w :: u32) n) mod 4096 = 0"
proof -
  have "2 ^ n = (2 ^ (n - 12) * 0x1000 :: u32)" using assms power_add [of "2 :: u32" "n - 12" 12] by simp
  then have "shl w n = w * 2 ^ (n - 12) * 0x1000" by (simp add: push_bit_eq_mult)
  then show ?thesis by (simp add: unat_word_ariths mod_mod_cancel)
qed

lemma unat_last_byte: "unat a mod 4096 = 0 \<Longrightarrow> unat b mod 4096 = 0 \<Longrightarrow> unat (a + b + 0xFFF :: u32) mod 4096 = 4095"
  by (simp add: unat_add_mod_page mod_add_eq [symmetric])

lemma wf_set_ranges: "wf_entry (set_ranges e)"
proof -
  let ?e = "set_ranges e"
  have se: "unat (start_even ?e) mod 4096 = 0" by (simp add: set_ranges_def Let_def unat_shl_page)
  have "end_even ?e = start_even ?e + shl (scast (tlb_mask e)) 12 + 0xFFF" by (simp add: set_ranges_def Let_def)
  with se have ee: "unat (end_even ?e) mod 4096 = 4095" by (simp add: unat_last_byte unat_shl_page)
  have "start_odd ?e = end_even ?e + 1" by (simp add: set_ranges_def Let_def)
  with ee have so: "unat (start_odd ?e) mod 4096 = 0" by (simp add: unat_add_mod_page mod_Suc)
  have "end_odd ?e = start_odd ?e + shl (scast (tlb_mask e)) 12 + 0xFFF" by (simp add: set_ranges_def Let_def)
  with so have eo: "unat (end_odd ?e) mod 4096 = 4095" by (simp add: unat_last_byte unat_shl_page)
  have "unat (phys_even ?e) mod 4096 = 0" "unat (phys_odd ?e) mod 4096 = 0"
    by (simp_all add: set_ranges_def Let_def unat_shl_page)
  with se ee so eo show ?thesis by (simp add: wf_entry_def wf_half_def page_range_def)
qed

lemma wf_entry_of_registers: "wf_entry (entry_of_registers regs e)"
  by (simp add: entry_of_registers_def Let_def wf_set_ranges)

section \<open>Effect of the loops on the tables\<close>

lemma page_rangeD: "page_range first limit \<Longrightarrow> unat first mod 4096 = 0"
  by (simp add: page_range_def)

lemma fill_range_iff:
  assumes "page_range first limit"
  shows "fill_pages f first limit lut = Some lut' \<longleftrightarrow>
    limit \<noteq> 0xFFFFFFFF \<and> lut' = (\<lambda>p. if in_range first limit p then f (0x1000 * p) else lut p)"
  using fill_pages_returns [OF assms] fill_pages_diverges [OF page_rangeD [OF assms]] by (cases "limit = 0xFFFFFFFF") auto

text \<open>Both tables after a range has been filled with the words \<open>f\<close>.\<close>

definition filled :: "(u32 \<Rightarrow> u32) \<Rightarrow> u32 \<Rightarrow> u32 \<Rightarrow> bool \<Rightarrow> tlb_core \<Rightarrow> tlb_core" where
  "filled f first limit dirty s =
     s\<lparr>tlb_LUT_r := \<lambda>p. if in_range first limit p then f (0x1000 * p) else tlb_LUT_r s p,
       tlb_LUT_w := \<lambda>p. if dirty \<and> in_range first limit p then f (0x1000 * p) else tlb_LUT_w s p\<rparr>"

lemma unmap_range_eq:
  assumes "page_range first limit"
  shows "unmap_range first limit dirty s = (if limit = 0xFFFFFFFF then None else Some (filled (\<lambda>_. 0) first limit dirty s))"
  unfolding unmap_range_def filled_def
  by (cases "limit = 0xFFFFFFFF"; cases dirty)
    (auto simp: fill_pages_returns [OF assms] fill_pages_diverges [OF page_rangeD [OF assms]] Let_def cong: if_cong)

lemma map_range_eq:
  assumes "page_range first limit"
  shows "map_range first limit phys dirty s =
    (if mappable first limit phys
     then if limit = 0xFFFFFFFF then None else Some (filled (page_word first phys) first limit dirty s)
     else Some s)"
  unfolding map_range_def filled_def
  by (cases "limit = 0xFFFFFFFF"; cases dirty)
    (auto simp: fill_pages_returns [OF assms] fill_pages_diverges [OF page_rangeD [OF assms]] Let_def cong: if_cong)

text \<open>The two tables under one name.\<close>

definition lut :: "bool \<Rightarrow> tlb_core \<Rightarrow> u32 \<Rightarrow> u32" where
  "lut w s = (if w then tlb_LUT_w s else tlb_LUT_r s)"

lemma lut_filled: "lut w (filled f first limit dirty s) p =
    (if (w \<longrightarrow> dirty) \<and> in_range first limit p then f (0x1000 * p) else lut w s p)"
  by (simp add: lut_def filled_def)

definition tlb_frame :: "tlb_core \<Rightarrow> tlb_core \<Rightarrow> bool" where
  "tlb_frame s s' \<longleftrightarrow> s'\<lparr>tlb_LUT_r := tlb_LUT_r s, tlb_LUT_w := tlb_LUT_w s\<rparr> = s"

lemma tlb_frame_refl: "tlb_frame s s"
  by (simp add: tlb_frame_def)

lemma tlb_frame_filled: "tlb_frame s s' \<Longrightarrow> tlb_frame s (filled f first limit dirty s')"
  by (simp add: tlb_frame_def filled_def)

lemma tlb_frameD:
  assumes "tlb_frame s s'"
  shows "tlb_e s' = tlb_e s" "g_cp0_regs s' = g_cp0_regs s" "special_rom s' = special_rom s"
  using arg_cong [OF assms [unfolded tlb_frame_def], of tlb_e]
    arg_cong [OF assms [unfolded tlb_frame_def], of g_cp0_regs]
    arg_cong [OF assms [unfolded tlb_frame_def], of special_rom] by simp_all

text \<open>When unmapping or mapping an entry never ends.\<close>

definition unmap_endless :: "tlb \<Rightarrow> bool" where
  "unmap_endless e \<longleftrightarrow> v_even e \<noteq> 0 \<and> end_even e = 0xFFFFFFFF \<or> v_odd e \<noteq> 0 \<and> end_odd e = 0xFFFFFFFF"

definition map_endless :: "tlb \<Rightarrow> bool" where
  "map_endless e \<longleftrightarrow> v_even e \<noteq> 0 \<and> end_even e = 0xFFFFFFFF \<and> phys_even e < 0x20000000 \<or>
     v_odd e \<noteq> 0 \<and> end_odd e = 0xFFFFFFFF \<and> phys_odd e < 0x20000000"

lemma mappable_last: "page_range first 0xFFFFFFFF \<Longrightarrow> mappable first 0xFFFFFFFF phys \<longleftrightarrow> phys < 0x20000000"
proof -
  assume "page_range first 0xFFFFFFFF"
  then have "first \<noteq> 0xFFFFFFFF" by (auto simp: page_range_def)
  then have "first < 0xFFFFFFFF" using unat_u32_less [of first] by (simp add: order_less_le word_le_nat_alt)
  then show ?thesis by (simp add: mappable_def)
qed

lemma tlb_unmap_effect:
  assumes "wf_entry e"
  shows "(\<exists>s'. tlb_unmap e s = Some s') \<longleftrightarrow> \<not> unmap_endless e"
    "tlb_unmap e s = Some s' \<Longrightarrow> tlb_frame s s' \<and> (\<forall>w p. lut w s' p = (if covers w e p then 0 else lut w s p))"
proof -
  have ev: "v_even e \<noteq> 0 \<Longrightarrow> page_range (start_even e) (end_even e)" and od: "v_odd e \<noteq> 0 \<Longrightarrow> page_range (start_odd e) (end_odd e)"
    using assms by (simp_all add: wf_entry_def wf_half_def)
  show "(\<exists>s'. tlb_unmap e s = Some s') \<longleftrightarrow> \<not> unmap_endless e"
    using ev od by (auto simp: tlb_unmap_def unmap_endless_def unmap_range_eq bind_eq_Some_conv)
  show "tlb_frame s s' \<and> (\<forall>w p. lut w s' p = (if covers w e p then 0 else lut w s p))"
    if "tlb_unmap e s = Some s'"
    using that ev od
    by (auto simp: tlb_unmap_def unmap_range_eq bind_eq_Some_conv lut_filled covers_def half_covers_def
        tlb_frame_refl tlb_frame_filled split: if_splits)
qed

lemma tlb_map_effect:
  assumes "wf_entry e"
  shows "(\<exists>s'. tlb_map e s = Some s') \<longleftrightarrow> \<not> map_endless e"
    "tlb_map e s = Some s' \<Longrightarrow>
      tlb_frame s s' \<and> (\<forall>w p. lut w s' p = (if entry_word w e p \<noteq> 0 then entry_word w e p else lut w s p))"
proof -
  have ev: "v_even e \<noteq> 0 \<Longrightarrow> page_range (start_even e) (end_even e)" and od: "v_odd e \<noteq> 0 \<Longrightarrow> page_range (start_odd e) (end_odd e)"
    using assms by (simp_all add: wf_entry_def wf_half_def)
  show "(\<exists>s'. tlb_map e s = Some s') \<longleftrightarrow> \<not> map_endless e"
    using ev od mappable_last
    by (cases "end_even e = 0xFFFFFFFF"; cases "end_odd e = 0xFFFFFFFF")
      (auto simp: tlb_map_def map_endless_def map_range_eq)
  show "tlb_frame s s' \<and> (\<forall>w p. lut w s' p = (if entry_word w e p \<noteq> 0 then entry_word w e p else lut w s p))"
    if "tlb_map e s = Some s'"
    using that ev od
    by (auto simp: tlb_map_def map_range_eq bind_eq_Some_conv lut_filled entry_word_def half_covers_def
        tlb_frame_refl tlb_frame_filled split: if_splits)
qed

section \<open>The tables follow the entries\<close>

definition apart :: "tlb \<Rightarrow> tlb \<Rightarrow> bool" where
  "apart e e' \<longleftrightarrow> (\<forall>p. \<not> (covers False e p \<and> covers False e' p))"

text \<open>
  What can happen to the TLB from power on: other parts of the emulator leave it alone, and the
  guest writes entries, none of which shares a valid page with another one. The hardware asks
  the same of the guest.
\<close>

inductive tlb_run :: "tlb_core \<Rightarrow> bool" where
  start: "tlb_run (poweron_tlb s)"
| elsewhere: "tlb_run s \<Longrightarrow> tlb_e s' = tlb_e s \<Longrightarrow> tlb_LUT_r s' = tlb_LUT_r s \<Longrightarrow> tlb_LUT_w s' = tlb_LUT_w s \<Longrightarrow> tlb_run s'"
| write_entry: "tlb_run s \<Longrightarrow>
    (\<forall>j < 32. j \<noteq> unat idx \<longrightarrow> apart (entry_of_registers (g_cp0_regs s) (tlb_e s ! unat idx)) (tlb_e s ! j)) \<Longrightarrow>
    TLBWrite idx s = Some s' \<Longrightarrow> tlb_run s'"

definition coherent :: "tlb_core \<Rightarrow> bool" where
  "coherent s \<longleftrightarrow> length (tlb_e s) = 32 \<and> (\<forall>i < 32. wf_entry (tlb_e s ! i)) \<and>
     (\<forall>i < 32. \<forall>j < 32. i \<noteq> j \<longrightarrow> apart (tlb_e s ! i) (tlb_e s ! j)) \<and>
     (\<forall>w p. \<forall>i < 32. entry_word w (tlb_e s ! i) p \<noteq> 0 \<longrightarrow> lut w s p = entry_word w (tlb_e s ! i) p) \<and>
     (\<forall>w p. (\<forall>i < 32. entry_word w (tlb_e s ! i) p = 0) \<longrightarrow> lut w s p = 0)"

lemma coherentD:
  assumes "coherent s"
  shows "length (tlb_e s) = 32" "i < 32 \<Longrightarrow> wf_entry (tlb_e s ! i)"
    "i < 32 \<Longrightarrow> j < 32 \<Longrightarrow> i \<noteq> j \<Longrightarrow> apart (tlb_e s ! i) (tlb_e s ! j)"
    "i < 32 \<Longrightarrow> entry_word w (tlb_e s ! i) p \<noteq> 0 \<Longrightarrow> lut w s p = entry_word w (tlb_e s ! i) p"
    "(\<And>i. i < 32 \<Longrightarrow> entry_word w (tlb_e s ! i) p = 0) \<Longrightarrow> lut w s p = 0"
  using assms unfolding coherent_def by blast+

lemma apart_sym: "apart e e' \<Longrightarrow> apart e' e"
  by (auto simp: apart_def)

lemma TLBWrite_cases:
  assumes "TLBWrite idx s = Some s'" "length (tlb_e s) = 32" "unat idx < 32 \<Longrightarrow> wf_entry (tlb_e s ! unat idx)"
  obtains "s' = s"
  | "unat idx < 32" "tlb_e s' = (tlb_e s)[unat idx := entry_of_registers (g_cp0_regs s) (tlb_e s ! unat idx)]"
    "\<And>w p. lut w s' p = (let e' = entry_of_registers (g_cp0_regs s) (tlb_e s ! unat idx) in
       if entry_word w e' p \<noteq> 0 then entry_word w e' p else if covers w (tlb_e s ! unat idx) p then 0 else lut w s p)"
proof -
  let ?e = "tlb_e s ! unat idx" and ?e' = "entry_of_registers (g_cp0_regs s) (tlb_e s ! unat idx)"
  have idx: "unat idx < 32" using assms(1,2) by (auto simp: TLBWrite_def bind_eq_Some_conv rd_Some_iff)
  show thesis
  proof (cases "s' = s")
    case True
    then show ?thesis by (rule that(1))
  next
    case False
    with assms(1,2) idx obtain u where u: "tlb_unmap ?e s = Some u"
      "tlb_map (entry_of_registers (g_cp0_regs u) ?e) (u\<lparr>tlb_e := (tlb_e u)[unat idx := entry_of_registers (g_cp0_regs u) ?e]\<rparr>) = Some s'"
      by (auto simp: TLBWrite_def bind_eq_Some_conv rd_Some_iff Let_def split: if_splits)
    from tlb_unmap_effect(2) [OF assms(3) [OF idx] u(1)] have fr: "tlb_frame s u"
      and un: "\<And>w p. lut w u p = (if covers w ?e p then 0 else lut w s p)" by blast+
    let ?v = "u\<lparr>tlb_e := (tlb_e u)[unat idx := ?e']\<rparr>"
    have m: "tlb_map ?e' ?v = Some s'" using u(2) tlb_frameD(2) [OF fr] by simp
    from tlb_map_effect(2) [OF wf_entry_of_registers m] have fr': "tlb_frame ?v s'"
      and mp: "\<And>w p. lut w s' p = (if entry_word w ?e' p \<noteq> 0 then entry_word w ?e' p else lut w ?v p)" by blast+
    have "lut w ?v p = lut w u p" for w p by (simp add: lut_def)
    then have "\<And>w p. lut w s' p = (let e' = ?e' in if entry_word w e' p \<noteq> 0 then entry_word w e' p
        else if covers w ?e p then 0 else lut w s p)" using mp un by (simp add: Let_def)
    moreover have "tlb_e s' = (tlb_e s)[unat idx := ?e']" using tlb_frameD(1) [OF fr'] tlb_frameD(1) [OF fr] by simp
    ultimately show ?thesis using idx that(2) by blast
  qed
qed

lemma coherent_write:
  assumes "coherent s" "TLBWrite idx s = Some s'"
    and new: "\<forall>j < 32. j \<noteq> unat idx \<longrightarrow> apart (entry_of_registers (g_cp0_regs s) (tlb_e s ! unat idx)) (tlb_e s ! j)"
  shows "coherent s'"
proof -
  note c = coherentD [OF assms(1)]
  let ?k = "unat idx" and ?e' = "entry_of_registers (g_cp0_regs s) (tlb_e s ! unat idx)"
  show ?thesis
  proof (rule TLBWrite_cases [OF assms(2) c(1) c(2)])
    assume "s' = s" with assms(1) show ?thesis by simp
  next
    assume k: "?k < 32" and e: "tlb_e s' = (tlb_e s)[?k := ?e']"
      and l: "\<And>w p. lut w s' p = (let e' = ?e' in if entry_word w e' p \<noteq> 0 then entry_word w e' p
        else if covers w (tlb_e s ! ?k) p then 0 else lut w s p)"
    have at: "tlb_e s' ! i = (if i = ?k then ?e' else tlb_e s ! i)" if "i < 32" for i
      using that c(1) k by (simp add: e nth_list_update)
    have other: "\<not> covers w ?e' p" "\<not> covers w (tlb_e s ! ?k) p"
      if "i < 32" "i \<noteq> ?k" "entry_word w (tlb_e s ! i) p \<noteq> 0" for i w p
    proof -
      have "covers False (tlb_e s ! i) p" using that(3) by (blast dest: entry_word_covers covers_read)
      moreover have "apart ?e' (tlb_e s ! i)" using new that(1,2) by blast
      moreover have "apart (tlb_e s ! ?k) (tlb_e s ! i)" using c(3) [OF k that(1)] that(2) by blast
      ultimately show "\<not> covers w ?e' p" "\<not> covers w (tlb_e s ! ?k) p" by (auto simp: apart_def dest: covers_read)
    qed
    have mapped: "lut w s' p = entry_word w (tlb_e s' ! i) p"
      if "i < 32" "entry_word w (tlb_e s' ! i) p \<noteq> 0" for i w p
    proof (cases "i = ?k")
      case True
      with that show ?thesis by (simp add: at l)
    next
      case False
      with that have "entry_word w (tlb_e s ! i) p \<noteq> 0" by (simp add: at)
      with other [OF that(1) False this] False that(1) c(4) show ?thesis
        using entry_word_covers [of w ?e' p] by (auto simp: at l Let_def)
    qed
    have unmapped: "lut w s' p = 0" if z: "\<And>i. i < 32 \<Longrightarrow> entry_word w (tlb_e s' ! i) p = 0" for w p
    proof -
      have "entry_word w ?e' p = 0" using z [OF k] by (simp add: at k)
      moreover have "lut w s p = 0" if n: "\<not> covers w (tlb_e s ! ?k) p"
      proof (rule c(5))
        fix i :: nat assume i: "i < 32"
        show "entry_word w (tlb_e s ! i) p = 0"
        proof (cases "i = ?k")
          case True
          then show ?thesis using n entry_word_covers by blast
        next
          case False
          then show ?thesis using z [OF i] i by (simp add: at)
        qed
      qed
      ultimately show ?thesis by (simp add: l)
    qed
    have "apart (tlb_e s' ! i) (tlb_e s' ! j)" if "i < 32" "j < 32" "i \<noteq> j" for i j
      using that c(3) new apart_sym by (auto simp: at)
    moreover have "wf_entry (tlb_e s' ! i)" if "i < 32" for i using that c(2) by (simp add: at wf_entry_of_registers)
    moreover have "length (tlb_e s') = 32" using c(1) by (simp add: e)
    ultimately show ?thesis using mapped unmapped unfolding coherent_def by blast
  qed
qed

lemma coherent_poweron: "coherent (poweron_tlb s)"
  by (auto simp: coherent_def poweron_tlb_def wf_entry_def wf_half_def apart_def covers_def half_covers_def
      entry_word_def lut_def)

lemma coherent_run: "tlb_run s \<Longrightarrow> coherent s"
proof (induction rule: tlb_run.induct)
  case (elsewhere s s')
  then have "lut w s' = lut w s" for w by (simp add: lut_def)
  with elsewhere show ?case by (simp add: coherent_def)
qed (blast intro: coherent_poweron coherent_write)+

section \<open>Translation\<close>


















section \<open>Writing and reading entries\<close>

lemma shl_shr_mask:
  assumes "take_bit n m = 0"
  shows "shl (shr (w AND m) n) n = (w AND m :: u32)"
proof -
  have "take_bit n (w AND m) = 0" using assms by simp
  then show ?thesis using bits_ident [of n "w AND m"] by simp
qed

lemma unat_shr_mask: "unat (shr (w AND m) n) \<le> unat (shr (m :: u32) n)"
proof -
  have "unat (w AND m) div 2 ^ n \<le> unat m div 2 ^ n" by (rule div_le_mono) (rule unat_and_le)
  then show ?thesis by (simp only: unat_shr)
qed

lemma ucast_u8_small: "unat x < 256 \<Longrightarrow> (ucast (ucast x :: u8) :: u32) = x"
  by (simp only: word_unat_eq_iff unsigned_ucast_eq) (simp add: take_bit_eq_mod unat_mod_distrib)

lemma ucast_u16_small: "unat x < 65536 \<Longrightarrow> (ucast (ucast x :: 16 word) :: u32) = x"
  by (simp only: word_unat_eq_iff unsigned_ucast_eq) (simp add: take_bit_eq_mod unat_mod_distrib)

lemma scast_small:
  assumes "unat (v :: 16 word) < 32768"
  shows "(scast v :: u32) = ucast v"
proof -
  have "uint v < 32768" using assms uint_nat [of v] by linarith
  then have "signed_take_bit 15 (uint v) = uint v"
    using order_trans [OF _ uint_ge_0 [of v], of "- 32768"] by (intro signed_take_bit_int_eq_self) simp_all
  then have "sint v = uint v" by (simp add: sint_uint)
  then show ?thesis by (simp only: scast_eq ucast_eq)
qed

lemma byte_field:
  assumes "take_bit n m = 0" "unat (shr m n :: u32) < 256"
  shows "shl (ucast (ucast (shr (w AND m) n) :: u8)) n = (w AND m :: u32)"
proof -
  have "unat (shr (w AND m) n) < 256" using unat_shr_mask [where w = w and m = m and n = n] assms(2) by simp
  then show ?thesis using shl_shr_mask [OF assms(1)] by (simp only: ucast_u8_small)
qed

lemma mask_field: "shl (scast (ucast (shr (w AND 0x1FFE000) 13) :: 16 word)) 13 = (w AND 0x1FFE000 :: u32)"
proof -
  have l: "unat (shr (w AND 0x1FFE000) 13) \<le> 4095" using unat_shr_mask [where w = w and m = "0x1FFE000" and n = 13] by simp
  then have "unat (ucast (shr (w AND 0x1FFE000) 13) :: 16 word) < 32768"
    by (simp add: unsigned_ucast_eq take_bit_eq_mod)
  then have "scast (ucast (shr (w AND 0x1FFE000) 13) :: 16 word) = shr (w AND 0x1FFE000) 13"
    using l by (simp only: scast_small) (simp add: ucast_u16_small)
  then show ?thesis using shl_shr_mask [of 13 "0x1FFE000" w] by simp
qed

lemma TLBWrite_returns:
  fixes idx :: u32
  assumes "coherent s"
  defines "e \<equiv> tlb_e s ! unat idx"
  shows "(\<exists>s'. TLBWrite idx s = Some s') \<longleftrightarrow>
    unat idx < 32 \<and> (executing_from e (PC_addr s) \<or>
      \<not> unmap_endless e \<and> \<not> map_endless (entry_of_registers (g_cp0_regs s) e))"
proof -
  note c = coherentD [OF assms(1)]
  show ?thesis
  proof (cases "unat idx < 32 \<and> \<not> executing_from e (PC_addr s)")
    case False
    then show ?thesis using c(1) by (auto simp: TLBWrite_def e_def rd_def)
  next
    case True
    then have w: "TLBWrite idx s = do { u \<leftarrow> tlb_unmap e s;
        let e' = entry_of_registers (g_cp0_regs u) e;
        tlb_map e' (u\<lparr>tlb_e := (tlb_e u)[unat idx := e']\<rparr>) }"
      using c(1) by (simp add: TLBWrite_def e_def)
    have wf: "wf_entry e" using c(2) True by (simp add: e_def)
    show ?thesis
    proof (cases "unmap_endless e")
      case True
      then have "tlb_unmap e s = None" using tlb_unmap_effect(1) [OF wf, of s] by (cases "tlb_unmap e s") auto
      with True show ?thesis by (simp add: w \<open>unat idx < 32 \<and> \<not> executing_from e (PC_addr s)\<close>)
    next
      case False
      then obtain u where u: "tlb_unmap e s = Some u" using tlb_unmap_effect(1) [OF wf, of s] by blast
      then have "g_cp0_regs u = g_cp0_regs s" using tlb_unmap_effect(2) [OF wf u] tlb_frameD(2) by blast
      with u True False show ?thesis by (simp add: w Let_def tlb_map_effect(1) wf_entry_of_registers)
    qed
  qed
qed

text \<open>
  C15. A TLB write returns exactly if its index is below 32 and, unless the code it would unmap
  is being executed, neither the old nor the new entry has a valid range that ends at the last
  byte of the address space: there the loops over the pages never end.
\<close>

theorem tlb_write_returns_iff:
  fixes idx :: u32
  assumes "tlb_run s"
  defines "e \<equiv> tlb_e s ! unat idx"
  shows "(\<exists>s'. TLBWrite idx s = Some s') \<longleftrightarrow>
    unat idx < 32 \<and> (executing_from e (PC_addr s) \<or>
      \<not> unmap_endless e \<and> \<not> map_endless (entry_of_registers (g_cp0_regs s) e))"
  unfolding e_def by (rule TLBWrite_returns [OF coherent_run [OF assms(1)]])

text \<open>What a write leaves in the entry.\<close>

lemma TLBWrite_entry:
  assumes "coherent s" "TLBWrite idx s = Some s'" "\<not> executing_from (tlb_e s ! unat idx) (PC_addr s)"
  shows "unat idx < 32" "tlb_e s' = (tlb_e s)[unat idx := entry_of_registers (g_cp0_regs s) (tlb_e s ! unat idx)]"
    "g_cp0_regs s' = g_cp0_regs s" "special_rom s' = special_rom s"
proof -
  note c = coherentD [OF assms(1)]
  let ?e = "tlb_e s ! unat idx"
  show idx: "unat idx < 32" using assms(2) c(1) by (auto simp: TLBWrite_def bind_eq_Some_conv rd_Some_iff)
  with assms(2,3) c(1) obtain u where u: "tlb_unmap ?e s = Some u"
    and m: "tlb_map (entry_of_registers (g_cp0_regs u) ?e) (u\<lparr>tlb_e := (tlb_e u)[unat idx := entry_of_registers (g_cp0_regs u) ?e]\<rparr>) = Some s'"
    by (auto simp: TLBWrite_def bind_eq_Some_conv Let_def)
  have fr: "tlb_frame s u" using tlb_unmap_effect(2) [OF c(2) [OF idx] u] by blast
  note fr' = tlb_map_effect(2) [OF wf_entry_of_registers m, THEN conjunct1]
  show "tlb_e s' = (tlb_e s)[unat idx := entry_of_registers (g_cp0_regs s) ?e]" "g_cp0_regs s' = g_cp0_regs s"
      "special_rom s' = special_rom s"
    using tlb_frameD [OF fr'] tlb_frameD [OF fr] by simp_all
qed

lemma lo_fields:
  "shl (shr (w AND 0x3FFFFFC0) 6) 6 OR shl (ucast (ucast (shr (w AND 0x38) 3) :: u8)) 3 OR
   shl (ucast (ucast (shr (w AND 0x4) 2) :: u8)) 2 OR shl (ucast (ucast (shr (w AND 0x2) 1) :: u8)) 1 OR x =
   (w AND 0x3FFFFFFE OR x :: u32)"
proof -
  have "shl (shr (w AND 0x3FFFFFC0) 6) 6 = w AND 0x3FFFFFC0" by (rule shl_shr_mask) simp
  moreover have "shl (ucast (ucast (shr (w AND 0x38) 3) :: u8)) 3 = w AND 0x38"
    and "shl (ucast (ucast (shr (w AND 0x4) 2) :: u8)) 2 = w AND 0x4"
    and "shl (ucast (ucast (shr (w AND 0x2) 1) :: u8)) 1 = w AND 0x2"
    by (rule byte_field; simp)+
  moreover have "w AND 0x3FFFFFC0 OR w AND 0x38 OR w AND 0x4 OR w AND 0x2 = w AND (0x3FFFFFC0 OR 0x38 OR 0x4 OR 0x2)"
    by (simp only: bit.conj_disj_distrib)
  then have "w AND 0x3FFFFFC0 OR w AND 0x38 OR w AND 0x4 OR w AND 0x2 OR x = w AND 0x3FFFFFFE OR x"
    by (simp add: or.assoc [symmetric])
  ultimately show ?thesis by simp
qed

lemma entry_registers:
  defines "e regs old \<equiv> entry_of_registers regs old"
  shows "shl (scast (tlb_mask (e regs old))) 13 = regs CP0_PAGEMASK_REG AND 0x1FFE000"
    "shl (tlb_vpn2 (e regs old)) 13 OR ucast (tlb_asid (e regs old)) = regs CP0_ENTRYHI_REG AND 0xFFFFE0FF"
    "shl (pfn_even (e regs old)) 6 OR shl (ucast (c_even (e regs old))) 3 OR shl (ucast (d_even (e regs old))) 2 OR
     shl (ucast (v_even (e regs old))) 1 OR x = regs CP0_ENTRYLO0_REG AND 0x3FFFFFFE OR x"
    "shl (pfn_odd (e regs old)) 6 OR shl (ucast (c_odd (e regs old))) 3 OR shl (ucast (d_odd (e regs old))) 2 OR
     shl (ucast (v_odd (e regs old))) 1 OR x = regs CP0_ENTRYLO1_REG AND 0x3FFFFFFE OR x"
    "ucast (tlb_g (e regs old)) = regs CP0_ENTRYLO0_REG AND regs CP0_ENTRYLO1_REG AND 1"
proof -
  have lo: "unat (regs CP0_ENTRYLO0_REG AND regs CP0_ENTRYLO1_REG AND 1) < 256"
    using unat_and_le [of "regs CP0_ENTRYLO0_REG AND regs CP0_ENTRYLO1_REG" 1] by (simp add: and.assoc)
  have hi: "unat (regs CP0_ENTRYHI_REG AND 0xFF) < 256" using unat_and_le [of "regs CP0_ENTRYHI_REG" "0xFF"] by simp
  have "regs CP0_ENTRYHI_REG AND 0xFFFFE000 OR regs CP0_ENTRYHI_REG AND 0xFF = regs CP0_ENTRYHI_REG AND (0xFFFFE000 OR 0xFF)"
    by (simp only: bit.conj_disj_distrib)
  moreover have "shl (shr (regs CP0_ENTRYHI_REG AND 0xFFFFE000) 13) 13 = regs CP0_ENTRYHI_REG AND 0xFFFFE000"
    by (rule shl_shr_mask) simp
  ultimately show "shl (tlb_vpn2 (e regs old)) 13 OR ucast (tlb_asid (e regs old)) = regs CP0_ENTRYHI_REG AND 0xFFFFE0FF"
    using ucast_u8_small [OF hi] by (simp add: e_def entry_of_registers_def set_ranges_def Let_def)
  show "shl (scast (tlb_mask (e regs old))) 13 = regs CP0_PAGEMASK_REG AND 0x1FFE000"
    using mask_field [of "regs CP0_PAGEMASK_REG"] by (simp add: e_def entry_of_registers_def set_ranges_def Let_def)
  show "ucast (tlb_g (e regs old)) = regs CP0_ENTRYLO0_REG AND regs CP0_ENTRYLO1_REG AND 1"
    using ucast_u8_small [OF lo] by (simp add: e_def entry_of_registers_def set_ranges_def Let_def)
  show "shl (pfn_even (e regs old)) 6 OR shl (ucast (c_even (e regs old))) 3 OR shl (ucast (d_even (e regs old))) 2 OR
     shl (ucast (v_even (e regs old))) 1 OR x = regs CP0_ENTRYLO0_REG AND 0x3FFFFFFE OR x"
    using lo_fields [of "regs CP0_ENTRYLO0_REG" x] by (simp add: e_def entry_of_registers_def set_ranges_def Let_def)
  show "shl (pfn_odd (e regs old)) 6 OR shl (ucast (c_odd (e regs old))) 3 OR shl (ucast (d_odd (e regs old))) 2 OR
     shl (ucast (v_odd (e regs old))) 1 OR x = regs CP0_ENTRYLO1_REG AND 0x3FFFFFFE OR x"
    using lo_fields [of "regs CP0_ENTRYLO1_REG" x] by (simp add: e_def entry_of_registers_def set_ranges_def Let_def)
qed

text \<open>
  C33. An entry written by \<open>TLBWI\<close> is read back by \<open>TLBR\<close> into the registers it was written
  from, without the bits the TLB does not keep; the global bit is the conjunction of both.
\<close>

theorem tlb_write_read_roundtrip:
  assumes "tlb_run s" "TLBWI s = Some s'"
    "\<not> executing_from (tlb_e s ! unat (g_cp0_regs s CP0_INDEX_REG AND 0x3F)) (PC_addr s)"
  defines "lo0 \<equiv> g_cp0_regs s CP0_ENTRYLO0_REG" and "lo1 \<equiv> g_cp0_regs s CP0_ENTRYLO1_REG"
  shows "map_option g_cp0_regs (TLBR s') =
    Some ((g_cp0_regs s)
      (CP0_PAGEMASK_REG := g_cp0_regs s CP0_PAGEMASK_REG AND 0x1FFE000,
       CP0_ENTRYHI_REG := g_cp0_regs s CP0_ENTRYHI_REG AND 0xFFFFE0FF,
       CP0_ENTRYLO0_REG := lo0 AND 0x3FFFFFFE OR lo0 AND lo1 AND 1,
       CP0_ENTRYLO1_REG := lo1 AND 0x3FFFFFFE OR lo0 AND lo1 AND 1))"
proof -
  have c: "coherent s" by (rule coherent_run [OF assms(1)])
  let ?i = "g_cp0_regs s CP0_INDEX_REG AND 0x3F"
  note w = TLBWrite_entry [OF c assms(2) [unfolded TLBWI_def] assms(3)]
  have "unat (g_cp0_regs s CP0_INDEX_REG AND 0x1F) = unat (g_cp0_regs s CP0_INDEX_REG) mod 32"
    "unat ?i = unat (g_cp0_regs s CP0_INDEX_REG) mod 64"
    using and_mask_mod [of "g_cp0_regs s CP0_INDEX_REG" 5] and_mask_mod [of "g_cp0_regs s CP0_INDEX_REG" 6]
    by (simp_all add: mask_eq_exp_minus_1)
  moreover have "x mod 64 < 32 \<Longrightarrow> x mod 32 = x mod 64" for x :: nat
    using mod_mod_cancel [of 32 64 x] by simp
  ultimately have i: "unat (g_cp0_regs s CP0_INDEX_REG AND 0x1F) = unat ?i" using w(1) by simp
  define e where "e = entry_of_registers (g_cp0_regs s) (tlb_e s ! unat ?i)"
  note er = entry_registers [of "g_cp0_regs s" "tlb_e s ! unat ?i", folded e_def]
  have "rd (tlb_e s') (unat (g_cp0_regs s' CP0_INDEX_REG AND 0x1F)) = Some e"
    using w(1) coherentD(1) [OF c] unfolding w(3) i w(2) e_def by simp
  then have "TLBR s' = Some
      (set_cp0 CP0_ENTRYLO1_REG (shl (pfn_odd e) 6 OR shl (ucast (c_odd e)) 3 OR shl (ucast (d_odd e)) 2 OR
          shl (ucast (v_odd e)) 1 OR ucast (tlb_g e))
      (set_cp0 CP0_ENTRYLO0_REG (shl (pfn_even e) 6 OR shl (ucast (c_even e)) 3 OR shl (ucast (d_even e)) 2 OR
          shl (ucast (v_even e)) 1 OR ucast (tlb_g e))
      (set_cp0 CP0_ENTRYHI_REG (shl (tlb_vpn2 e) 13 OR ucast (tlb_asid e))
      (set_cp0 CP0_PAGEMASK_REG (shl (scast (tlb_mask e)) 13) s'))))"
    by (simp only: TLBR_def Let_def bind.simps)
  then show ?thesis
    by (simp only: er lo0_def lo1_def option.map set_cp0_def w(3)) simp
qed

section \<open>Witnesses\<close>

definition cold_core :: "(cp0_registers \<Rightarrow> u32) \<Rightarrow> tlb_core" where
  "cold_core regs = \<lparr>q = q cold_state, SPECIAL_done = False, next_interrupt = 0, g_cp0_regs = regs,
     mi_regs = \<lambda>_. 0, PC_addr = 0xa4000040, last_addr = 0xa4000040, delay_slot = 0, skip_jump = 0,
     dyna_interp = False, count_per_op = 2, tlb_e = [], tlb_LUT_r = \<lambda>_. 0, tlb_LUT_w = \<lambda>_. 0,
     special_rom = NORMAL_ROM, destination_code = 0x45, pure_interpreter = True\<rparr>"

text \<open>Registers for a pair of pages at 0x12000, and for one at the end of the address space.\<close>

definition low_pages :: "cp0_registers \<Rightarrow> u32" where
  "low_pages = (\<lambda>_. 0)(CP0_INDEX_REG := 3, CP0_ENTRYHI_REG := 0x00012000,
     CP0_ENTRYLO0_REG := 0x00004007, CP0_ENTRYLO1_REG := 0x00004043)"

definition last_pages :: "cp0_registers \<Rightarrow> u32" where
  "last_pages = (\<lambda>_. 0)(CP0_INDEX_REG := 3, CP0_ENTRYHI_REG := 0xFFFFE000, CP0_ENTRYLO1_REG := 2)"

abbreviation zero_entry :: tlb where
  "zero_entry \<equiv> \<lparr>tlb_mask = 0, tlb_vpn2 = 0, tlb_g = 0, tlb_asid = 0,
     pfn_even = 0, c_even = 0, d_even = 0, v_even = 0, pfn_odd = 0, c_odd = 0, d_odd = 0, v_odd = 0,
     start_even = 0, end_even = 0, phys_even = 0, start_odd = 0, end_odd = 0, phys_odd = 0\<rparr>"

lemma cold_entry: "i < 32 \<Longrightarrow> tlb_e (poweron_tlb (cold_core regs)) ! i = zero_entry"
  by (simp add: poweron_tlb_def)

lemma cold_regs [simp]:
  "g_cp0_regs (poweron_tlb (cold_core regs)) = regs" "special_rom (poweron_tlb (cold_core regs)) = NORMAL_ROM"
  by (simp_all add: poweron_tlb_def cold_core_def)

lemma zero_entry_idle: "\<not> executing_from zero_entry pc" "\<not> unmap_endless zero_entry"
  by (simp_all add: executing_from_def unmap_endless_def)

lemma low_entry:
  "entry_of_registers low_pages zero_entry =
     \<lparr>tlb_mask = 0, tlb_vpn2 = 9, tlb_g = 1, tlb_asid = 0,
      pfn_even = 0x100, c_even = 0, d_even = 1, v_even = 1, pfn_odd = 0x101, c_odd = 0, d_odd = 0, v_odd = 1,
      start_even = 0x12000, end_even = 0x12FFF, phys_even = 0x100000,
      start_odd = 0x13000, end_odd = 0x13FFF, phys_odd = 0x101000\<rparr>"
  by (simp add: entry_of_registers_def set_ranges_def low_pages_def Let_def)

lemma last_endless: "map_endless (entry_of_registers last_pages zero_entry)"
  by (simp add: map_endless_def entry_of_registers_def set_ranges_def last_pages_def Let_def)

theorem tlb_write_returns_iff_witness:
  "(\<exists>s'. TLBWrite 3 (poweron_tlb (cold_core low_pages)) = Some s') \<and>
   TLBWrite 3 (poweron_tlb (cold_core last_pages)) = None"
proof -
  have "\<not> map_endless (entry_of_registers low_pages zero_entry)" by (simp add: low_entry map_endless_def)
  then have "\<exists>s'. TLBWrite 3 (poweron_tlb (cold_core low_pages)) = Some s'"
    using tlb_write_returns_iff [OF tlb_run.start, where idx = 3] zero_entry_idle(2)
    by (simp add: cold_entry)
  moreover have "\<not> (\<exists>s'. TLBWrite 3 (poweron_tlb (cold_core last_pages)) = Some s')"
    using tlb_write_returns_iff [OF tlb_run.start, where idx = 3] zero_entry_idle(1) last_endless
    by (simp add: cold_entry)
  ultimately show ?thesis by simp
qed

lemma low_written:
  obtains s' where "TLBWI (poweron_tlb (cold_core low_pages)) = Some s'" "tlb_run s'"
    "tlb_e s' ! 3 = entry_of_registers low_pages zero_entry" "special_rom s' = NORMAL_ROM"
proof -
  let ?s = "poweron_tlb (cold_core low_pages)"
  have idx: "g_cp0_regs ?s CP0_INDEX_REG AND 0x3F = 3" by (simp add: low_pages_def)
  have "\<not> map_endless (entry_of_registers low_pages zero_entry)" by (simp add: low_entry map_endless_def)
  then obtain s' where s': "TLBWrite 3 ?s = Some s'"
    using TLBWrite_returns [OF coherent_poweron [of "cold_core low_pages"], of 3] zero_entry_idle(2)
    by (auto simp: cold_entry)
  have "covers False zero_entry p = False" for p by (simp add: covers_def half_covers_def)
  then have "apart (entry_of_registers (g_cp0_regs ?s) (tlb_e ?s ! unat (3 :: u32))) (tlb_e ?s ! j)" if "j < 32" for j
    using that by (simp add: apart_def cold_entry)
  then have run: "tlb_run s'" by (intro tlb_run.write_entry [OF tlb_run.start _ s']) blast
  have w: "tlb_e s' = (tlb_e ?s)[3 := entry_of_registers low_pages zero_entry]"
    using TLBWrite_entry(2) [OF coherent_poweron s'] zero_entry_idle(1) by (simp add: cold_entry)
  have "special_rom s' = NORMAL_ROM" using TLBWrite_entry(4) [OF coherent_poweron s'] zero_entry_idle(1) by (simp add: cold_entry)
  moreover have "tlb_e s' ! 3 = entry_of_registers low_pages zero_entry"
    unfolding w using coherentD(1) [OF coherent_poweron, of "cold_core low_pages"] by simp
  moreover have "TLBWI ?s = Some s'" using s' by (simp only: TLBWI_def idx)
  ultimately show thesis using run that by blast
qed


theorem tlb_write_read_roundtrip_witness:
  "\<exists>s'. TLBWI (poweron_tlb (cold_core low_pages)) = Some s' \<and>
     map_option (\<lambda>r. g_cp0_regs r CP0_ENTRYLO0_REG) (TLBR s') = Some 0x00004007 \<and>
     map_option (\<lambda>r. g_cp0_regs r CP0_ENTRYLO1_REG) (TLBR s') = Some 0x00004043"
proof -
  obtain s' where s': "TLBWI (poweron_tlb (cold_core low_pages)) = Some s'" by (rule low_written)
  have "\<not> executing_from (tlb_e (poweron_tlb (cold_core low_pages)) !
      unat (g_cp0_regs (poweron_tlb (cold_core low_pages)) CP0_INDEX_REG AND 0x3F)) pc" for pc
    using zero_entry_idle(1) by (simp add: low_pages_def cold_entry)
  from tlb_write_read_roundtrip [OF tlb_run.start s' this] s' show ?thesis
    by (cases "TLBR s'") (simp_all add: low_pages_def)
qed

end
