(* ===== verification/Peripheral_Interface.thy ===== *)
theory Peripheral_Interface
  imports Controllers
begin

text \<open>
  The peripheral interface \<open>pi/pi_controller.c\<close> with what is behind it: the cartridge
  \<open>pi/cart_rom.c\<close>, the save memories \<open>pi/sram.c\<close> and \<open>pi/flashram.c\<close>, the buffers of the disk
  drive, and main memory through the bounded accessors of \<open>ri/safe_rdram.h\<close>.

  Memories are byte arrays as a little-endian host holds them: \<open>S8\<close> is 3, the byte with guest
  address \<open>a\<close> is at \<open>a XOR 3\<close>. An access outside an array has no value. Saving to a file and the
  invalidation of recompiled code are entries of a log.
\<close>

section \<open>State\<close>

definition S8 :: u32 where "S8 = 3"
definition RDRAM_MAX_SIZE :: nat where "RDRAM_MAX_SIZE = 0x800000"
definition SRAM_SIZE :: nat where "SRAM_SIZE = 0x8000"
definition FLASHRAM_SIZE :: nat where "FLASHRAM_SIZE = 0x20000"

definition PI_DRAM_ADDR_REG :: nat where "PI_DRAM_ADDR_REG = 0"
definition PI_CART_ADDR_REG :: nat where "PI_CART_ADDR_REG = 1"
definition PI_RD_LEN_REG :: nat where "PI_RD_LEN_REG = 2"
definition PI_WR_LEN_REG :: nat where "PI_WR_LEN_REG = 3"
definition PI_STATUS_REG :: nat where "PI_STATUS_REG = 4"
definition PI_BSD_DOM1_LAT_REG :: nat where "PI_BSD_DOM1_LAT_REG = 5"
definition PI_BSD_DOM2_RLS_REG :: nat where "PI_BSD_DOM2_RLS_REG = 12"
definition PI_REGS_COUNT :: nat where "PI_REGS_COUNT = 13"

datatype flashram_mode =
    FLASHRAM_MODE_NOPES | FLASHRAM_MODE_ERASE | FLASHRAM_MODE_WRITE | FLASHRAM_MODE_READ | FLASHRAM_MODE_STATUS

record flashram =
  flash_data :: bytes
  flash_mode :: flashram_mode
  flash_status :: u64
  erase_offset :: u32
  write_pointer :: u32

record cart_rom =
  cart_bytes :: bytes
  cart_size :: u64
  last_write :: u32
  rom_written :: bool

datatype pi_event = Save_Sram | Save_Flashram | Invalidate_Code u32 u32

record pi_core = r4300_core +
  rdram :: bytes
  dram_size :: u32
  pi_regs :: "nat \<Rightarrow> u32"
  cart_rom :: cart_rom
  g_rom_size :: u32
  dd_rom :: bytes
  dd_rom_size :: u64
  sram :: bytes
  flashram :: flashram
  use_flashram :: int
  c2_buf :: bytes
  sec_buf :: bytes
  asic_cmd_status :: u32
  cic_x105 :: bool
  pi_log :: "pi_event list"

definition pi_emit :: "pi_event \<Rightarrow> pi_core \<Rightarrow> pi_core" where
  "pi_emit ev s = s\<lparr>pi_log := pi_log s @ [ev]\<rparr>"

definition set_pi_reg :: "nat \<Rightarrow> u32 \<Rightarrow> pi_core \<Rightarrow> pi_core" where
  "set_pi_reg r v s = s\<lparr>pi_regs := (pi_regs s)(r := v)\<rparr>"

section \<open>Main memory\<close>

definition rdram_safe_read_byte :: "bytes \<Rightarrow> u32 \<Rightarrow> u8 option" where
  "rdram_safe_read_byte dram addr =
     (let addr = addr AND 0x3ffffff in if addr < 0x800000 then rd dram (unat addr) else Some 0)"

definition rdram_safe_write_byte :: "bytes \<Rightarrow> u32 \<Rightarrow> u8 \<Rightarrow> bytes option" where
  "rdram_safe_write_byte dram addr value =
     (let addr = addr AND 0x3ffffff in if addr < 0x800000 then wr dram (unat addr) value else Some dram)"

text \<open>A word of an array of words, as its four bytes.\<close>

definition store_word :: "bytes \<Rightarrow> nat \<Rightarrow> u32 \<Rightarrow> bytes option" where
  "store_word dram i w =
     do { dram \<leftarrow> wr dram (4 * i) (ucast w);
          dram \<leftarrow> wr dram (4 * i + 1) (ucast (shr w 8));
          dram \<leftarrow> wr dram (4 * i + 2) (ucast (shr w 16));
          wr dram (4 * i + 3) (ucast (shr w 24)) }"

definition host_word :: "bytes \<Rightarrow> nat \<Rightarrow> u32 option" where
  "host_word bs a =
     do { b0 \<leftarrow> rd bs a; b1 \<leftarrow> rd bs (a + 1); b2 \<leftarrow> rd bs (a + 2); b3 \<leftarrow> rd bs (a + 3);
          Some (ucast b0 OR shl (ucast b1) 8 OR shl (ucast b2) 16 OR shl (ucast b3) 24) }"

text \<open>The counted loops \<open>for (i = 0; i < length; ++i)\<close>.\<close>

fun for_loop :: "nat \<Rightarrow> u32 \<Rightarrow> (u32 \<Rightarrow> 's \<Rightarrow> 's option) \<Rightarrow> 's \<Rightarrow> 's option" where
  "for_loop 0 i f s = Some s"
| "for_loop (Suc n) i f s = do { s \<leftarrow> f i s; for_loop n (i + 1) f s }"

section \<open>Save memories\<close>

text \<open>
  The loop of all transfers out of main memory: the bytes from \<open>limit\<close> on are skipped.
\<close>

definition copy_from_dram :: "bytes \<Rightarrow> nat \<Rightarrow> u32 \<Rightarrow> u32 \<Rightarrow> nat \<Rightarrow> bytes \<Rightarrow> bytes option" where
  "copy_from_dram dram limit cart_addr dram_addr len mem =
     for_loop len 0 (\<lambda>i mem.
       let cart_i = (cart_addr + i) XOR S8
       in if limit \<le> unat cart_i then Some mem
          else do { b \<leftarrow> rdram_safe_read_byte dram ((dram_addr + i) XOR S8);
                    wr mem (unat cart_i) b }) mem"

definition dma_write_sram :: "pi_core \<Rightarrow> pi_core option" where
  "dma_write_sram s =
     (let len = (pi_regs s PI_RD_LEN_REG AND 0xffffff) + 1;
          cart_addr = pi_regs s PI_CART_ADDR_REG - 0x08000000
      in do { mem \<leftarrow> copy_from_dram (rdram s) SRAM_SIZE cart_addr (pi_regs s PI_DRAM_ADDR_REG) (unat len) (sram s);
              Some (pi_emit Save_Sram (s\<lparr>sram := mem\<rparr>)) })"

text \<open>The loop of all transfers into main memory: bytes from \<open>limit\<close> on read as 0.\<close>

definition copy_to_dram :: "bytes \<Rightarrow> nat \<Rightarrow> u32 \<Rightarrow> u32 \<Rightarrow> nat \<Rightarrow> bytes \<Rightarrow> bytes option" where
  "copy_to_dram mem limit cart_addr dram_addr len dram =
     for_loop len 0 (\<lambda>i dram.
       let cart_i = (cart_addr + i) XOR S8
       in do { b \<leftarrow> (if unat cart_i < limit then rd mem (unat cart_i) else Some 0);
               rdram_safe_write_byte dram ((dram_addr + i) XOR S8) b }) dram"

definition dma_read_sram :: "pi_core \<Rightarrow> pi_core option" where
  "dma_read_sram s =
     (let len = (pi_regs s PI_WR_LEN_REG AND 0xffffff) + 1;
          cart_addr = (pi_regs s PI_CART_ADDR_REG - 0x08000000) AND 0xffff
      in do { dram \<leftarrow> copy_to_dram (sram s) SRAM_SIZE cart_addr (pi_regs s PI_DRAM_ADDR_REG) (unat len) (rdram s);
              Some (s\<lparr>rdram := dram\<rparr>) })"

section \<open>Flash memory\<close>

definition format_flashram :: bytes where
  "format_flashram = replicate FLASHRAM_SIZE 0xff"

definition poweron_flashram :: "flashram \<Rightarrow> flashram" where
  "poweron_flashram fl = fl\<lparr>flash_mode := FLASHRAM_MODE_NOPES, flash_status := 0, erase_offset := 0, write_pointer := 0\<rparr>"

definition flash_erase :: "flashram \<Rightarrow> flashram option" where
  "flash_erase fl =
     do { mem \<leftarrow> for_loop 128 0 (\<lambda>k mem.
            let i = erase_offset fl + k
            in if unat (i XOR S8) < FLASHRAM_SIZE then wr mem (unat (i XOR S8)) 0xff else Some mem) (flash_data fl);
          Some (fl\<lparr>flash_data := mem\<rparr>) }"

definition flash_program :: "bytes \<Rightarrow> flashram \<Rightarrow> flashram option" where
  "flash_program dram fl =
     do { mem \<leftarrow> copy_from_dram dram FLASHRAM_SIZE (erase_offset fl) (write_pointer fl) 128 (flash_data fl);
          Some (fl\<lparr>flash_data := mem\<rparr>) }"

text \<open>
  A command; the flag says whether the memory was saved. The loop of the erasure runs from
  \<open>erase_offset\<close> to \<open>erase_offset + 128\<close>, which does not wrap as the offset is at most 0x7FFF80.
\<close>

definition flashram_command :: "bytes \<Rightarrow> u32 \<Rightarrow> flashram \<Rightarrow> (flashram \<times> bool) option" where
  "flashram_command dram command fl =
     (let op = command AND 0xff000000 in
      if op = 0x4b000000 then Some (fl\<lparr>erase_offset := (command AND 0xffff) * 128\<rparr>, False)
      else if op = 0x78000000 then Some (fl\<lparr>flash_mode := FLASHRAM_MODE_ERASE, flash_status := 0x1111800800c20000\<rparr>, False)
      else if op = 0xa5000000 then
        Some (fl\<lparr>erase_offset := (command AND 0xffff) * 128, flash_status := 0x1111800400c20000\<rparr>, False)
      else if op = 0xb4000000 then Some (fl\<lparr>flash_mode := FLASHRAM_MODE_WRITE\<rparr>, False)
      else if op = 0xd2000000 then
        do { (fl, saved) \<leftarrow>
               (case flash_mode fl of
                  FLASHRAM_MODE_ERASE \<Rightarrow> do { fl \<leftarrow> flash_erase fl; Some (fl, True) }
                | FLASHRAM_MODE_WRITE \<Rightarrow> do { fl \<leftarrow> flash_program dram fl; Some (fl, True) }
                | _ \<Rightarrow> Some (fl, False));
             Some (fl\<lparr>flash_mode := FLASHRAM_MODE_NOPES\<rparr>, saved) }
      else if op = 0xe1000000 then Some (fl\<lparr>flash_mode := FLASHRAM_MODE_STATUS, flash_status := 0x1111800100c20000\<rparr>, False)
      else if op = 0xf0000000 then Some (fl\<lparr>flash_mode := FLASHRAM_MODE_READ, flash_status := 0x11118004f0000000\<rparr>, False)
      else Some (fl, False))"

text \<open>\<open>Inl\<close> is the error result of the two handlers.\<close>

definition read_flashram_status :: "u32 \<Rightarrow> pi_core \<Rightarrow> int + (u32 \<times> pi_core)" where
  "read_flashram_status address s =
     (if use_flashram s = - 1 \<or> address AND 0xffff \<noteq> 0 then Inl (- 1)
      else Inr (ucast (shr (flash_status (flashram s)) 32), s\<lparr>use_flashram := 1\<rparr>))"

definition write_flashram_command :: "u32 \<Rightarrow> u32 \<Rightarrow> u32 \<Rightarrow> pi_core \<Rightarrow> (int + pi_core) option" where
  "write_flashram_command address value mask_bits s =
     (if use_flashram s = - 1 \<or> address AND 0xffff \<noteq> 0 then Some (Inl (- 1))
      else do { (fl, saved) \<leftarrow> flashram_command (rdram s) (value AND mask_bits) (flashram s);
                let s = s\<lparr>use_flashram := 1, flashram := fl\<rparr>;
                Some (Inr (if saved then pi_emit Save_Flashram s else s)) })"

definition dma_read_flashram :: "pi_core \<Rightarrow> pi_core option" where
  "dma_read_flashram s =
     (case flash_mode (flashram s) of
        FLASHRAM_MODE_STATUS \<Rightarrow>
          do { let i = unat (pi_regs s PI_DRAM_ADDR_REG div 4);
               dram \<leftarrow> store_word (rdram s) i (ucast (shr (flash_status (flashram s)) 32));
               dram \<leftarrow> store_word dram (i + 1) (ucast (flash_status (flashram s)));
               Some (s\<lparr>rdram := dram\<rparr>) }
      | FLASHRAM_MODE_READ \<Rightarrow>
          let len = (pi_regs s PI_WR_LEN_REG AND 0xffffff) + 1;
              cart_addr = ((pi_regs s PI_CART_ADDR_REG - 0x08000000) AND 0xffff) * 2
          in do { dram \<leftarrow> copy_to_dram (flash_data (flashram s)) FLASHRAM_SIZE cart_addr
                            (pi_regs s PI_DRAM_ADDR_REG) (unat len) (rdram s);
                  Some (s\<lparr>rdram := dram\<rparr>) }
      | _ \<Rightarrow> Some s)"

definition dma_write_flashram :: "pi_core \<Rightarrow> pi_core" where
  "dma_write_flashram s =
     (case flash_mode (flashram s) of
        FLASHRAM_MODE_WRITE \<Rightarrow> s\<lparr>flashram := (flashram s)\<lparr>write_pointer := pi_regs s PI_DRAM_ADDR_REG\<rparr>\<rparr>
      | _ \<Rightarrow> s)"

section \<open>The cartridge\<close>

definition poweron_cart_rom :: "cart_rom \<Rightarrow> cart_rom" where
  "poweron_cart_rom c = c\<lparr>last_write := 0, rom_written := False\<rparr>"

definition read_cart_rom :: "u32 \<Rightarrow> cart_rom \<Rightarrow> (u32 \<times> cart_rom) option" where
  "read_cart_rom address c =
     (if rom_written c then Some (last_write c, c\<lparr>rom_written := False\<rparr>)
      else do { w \<leftarrow> host_word (cart_bytes c) (unat (address AND 0x03fffffc)); Some (w, c) })"

definition write_cart_rom :: "u32 \<Rightarrow> u32 \<Rightarrow> cart_rom \<Rightarrow> cart_rom" where
  "write_cart_rom value mask_bits c = c\<lparr>last_write := value AND mask_bits, rom_written := True\<rparr>"

section \<open>Transfers\<close>

definition schedule_pi :: "u32 \<Rightarrow> pi_core \<Rightarrow> pi_core option" where
  "schedule_pi delay s = add_interrupt_event PI_INT delay (cp0_update_count s)"

definition mark_busy :: "u32 \<Rightarrow> pi_core \<Rightarrow> pi_core" where
  "mark_busy bits s = set_pi_reg PI_STATUS_REG (pi_regs s PI_STATUS_REG OR bits) s"

text \<open>
  The length of a transfer is cut at the end of the source and then at address 0x7FFFFF of main
  memory, with the wrap-around of 32-bit arithmetic.
\<close>

definition clip_length :: "u32 \<Rightarrow> u32 \<Rightarrow> u32 \<Rightarrow> u32" where
  "clip_length bound i len = (if i + len > bound then bound - i else len)"

definition cut_at_dram :: "u32 \<Rightarrow> u32 \<Rightarrow> u32" where
  "cut_at_dram dram_addr len = (if dram_addr + len > 0x7FFFFF then 0x7FFFFF - dram_addr else len)"

definition dma_pi_read :: "pi_core \<Rightarrow> pi_core option" where
  "dma_pi_read s =
     (let cart_addr = pi_regs s PI_CART_ADDR_REG; dram_addr = pi_regs s PI_DRAM_ADDR_REG in
      if cart_addr \<ge> 0x05000000 \<and> cart_addr < 0x06000000 \<and> cart_addr \<noteq> 0x05000400 then
        schedule_pi 0x1000 (mark_busy 1 s)
      else do {
        s \<leftarrow>
          (if cart_addr \<ge> 0x05000000 \<and> cart_addr < 0x06000000 then
             let len = (pi_regs s PI_RD_LEN_REG AND 0xFFFFFF) + 1;
                 i = ((cart_addr - 0x05000000) AND 0x1FFFFFF) - 0x400;
                 len = clip_length 0x100 i len;
                 rom_address = (cart_addr - 0x05000400) AND 0x3fffff;
                 len = cut_at_dram dram_addr len
             in do { buf \<leftarrow> copy_from_dram (rdram s) (unat (g_rom_size s)) rom_address dram_addr (unat len) (sec_buf s);
                     Some (s\<lparr>sec_buf := buf\<rparr>) }
           else if cart_addr \<ge> 0x08000000 \<and> cart_addr < 0x08010000 then
             (if use_flashram s \<noteq> 1
              then do { s \<leftarrow> dma_write_sram s; Some (s\<lparr>use_flashram := - 1\<rparr>) }
              else Some (dma_write_flashram s))
           else Some s);
        schedule_pi 0x1000 (mark_busy PI_STATUS_DMA_BUSY s) })"

definition invalidate_code :: "u32 \<Rightarrow> u32 \<Rightarrow> pi_core \<Rightarrow> pi_core" where
  "invalidate_code dram_addr len s =
     pi_emit (Invalidate_Code (0xa0000000 + dram_addr) len) (pi_emit (Invalidate_Code (0x80000000 + dram_addr) len) s)"

text \<open>From one of the buffers of the disk drive.\<close>

definition dma_from_buffer :: "bytes \<Rightarrow> u32 \<Rightarrow> u32 \<Rightarrow> pi_core \<Rightarrow> pi_core option" where
  "dma_from_buffer mem rom_address len s =
     (let dram_addr = pi_regs s PI_DRAM_ADDR_REG; len = cut_at_dram dram_addr len
      in do { dram \<leftarrow> copy_to_dram mem (unat (g_rom_size s)) rom_address dram_addr (unat len) (rdram s);
              Some (invalidate_code dram_addr len (s\<lparr>rdram := dram\<rparr>)) })"

definition force_detected_rdram_size_hack :: "pi_core \<Rightarrow> pi_core option" where
  "force_detected_rdram_size_hack s =
     do { dram \<leftarrow> store_word (rdram s) (if cic_x105 s then 0x3f0 div 4 else 0x318 div 4) (dram_size s);
          Some (s\<lparr>rdram := dram\<rparr>) }"

text \<open>From the cartridge or the IPL of the disk drive; \<open>i\<close> is the offset in it.\<close>

definition dma_from_rom :: "bytes \<Rightarrow> u64 \<Rightarrow> u32 \<Rightarrow> u32 \<Rightarrow> pi_core \<Rightarrow> pi_core option" where
  "dma_from_rom mem bound i rom_address s =
     (let cart_addr = pi_regs s PI_CART_ADDR_REG; dram_addr = pi_regs s PI_DRAM_ADDR_REG;
          len = (pi_regs s PI_WR_LEN_REG AND 0xFFFFFE) + 2;
          len = (if ucast (i + len) > bound then ucast (bound - ucast i) else len);
          len = cut_at_dram dram_addr len
      in if ucast i > bound \<or> dram_addr > 0x7FFFFF
         then schedule_pi (len div 8) (mark_busy (PI_STATUS_DMA_BUSY OR PI_STATUS_IO_BUSY) s)
         else do {
           dram \<leftarrow> copy_to_dram mem (unat (g_rom_size s)) rom_address dram_addr (unat len) (rdram s);
           let s = invalidate_code dram_addr len (s\<lparr>rdram := dram\<rparr>);
           s \<leftarrow> (if cart_addr = 0x10001000 \<or> cart_addr = 0x06001000 then force_detected_rdram_size_hack s else Some s);
           schedule_pi (len div 8) (mark_busy (PI_STATUS_DMA_BUSY OR PI_STATUS_IO_BUSY) s) })"

definition dma_pi_write :: "pi_core \<Rightarrow> pi_core option" where
  "dma_pi_write s =
     (let cart_addr = pi_regs s PI_CART_ADDR_REG; wr_len = pi_regs s PI_WR_LEN_REG;
          busy = PI_STATUS_DMA_BUSY OR PI_STATUS_IO_BUSY in
      if cart_addr < 0x10000000 \<and> \<not> (cart_addr \<ge> 0x06000000 \<and> cart_addr < 0x08000000) then
        (if cart_addr \<ge> 0x05000000 \<and> cart_addr < 0x06000000 \<and> cart_addr \<noteq> 0x05000400 \<and> cart_addr \<noteq> 0x05000000 then
           schedule_pi (((wr_len AND 0xFFFFFF) + 1) div 8) (mark_busy busy s)
         else do {
           s \<leftarrow>
             (if cart_addr \<ge> 0x08000000 \<and> cart_addr < 0x08010000 then
                (if use_flashram s \<noteq> 1
                 then do { s \<leftarrow> dma_read_sram s; Some (s\<lparr>use_flashram := - 1\<rparr>) }
                 else dma_read_flashram s)
              else if cart_addr = 0x05000400 then
                let len = (wr_len AND 0xFFFFFF) + 1;
                    i = ((cart_addr - 0x05000000) AND 0x1FFFFFF) - 0x400
                in dma_from_buffer (sec_buf s) ((cart_addr - 0x05000400) AND 0x3fffff)
                     (clip_length 0x100 i len) s
              else if cart_addr = 0x05000000 then
                let len = (wr_len AND 0xFFFFFF) + 1;
                    i = (cart_addr - 0x05000000) AND 0x1FFFFFF
                in dma_from_buffer (c2_buf s) ((cart_addr - 0x05000000) AND 0x3fffff)
                     (clip_length 0x400 i len) s
              else Some s);
           schedule_pi (pi_regs s PI_WR_LEN_REG * 63 div 25) (mark_busy busy s) })
      else if cart_addr \<ge> 0x1fc00000 then schedule_pi 0x1000 (mark_busy PI_STATUS_DMA_BUSY s)
      else if cart_addr \<ge> 0x06000000 \<and> cart_addr < 0x08000000 then
        dma_from_rom (dd_rom s) (dd_rom_size s) ((cart_addr - 0x06000000) AND 0x1FFFFFF)
          ((cart_addr - 0x06000000) AND 0x3fffff) s
      else
        dma_from_rom (cart_bytes (cart_rom s)) (cart_size (cart_rom s)) ((cart_addr - 0x10000000) AND 0x3FFFFFF)
          ((cart_addr - 0x10000000) AND 0x3ffffff) s)"

section \<open>Registers\<close>

definition poweron_pi :: "pi_core \<Rightarrow> pi_core" where
  "poweron_pi s = s\<lparr>pi_regs := \<lambda>_. 0, cart_rom := poweron_cart_rom (cart_rom s), flashram := poweron_flashram (flashram s)\<rparr>"

definition read_pi_regs :: "u32 \<Rightarrow> pi_core \<Rightarrow> u32" where
  "read_pi_regs address s = (let reg = reg_index address in if reg < PI_REGS_COUNT then pi_regs s reg else 0)"

definition dd_pi_test :: "pi_core \<Rightarrow> pi_core" where
  "dd_pi_test s = check_interrupt (cp0_update_count (set_cp0 CP0_CAUSE_REG (cause_reg s AND NOT 0x00000800) s))"

definition write_pi_regs :: "u32 \<Rightarrow> u32 \<Rightarrow> u32 \<Rightarrow> pi_core \<Rightarrow> pi_core option" where
  "write_pi_regs address value mask_bits s =
     (let reg = reg_index address;
          written = MASKED_WRITE (pi_regs s reg) value mask_bits
      in if reg = PI_CART_ADDR_REG then
           (let s = (if value = 0x05000000
                     then dd_pi_test (s\<lparr>asic_cmd_status := asic_cmd_status s AND NOT 0x1C000000\<rparr>)
                     else if value = 0x05000400
                     then dd_pi_test (s\<lparr>asic_cmd_status := asic_cmd_status s AND NOT 0x4C000000\<rparr>)
                     else s)
            in Some (set_pi_reg PI_CART_ADDR_REG written s))
         else if reg = PI_RD_LEN_REG then dma_pi_read (set_pi_reg PI_RD_LEN_REG written s)
         else if reg = PI_WR_LEN_REG then dma_pi_write (set_pi_reg PI_WR_LEN_REG written s)
         else if reg = PI_STATUS_REG then
           Some (if value AND mask_bits AND 2 \<noteq> 0 then clear_rcp_interrupt MI_INTR_PI s else s)
         else if PI_BSD_DOM1_LAT_REG \<le> reg \<and> reg \<le> PI_BSD_DOM2_RLS_REG then
           Some (set_pi_reg reg (MASKED_WRITE (pi_regs s reg) (value AND 0xff) mask_bits) s)
         else if reg < PI_REGS_COUNT then Some (set_pi_reg reg written s)
         else Some s)"

end
