(* ===== verification/Peripheral_Properties.thy ===== *)
theory Peripheral_Properties
  imports Peripheral_Interface
begin

text \<open>
  Transfers of the peripheral interface: they stay inside the arrays except in two cases, which
  are named; they move exactly the bytes they should; the save memories give back what was
  stored in them.
\<close>

section \<open>Counted loops\<close>

lemma for_loop_ok:
  assumes "I 0 s" "\<And>k s. k < n \<Longrightarrow> I k s \<Longrightarrow> \<exists>s'. f (i + of_nat k) s = Some s' \<and> I (Suc k) s'"
  shows "\<exists>s'. for_loop n i f s = Some s' \<and> I n s'"
  using assms
proof (induction n arbitrary: I i s)
  case (Suc n)
  from Suc.prems(2) [of 0 s] Suc.prems(1) obtain s1 where s1: "f i s = Some s1" "I (Suc 0) s1" by auto
  have "\<exists>s'. for_loop n (i + 1) f s1 = Some s' \<and> I (Suc n) s'"
  proof (rule Suc.IH [of "\<lambda>k. I (Suc k)", OF s1(2)])
    fix k s assume "k < n" "I (Suc k) s"
    then show "\<exists>s'. f (i + 1 + of_nat k) s = Some s' \<and> I (Suc (Suc k)) s'"
      using Suc.prems(2) [of "Suc k" s] by (simp add: add.assoc)
  qed
  with s1(1) show ?case by simp
qed simp

lemma for_loop_stops:
  assumes "I 0 s" "\<And>k s. k < m \<Longrightarrow> I k s \<Longrightarrow> \<exists>s'. f (i + of_nat k) s = Some s' \<and> I (Suc k) s'"
    "\<And>s. I m s \<Longrightarrow> f (i + of_nat m) s = None" "m < n"
  shows "for_loop n i f s = None"
  using assms
proof (induction n arbitrary: I i s m)
  case (Suc n)
  show ?case
  proof (cases m)
    case 0
    with Suc.prems show ?thesis by simp
  next
    case (Suc m')
    from Suc.prems(2) [of 0 s] Suc.prems(1) Suc obtain s1 where s1: "f i s = Some s1" "I (Suc 0) s1" by auto
    have "for_loop n (i + 1) f s1 = None"
    proof (rule Suc.IH [of "\<lambda>k. I (Suc k)", OF s1(2), of m'])
      show "\<exists>s'. f (i + 1 + of_nat k) s = Some s' \<and> I (Suc (Suc k)) s'" if "k < m'" "I (Suc k) s" for k s
        using Suc.prems(2) [of "Suc k" s] that Suc by (simp add: add.assoc)
      show "f (i + 1 + of_nat m') s = None" if "I (Suc m') s" for s
        using Suc.prems(3) [of s] that Suc by (simp add: add.assoc)
      show "m' < n" using Suc.prems(4) Suc by simp
    qed
    with s1(1) show ?thesis by simp
  qed
qed simp

section \<open>Guest addresses\<close>

text \<open>The place of the byte at a guest address.\<close>

definition host :: "u32 \<Rightarrow> nat" where
  "host a = unat (a XOR S8)"

lemma host_div: "host a div 4 = unat a div 4"
proof -
  have "shr (a XOR S8) 2 = shr a 2 XOR shr S8 2" by (rule drop_bit_xor)
  then have "shr (a XOR S8) 2 = shr a 2" by (simp add: S8_def)
  then have "unat (shr (a XOR S8) 2) = unat (shr a 2)" by (simp only:)
  then show ?thesis unfolding unat_shr host_def by simp
qed

lemma host_less: "4 dvd n \<Longrightarrow> host a < n \<longleftrightarrow> unat a < n"
proof -
  have "x < 4 * k \<longleftrightarrow> x div 4 < k" for x k :: nat by auto
  then show "4 dvd n \<Longrightarrow> host a < n \<longleftrightarrow> unat a < n" by (elim dvdE) (simp add: host_div)
qed

lemma host_inj [simp]: "host a = host b \<longleftrightarrow> a = b"
proof
  assume "host a = host b"
  then have "a XOR S8 = b XOR S8" by (simp add: host_def word_unat_eq_iff)
  then have "(a XOR S8) XOR S8 = (b XOR S8) XOR S8" by (simp only:)
  then show "a = b" by (simp only: xor.assoc xor_self_eq xor.right_neutral)
qed simp

lemma mask_xor: "(a XOR S8) AND 0x3ffffff = (a AND 0x3ffffff) XOR S8"
proof -
  have "(a XOR S8) AND 0x3ffffff = (a AND 0x3ffffff) XOR (S8 AND 0x3ffffff)" by (rule bit.conj_xor_distrib2)
  then show ?thesis by (simp add: S8_def)
qed

text \<open>Bytes by their guest addresses.\<close>

definition dram_byte :: "bytes \<Rightarrow> u32 \<Rightarrow> u8" where
  "dram_byte dram a = (let m = a AND 0x3ffffff in if m < 0x800000 then dram ! host m else 0)"

definition mem_byte :: "bytes \<Rightarrow> nat \<Rightarrow> u32 \<Rightarrow> u8" where
  "mem_byte mem limit a = (if host a < limit then mem ! host a else 0)"

lemma host_dram: "a AND 0x3ffffff < 0x800000 \<longleftrightarrow> host (a AND 0x3ffffff) < RDRAM_MAX_SIZE"
  by (simp add: host_less RDRAM_MAX_SIZE_def word_less_nat_alt)

lemma safe_index:
  "((a XOR S8) AND 0x3ffffff < 0x800000) = (a AND 0x3ffffff < 0x800000)"
  "unat ((a XOR S8) AND 0x3ffffff) = host (a AND 0x3ffffff)"
proof -
  show e: "unat ((a XOR S8) AND 0x3ffffff) = host (a AND 0x3ffffff)" by (simp only: mask_xor host_def)
  show "((a XOR S8) AND 0x3ffffff < 0x800000) = (a AND 0x3ffffff < 0x800000)"
    using host_less [of "0x800000" "a AND 0x3ffffff"] by (simp only: word_less_nat_alt e) simp
qed

lemma safe_read:
  "length dram = RDRAM_MAX_SIZE \<Longrightarrow> rdram_safe_read_byte dram (a XOR S8) = Some (dram_byte dram a)"
  using host_dram [of a] by (simp add: rdram_safe_read_byte_def dram_byte_def Let_def safe_index)

lemma safe_write:
  assumes "length dram = RDRAM_MAX_SIZE"
  shows "\<exists>dram'. rdram_safe_write_byte dram (a XOR S8) v = Some dram' \<and> length dram' = RDRAM_MAX_SIZE \<and>
    (\<forall>b. dram_byte dram' b = (if a AND 0x3ffffff < 0x800000 \<and> b AND 0x3ffffff = a AND 0x3ffffff then v else dram_byte dram b))"
proof (cases "a AND 0x3ffffff < 0x800000")
  case True
  then have i: "host (a AND 0x3ffffff) < length dram" using assms by (simp add: host_dram)
  then have w: "rdram_safe_write_byte dram (a XOR S8) v = Some (dram[host (a AND 0x3ffffff) := v])"
    using True by (simp add: rdram_safe_write_byte_def Let_def safe_index)
  have "dram_byte (dram[host (a AND 0x3ffffff) := v]) b =
      (if b AND 0x3ffffff = a AND 0x3ffffff then v else dram_byte dram b)" for b
    using i True by (auto simp: dram_byte_def Let_def nth_list_update)
  with w True assms show ?thesis by simp
qed (use assms in \<open>simp add: rdram_safe_write_byte_def Let_def safe_index\<close>)

section \<open>Transfers into main memory\<close>

lemma address_small:
  assumes "unat a < 0x800000"
  shows "a AND 0x3ffffff = a"
proof -
  have "a AND mask 26 = a" by (rule and_mask_fixed) (use assms in simp)
  then show ?thesis by (simp add: mask_eq_exp_minus_1)
qed

lemma unat_add_small: "unat a + k < 4294967296 \<Longrightarrow> unat (a + of_nat k :: u32) = unat a + k"
  by (simp add: unat_word_ariths unat_of_nat)

lemma copy_total:
  assumes "length dram = RDRAM_MAX_SIZE" "\<And>k. k < n \<Longrightarrow> host (cart + of_nat k) < limit \<Longrightarrow> host (cart + of_nat k) < length mem"
  shows "\<exists>dram'. copy_to_dram mem limit cart to n dram = Some dram' \<and> length dram' = RDRAM_MAX_SIZE"
  unfolding copy_to_dram_def
proof (rule for_loop_ok [where I = "\<lambda>_ d. length d = RDRAM_MAX_SIZE"])
  fix k and d :: bytes
  assume k: "k < n" and d: "length d = RDRAM_MAX_SIZE"
  show "\<exists>d'. (let cart_i = (cart + (0 + of_nat k)) XOR S8 in do {
      b \<leftarrow> (if unat cart_i < limit then rd mem (unat cart_i) else Some 0);
      rdram_safe_write_byte d ((to + (0 + of_nat k)) XOR S8) b }) = Some d' \<and> length d' = RDRAM_MAX_SIZE"
    using safe_write [OF d, of "to + of_nat k"] assms(2) [OF k] by (auto simp: Let_def host_def)
qed (rule assms(1))

lemma copy_bytes:
  assumes d: "length dram = RDRAM_MAX_SIZE"
    and src: "\<And>k. k < n \<Longrightarrow> host (cart + of_nat k) < limit \<Longrightarrow> host (cart + of_nat k) < length mem"
    and to: "unat to + n \<le> 0x800000"
  shows "\<exists>dram'. copy_to_dram mem limit cart to n dram = Some dram' \<and> length dram' = RDRAM_MAX_SIZE \<and>
    (\<forall>k < n. dram_byte dram' (to + of_nat k) = mem_byte mem limit (cart + of_nat k)) \<and>
    (\<forall>b. unat b < 0x800000 \<longrightarrow> (unat b < unat to \<or> unat to + n \<le> unat b) \<longrightarrow> dram_byte dram' b = dram_byte dram b)"
proof -
  let ?I = "\<lambda>m d. length d = RDRAM_MAX_SIZE \<and>
    (\<forall>k < m. dram_byte d (to + of_nat k) = mem_byte mem limit (cart + of_nat k)) \<and>
    (\<forall>b. unat b < 0x800000 \<longrightarrow> (unat b < unat to \<or> unat to + m \<le> unat b) \<longrightarrow> dram_byte d b = dram_byte dram b)"
  have a: "unat (to + of_nat k) = unat to + k" if "k < n" for k using that to by (intro unat_add_small) linarith
  show ?thesis unfolding copy_to_dram_def
  proof (rule for_loop_ok [where I = ?I])
    fix m d assume m: "m < n" and I: "?I m d"
    let ?to = "to + of_nat m" and ?c = "cart + of_nat m"
    obtain d' where d': "rdram_safe_write_byte d (?to XOR S8) (mem_byte mem limit ?c) = Some d'" "length d' = RDRAM_MAX_SIZE"
      "\<And>b. dram_byte d' b = (if ?to AND 0x3ffffff < 0x800000 \<and> b AND 0x3ffffff = ?to AND 0x3ffffff
         then mem_byte mem limit ?c else dram_byte d b)"
      using safe_write [of d ?to "mem_byte mem limit ?c"] I by blast
    have t: "?to AND 0x3ffffff = ?to" "?to < 0x800000"
      using a [OF m] m to by (auto intro: address_small simp: word_less_nat_alt)
    have eff: "dram_byte d' b = (if b = ?to then mem_byte mem limit ?c else dram_byte d b)" if "unat b < 0x800000" for b
      using d'(3) [of b] t address_small [OF that] by simp
    have step: "(let cart_i = ?c XOR S8 in do {
        b \<leftarrow> (if unat cart_i < limit then rd mem (unat cart_i) else Some 0);
        rdram_safe_write_byte d (?to XOR S8) b }) = Some d'"
      using d'(1) src [OF m] by (auto simp: Let_def mem_byte_def host_def)
    have "dram_byte d' (to + of_nat k) = mem_byte mem limit (cart + of_nat k)" if "k < Suc m" for k
    proof -
      have "k < n" using that m by simp
      then have "unat (to + of_nat k) < 0x800000" using a [of k] to by linarith
      moreover have "to + of_nat k = ?to \<longleftrightarrow> k = m" using a [of k] a [OF m] \<open>k < n\<close> by (metis add_left_cancel)
      ultimately show ?thesis using eff I that by (auto simp: less_Suc_eq)
    qed
    moreover have "dram_byte d' b = dram_byte dram b"
      if "unat b < 0x800000" "unat b < unat to \<or> unat to + Suc m \<le> unat b" for b
    proof -
      have "b \<noteq> ?to" using a [OF m] that(2) by auto
      moreover have "unat b < unat to \<or> unat to + m \<le> unat b" using that(2) by linarith
      ultimately show ?thesis using that(1) eff I by auto
    qed
    ultimately show "\<exists>d'. (let cart_i = (cart + (0 + of_nat m)) XOR S8 in do {
        b \<leftarrow> (if unat cart_i < limit then rd mem (unat cart_i) else Some 0);
        rdram_safe_write_byte d ((to + (0 + of_nat m)) XOR S8) b }) = Some d' \<and> ?I (Suc m) d'"
      using step d'(2) by simp
  qed (use d in simp)
qed

section \<open>Transfers out of main memory\<close>

text \<open>
  The array has \<open>m\<close> bytes at the start of its address range; nothing beyond them is written if
  either the limit or the length of the transfer keeps inside.
\<close>

lemma copy_from_bytes:
  assumes d: "length dram = RDRAM_MAX_SIZE" and l: "length mem = size_of" "4 dvd size_of"
    and inside: "limit \<le> size_of \<or> unat cart + n \<le> size_of" and cart: "unat cart + n < 4294967296"
  shows "\<exists>mem'. copy_from_dram dram limit cart from n mem = Some mem' \<and> length mem' = size_of \<and>
    (\<forall>a. host a < size_of \<longrightarrow> mem' ! host a =
       (if unat cart \<le> unat a \<and> unat a < unat cart + n \<and> host a < limit
        then dram_byte dram (from + (a - cart)) else mem ! host a))"
proof -
  let ?I = "\<lambda>m x. length x = size_of \<and> (\<forall>a. host a < size_of \<longrightarrow> x ! host a =
       (if unat cart \<le> unat a \<and> unat a < unat cart + m \<and> host a < limit
        then dram_byte dram (from + (a - cart)) else mem ! host a))"
  show ?thesis unfolding copy_from_dram_def
  proof (rule for_loop_ok [where I = ?I])
    fix m x assume m: "m < n" and I: "?I m x"
    let ?c = "cart + of_nat m"
    have c: "unat ?c = unat cart + m" using m cart by (intro unat_add_small) linarith
    have same: "unat cart \<le> unat a \<and> unat a < unat cart + Suc m \<longleftrightarrow>
        a = ?c \<or> unat cart \<le> unat a \<and> unat a < unat cart + m" for a
      using c by (auto simp: word_unat_eq_iff)
    show "\<exists>x'. (let cart_i = (cart + (0 + of_nat m)) XOR S8
        in if limit \<le> unat cart_i then Some x
           else do { b \<leftarrow> rdram_safe_read_byte dram ((from + (0 + of_nat m)) XOR S8); wr x (unat cart_i) b }) = Some x' \<and>
        ?I (Suc m) x'"
    proof (cases "host ?c < limit")
      case False
      then have "(unat cart \<le> unat a \<and> unat a < unat cart + Suc m \<and> host a < limit) =
          (unat cart \<le> unat a \<and> unat a < unat cart + m \<and> host a < limit)" for a
        using same [of a] by auto
      with I have "?I (Suc m) x" by (simp only:) simp
      with False show ?thesis by (simp add: Let_def host_def [symmetric])
    next
      case True
      have b: "host ?c < size_of"
      proof (cases "limit \<le> size_of")
        case False
        then have "unat ?c < size_of" using inside c m by linarith
        then show ?thesis using host_less [OF l(2)] by simp
      qed (use True in simp)
      let ?x = "x[host ?c := dram_byte dram (from + of_nat m)]"
      have at: "?x ! host a = (if unat cart \<le> unat a \<and> unat a < unat cart + Suc m \<and> host a < limit
          then dram_byte dram (from + (a - cart)) else mem ! host a)" if "host a < size_of" for a
      proof (cases "a = ?c")
        case True
        then show ?thesis using b I \<open>host ?c < limit\<close> c by simp
      next
        case False
        then have e: "?x ! host a = x ! host a" by simp
        have "(unat cart \<le> unat a \<and> unat a < unat cart + Suc m \<and> host a < limit) =
            (unat cart \<le> unat a \<and> unat a < unat cart + m \<and> host a < limit)"
          using same [of a] False by auto
        moreover have "x ! host a = (if unat cart \<le> unat a \<and> unat a < unat cart + m \<and> host a < limit
            then dram_byte dram (from + (a - cart)) else mem ! host a)" using I that by blast
        ultimately show ?thesis by (simp only: e)
      qed
      have step: "(let cart_i = ?c XOR S8
        in if limit \<le> unat cart_i then Some x
           else do { b \<leftarrow> rdram_safe_read_byte dram ((from + of_nat m) XOR S8); wr x (unat cart_i) b }) = Some ?x"
        using True b I by (simp add: Let_def host_def [symmetric] safe_read [OF d])
      show ?thesis unfolding add_0
        by (intro exI [of _ ?x] conjI allI impI, rule step, use I in simp, erule at)
    qed
  qed (use l in auto)
qed

section \<open>The invariant of the peripheral interface\<close>

text \<open>
  The arrays have their sizes, the cartridge and the IPL of the disk drive the sizes they were
  opened with (at most 64 MiB and 4 MiB, in whole words), and the event queue is in order.
\<close>

definition pi_ok :: "pi_core \<Rightarrow> bool" where
  "pi_ok s \<longleftrightarrow> length (rdram s) = RDRAM_MAX_SIZE \<and> length (sram s) = SRAM_SIZE \<and>
     length (flash_data (flashram s)) = FLASHRAM_SIZE \<and> unat (erase_offset (flashram s)) \<le> 0x7FFF80 \<and>
     length (sec_buf s) = 0x100 \<and> length (c2_buf s) = 0x400 \<and>
     length (cart_bytes (cart_rom s)) \<le> 0x4000000 \<and> 4 dvd length (cart_bytes (cart_rom s)) \<and>
     cart_size (cart_rom s) = of_nat (length (cart_bytes (cart_rom s))) \<and>
     g_rom_size s = of_nat (length (cart_bytes (cart_rom s))) \<and>
     length (dd_rom s) \<le> 0x400000 \<and> 4 dvd length (dd_rom s) \<and> dd_rom_size s = of_nat (length (dd_rom s)) \<and>
     (\<exists>evs. represents (q s) evs)"

text \<open>The parts of the state the lemmas below are about.\<close>

definition pi_same :: "pi_core \<Rightarrow> pi_core \<Rightarrow> bool" where
  "pi_same s s' \<longleftrightarrow> rdram s' = rdram s \<and> sram s' = sram s \<and> flashram s' = flashram s \<and> sec_buf s' = sec_buf s \<and>
     c2_buf s' = c2_buf s \<and> cart_rom s' = cart_rom s \<and> g_rom_size s' = g_rom_size s \<and> dd_rom s' = dd_rom s \<and>
     dd_rom_size s' = dd_rom_size s \<and> use_flashram s' = use_flashram s \<and> pi_log s' = pi_log s \<and>
     pi_regs s' PI_DRAM_ADDR_REG = pi_regs s PI_DRAM_ADDR_REG \<and> pi_regs s' PI_CART_ADDR_REG = pi_regs s PI_CART_ADDR_REG"

lemma pi_same_ok: "pi_same s s' \<Longrightarrow> (pi_ok s \<Longrightarrow> \<exists>evs. represents (q s') evs) \<Longrightarrow> pi_ok s \<Longrightarrow> pi_ok s'"
  by (simp add: pi_same_def pi_ok_def)

lemmas pi_reg_numbers = PI_DRAM_ADDR_REG_def PI_CART_ADDR_REG_def PI_RD_LEN_REG_def PI_WR_LEN_REG_def PI_STATUS_REG_def
  PI_BSD_DOM1_LAT_REG_def PI_BSD_DOM2_RLS_REG_def PI_REGS_COUNT_def

lemma mark_busy_same: "pi_same s (mark_busy b s)" "q (mark_busy b s) = q s"
  by (simp_all add: pi_same_def mark_busy_def set_pi_reg_def pi_reg_numbers)

lemma schedule_pi_ok:
  assumes "pi_ok s"
  shows "\<exists>s'. schedule_pi delay s = Some s' \<and> pi_ok s' \<and> pi_same s s'"
proof -
  let ?s = "cp0_update_count s"
  have q: "q ?s = q s" by (simp add: cp0_update_count_def set_cp0_def)
  from assms obtain evs where "represents (q ?s) evs" by (auto simp: pi_ok_def q)
  then obtain qu where a: "add_interrupt_event_count PI_INT (count_reg ?s + delay) ?s = Some (?s\<lparr>q := qu, SPECIAL_done := done_after ?s,
       next_interrupt := if at_front (count_reg ?s) (done_after ?s) (PI_INT, count_reg ?s + delay) evs
         then count_reg ?s + delay else next_interrupt ?s\<rparr>)"
    and r: "represents qu (added_events (count_reg ?s) (done_after ?s) (PI_INT, count_reg ?s + delay) evs)" by (rule add_ok)
  let ?s' = "?s\<lparr>q := qu, SPECIAL_done := done_after ?s,
       next_interrupt := if at_front (count_reg ?s) (done_after ?s) (PI_INT, count_reg ?s + delay) evs
         then count_reg ?s + delay else next_interrupt ?s\<rparr>"
  have same: "pi_same s ?s'" by (simp add: pi_same_def cp0_update_count_def set_cp0_def)
  have "pi_ok ?s'" by (rule pi_same_ok [OF same _ assms]) (use r in auto)
  with same a show ?thesis by (simp add: schedule_pi_def add_interrupt_event_def)
qed

lemma pi_same_trans: "pi_same s s' \<Longrightarrow> pi_same s' s'' \<Longrightarrow> pi_same s s''"
  by (simp add: pi_same_def)

lemma schedule_busy_ok:
  assumes "pi_ok s"
  shows "\<exists>s'. schedule_pi delay (mark_busy b s) = Some s' \<and> pi_ok s' \<and> pi_same s s'"
proof -
  have "pi_ok (mark_busy b s)"
    by (rule pi_same_ok [OF mark_busy_same(1) _ assms]) (simp add: mark_busy_same pi_ok_def)
  from schedule_pi_ok [OF this, of delay] show ?thesis using pi_same_trans [OF mark_busy_same(1)] by blast
qed

lemma dma_length: "unat ((w AND 0xffffff) + 1 :: u32) = unat (w AND 0xffffff) + 1" "unat (w AND 0xffffff :: u32) < 0x1000000"
proof -
  have "unat (w AND mask 24) < 2 ^ 24" by (simp add: and_mask_mod)
  then show l: "unat (w AND 0xffffff) < 0x1000000" by (simp add: mask_eq_exp_minus_1)
  show "unat ((w AND 0xffffff) + 1) = unat (w AND 0xffffff) + 1"
    using unat_add_small [of "w AND 0xffffff" 1] l by simp
qed

lemma pi_ok_update:
  "pi_ok s \<Longrightarrow> length d = RDRAM_MAX_SIZE \<Longrightarrow> pi_ok (s\<lparr>rdram := d\<rparr>)"
  "pi_ok s \<Longrightarrow> length m = SRAM_SIZE \<Longrightarrow> pi_ok (s\<lparr>sram := m\<rparr>)"
  "pi_ok s \<Longrightarrow> length b = 0x100 \<Longrightarrow> pi_ok (s\<lparr>sec_buf := b\<rparr>)"
  "pi_ok s \<Longrightarrow> pi_ok (s\<lparr>use_flashram := u\<rparr>)"
  "pi_ok (pi_emit ev s) = pi_ok s" "pi_ok (set_pi_reg r v s) = pi_ok s" "pi_ok (invalidate_code a n s) = pi_ok s"
  by (simp_all add: pi_ok_def pi_emit_def set_pi_reg_def invalidate_code_def)

lemma pi_okD:
  assumes "pi_ok s"
  shows "length (rdram s) = RDRAM_MAX_SIZE" "length (sram s) = SRAM_SIZE" "length (flash_data (flashram s)) = FLASHRAM_SIZE"
    "length (sec_buf s) = 0x100" "length (c2_buf s) = 0x400"
    "length (cart_bytes (cart_rom s)) \<le> 0x4000000" "4 dvd length (cart_bytes (cart_rom s))"
    "unat (cart_size (cart_rom s)) = length (cart_bytes (cart_rom s))" "unat (g_rom_size s) = length (cart_bytes (cart_rom s))"
    "length (dd_rom s) \<le> 0x400000" "4 dvd length (dd_rom s)" "unat (dd_rom_size s) = length (dd_rom s)"
  using assms unfolding pi_ok_def by (simp_all add: unat_of_nat_u32 unat_of_nat_u64)

lemma word_below: "a < b \<Longrightarrow> unat (a :: u32) < unat b"
  by (simp add: word_less_nat_alt)

lemma sram_window:
  assumes "c \<ge> 0x08000000" "c < (0x08010000 :: u32)"
  shows "unat (c - 0x08000000) < 0x10000"
proof -
  have "unat (c - 0x08000000) = unat c - 0x8000000" using assms(1) unat_sub [of "0x08000000" c] by simp
  then show ?thesis using word_below [OF assms(2)] by simp
qed

lemma dma_write_sram_ok:
  assumes ok: "pi_ok s" and c: "unat (pi_regs s PI_CART_ADDR_REG - 0x08000000) < 0x10000"
  shows "\<exists>mem. dma_write_sram s = Some (pi_emit Save_Sram (s\<lparr>sram := mem\<rparr>)) \<and> length mem = SRAM_SIZE \<and>
    (\<forall>a. host a < SRAM_SIZE \<longrightarrow> mem ! host a =
       (let cart = pi_regs s PI_CART_ADDR_REG - 0x08000000
        in if unat cart \<le> unat a \<and> unat a < unat cart + unat ((pi_regs s PI_RD_LEN_REG AND 0xffffff) + 1)
           then dram_byte (rdram s) (pi_regs s PI_DRAM_ADDR_REG + (a - cart)) else sram s ! host a))"
proof -
  let ?c = "pi_regs s PI_CART_ADDR_REG - 0x08000000" and ?n = "unat ((pi_regs s PI_RD_LEN_REG AND 0xffffff) + 1)"
  have "unat ?c + ?n < 4294967296" using c dma_length [of "pi_regs s PI_RD_LEN_REG"] by linarith
  from copy_from_bytes [OF pi_okD(1,2) [OF ok] _ _ this, of SRAM_SIZE "pi_regs s PI_DRAM_ADDR_REG"]
  show ?thesis by (auto simp: dma_write_sram_def Let_def SRAM_SIZE_def)
qed

lemma cut_le:
  assumes "dram_addr \<le> 0x7FFFFF" "unat len \<le> 0x1000002"
  shows "unat (cut_at_dram dram_addr len) \<le> unat len" "unat dram_addr + unat (cut_at_dram dram_addr len) \<le> 0x7FFFFF"
proof -
  have d: "unat dram_addr \<le> 0x7FFFFF" using assms(1) by (simp add: word_le_nat_alt)
  have s: "unat (dram_addr + len) = unat dram_addr + unat len"
    using unat_add_small [of dram_addr "unat len"] d assms(2) by simp
  have m: "unat (0x7FFFFF - dram_addr) = 0x7FFFFF - unat dram_addr" using unat_sub [OF assms(1)] by simp
  have "dram_addr + len > 0x7FFFFF \<longleftrightarrow> unat dram_addr + unat len > 0x7FFFFF" using s by (simp add: word_less_nat_alt)
  then show "unat (cut_at_dram dram_addr len) \<le> unat len" "unat dram_addr + unat (cut_at_dram dram_addr len) \<le> 0x7FFFFF"
    unfolding cut_at_dram_def using m d by (auto split: if_splits)
qed

lemma clip_le: "unat (clip_length bound 0 len) \<le> unat bound" "unat (clip_length bound 0 len) \<le> unat len"
  by (auto simp: clip_length_def word_less_nat_alt)

lemma bind_ok: "\<exists>x. m = Some x \<and> P x \<Longrightarrow> (\<And>x. P x \<Longrightarrow> \<exists>y. f x = Some y \<and> Q y) \<Longrightarrow> \<exists>y. Option.bind m f = Some y \<and> Q y"
  by auto

lemma schedule_ok: "pi_ok s \<Longrightarrow> \<exists>s'. schedule_pi delay (mark_busy b s) = Some s' \<and> pi_ok s'"
  using schedule_busy_ok by blast

text \<open>The length of a transfer to the sector buffer.\<close>

definition sector_length :: "pi_core \<Rightarrow> u32" where
  "sector_length s = cut_at_dram (pi_regs s PI_DRAM_ADDR_REG) (clip_length 0x100 0 ((pi_regs s PI_RD_LEN_REG AND 0xFFFFFF) + 1))"

lemma sector_length_le: "pi_regs s PI_DRAM_ADDR_REG \<le> 0x7FFFFF \<Longrightarrow> unat (sector_length s) \<le> 0x100"
  using cut_le(1) [of "pi_regs s PI_DRAM_ADDR_REG" "clip_length 0x100 0 ((pi_regs s PI_RD_LEN_REG AND 0xFFFFFF) + 1)"]
    clip_le(1) [of "0x100" "(pi_regs s PI_RD_LEN_REG AND 0xFFFFFF) + 1"]
  unfolding sector_length_def by simp

lemma dma_pi_read_ok:
  assumes ok: "pi_ok s" and sector: "pi_regs s PI_CART_ADDR_REG = 0x05000400 \<Longrightarrow> unat (sector_length s) \<le> 0x100"
  shows "\<exists>s'. dma_pi_read s = Some s' \<and> pi_ok s'"
proof -
  let ?cart = "pi_regs s PI_CART_ADDR_REG" and ?dram = "pi_regs s PI_DRAM_ADDR_REG"
  let ?n = "(pi_regs s PI_RD_LEN_REG AND 0xFFFFFF) + 1"
  consider (other) "?cart \<ge> 0x05000000 \<and> ?cart < 0x06000000 \<and> ?cart \<noteq> 0x05000400" | (sector) "?cart = 0x05000400"
    | (save) "?cart \<ge> 0x08000000 \<and> ?cart < 0x08010000"
    | (unknown) "\<not> (?cart \<ge> 0x05000000 \<and> ?cart < 0x06000000)" "\<not> (?cart \<ge> 0x08000000 \<and> ?cart < 0x08010000)" by blast
  then show ?thesis
  proof cases
    case other
    then show ?thesis using schedule_ok [OF ok] by (simp add: dma_pi_read_def Let_def)
  next
    case sector
    let ?len = "cut_at_dram ?dram (clip_length 0x100 0 ?n)"
    have len: "unat ?len \<le> 0x100" using assms(2) [OF sector] by (simp add: sector_length_def)
    obtain buf where "copy_from_dram (rdram s) (unat (g_rom_size s)) 0 ?dram (unat ?len) (sec_buf s) = Some buf" "length buf = 0x100"
      using copy_from_bytes [OF pi_okD(1,4) [OF ok] _ _ _, of "unat (g_rom_size s)" 0 "unat ?len" ?dram] len by auto
    then show ?thesis using sector schedule_ok [OF pi_ok_update(3) [OF ok]]
      by (simp add: dma_pi_read_def Let_def)
  next
    case save
    then have c: "\<not> ?cart < 0x06000000" "?cart \<noteq> 0x05000400" by (auto simp: word_less_nat_alt word_le_nat_alt)
    have w: "\<exists>s'. dma_write_sram s = Some s' \<and> pi_ok s'"
      using dma_write_sram_ok [OF ok sram_window] save pi_ok_update(2) [OF ok] by (auto simp: pi_ok_update(5))
    have "pi_ok (dma_write_flashram s)" using ok by (auto simp: dma_write_flashram_def pi_ok_def split: flashram_mode.split)
    with save c w show ?thesis
      by (auto simp: dma_pi_read_def Let_def intro!: schedule_ok pi_ok_update)
  next
    case unknown
    then show ?thesis using schedule_ok [OF ok] by (auto simp: dma_pi_read_def Let_def)
  qed
qed

lemma store_word_ok:
  "length d = RDRAM_MAX_SIZE \<Longrightarrow> i < 0x200000 \<Longrightarrow> \<exists>d'. store_word d i w = Some d' \<and> length d' = RDRAM_MAX_SIZE"
  by (simp add: store_word_def RDRAM_MAX_SIZE_def)

lemma copy_small:
  assumes "pi_ok s" "length mem = n" "unat len \<le> n" "4 dvd n" "n < 4294967296"
  shows "\<exists>d. copy_to_dram mem limit 0 to (unat len) (rdram s) = Some d \<and> length d = RDRAM_MAX_SIZE"
proof (rule copy_total [OF pi_okD(1) [OF assms(1)]])
  fix k assume k: "k < unat len"
  then have "unat (0 + of_nat k :: u32) = k" using assms(3,5) by (simp add: unat_of_nat_u32)
  then show "host (0 + of_nat k) < length mem" using host_less [OF assms(4)] k assms(2,3) by simp
qed

lemma dma_from_buffer_ok:
  assumes "pi_ok s" "length mem = n" "4 dvd n" "n \<le> 0x400" "unat len \<le> n" "pi_regs s PI_DRAM_ADDR_REG \<le> 0x7FFFFF"
  shows "\<exists>s'. dma_from_buffer mem 0 len s = Some s' \<and> pi_ok s'"
proof -
  have "unat (cut_at_dram (pi_regs s PI_DRAM_ADDR_REG) len) \<le> n"
    using cut_le(1) [OF assms(6), of len] assms(4,5) by linarith
  from copy_small [OF assms(1,2) this assms(3)] assms(4) obtain d where
    d: "copy_to_dram mem (unat (g_rom_size s)) 0 (pi_regs s PI_DRAM_ADDR_REG)
          (unat (cut_at_dram (pi_regs s PI_DRAM_ADDR_REG) len)) (rdram s) = Some d" "length d = RDRAM_MAX_SIZE"
    by fastforce
  show ?thesis using pi_ok_update(1) [OF assms(1) d(2)] by (simp add: dma_from_buffer_def Let_def d(1) pi_ok_update(7))
qed

lemma hack_ok:
  assumes "pi_ok s"
  shows "\<exists>s'. force_detected_rdram_size_hack s = Some s' \<and> pi_ok s'"
proof -
  let ?i = "if cic_x105 s then 0x3f0 div 4 else 0x318 div 4 :: nat"
  have "?i < 0x200000" by simp
  from store_word_ok [OF pi_okD(1) [OF assms] this, of "dram_size s"] obtain d
    where d: "store_word (rdram s) ?i (dram_size s) = Some d" "length d = RDRAM_MAX_SIZE" by blast
  show ?thesis using pi_ok_update(1) [OF assms d(2)] by (simp only: force_detected_rdram_size_hack_def d(1)) simp
qed

lemma dma_from_rom_ok:
  assumes ok: "pi_ok s" and m: "length mem \<le> 0x4000000" "4 dvd length mem" "unat bound = length mem"
    and r: "ucast i \<le> bound \<Longrightarrow> i \<noteq> r \<Longrightarrow> ucast i = bound"
  shows "\<exists>s'. dma_from_rom mem bound i r s = Some s' \<and> pi_ok s'"
proof -
  let ?dram = "pi_regs s PI_DRAM_ADDR_REG" and ?n = "(pi_regs s PI_WR_LEN_REG AND 0xFFFFFE) + 2"
  let ?len = "if ucast (i + ?n) > bound then ucast (bound - ucast i) else ?n"
  show ?thesis
  proof (cases "ucast i > bound \<or> ?dram > 0x7FFFFF")
    case True
    then show ?thesis using schedule_ok [OF ok] by (simp add: dma_from_rom_def Let_def)
  next
    case False
    then have i: "unat i \<le> length mem" using m(3) by (simp add: word_le_nat_alt not_less unat_ucast_u32_u64)
    have n: "unat ?n \<le> 0x1000000"
    proof -
      have "unat (pi_regs s PI_WR_LEN_REG AND 0xFFFFFE) \<le> 0xFFFFFE" using unat_and_le [of _ "0xFFFFFE :: u32"] by simp
      then show ?thesis using unat_add_small [of "pi_regs s PI_WR_LEN_REG AND 0xFFFFFE" 2] by simp
    qed
    have i_n: "unat (i + ?n) = unat i + unat ?n"
      using unat_add_small [of i "unat ?n"] i n m(1) by simp
    have len: "unat ?len \<le> unat ?n" "unat i + unat ?len \<le> length mem"
    proof -
      have sub: "unat (bound - ucast i) = length mem - unat i"
        using unat_sub [of "ucast i" bound] False m(3) by (simp add: not_less)
      then have "unat (ucast (bound - ucast i) :: u32) = length mem - unat i"
        using m(1) by (simp add: unsigned_ucast_eq take_bit_eq_mod)
      moreover have "ucast (i + ?n) > bound \<longleftrightarrow> unat i + unat ?n > length mem"
        using i_n m(3) by (simp add: word_less_nat_alt)
      ultimately show "unat ?len \<le> unat ?n" "unat i + unat ?len \<le> length mem" using i by (auto split: if_splits)
    qed
    let ?cut = "cut_at_dram ?dram ?len"
    have cut: "unat ?cut \<le> unat ?len" using cut_le(1) [of ?dram ?len] False len(1) n by (simp add: not_less)
    have "\<exists>d. copy_to_dram mem (unat (g_rom_size s)) r ?dram (unat ?cut) (rdram s) = Some d \<and> length d = RDRAM_MAX_SIZE"
    proof (rule copy_total [OF pi_okD(1) [OF ok]])
      fix k assume k: "k < unat ?cut"
      then have "unat i + k < length mem" using len(2) cut by linarith
      moreover from this have "i = r" using r False m(3) unat_ucast_u32_u64 [of i] by (fastforce simp: not_less)
      ultimately have "unat (r + of_nat k) < length mem" using unat_add_small [of r k] m(1) by simp
      then show "host (r + of_nat k) < length mem" using host_less [OF m(2)] by blast
    qed
    then obtain d where d: "copy_to_dram mem (unat (g_rom_size s)) r ?dram (unat ?cut) (rdram s) = Some d"
      "length d = RDRAM_MAX_SIZE" by blast
    let ?s = "invalidate_code ?dram ?cut (s\<lparr>rdram := d\<rparr>)"
    have ok': "pi_ok ?s" using pi_ok_update(1) [OF ok d(2)] by (simp only: pi_ok_update(7))
    have "\<exists>s'. (if c then force_detected_rdram_size_hack ?s else Some ?s) = Some s' \<and> pi_ok s'" for c
      using hack_ok [OF ok'] ok' by simp
    from bind_ok [OF this schedule_ok] show ?thesis
      by (simp only: dma_from_rom_def Let_def if_not_P [OF False] d(1) bind.simps)
  qed
qed

lemma dma_read_flashram_ok:
  assumes ok: "pi_ok s"
    and status: "flash_mode (flashram s) = FLASHRAM_MODE_STATUS \<Longrightarrow> pi_regs s PI_DRAM_ADDR_REG < 0x7FFFFC"
  shows "\<exists>s'. dma_read_flashram s = Some s' \<and> pi_ok s'"
proof (cases "flash_mode (flashram s)")
  case FLASHRAM_MODE_READ
  let ?c = "((pi_regs s PI_CART_ADDR_REG - 0x08000000) AND 0xffff) * 2" and ?n = "(pi_regs s PI_WR_LEN_REG AND 0xffffff) + 1"
  obtain d where "copy_to_dram (flash_data (flashram s)) FLASHRAM_SIZE ?c (pi_regs s PI_DRAM_ADDR_REG) (unat ?n) (rdram s) = Some d"
    "length d = RDRAM_MAX_SIZE"
    using copy_total [OF pi_okD(1) [OF ok], of "unat ?n" ?c FLASHRAM_SIZE "flash_data (flashram s)"] pi_okD(3) [OF ok] by auto
  then show ?thesis using FLASHRAM_MODE_READ pi_ok_update(1) [OF ok] by (simp add: dma_read_flashram_def Let_def)
next
  case FLASHRAM_MODE_STATUS
  let ?i = "unat (pi_regs s PI_DRAM_ADDR_REG div 4)" and ?st = "flash_status (flashram s)"
  have "unat (pi_regs s PI_DRAM_ADDR_REG) < 0x7FFFFC" using word_below [OF status [OF FLASHRAM_MODE_STATUS]] by simp
  then have i: "?i < 0x200000" "?i + 1 < 0x200000" by (auto simp: unat_div)
  obtain d where d: "store_word (rdram s) ?i (ucast (shr ?st 32)) = Some d" "length d = RDRAM_MAX_SIZE"
    using store_word_ok [OF pi_okD(1) [OF ok] i(1)] by blast
  obtain d' where d': "store_word d (?i + 1) (ucast ?st) = Some d'" "length d' = RDRAM_MAX_SIZE"
    using store_word_ok [OF d(2) i(2)] by blast
  show ?thesis using FLASHRAM_MODE_STATUS pi_ok_update(1) [OF ok d'(2)]
    by (simp only: dma_read_flashram_def flashram_mode.case Let_def d(1) d'(1) bind.simps) simp
qed (simp_all add: dma_read_flashram_def ok)

lemma dma_read_sram_ok:
  assumes ok: "pi_ok s"
  shows "\<exists>s'. dma_read_sram s = Some s' \<and> pi_ok s'"
proof -
  let ?c = "(pi_regs s PI_CART_ADDR_REG - 0x08000000) AND 0xffff" and ?n = "(pi_regs s PI_WR_LEN_REG AND 0xffffff) + 1"
  obtain d where "copy_to_dram (sram s) SRAM_SIZE ?c (pi_regs s PI_DRAM_ADDR_REG) (unat ?n) (rdram s) = Some d"
    "length d = RDRAM_MAX_SIZE"
    using copy_total [OF pi_okD(1) [OF ok], of "unat ?n" ?c SRAM_SIZE "sram s"] pi_okD(2) [OF ok] by auto
  then show ?thesis using pi_ok_update(1) [OF ok] by (simp add: dma_read_sram_def Let_def)
qed

text \<open>The requests outside the two cases the code does not guard.\<close>

definition request_guarded :: "pi_core \<Rightarrow> bool" where
  "request_guarded s \<longleftrightarrow>
     (pi_regs s PI_CART_ADDR_REG \<in> {0x05000400, 0x05000000} \<longrightarrow> pi_regs s PI_DRAM_ADDR_REG \<le> 0x7FFFFF) \<and>
     (use_flashram s = 1 \<and> flash_mode (flashram s) = FLASHRAM_MODE_STATUS \<longrightarrow> pi_regs s PI_DRAM_ADDR_REG < 0x7FFFFC)"

lemma cart_offset: "unat ((a - 0x10000000) AND 0x3FFFFFF :: u32) < 0x4000000"
proof -
  have "unat ((a - 0x10000000) AND mask 26) < 2 ^ 26" by (simp add: and_mask_mod)
  then show ?thesis by (simp add: mask_eq_exp_minus_1)
qed

lemma ipl_offset:
  assumes "a \<le> 0x400000" "a \<noteq> b" "b = (a AND 0x3fffff :: u32)"
  shows "a = 0x400000"
proof (rule ccontr)
  assume "a \<noteq> 0x400000"
  with assms(1) have "unat a < 0x400000" by (simp add: word_unat_eq_iff order_less_le word_le_nat_alt)
  then have "a AND mask 22 = a" by (intro and_mask_fixed) simp
  with assms(2,3) show False by (simp add: mask_eq_exp_minus_1)
qed

lemma save_request_ok:
  assumes ok: "pi_ok s" and g: "request_guarded s"
  shows "\<exists>s'. (if use_flashram s \<noteq> 1 then do { s \<leftarrow> dma_read_sram s; Some (s\<lparr>use_flashram := - 1\<rparr>) } else dma_read_flashram s) = Some s' \<and> pi_ok s'"
proof (cases "use_flashram s = 1")
  case True
  then show ?thesis using dma_read_flashram_ok [OF ok] g by (auto simp: request_guarded_def)
next
  case False
  then show ?thesis using dma_read_sram_ok [OF ok] pi_ok_update(4) by fastforce
qed


lemma buffer_ok:
  assumes "pi_ok s" "length mem = unat bound" "4 dvd unat bound" "bound \<le> 0x400" "pi_regs s PI_DRAM_ADDR_REG \<le> 0x7FFFFF"
  shows "\<exists>s'. dma_from_buffer mem 0 (clip_length bound 0 len) s = Some s' \<and> pi_ok s'"
  using dma_from_buffer_ok [OF assms(1,2,3) _ clip_le(1) assms(5)] assms(4) by (simp add: word_le_nat_alt)

lemma bind_schedule:
  "\<exists>x. m = Some x \<and> pi_ok x \<Longrightarrow>
   \<exists>y. Option.bind m (\<lambda>s. schedule_pi (delay s) (mark_busy b s)) = Some y \<and> pi_ok y"
  using schedule_ok by fastforce

lemma dma_pi_write_ok:
  assumes ok: "pi_ok s" and g: "request_guarded s"
  shows "\<exists>s'. dma_pi_write s = Some s' \<and> pi_ok s'"
proof -
  let ?c = "pi_regs s PI_CART_ADDR_REG" and ?w = "pi_regs s PI_WR_LEN_REG"
  let ?busy = "PI_STATUS_DMA_BUSY OR PI_STATUS_IO_BUSY"
  consider (other) "?c \<ge> 0x05000000 \<and> ?c < 0x06000000 \<and> ?c \<noteq> 0x05000400 \<and> ?c \<noteq> 0x05000000"
    | (sector) "?c = 0x05000400" | (c2) "?c = 0x05000000"
    | (save) "?c \<ge> 0x08000000 \<and> ?c < 0x08010000"
    | (low) "?c < 0x05000000" | (gap) "?c \<ge> 0x08010000" "?c < 0x10000000"
    | (far) "?c \<ge> 0x1fc00000"
    | (ipl) "?c \<ge> 0x06000000 \<and> ?c < 0x08000000" | (cart) "?c \<ge> 0x10000000" "?c < 0x1fc00000"
    by (metis not_le)
  then show ?thesis
  proof cases
    case other
    then have "?c < 0x10000000" "\<not> (?c \<ge> 0x06000000 \<and> ?c < 0x08000000)" by (auto simp: word_less_nat_alt word_le_nat_alt)
    with other show ?thesis using schedule_ok [OF ok] by (simp add: dma_pi_write_def Let_def)
  next
    case sector
    then have "?c \<noteq> 0x05000000" "\<not> (0x08000000 \<le> ?c \<and> ?c < 0x08010000)" by simp_all
    with buffer_ok [OF ok, of "sec_buf s" "0x100" "(?w AND 0xFFFFFF) + 1"] g sector pi_okD(4) [OF ok]
    have "\<exists>s'. dma_from_buffer (sec_buf s) 0 (clip_length 0x100 0 ((?w AND 0xFFFFFF) + 1)) s = Some s' \<and> pi_ok s'"
      by (simp add: request_guarded_def)
    from bind_schedule [OF this] show ?thesis using sector by (simp add: dma_pi_write_def Let_def)
  next
    case c2
    with buffer_ok [OF ok, of "c2_buf s" "0x400" "(?w AND 0xFFFFFF) + 1"] g pi_okD(5) [OF ok]
    have "\<exists>s'. dma_from_buffer (c2_buf s) 0 (clip_length 0x400 0 ((?w AND 0xFFFFFF) + 1)) s = Some s' \<and> pi_ok s'"
      by (simp add: request_guarded_def)
    from bind_schedule [OF this] show ?thesis using c2 by (simp add: dma_pi_write_def Let_def)
  next
    case save
    then have c: "?c < 0x10000000" "\<not> (?c \<ge> 0x06000000 \<and> ?c < 0x08000000)" "\<not> ?c < 0x06000000"
      by (auto simp: word_less_nat_alt word_le_nat_alt)
    from bind_schedule [OF save_request_ok [OF ok g]] c save show ?thesis
      by (simp only: dma_pi_write_def Let_def if_True if_False simp_thms)
  next
    case low
    then have "?c < 0x10000000" "\<not> ?c \<ge> 0x06000000" "\<not> ?c \<ge> 0x05000000" "\<not> ?c \<ge> 0x08000000"
      "?c \<noteq> 0x05000400" "?c \<noteq> 0x05000000" by (auto simp: word_less_nat_alt word_le_nat_alt)
    then show ?thesis using schedule_ok [OF ok] by (simp add: dma_pi_write_def Let_def)
  next
    case gap
    then have "?c < 0x10000000" "\<not> ?c < 0x08000000" "\<not> ?c < 0x06000000" "\<not> ?c < 0x08010000"
      "?c \<noteq> 0x05000400" "?c \<noteq> 0x05000000" by (auto simp: word_less_nat_alt word_le_nat_alt)
    then show ?thesis using schedule_ok [OF ok] by (simp add: dma_pi_write_def Let_def)
  next
    case far
    then have "\<not> ?c < 0x10000000" by (auto simp: word_less_nat_alt word_le_nat_alt)
    with far show ?thesis using schedule_ok [OF ok] by (simp add: dma_pi_write_def Let_def)
  next
    case ipl
    let ?i = "(?c - 0x06000000) AND 0x1FFFFFF" and ?r = "(?c - 0x06000000) AND 0x3fffff"
    have f: "\<not> ?c \<ge> 0x1fc00000" using ipl by (auto simp: word_less_nat_alt word_le_nat_alt)
    have "ucast ?i \<le> dd_rom_size s \<Longrightarrow> ?i \<noteq> ?r \<Longrightarrow> ucast ?i = dd_rom_size s"
    proof -
      assume a: "ucast ?i \<le> dd_rom_size s" "?i \<noteq> ?r"
      have d: "unat (dd_rom_size s) \<le> 0x400000" using pi_okD(10,12) [OF ok] by simp
      then have "?i \<le> 0x400000" using a(1) by (simp add: word_le_nat_alt unat_ucast_u32_u64)
      moreover have "?r = ?i AND 0x3fffff" by (simp add: and.assoc)
      ultimately have "?i = 0x400000" using ipl_offset a(2) by blast
      then show ?thesis using a(1) d by (simp add: word_le_nat_alt word_unat_eq_iff)
    qed
    from dma_from_rom_ok [OF ok _ pi_okD(11,12) [OF ok] this] pi_okD(10) [OF ok] ipl f
    show ?thesis by (simp add: dma_pi_write_def Let_def)
  next
    case cart
    then have f: "\<not> ?c < 0x10000000" "\<not> ?c \<ge> 0x1fc00000" "\<not> ?c < 0x08000000"
      by (auto simp: word_less_nat_alt word_le_nat_alt)
    from dma_from_rom_ok [OF ok pi_okD(6,7,8) [OF ok], of "(?c - 0x10000000) AND 0x3FFFFFF" "(?c - 0x10000000) AND 0x3FFFFFF"] f
    show ?thesis by (simp add: dma_pi_write_def Let_def)
  qed
qed


section \<open>Every access keeps the invariant\<close>

lemma pi_ok_cong:
  "pi_same s s' \<Longrightarrow> q s' = q s \<Longrightarrow> pi_ok s \<Longrightarrow> pi_ok s'"
  by (rule pi_same_ok) (auto simp: pi_ok_def)

lemma pi_ok_registers:
  "pi_ok (set_cp0 r v s) = pi_ok s" "pi_ok (set_mi n w s) = pi_ok s" "pi_ok (cp0_update_count s) = pi_ok s"
  "pi_ok (s\<lparr>asic_cmd_status := w\<rparr>) = pi_ok s"
  by (simp_all add: pi_ok_def set_cp0_def set_mi_def cp0_update_count_def Let_def)

lemma pi_ok_check:
  assumes "pi_ok s"
  shows "pi_ok (check_interrupt s)"
proof -
  have push: "pi_ok (push_check_event s)" if ok: "pi_ok s" for s :: pi_core
  proof -
    from ok obtain evs where r: "represents (q s) evs" by (auto simp: pi_ok_def)
    obtain qu where p: "push_check_event s = s\<lparr>q := qu, next_interrupt := if length evs < POOL_CAPACITY then count_reg s else next_interrupt s\<rparr>"
      "represents qu (if length evs < POOL_CAPACITY then (CHECK_INT, count_reg s) # evs else evs)"
      by (rule push_check_ok [OF r])
    have "pi_same s (push_check_event s)" unfolding p(1) by (simp add: pi_same_def)
    then show ?thesis by (rule pi_same_ok [OF _ _ ok]) (use p in auto)
  qed
  show ?thesis using push assms by (simp add: check_interrupt_def Let_def pi_ok_registers)
qed

lemma dd_pi_test_ok: "pi_ok s \<Longrightarrow> pi_ok (dd_pi_test s)"
  by (simp add: dd_pi_test_def pi_ok_check pi_ok_registers)

lemma guarded_set_reg:
  "r \<noteq> PI_DRAM_ADDR_REG \<Longrightarrow> r \<noteq> PI_CART_ADDR_REG \<Longrightarrow> request_guarded (set_pi_reg r v s) = request_guarded s"
  by (simp add: request_guarded_def set_pi_reg_def)

lemma write_pi_regs_ok:
  assumes ok: "pi_ok s" and g: "request_guarded s"
  shows "\<exists>s'. write_pi_regs address value m s = Some s' \<and> pi_ok s'"
proof -
  let ?w = "MASKED_WRITE (pi_regs s (reg_index address)) value m"
  let ?r = "set_pi_reg PI_RD_LEN_REG ?w s" and ?l = "set_pi_reg PI_WR_LEN_REG ?w s"
  have read: "\<exists>s'. dma_pi_read ?r = Some s' \<and> pi_ok s'"
  proof (rule dma_pi_read_ok)
    assume "pi_regs ?r PI_CART_ADDR_REG = 0x05000400"
    then have "pi_regs ?r PI_DRAM_ADDR_REG \<le> 0x7FFFFF"
      using g by (simp add: request_guarded_def set_pi_reg_def pi_reg_numbers)
    then show "unat (sector_length ?r) \<le> 0x100" by (rule sector_length_le)
  qed (use ok in \<open>simp add: pi_ok_update(6)\<close>)
  have wrote: "\<exists>s'. dma_pi_write ?l = Some s' \<and> pi_ok s'"
    using dma_pi_write_ok [of ?l] ok g by (simp add: pi_ok_update(6) guarded_set_reg pi_reg_numbers(1,2,4))
  consider (cart) "reg_index address = PI_CART_ADDR_REG" | (to_cart) "reg_index address = PI_RD_LEN_REG"
    | (to_dram) "reg_index address = PI_WR_LEN_REG" | (st) "reg_index address = PI_STATUS_REG"
    | (rest) "reg_index address \<notin> {PI_CART_ADDR_REG, PI_RD_LEN_REG, PI_WR_LEN_REG, PI_STATUS_REG}" by blast
  then show ?thesis
  proof cases
    case cart
    have "pi_ok (dd_pi_test (s\<lparr>asic_cmd_status := w\<rparr>))" for w
      using ok by (simp add: dd_pi_test_ok pi_ok_registers)
    then show ?thesis using cart ok by (simp add: write_pi_regs_def Let_def pi_ok_update(6))
  next
    case to_cart
    then show ?thesis using read by (simp add: write_pi_regs_def Let_def pi_reg_numbers(2,3))
  next
    case to_dram
    then show ?thesis using wrote by (simp add: write_pi_regs_def Let_def pi_reg_numbers(2,3,4))
  next
    case st
    have "pi_ok (clear_rcp_interrupt MI_INTR_PI s)"
      unfolding clear_rcp_interrupt_def by (rule pi_ok_check) (use ok in \<open>simp add: pi_ok_registers\<close>)
    then show ?thesis using st ok by (simp add: write_pi_regs_def Let_def pi_reg_numbers)
  next
    case rest
    then show ?thesis using ok by (simp add: write_pi_regs_def Let_def pi_ok_update(6))
  qed
qed


section \<open>Flash memory\<close>

definition flash_ok :: "flashram \<Rightarrow> bool" where
  "flash_ok fl \<longleftrightarrow> length (flash_data fl) = FLASHRAM_SIZE \<and> unat (erase_offset fl) \<le> 0x7FFF80"

lemma pi_ok_flash: "pi_ok s \<Longrightarrow> flash_ok (flashram s)" "pi_ok s \<Longrightarrow> flash_ok fl \<Longrightarrow> pi_ok (s\<lparr>use_flashram := u, flashram := fl\<rparr>)"
  by (simp_all add: pi_ok_def flash_ok_def)

lemma flash_erase_ok:
  assumes "flash_ok fl"
  shows "\<exists>mem. flash_erase fl = Some (fl\<lparr>flash_data := mem\<rparr>) \<and> length mem = FLASHRAM_SIZE \<and>
    (\<forall>a. host a < FLASHRAM_SIZE \<longrightarrow> mem ! host a =
       (if unat (erase_offset fl) \<le> unat a \<and> unat a < unat (erase_offset fl) + 128 then 0xff else flash_data fl ! host a))"
proof -
  let ?e = "erase_offset fl"
  let ?I = "\<lambda>m x. length x = FLASHRAM_SIZE \<and> (\<forall>a. host a < FLASHRAM_SIZE \<longrightarrow> x ! host a =
       (if unat ?e \<le> unat a \<and> unat a < unat ?e + m then 0xff else flash_data fl ! host a))"
  have "\<exists>mem. for_loop 128 0 (\<lambda>k mem. let i = ?e + k
            in if unat (i XOR S8) < FLASHRAM_SIZE then wr mem (unat (i XOR S8)) 0xff else Some mem) (flash_data fl) = Some mem \<and>
          ?I 128 mem"
  proof (rule for_loop_ok [where I = ?I])
    fix k x assume k: "k < (128::nat)" and I: "?I k x"
    let ?a = "?e + of_nat k"
    have a: "unat ?a = unat ?e + k" using k assms by (intro unat_add_small) (simp add: flash_ok_def)
    have same: "unat ?e \<le> unat b \<and> unat b < unat ?e + Suc k \<longleftrightarrow> b = ?a \<or> unat ?e \<le> unat b \<and> unat b < unat ?e + k" for b
      using a by (auto simp: word_unat_eq_iff)
    show "\<exists>x'. (let i = ?e + (0 + of_nat k)
            in if unat (i XOR S8) < FLASHRAM_SIZE then wr x (unat (i XOR S8)) 0xff else Some x) = Some x' \<and> ?I (Suc k) x'"
    proof (cases "host ?a < FLASHRAM_SIZE")
      case True
      have "x[host ?a := 0xff] ! host b =
          (if unat ?e \<le> unat b \<and> unat b < unat ?e + Suc k then 0xff else flash_data fl ! host b)" if "host b < FLASHRAM_SIZE" for b
        using I that True same [of b] by (cases "b = ?a") auto
      with True I show ?thesis by (simp add: Let_def host_def [symmetric])
    next
      case False
      have "x ! host b = (if unat ?e \<le> unat b \<and> unat b < unat ?e + Suc k then 0xff else flash_data fl ! host b)"
        if "host b < FLASHRAM_SIZE" for b
        using I that False same [of b] by auto
      with False I show ?thesis by (simp add: Let_def host_def [symmetric])
    qed
  qed (use assms in \<open>auto simp: flash_ok_def\<close>)
  then show ?thesis by (fastforce simp: flash_erase_def)
qed

lemma flash_program_ok:
  assumes "flash_ok fl" "length dram = RDRAM_MAX_SIZE"
  shows "\<exists>mem. flash_program dram fl = Some (fl\<lparr>flash_data := mem\<rparr>) \<and> length mem = FLASHRAM_SIZE \<and>
    (\<forall>a. host a < FLASHRAM_SIZE \<longrightarrow> mem ! host a =
       (if unat (erase_offset fl) \<le> unat a \<and> unat a < unat (erase_offset fl) + 128
        then dram_byte dram (write_pointer fl + (a - erase_offset fl)) else flash_data fl ! host a))"
  using copy_from_bytes [OF assms(2), of "flash_data fl" FLASHRAM_SIZE FLASHRAM_SIZE "erase_offset fl" 128 "write_pointer fl"] assms(1)
  by (auto simp: flash_program_def flash_ok_def FLASHRAM_SIZE_def)

lemma erase_offset_le: "unat ((c AND 0xffff) * 128 :: u32) \<le> 0x7FFF80"
proof -
  have "unat (c AND 0xffff) \<le> 0xffff" using unat_and_le [of c "0xffff"] by simp
  then show ?thesis by (simp add: unat_word_ariths)
qed

lemma flashram_command_ok:
  assumes "flash_ok fl" "length dram = RDRAM_MAX_SIZE"
  shows "\<exists>fl' b. flashram_command dram c fl = Some (fl', b) \<and> flash_ok fl'"
proof -
  have "\<exists>fl' b. (case flash_mode fl of
                  FLASHRAM_MODE_ERASE \<Rightarrow> do { fl \<leftarrow> flash_erase fl; Some (fl, True) }
                | FLASHRAM_MODE_WRITE \<Rightarrow> do { fl \<leftarrow> flash_program dram fl; Some (fl, True) }
                | _ \<Rightarrow> Some (fl, False)) = Some (fl', b) \<and> flash_ok fl'"
    using flash_erase_ok [OF assms(1)] flash_program_ok [OF assms] assms(1)
    by (cases "flash_mode fl") (auto simp: flash_ok_def)
  then show ?thesis using assms(1) erase_offset_le [of c]
    by (auto simp: flashram_command_def Let_def flash_ok_def)
qed

lemma write_flashram_command_ok:
  assumes ok: "pi_ok s"
  shows "\<exists>r. write_flashram_command address value m s = Some r \<and> (\<forall>s'. r = Inr s' \<longrightarrow> pi_ok s')"
proof -
  obtain fl b where "flashram_command (rdram s) (value AND m) (flashram s) = Some (fl, b)" "flash_ok fl"
    using flashram_command_ok [OF pi_ok_flash(1) [OF ok] pi_okD(1) [OF ok]] by blast
  then show ?thesis using pi_ok_flash(2) [OF ok]
    by (cases b) (auto simp: write_flashram_command_def Let_def pi_ok_update(5))
qed


section \<open>Transfers as the guest programs them\<close>

text \<open>The three register writes of a transfer of \<open>n\<close> bytes; \<open>len_reg\<close> is 8 or 12.\<close>

definition pi_transfer :: "u32 \<Rightarrow> u32 \<Rightarrow> u32 \<Rightarrow> nat \<Rightarrow> pi_core \<Rightarrow> pi_core option" where
  "pi_transfer len_reg dram_addr cart_addr n s =
     do { s \<leftarrow> write_pi_regs 0x0 dram_addr 0xFFFFFFFF s;
          s \<leftarrow> write_pi_regs 0x4 cart_addr 0xFFFFFFFF s;
          write_pi_regs len_reg (of_nat n - 1) 0xFFFFFFFF s }"

definition requested :: "nat \<Rightarrow> u32 \<Rightarrow> u32 \<Rightarrow> nat \<Rightarrow> pi_core \<Rightarrow> pi_core" where
  "requested r dram_addr cart_addr n s =
     set_pi_reg r (of_nat n - 1) (set_pi_reg PI_CART_ADDR_REG cart_addr (set_pi_reg PI_DRAM_ADDR_REG dram_addr s))"

lemma masked_write_all: "MASKED_WRITE old v 0xFFFFFFFF = v"
proof -
  have "(0xFFFFFFFF :: u32) = - 1" by simp
  then show ?thesis by (simp only: MASKED_WRITE_def) simp
qed

lemma pi_transfer_start:
  assumes "c \<noteq> 0x05000000" "c \<noteq> 0x05000400"
  shows "pi_transfer 0x8 d c n s = dma_pi_read (requested PI_RD_LEN_REG d c n s)"
    "pi_transfer 0xC d c n s = dma_pi_write (requested PI_WR_LEN_REG d c n s)"
proof -
  have "reg_index 0x0 = 0" "reg_index 0x4 = 1" "reg_index 0x8 = 2" "reg_index 0xC = 3" by (simp_all add: reg_index_def)
  then show "pi_transfer 0x8 d c n s = dma_pi_read (requested PI_RD_LEN_REG d c n s)"
    "pi_transfer 0xC d c n s = dma_pi_write (requested PI_WR_LEN_REG d c n s)"
    using assms by (simp_all add: pi_transfer_def write_pi_regs_def requested_def masked_write_all Let_def pi_reg_numbers)
qed

lemma requested_simps:
  "r \<in> {PI_RD_LEN_REG, PI_WR_LEN_REG} \<Longrightarrow> pi_regs (requested r d c n s) PI_DRAM_ADDR_REG = d"
  "r \<in> {PI_RD_LEN_REG, PI_WR_LEN_REG} \<Longrightarrow> pi_regs (requested r d c n s) PI_CART_ADDR_REG = c"
  "pi_regs (requested r d c n s) r = of_nat n - 1"
  "pi_ok (requested r d c n s) = pi_ok s"
  "rdram (requested r d c n s) = rdram s" "sram (requested r d c n s) = sram s" "flashram (requested r d c n s) = flashram s"
  "use_flashram (requested r d c n s) = use_flashram s" "cart_rom (requested r d c n s) = cart_rom s"
  "g_rom_size (requested r d c n s) = g_rom_size s" "cic_x105 (requested r d c n s) = cic_x105 s"
  "dram_size (requested r d c n s) = dram_size s"
  unfolding requested_def by (auto simp: pi_ok_update(6)) (auto simp: set_pi_reg_def pi_reg_numbers)

lemma length_and:
  assumes "0 < n" "n \<le> 0x1000000"
  shows "unat (((of_nat n - 1) AND 0xffffff) + 1 :: u32) = n"
proof -
  have w: "unat (of_nat n - 1 :: u32) = n - 1"
    using assms by (cases n) (simp_all add: unat_of_nat)
  then have "(of_nat n - 1 :: u32) AND mask 24 = of_nat n - 1" using assms by (intro and_mask_fixed) simp
  then have "(of_nat n - 1 :: u32) AND 0xffffff = of_nat n - 1" by (simp add: mask_eq_exp_minus_1)
  then show ?thesis using assms by (simp add: unat_of_nat)
qed


text \<open>An address of the save memory.\<close>

lemma save_address:
  assumes "unat c = 0x08000000 + off" "off < 0x8000"
  shows "unat (c - 0x08000000) = off" "(c - 0x08000000) AND 0xffff = c - 0x08000000" "c \<ge> 0x08000000" "c < (0x08010000 :: u32)"
    "c \<noteq> 0x05000000" "c \<noteq> 0x05000400"
    "\<not> c < 0x06000000" "\<not> c < 0x08000000" "c < 0x10000000"
proof -
  show ge: "c \<ge> 0x08000000" and "c < 0x08010000" "\<not> c < 0x06000000" "\<not> c < 0x08000000" "c < 0x10000000"
    using assms by (simp_all add: word_le_nat_alt word_less_nat_alt)
  show "c \<noteq> 0x05000000" "c \<noteq> 0x05000400" using assms by auto
  show u: "unat (c - 0x08000000) = off" using unat_sub [OF ge] assms(1) by simp
  then have "(c - 0x08000000) AND mask 16 = c - 0x08000000" using assms(2) by (intro and_mask_fixed) simp
  then show "(c - 0x08000000) AND 0xffff = c - 0x08000000" by (simp add: mask_eq_exp_minus_1)
qed

lemma store_to_sram:
  assumes ok: "pi_ok s" and u: "use_flashram s \<noteq> 1" and n: "0 < n" and c: "unat c = 0x08000000 + off" "off + n \<le> SRAM_SIZE"
  shows "\<exists>s'. pi_transfer 0x8 from c n s = Some s' \<and> pi_ok s' \<and> use_flashram s' \<noteq> 1 \<and> rdram s' = rdram s \<and>
    (\<forall>k < n. host (c - 0x08000000 + of_nat k) < SRAM_SIZE \<and>
       sram s' ! host (c - 0x08000000 + of_nat k) = dram_byte (rdram s) (from + of_nat k))"
proof -
  let ?s = "requested PI_RD_LEN_REG from c n s" and ?c = "c - 0x08000000"
  have off: "off < 0x8000" "n \<le> 0x8000" using n c(2) by (auto simp: SRAM_SIZE_def)
  note a = save_address [OF c(1) off(1)]
  have regs: "pi_regs ?s PI_CART_ADDR_REG = c" "pi_regs ?s PI_DRAM_ADDR_REG = from"
    "unat ((pi_regs ?s PI_RD_LEN_REG AND 0xffffff) + 1) = n"
    using length_and [OF n] off(2) by (simp_all add: requested_simps)
  obtain mem where mem: "dma_write_sram ?s = Some (pi_emit Save_Sram (?s\<lparr>sram := mem\<rparr>))" "length mem = SRAM_SIZE"
    "\<And>x. host x < SRAM_SIZE \<Longrightarrow> mem ! host x =
       (if unat ?c \<le> unat x \<and> unat x < unat ?c + n then dram_byte (rdram ?s) (from + (x - ?c)) else sram ?s ! host x)"
    using dma_write_sram_ok [of ?s] ok a(1) off by (auto simp: requested_simps(4) regs Let_def)
  let ?t = "(pi_emit Save_Sram (?s\<lparr>sram := mem\<rparr>))\<lparr>use_flashram := - 1\<rparr>"
  have t: "pi_ok ?t" "sram ?t = mem" "rdram ?t = rdram s" "use_flashram ?t \<noteq> 1"
  proof -
    have "pi_ok (?s\<lparr>sram := mem\<rparr>)" using ok mem(2) by (intro pi_ok_update(2)) (simp_all add: requested_simps(4))
    then show "pi_ok ?t" by (intro pi_ok_update(4)) (simp add: pi_ok_update(5))
  qed (simp_all add: pi_emit_def requested_simps(5))
  from schedule_busy_ok [OF t(1), of "0x1000" PI_STATUS_DMA_BUSY] obtain s' where
    s': "schedule_pi 0x1000 (mark_busy PI_STATUS_DMA_BUSY ?t) = Some s'" "pi_ok s'" "pi_same ?t s'" by blast
  have "dma_pi_read ?s = Some s'"
    using s'(1) a u mem(1) by (simp add: dma_pi_read_def Let_def regs requested_simps(8))
  moreover have "host (?c + of_nat k) < SRAM_SIZE \<and> mem ! host (?c + of_nat k) = dram_byte (rdram s) (from + of_nat k)"
    if "k < n" for k
  proof -
    have uk: "unat (?c + of_nat k) = unat ?c + k" using a(1) off that by (intro unat_add_small) simp
    then have h: "host (?c + of_nat k) < SRAM_SIZE"
      using host_less [of SRAM_SIZE "?c + of_nat k"] a(1) c(2) that by (simp add: SRAM_SIZE_def)
    then show ?thesis using mem(3) [OF h] uk that by (simp add: requested_simps(5))
  qed
  moreover have "sram s' = mem" "rdram s' = rdram s" "use_flashram s' \<noteq> 1"
    using s'(3) t by (simp_all add: pi_same_def)
  ultimately show ?thesis using s'(2) pi_transfer_start(1) [OF a(5,6)] by auto
qed

lemma load_from_sram:
  assumes ok: "pi_ok s" and u: "use_flashram s \<noteq> 1" and n: "0 < n" and c: "unat c = 0x08000000 + off" "off + n \<le> SRAM_SIZE"
    and to: "unat to + n \<le> RDRAM_MAX_SIZE"
  shows "\<exists>s'. pi_transfer 0xC to c n s = Some s' \<and> pi_ok s' \<and>
    (\<forall>k < n. dram_byte (rdram s') (to + of_nat k) = mem_byte (sram s) SRAM_SIZE (c - 0x08000000 + of_nat k)) \<and>
    (\<forall>b. unat b < RDRAM_MAX_SIZE \<longrightarrow> (unat b < unat to \<or> unat to + n \<le> unat b) \<longrightarrow>
       dram_byte (rdram s') b = dram_byte (rdram s) b)"
proof -
  let ?s = "requested PI_WR_LEN_REG to c n s" and ?c = "c - 0x08000000"
  have off: "off < 0x8000" "n \<le> 0x8000" using n c(2) by (auto simp: SRAM_SIZE_def)
  note a = save_address [OF c(1) off(1)]
  have regs: "pi_regs ?s PI_CART_ADDR_REG = c" "pi_regs ?s PI_DRAM_ADDR_REG = to"
    "unat ((pi_regs ?s PI_WR_LEN_REG AND 0xffffff) + 1) = n"
    using length_and [OF n] off(2) by (simp_all add: requested_simps)
  obtain d where d: "copy_to_dram (sram s) SRAM_SIZE ?c to n (rdram s) = Some d" "length d = RDRAM_MAX_SIZE"
    "\<And>k. k < n \<Longrightarrow> dram_byte d (to + of_nat k) = mem_byte (sram s) SRAM_SIZE (?c + of_nat k)"
    "\<And>b. unat b < RDRAM_MAX_SIZE \<Longrightarrow> unat b < unat to \<or> unat to + n \<le> unat b \<Longrightarrow> dram_byte d b = dram_byte (rdram s) b"
    using copy_bytes [OF pi_okD(1) [OF ok], of n ?c SRAM_SIZE "sram s" to] pi_okD(2) [OF ok] to
    by (auto simp: RDRAM_MAX_SIZE_def)
  let ?t = "?s\<lparr>rdram := d, use_flashram := - 1\<rparr>"
  have t: "pi_ok ?t" using ok d(2) by (intro pi_ok_update(1,4) pi_ok_update(1)) (simp_all add: requested_simps(4))
  have "dma_read_sram ?s = Some (?s\<lparr>rdram := d\<rparr>)"
    using d(1) by (simp add: dma_read_sram_def Let_def regs a(2) requested_simps(5,6))
  moreover obtain s' where s': "schedule_pi (pi_regs ?t PI_WR_LEN_REG * 63 div 25)
      (mark_busy (PI_STATUS_DMA_BUSY OR PI_STATUS_IO_BUSY) ?t) = Some s'" "pi_ok s'" "pi_same ?t s'"
    using schedule_busy_ok [OF t] by blast
  ultimately have "dma_pi_write ?s = Some s'"
    using a u by (simp add: dma_pi_write_def Let_def regs requested_simps(8))
  moreover have "rdram s' = d" using s'(3) by (simp add: pi_same_def)
  ultimately show ?thesis using s'(2) d(3,4) pi_transfer_start(2) [OF a(5,6)] by auto
qed

text \<open>
  C30. Save memory: what the guest stores with one transfer it gets back with another, at any
  place of main memory, and nothing else of main memory changes.
\<close>

theorem sram_roundtrip:
  assumes "pi_ok s" "use_flashram s \<noteq> 1" "0 < n" "unat c = 0x08000000 + off" "off + n \<le> SRAM_SIZE"
    "unat to + n \<le> RDRAM_MAX_SIZE"
  shows "\<exists>s1 s2. pi_transfer 0x8 from c n s = Some s1 \<and> pi_transfer 0xC to c n s1 = Some s2 \<and>
    (\<forall>k < n. dram_byte (rdram s2) (to + of_nat k) = dram_byte (rdram s) (from + of_nat k)) \<and>
    (\<forall>b. unat b < RDRAM_MAX_SIZE \<longrightarrow> (unat b < unat to \<or> unat to + n \<le> unat b) \<longrightarrow>
       dram_byte (rdram s2) b = dram_byte (rdram s) b)"
proof -
  obtain s1 where s1: "pi_transfer 0x8 from c n s = Some s1" "pi_ok s1" "use_flashram s1 \<noteq> 1" "rdram s1 = rdram s"
    "\<forall>k < n. host (c - 0x08000000 + of_nat k) < SRAM_SIZE \<and>
       sram s1 ! host (c - 0x08000000 + of_nat k) = dram_byte (rdram s) (from + of_nat k)"
    using store_to_sram [OF assms(1-5)] by blast
  then show ?thesis using load_from_sram [OF s1(2,3) assms(3-6)] by (auto simp: mem_byte_def)
qed


section \<open>A page of flash memory\<close>

definition flash_request :: "u32 \<Rightarrow> pi_core \<Rightarrow> pi_core option" where
  "flash_request command s =
     (case write_flashram_command 0x08010000 command 0xFFFFFFFF s of Some (Inr s') \<Rightarrow> Some s' | _ \<Rightarrow> None)"

definition flash_store_page :: "u32 \<Rightarrow> u32 \<Rightarrow> pi_core \<Rightarrow> pi_core option" where
  "flash_store_page from p s =
     do { s \<leftarrow> flash_request 0xb4000000 s;
          s \<leftarrow> pi_transfer 0x8 from 0x08000000 128 s;
          s \<leftarrow> flash_request (0xa5000000 OR p) s;
          flash_request 0xd2000000 s }"

definition flash_load_page :: "u32 \<Rightarrow> u32 \<Rightarrow> pi_core \<Rightarrow> pi_core option" where
  "flash_load_page to p s =
     do { s \<leftarrow> flash_request 0xf0000000 s; pi_transfer 0xC to (0x08000000 + p * 64) 128 s }"

lemma and_all: "(v :: u32) AND 0xFFFFFFFF = v"
proof -
  have "(0xFFFFFFFF :: u32) = - 1" by simp
  then show ?thesis by (simp only: and.right_neutral)
qed

lemma flash_request_eq:
  assumes "use_flashram s \<noteq> - 1" "flashram_command (rdram s) c (flashram s) = Some (fl, b)"
  shows "flash_request c s = Some (let s = s\<lparr>use_flashram := 1, flashram := fl\<rparr> in if b then pi_emit Save_Flashram s else s)"
  using assms by (simp add: flash_request_def write_flashram_command_def and_all Let_def)

lemma page_command:
  assumes "p < (0x400 :: u32)"
  shows "(0xa5000000 OR p) AND 0xff000000 = 0xa5000000" "(0xa5000000 OR p) AND 0xffff = p" "unat p < 0x400"
    "unat (p * 128) = unat p * 128" "unat (p * 64) = unat p * 64"
proof -
  show u: "unat p < 0x400" using word_below [OF assms] by simp
  then have "p AND mask 10 = p" by (intro and_mask_fixed) simp
  then have p: "p = p AND 0x3ff" by (simp add: mask_eq_exp_minus_1)
  have "p AND 0xff000000 = 0" by (subst p) (simp add: and.assoc)
  then show "(0xa5000000 OR p) AND 0xff000000 = 0xa5000000" by (simp add: bit.conj_disj_distrib2)
  have "p AND mask 16 = p" using u by (intro and_mask_fixed) simp
  then have "p AND 0xffff = p" by (simp add: mask_eq_exp_minus_1)
  then show "(0xa5000000 OR p) AND 0xffff = p" by (simp add: bit.conj_disj_distrib2)
  show "unat (p * 128) = unat p * 128" "unat (p * 64) = unat p * 64" using u by (simp_all add: unat_word_ariths)
qed

lemma start_program:
  assumes ok: "pi_ok s" and u: "use_flashram s \<noteq> - 1"
  shows "\<exists>s'. do { s \<leftarrow> flash_request 0xb4000000 s; pi_transfer 0x8 from 0x08000000 128 s } = Some s' \<and> pi_ok s' \<and>
     flash_mode (flashram s') = FLASHRAM_MODE_WRITE \<and> write_pointer (flashram s') = from \<and>
     use_flashram s' = 1 \<and> rdram s' = rdram s"
proof -
  let ?fl = "(flashram s)\<lparr>flash_mode := FLASHRAM_MODE_WRITE\<rparr>"
  let ?s = "s\<lparr>use_flashram := 1, flashram := ?fl\<rparr>"
  let ?r = "requested PI_RD_LEN_REG from 0x08000000 128 ?s"
  have req: "flash_request 0xb4000000 s = Some ?s"
    using flash_request_eq [OF u, of "0xb4000000" ?fl False] by (simp add: flashram_command_def)
  have "flash_ok ?fl" using pi_ok_flash(1) [OF ok] by (simp add: flash_ok_def)
  then have ok1: "pi_ok ?s" by (rule pi_ok_flash(2) [OF ok])
  let ?t = "dma_write_flashram ?r"
  have t: "flashram ?t = ?fl\<lparr>write_pointer := from\<rparr>" "use_flashram ?t = 1" "rdram ?t = rdram s"
    by (simp_all add: dma_write_flashram_def requested_simps)
  have "flash_ok (flashram ?t)" using \<open>flash_ok ?fl\<close> unfolding t(1) by (simp add: flash_ok_def)
  moreover have "pi_ok ?r" using ok1 by (simp add: requested_simps(4))
  ultimately have "pi_ok ?t" by (auto simp: dma_write_flashram_def pi_ok_def flash_ok_def requested_simps)
  from schedule_busy_ok [OF this, of "0x1000" PI_STATUS_DMA_BUSY] obtain s' where
    s': "schedule_pi 0x1000 (mark_busy PI_STATUS_DMA_BUSY ?t) = Some s'" "pi_ok s'" "pi_same ?t s'" by blast
  have "dma_pi_read ?r = Some s'"
    using s'(1) by (simp add: dma_pi_read_def Let_def requested_simps)
  then have "pi_transfer 0x8 from 0x08000000 128 ?s = Some s'" by (simp add: pi_transfer_start(1))
  with req have "do { s \<leftarrow> flash_request 0xb4000000 s; pi_transfer 0x8 from 0x08000000 128 s } = Some s'" by simp
  moreover have "flashram s' = flashram ?t" "use_flashram s' = use_flashram ?t" "rdram s' = rdram ?t"
    using s'(3) by (simp_all add: pi_same_def)
  ultimately show ?thesis using s'(2) t by simp
qed


lemma flash_page:
  assumes p: "p < (0x400 :: u32)" and k: "k < 128"
  shows "host (p * 128 + of_nat k) < FLASHRAM_SIZE" "unat (p * 128 + of_nat k) = unat p * 128 + k"
proof -
  show u: "unat (p * 128 + of_nat k) = unat p * 128 + k"
    using unat_add_small [of "p * 128" k] page_command(3,4) [OF p] k by simp
  have "unat p * 128 + k < 0x20000" using page_command(3) [OF p] k by linarith
  then show "host (p * 128 + of_nat k) < FLASHRAM_SIZE"
    using host_less [of FLASHRAM_SIZE "p * 128 + of_nat k"] u by (simp add: FLASHRAM_SIZE_def)
qed

lemma finish_program:
  assumes ok: "pi_ok s" and u: "use_flashram s = 1" and m: "flash_mode (flashram s) = FLASHRAM_MODE_WRITE" and p: "p < 0x400"
  shows "\<exists>s'. do { s \<leftarrow> flash_request (0xa5000000 OR p) s; flash_request 0xd2000000 s } = Some s' \<and> pi_ok s' \<and>
     use_flashram s' = 1 \<and> rdram s' = rdram s \<and>
     (\<forall>k < 128. flash_data (flashram s') ! host (p * 128 + of_nat k) = dram_byte (rdram s) (write_pointer (flashram s) + of_nat k))"
proof -
  let ?fl = "(flashram s)\<lparr>erase_offset := p * 128, flash_status := 0x1111800400c20000\<rparr>"
  let ?s = "s\<lparr>use_flashram := 1, flashram := ?fl\<rparr>"
  note pc = page_command [OF p]
  have r1: "flash_request (0xa5000000 OR p) s = Some ?s"
    using flash_request_eq [of s "0xa5000000 OR p" ?fl False] u pc(1,2) by (simp add: flashram_command_def Let_def)
  have fl: "flash_ok ?fl" using pi_ok_flash(1) [OF ok] pc(3,4) by (simp add: flash_ok_def)
  obtain mem where mem: "flash_program (rdram s) ?fl = Some (?fl\<lparr>flash_data := mem\<rparr>)" "length mem = FLASHRAM_SIZE"
    "\<And>a. host a < FLASHRAM_SIZE \<Longrightarrow> mem ! host a = (if unat (p * 128) \<le> unat a \<and> unat a < unat (p * 128) + 128
        then dram_byte (rdram s) (write_pointer (flashram s) + (a - p * 128)) else flash_data (flashram s) ! host a)"
    using flash_program_ok [OF fl pi_okD(1) [OF ok]] by auto
  let ?fl' = "?fl\<lparr>flash_data := mem, flash_mode := FLASHRAM_MODE_NOPES\<rparr>"
  let ?s' = "pi_emit Save_Flashram (?s\<lparr>use_flashram := 1, flashram := ?fl'\<rparr>)"
  have "flashram_command (rdram s) 0xd2000000 ?fl = Some (?fl', True)"
    using m mem(1) by (simp add: flashram_command_def Let_def)
  then have r2: "flash_request 0xd2000000 ?s = Some ?s'"
    using flash_request_eq [of ?s "0xd2000000" ?fl' True] by simp
  have "flash_ok ?fl'" using fl mem(2) by (simp add: flash_ok_def)
  then have "pi_ok (s\<lparr>use_flashram := 1, flashram := ?fl'\<rparr>)" by (rule pi_ok_flash(2) [OF ok])
  then have "pi_ok ?s'" by (simp add: pi_ok_update(5))
  moreover have "mem ! host (p * 128 + of_nat k) = dram_byte (rdram s) (write_pointer (flashram s) + of_nat k)" if "k < 128" for k
    using mem(3) [OF flash_page(1) [OF p that]] flash_page(2) [OF p that] pc(4) that by simp
  ultimately show ?thesis using r1 r2 by (simp add: pi_emit_def)
qed

lemma load_page:
  assumes ok: "pi_ok s" and u: "use_flashram s = 1" and p: "p < 0x400" and to: "unat to + 128 \<le> RDRAM_MAX_SIZE"
  shows "\<exists>s'. flash_load_page to p s = Some s' \<and>
     (\<forall>k < 128. dram_byte (rdram s') (to + of_nat k) = flash_data (flashram s) ! host (p * 128 + of_nat k))"
proof -
  let ?fl = "(flashram s)\<lparr>flash_mode := FLASHRAM_MODE_READ, flash_status := 0x11118004f0000000\<rparr>"
  let ?s = "s\<lparr>use_flashram := 1, flashram := ?fl\<rparr>" and ?c = "0x08000000 + p * 64"
  let ?r = "requested PI_WR_LEN_REG to ?c 128 ?s"
  note pc = page_command [OF p]
  have r1: "flash_request 0xf0000000 s = Some ?s"
    using flash_request_eq [of s "0xf0000000" ?fl False] u by (simp add: flashram_command_def Let_def)
  have ok1: "pi_ok ?s" by (rule pi_ok_flash(2) [OF ok]) (use pi_ok_flash(1) [OF ok] in \<open>simp add: flash_ok_def\<close>)
  have uc: "unat ?c = 0x08000000 + unat p * 64"
    using unat_add_small [of "0x08000000" "unat (p * 64)"] pc(3,5) by simp
  have c: "?c \<ge> 0x08000000" "?c < 0x08010000" "?c < 0x10000000" "\<not> ?c < 0x06000000" "\<not> ?c < 0x08000000"
    using uc pc(3) by (simp_all add: word_le_nat_alt word_less_nat_alt)
  have c': "?c \<noteq> 0x05000000" "?c \<noteq> 0x05000400"
    using c(1) by (intro notI, simp only:, simp)+
  have "p * 64 AND mask 16 = p * 64" using pc(3,5) by (intro and_mask_fixed) simp
  then have cart: "((?c - 0x08000000) AND 0xffff) * 2 = p * 128" by (simp add: mask_eq_exp_minus_1)
  have n: "unat ((pi_regs ?r PI_WR_LEN_REG AND 0xffffff) + 1) = 128"
    using length_and [of 128] by (simp add: requested_simps(3))
  obtain d where d: "copy_to_dram (flash_data (flashram s)) FLASHRAM_SIZE (p * 128) to 128 (rdram s) = Some d" "length d = RDRAM_MAX_SIZE"
    "\<And>k. k < 128 \<Longrightarrow> dram_byte d (to + of_nat k) = mem_byte (flash_data (flashram s)) FLASHRAM_SIZE (p * 128 + of_nat k)"
    using copy_bytes [OF pi_okD(1) [OF ok], of 128 "p * 128" FLASHRAM_SIZE "flash_data (flashram s)" to] pi_okD(3) [OF ok] to
    by (auto simp: RDRAM_MAX_SIZE_def)
  let ?t = "?r\<lparr>rdram := d\<rparr>"
  have "pi_ok ?t" using ok1 d(2) by (intro pi_ok_update(1)) (simp_all add: requested_simps(4))
  from schedule_busy_ok [OF this] obtain s' where
    s': "schedule_pi (pi_regs ?t PI_WR_LEN_REG * 63 div 25) (mark_busy (PI_STATUS_DMA_BUSY OR PI_STATUS_IO_BUSY) ?t) = Some s'"
    "pi_same ?t s'" by blast
  have "dma_read_flashram ?r = Some ?t"
    using d(1) by (simp add: dma_read_flashram_def requested_simps(1,2,5,7) Let_def n cart [simplified])
  then have "dma_pi_write ?r = Some s'"
    using s'(1) c c' by (simp add: dma_pi_write_def requested_simps(1,2,8) Let_def)
  then have "flash_load_page to p s = Some s'"
    using r1 pi_transfer_start(2) [OF c'] by (simp add: flash_load_page_def)
  moreover have "rdram s' = d" using s'(2) by (simp add: pi_same_def)
  ultimately show ?thesis using d(3) flash_page(1) [OF p] by (simp add: mem_byte_def)
qed


text \<open>
  C31. Flash memory: a page the guest programs from main memory reads back as what was there,
  through the commands and the two transfers it takes.
\<close>

theorem flash_roundtrip:
  assumes "pi_ok s" "use_flashram s \<noteq> - 1" "p < 0x400" "unat to + 128 \<le> RDRAM_MAX_SIZE"
  shows "\<exists>s1 s2. flash_store_page from p s = Some s1 \<and> flash_load_page to p s1 = Some s2 \<and>
    (\<forall>k < 128. dram_byte (rdram s2) (to + of_nat k) = dram_byte (rdram s) (from + of_nat k))"
proof -
  obtain s0 where s0: "do { s \<leftarrow> flash_request 0xb4000000 s; pi_transfer 0x8 from 0x08000000 128 s } = Some s0" "pi_ok s0"
    "flash_mode (flashram s0) = FLASHRAM_MODE_WRITE" "write_pointer (flashram s0) = from" "use_flashram s0 = 1" "rdram s0 = rdram s"
    using start_program [OF assms(1,2)] by blast
  obtain s1 where s1: "do { s \<leftarrow> flash_request (0xa5000000 OR p) s0; flash_request 0xd2000000 s } = Some s1" "pi_ok s1"
    "use_flashram s1 = 1"
    "\<forall>k < 128. flash_data (flashram s1) ! host (p * 128 + of_nat k) = dram_byte (rdram s) (from + of_nat k)"
    using finish_program [OF s0(2,5,3) assms(3)] s0(4,6) by auto
  have "flash_store_page from p s =
      Option.bind (do { s \<leftarrow> flash_request 0xb4000000 s; pi_transfer 0x8 from 0x08000000 128 s })
        (\<lambda>s. do { s \<leftarrow> flash_request (0xa5000000 OR p) s; flash_request 0xd2000000 s })"
    by (simp only: flash_store_page_def bind_assoc)
  then have "flash_store_page from p s = Some s1" by (simp only: s0(1) s1(1) bind.simps)
  then show ?thesis using load_page [OF s1(2,3) assms(3,4)] s1(4) by auto
qed

text \<open>
  C6. No access to the peripheral interface leaves an array: whatever the guest writes to a
  register or to the flash memory, the access returns with the invariant kept, if a transfer to
  or from a buffer of the disk drive has its other end in main memory and the status of the flash
  memory is not transferred past the end of it.
\<close>

theorem pi_accesses_stay_inside:
  assumes "pi_ok s"
  shows "(request_guarded s \<longrightarrow> (\<exists>s'. write_pi_regs address value m s = Some s' \<and> pi_ok s')) \<and>
    (\<exists>r. write_flashram_command address value m s = Some r \<and> (\<forall>s'. r = Inr s' \<longrightarrow> pi_ok s'))"
  using write_pi_regs_ok [OF assms] write_flashram_command_ok [OF assms] by blast

lemma sector_length_long:
  assumes "pi_regs s PI_DRAM_ADDR_REG > 0x7FFFFF"
  shows "0x100 < unat (sector_length s) \<longleftrightarrow>
    pi_regs s PI_DRAM_ADDR_REG + clip_length 0x100 0 ((pi_regs s PI_RD_LEN_REG AND 0xFFFFFF) + 1) > 0x7FFFFF"
proof -
  let ?d = "pi_regs s PI_DRAM_ADDR_REG"
  have d: "unat ?d > 0x7FFFFF" "unat ?d < 4294967296" using word_below [OF assms] unat_u32_less [of ?d] by simp_all
  have "unat (0x7FFFFF - ?d) = 4294967296 + 0x7FFFFF - unat ?d"
    using d by (simp add: unat_sub_if')
  then have "0x100 < unat (0x7FFFFF - ?d)" using d by linarith
  then show ?thesis using clip_le(1) [of "0x100" "(pi_regs s PI_RD_LEN_REG AND 0xFFFFFF) + 1"]
    unfolding sector_length_def cut_at_dram_def by auto
qed

lemma sector_stops:
  assumes ok: "pi_ok s" and big: "0x103 < unat (g_rom_size s)" and n: "0x100 < n"
  shows "copy_from_dram (rdram s) (unat (g_rom_size s)) 0 from n (sec_buf s) = None"
  unfolding copy_from_dram_def
proof (rule for_loop_stops [where I = "\<lambda>_ x. length x = 0x100" and m = "0x100"])
  fix k :: nat and x :: bytes
  assume k: "k < 0x100" and x: "length x = 0x100"
  have "unat (of_nat k :: u32) < 0x100" using k by (simp add: unat_of_nat)
  then have "host (of_nat k) < 0x100" using host_less [of "0x100" "of_nat k"] by simp
  with big x show "\<exists>x'. (let cart_i = (0 + (0 + of_nat k)) XOR S8
      in if unat (g_rom_size s) \<le> unat cart_i then Some x
         else do { b \<leftarrow> rdram_safe_read_byte (rdram s) ((from + (0 + of_nat k)) XOR S8); wr x (unat cart_i) b }) = Some x' \<and>
      length x' = 0x100"
    by (simp add: Let_def safe_read [OF pi_okD(1) [OF ok]] host_def)
next
  fix x :: bytes assume x: "length x = 0x100"
  have "(0x100 :: u32) XOR S8 = 0x103" by (simp add: S8_def)
  moreover have "wr x 0x103 b = None" for b using x by (simp add: wr_def)
  ultimately show "(let cart_i = (0 + (0 + of_nat 0x100)) XOR S8
      in if unat (g_rom_size s) \<le> unat cart_i then Some x
         else do { b \<leftarrow> rdram_safe_read_byte (rdram s) ((from + (0 + of_nat 0x100)) XOR S8); wr x (unat cart_i) b }) = None"
    using big by (simp add: Let_def safe_read [OF pi_okD(1) [OF ok]])
qed (use n pi_okD(4) [OF ok] in simp_all)

text \<open>
  C25. The guard the code lacks: a transfer to the sector buffer runs over its end exactly if it
  starts beyond the end of main memory and does not wrap around, as the cut of the length then does.
\<close>

theorem sector_transfer_overruns_iff:
  assumes "pi_ok s" "0x103 < unat (g_rom_size s)"
  shows "dma_pi_read s = None \<longleftrightarrow> pi_regs s PI_CART_ADDR_REG = 0x05000400 \<and> pi_regs s PI_DRAM_ADDR_REG > 0x7FFFFF \<and>
    pi_regs s PI_DRAM_ADDR_REG + clip_length 0x100 0 ((pi_regs s PI_RD_LEN_REG AND 0xFFFFFF) + 1) > 0x7FFFFF"
proof (cases "pi_regs s PI_CART_ADDR_REG = 0x05000400 \<and> 0x100 < unat (sector_length s)")
  case True
  then have "pi_regs s PI_DRAM_ADDR_REG > 0x7FFFFF" using sector_length_le [of s] by (auto simp: not_le [symmetric])
  moreover have "dma_pi_read s = None"
    using True sector_stops [OF assms, of "unat (sector_length s)"] by (simp add: dma_pi_read_def Let_def sector_length_def)
  ultimately show ?thesis using True sector_length_long by blast
next
  case False
  then have "\<exists>s'. dma_pi_read s = Some s' \<and> pi_ok s'" using dma_pi_read_ok [OF assms(1)] by force
  then show ?thesis using False sector_length_long by auto
qed


section \<open>The cartridge\<close>










section \<open>A console with a cartridge\<close>

definition sample_pi :: pi_core where
  "sample_pi = \<lparr>q = clear_queue (q cold_state), SPECIAL_done = True, next_interrupt = 0,
     g_cp0_regs = g_cp0_regs cold_state, mi_regs = \<lambda>_. 0, PC_addr = 0xa4000040, last_addr = 0xa4000040,
     delay_slot = 0, skip_jump = 0, dyna_interp = False, count_per_op = 2,
     rdram = (replicate RDRAM_MAX_SIZE 0)[3 := 7], dram_size = 0x800000, pi_regs = \<lambda>_. 0,
     cart_rom = \<lparr>cart_bytes = replicate SRAM_SIZE 0x80, cart_size = 0x8000, last_write = 0, rom_written = False\<rparr>,
     g_rom_size = 0x8000, dd_rom = [], dd_rom_size = 0, sram = replicate SRAM_SIZE 0xff,
     flashram = \<lparr>flash_data = format_flashram, flash_mode = FLASHRAM_MODE_NOPES, flash_status = 0,
       erase_offset = 0, write_pointer = 0\<rparr>,
     use_flashram = 0, c2_buf = replicate 0x400 0, sec_buf = replicate 0x100 0, asic_cmd_status = 0,
     cic_x105 = False, pi_log = []\<rparr>"

lemma sample_pi_ok: "pi_ok sample_pi"
proof -
  have "length (pool_nodes (q_pool (q cold_state))) = 16" by (simp add: cold_state_def)
  then have "represents (q sample_pi) []" unfolding sample_pi_def by (simp add: clear_any_queue)
  then show ?thesis unfolding pi_ok_def by (simp add: sample_pi_def format_flashram_def) (auto simp: SRAM_SIZE_def)
qed

lemma sample_bytes: "dram_byte (rdram sample_pi) 0 = 7" "use_flashram sample_pi = 0"
proof -
  have "host 0 = 3" by (simp add: host_def S8_def)
  then show "dram_byte (rdram sample_pi) 0 = 7" by (simp add: dram_byte_def sample_pi_def RDRAM_MAX_SIZE_def)
qed (simp add: sample_pi_def)

theorem sram_roundtrip_witness:
  "\<exists>s1 s2. pi_transfer 0x8 0 0x08000000 64 sample_pi = Some s1 \<and> pi_transfer 0xC 0x1000 0x08000000 64 s1 = Some s2 \<and>
     dram_byte (rdram s2) 0x1000 = 7"
proof -
  obtain s1 s2 where s: "pi_transfer 0x8 0 0x08000000 64 sample_pi = Some s1" "pi_transfer 0xC 0x1000 0x08000000 64 s1 = Some s2"
    "\<forall>k < 64. dram_byte (rdram s2) (0x1000 + of_nat k) = dram_byte (rdram sample_pi) (0 + of_nat k)"
    using sram_roundtrip [OF sample_pi_ok, of 64 "0x08000000" 0 "0x1000" 0] sample_bytes(2)
    by (auto simp: SRAM_SIZE_def RDRAM_MAX_SIZE_def)
  have "dram_byte (rdram s2) 0x1000 = 7" using s(3) [rule_format, of 0] by (simp add: sample_bytes)
  with s(1,2) show ?thesis by blast
qed

theorem flash_roundtrip_witness:
  "\<exists>s1 s2. flash_store_page 0 5 sample_pi = Some s1 \<and> flash_load_page 0x1000 5 s1 = Some s2 \<and> dram_byte (rdram s2) 0x1000 = 7"
proof -
  obtain s1 s2 where s: "flash_store_page 0 5 sample_pi = Some s1" "flash_load_page 0x1000 5 s1 = Some s2"
    "\<forall>k < 128. dram_byte (rdram s2) (0x1000 + of_nat k) = dram_byte (rdram sample_pi) (0 + of_nat k)"
    using flash_roundtrip [OF sample_pi_ok, of 5 "0x1000" 0] sample_bytes(2) by (auto simp: RDRAM_MAX_SIZE_def)
  have "dram_byte (rdram s2) 0x1000 = 7" using s(3) [rule_format, of 0] by (simp add: sample_bytes)
  with s(1,2) show ?thesis by blast
qed

theorem pi_accesses_stay_inside_witness:
  "(\<exists>s'. write_pi_regs 0xC 0x3F 0xFFFFFFFF sample_pi = Some s' \<and> pi_ok s') \<and>
   (\<exists>r. write_flashram_command 0x08010000 0xd2000000 0xFFFFFFFF sample_pi = Some r)"
proof -
  have "request_guarded sample_pi" by (simp add: request_guarded_def sample_pi_def)
  then show ?thesis
    using pi_accesses_stay_inside [OF sample_pi_ok, of "0xC" "0x3F" "0xFFFFFFFF"]
      pi_accesses_stay_inside [OF sample_pi_ok, of "0x08010000" "0xd2000000" "0xFFFFFFFF"] by blast
qed

theorem sector_transfer_overruns_iff_witness:
  "dma_pi_read (sample_pi\<lparr>pi_regs := (\<lambda>_. 0)(PI_CART_ADDR_REG := 0x05000400, PI_DRAM_ADDR_REG := 0x800000)\<rparr>) = None"
proof -
  let ?s = "sample_pi\<lparr>pi_regs := (\<lambda>_. 0)(PI_CART_ADDR_REG := 0x05000400, PI_DRAM_ADDR_REG := 0x800000)\<rparr>"
  have "pi_ok ?s" using sample_pi_ok by (simp add: pi_ok_def)
  moreover have "0x103 < unat (g_rom_size ?s)" by (simp add: sample_pi_def)
  ultimately show ?thesis using sector_transfer_overruns_iff [of ?s] by (simp add: pi_reg_numbers clip_length_def)
qed


end
