(* ===== verification/Hires_Residency.thy ===== *)
theory Hires_Residency
  imports Pixel_Decode RDP_Common
begin

text \<open>
  Replacement images on the GPU: the part of \<open>rdp_renderer.cpp\<close> that turns the resolution of a
  lookup into a descriptor of an uploaded image (\<open>HiresResources\<close>, \<open>allocate_hires_descriptor\<close>, the
  \<open>resolve_hires_*_descriptor\<close> members), binds it to tiles, and is set up by
  \<open>configure_hires_replacement\<close> of \<open>rdp_device.cpp\<close>, with the \<open>rdp_hires_*_policy.hpp\<close> headers they use.

  The GPU is a parameter: whether it has descriptor indexing, whether a descriptor pool of some
  capacity and an image can be created. An image handle is the image; the descriptor pool is the
  function from descriptors to what the shaders see there. The order in which the hash map of
  resident images is walked is the parameter \<open>order\<close>.
\<close>

section \<open>Policies\<close>

datatype hires_configure_outcome = Disabled | MissingPath | LoadFailed | LoadSucceeded

definition resolve_hires_cache_path :: "string \<Rightarrow> string option \<Rightarrow> string" where
  "resolve_hires_cache_path configured_path env_path =
     (case env_path of Some (c # cs) \<Rightarrow> c # cs | _ \<Rightarrow> if configured_path \<noteq> [] then configured_path else [])"

definition should_attempt_hires_cache_load :: "bool \<Rightarrow> string option \<Rightarrow> bool" where
  "should_attempt_hires_cache_load enable cache_path \<longleftrightarrow> enable \<and> cache_path \<noteq> None \<and> cache_path \<noteq> Some []"

definition classify_hires_configure_outcome :: "bool \<Rightarrow> string option \<Rightarrow> bool \<Rightarrow> hires_configure_outcome" where
  "classify_hires_configure_outcome enable cache_path load_ok =
     (if \<not> enable then Disabled
      else if cache_path = None \<or> cache_path = Some [] then MissingPath
      else if load_ok then LoadSucceeded else LoadFailed)"

definition should_attach_hires_provider :: "hires_configure_outcome \<Rightarrow> bool" where
  "should_attach_hires_provider outcome \<longleftrightarrow> outcome = LoadSucceeded"

definition hires_invalid_descriptor_index :: u32 where "hires_invalid_descriptor_index = 0xffffffff"

definition hires_descriptor_index_valid :: "u32 \<Rightarrow> bool" where
  "hires_descriptor_index_valid index \<longleftrightarrow> index \<noteq> hires_invalid_descriptor_index"

definition hires_provider_changed :: "bool \<Rightarrow> bool \<Rightarrow> bool" where
  "hires_provider_changed previous_provider next_provider \<longleftrightarrow> previous_provider \<noteq> next_provider"

definition clamp_hires_dimension_u16 :: "u32 \<Rightarrow> u16" where
  "clamp_hires_dimension_u16 dim = ucast (min dim 0xffff)"

datatype hires_registry_budget_decision = Admit | EvictOldestThenAdmit | RejectOverBudget

definition decide_hires_registry_budget ::
    "u64 \<Rightarrow> u64 \<Rightarrow> u64 \<Rightarrow> bool \<Rightarrow> bool \<Rightarrow> hires_registry_budget_decision" where
  "decide_hires_registry_budget resident incoming budget eviction_enabled has_evictable_candidate =
     (if budget = 0 then Admit
      else if incoming > budget then RejectOverBudget
      else if resident \<le> budget - incoming then Admit
      else if eviction_enabled \<and> has_evictable_candidate then EvictOldestThenAdmit
      else RejectOverBudget)"

section \<open>Keys and resources\<close>

datatype hires_key_source =
  GenericKey | NativeSampledKey | CompatKey | NativeChecksumKey | GenericNativeKey | GenericCompatKey

record hires_key =
  hk_checksum64 :: u64
  hk_formatsize :: u16
  hk_selector_checksum64 :: u64
  hk_source :: hires_key_source
  hk_sampled :: sampled_sig

definition no_sampled :: sampled_sig where
  "no_sampled = \<lparr>sampled_fmt = 0, sampled_siz = 0, sampled_tex_offset = 0, sampled_stride = 0,
     sampled_width = 0, sampled_height = 0, sampled_low32 = 0, sampled_palette_crc = 0\<rparr>"

record gpu_image =
  gi_width :: u32
  gi_height :: u32
  gi_rgba8 :: bytes

record hires_resident_image =
  ri_image :: gpu_image
  descriptor_index :: u32
  ri_repl_w :: u16
  ri_repl_h :: u16
  last_used_tick :: u64
  resident_bytes :: u64

record hires_resources =
  bindless_pool :: "(u32 \<Rightarrow> gpu_image option) option"
  fallback_image :: "gpu_image option"
  resident_images :: "(hires_key \<times> hires_resident_image) list"
  hr_capacity :: u32
  next_descriptor :: u32
  recycled_descriptors :: "u32 list"
  gpu_resident_bytes :: u64
  gpu_budget_bytes :: u64
  frame_tick :: u64

definition no_resources :: hires_resources where
  "no_resources = \<lparr>bindless_pool = None, fallback_image = None, resident_images = [], hr_capacity = 0,
     next_descriptor = 1, recycled_descriptors = [], gpu_resident_bytes = 0, gpu_budget_bytes = 0, frame_tick = 0\<rparr>"

record gpu_device =
  supports_descriptor_indexing :: bool
  pool_created :: "u32 \<Rightarrow> bool"
  image_created :: "gpu_image \<Rightarrow> bool"

type_synonym walk_order = "(hires_key \<times> hires_resident_image) list \<Rightarrow> (hires_key \<times> hires_resident_image) list"

definition white_image :: gpu_image where
  "white_image = \<lparr>gi_width = 1, gi_height = 1, gi_rgba8 = [255, 255, 255, 255]\<rparr>"

definition init_hires_resources :: "gpu_device \<Rightarrow> u32 \<Rightarrow> hires_resources \<Rightarrow> bool \<times> hires_resources" where
  "init_hires_resources gpu requested_capacity r =
     (if requested_capacity = 0 \<or> \<not> supports_descriptor_indexing gpu then (False, r)
      else if bindless_pool r \<noteq> None \<and> hr_capacity r \<ge> requested_capacity then (True, r)
      else
        let r = no_resources\<lparr>hr_capacity := requested_capacity, next_descriptor := 1\<rparr>
        in if \<not> pool_created gpu requested_capacity then (False, r)
           else if \<not> image_created gpu white_image then (False, r)
           else (True, r\<lparr>fallback_image := Some white_image, bindless_pool := Some [0 \<mapsto> white_image]\<rparr>))"

section \<open>Descriptors\<close>

text \<open>The loop that looks for the image that was not used for the longest time.\<close>

fun find_lru :: "(hires_key \<times> hires_resident_image) option \<Rightarrow> (hires_key \<times> hires_resident_image) list \<Rightarrow>
    (hires_key \<times> hires_resident_image) option" where
  "find_lru best [] = best"
| "find_lru None (it # its) = find_lru (Some it) its"
| "find_lru (Some best) (it # its) =
     find_lru (Some (if last_used_tick (snd it) < last_used_tick (snd best) then it else best)) its"

definition evict_oldest :: "walk_order \<Rightarrow> hires_resources \<Rightarrow> hires_resources" where
  "evict_oldest order r =
     (case find_lru None (order (resident_images r)) of
        None \<Rightarrow> r
      | Some (key, im) \<Rightarrow>
          r\<lparr>recycled_descriptors := recycled_descriptors r @ [descriptor_index im],
            gpu_resident_bytes := gpu_resident_bytes r - resident_bytes im,
            resident_images := AList.delete key (resident_images r)\<rparr>)"

definition take_descriptor :: "u64 \<Rightarrow> hires_resources \<Rightarrow> u32 \<times> hires_resources" where
  "take_descriptor incoming_bytes r =
     (if recycled_descriptors r \<noteq> [] then
        (last (recycled_descriptors r),
         r\<lparr>recycled_descriptors := butlast (recycled_descriptors r),
           gpu_resident_bytes := gpu_resident_bytes r + incoming_bytes\<rparr>)
      else if next_descriptor r \<ge> hr_capacity r then (0xffffffff, r)
      else
        (next_descriptor r,
         r\<lparr>next_descriptor := next_descriptor r + 1, gpu_resident_bytes := gpu_resident_bytes r + incoming_bytes\<rparr>))"

definition allocate_hires_descriptor :: "walk_order \<Rightarrow> u64 \<Rightarrow> hires_resources \<Rightarrow> u32 \<times> hires_resources" where
  "allocate_hires_descriptor order incoming_bytes r =
     (case decide_hires_registry_budget (gpu_resident_bytes r) incoming_bytes (gpu_budget_bytes r) True
             (resident_images r \<noteq> []) of
        EvictOldestThenAdmit \<Rightarrow> take_descriptor incoming_bytes (evict_oldest order r)
      | RejectOverBudget \<Rightarrow> (0xffffffff, r)
      | Admit \<Rightarrow> take_descriptor incoming_bytes r)"

fun zero_transparent_replacement_rgb :: "bytes \<Rightarrow> bytes" where
  "zero_transparent_replacement_rgb (cr # cg # cb # ca # rest) =
     (if ca = 0 then 0 # 0 # 0 # ca # zero_transparent_replacement_rgb rest
      else cr # cg # cb # ca # zero_transparent_replacement_rgb rest)"
| "zero_transparent_replacement_rgb rest = rest"

definition uploaded :: "replacement_image \<Rightarrow> gpu_image" where
  "uploaded img = \<lparr>gi_width = repl_w (img_meta img), gi_height = repl_h (img_meta img),
     gi_rgba8 = zero_transparent_replacement_rgb (rgba8 img)\<rparr>"

definition texture_bytes :: "replacement_image \<Rightarrow> u64" where
  "texture_bytes img = ucast (repl_w (img_meta img)) * ucast (repl_h (img_meta img)) * 4"

text \<open>
  What the three members below share: the search in the map of resident images, and on a miss the
  upload of the decoded image. The result is the descriptor with the dimensions for the caller.
\<close>

definition touch_resident :: "hires_key \<Rightarrow> hires_resident_image \<Rightarrow> hires_resources \<Rightarrow> hires_resources" where
  "touch_resident key im r =
     r\<lparr>resident_images := AList.update key (im\<lparr>last_used_tick := frame_tick r\<rparr>) (resident_images r)\<rparr>"

definition set_texture :: "u32 \<Rightarrow> gpu_image \<Rightarrow> hires_resources \<Rightarrow> hires_resources" where
  "set_texture index view r = r\<lparr>bindless_pool := map_option (\<lambda>pool. pool(index \<mapsto> view)) (bindless_pool r)\<rparr>"

definition emplace_resident :: "hires_key \<Rightarrow> hires_resident_image \<Rightarrow> hires_resources \<Rightarrow> hires_resources" where
  "emplace_resident key im r =
     (if map_of (resident_images r) key = None then r\<lparr>resident_images := (key, im) # resident_images r\<rparr> else r)"

definition upload_replacement ::
    "gpu_device \<Rightarrow> walk_order \<Rightarrow> hires_key \<Rightarrow> replacement_image option \<Rightarrow> hires_resources \<Rightarrow>
     (u32 \<times> u32 \<times> u32) option \<times> hires_resources" where
  "upload_replacement gpu order key decoded r =
     (if bindless_pool r = None then (None, r)
      else case decoded of
        None \<Rightarrow> (None, r)
      | Some replacement \<Rightarrow>
          if rgba8 replacement = [] \<or> repl_w (img_meta replacement) = 0 \<or> repl_h (img_meta replacement) = 0
          then (None, r)
          else
            let (index, r) = allocate_hires_descriptor order (texture_bytes replacement) r
            in if index = 0xffffffff then (None, r)
               else if \<not> image_created gpu (uploaded replacement) then (None, r)
               else
                 let r = set_texture index (uploaded replacement) r;
                     resident = \<lparr>ri_image = uploaded replacement, descriptor_index = index,
                       ri_repl_w = ucast (repl_w (img_meta replacement)),
                       ri_repl_h = ucast (repl_h (img_meta replacement)),
                       last_used_tick = frame_tick r, resident_bytes = texture_bytes replacement\<rparr>
                 in (Some (index, repl_w (img_meta replacement), repl_h (img_meta replacement)),
                     emplace_resident key resident r))"

definition find_or_upload ::
    "gpu_device \<Rightarrow> walk_order \<Rightarrow> hires_key \<Rightarrow> replacement_image option \<Rightarrow> hires_resources \<Rightarrow>
     (u32 \<times> u32 \<times> u32) option \<times> hires_resources" where
  "find_or_upload gpu order key decoded r =
     (case map_of (resident_images r) key of
        Some im \<Rightarrow> (Some (descriptor_index im, ucast (ri_repl_w im), ucast (ri_repl_h im)), touch_resident key im r)
      | None \<Rightarrow> upload_replacement gpu order key decoded r)"


section \<open>The renderer\<close>

record replacement_tile_state =
  ts_checksum64 :: u64
  ts_upload_checksum64 :: u64
  ts_selector_checksum64 :: u64
  ts_formatsize :: u16
  ts_orig_w :: u16
  ts_orig_h :: u16
  ts_repl_w :: u16
  ts_repl_h :: u16
  ts_vk_image_index :: u32
  ts_valid :: bool
  ts_hit :: bool

definition no_tile_state :: replacement_tile_state where
  "no_tile_state = \<lparr>ts_checksum64 = 0, ts_upload_checksum64 = 0, ts_selector_checksum64 = 0, ts_formatsize = 0,
     ts_orig_w = 0, ts_orig_h = 0, ts_repl_w = 0, ts_repl_h = 0, ts_vk_image_index = 0xffffffff,
     ts_valid = False, ts_hit = False\<rparr>"

record tile_replacement_meta =
  repl_orig_w :: u16
  repl_orig_h :: u16
  tr_repl_w :: u16
  tr_repl_h :: u16
  repl_desc_index :: u32

definition no_tile_replacement :: tile_replacement_meta where
  "no_tile_replacement = \<lparr>repl_orig_w = 0, repl_orig_h = 0, tr_repl_w = 0, tr_repl_h = 0, repl_desc_index = 0xffffffff\<rparr>"

record hires_counters =
  hires_lookup_total :: u64
  hires_lookup_hits :: u64
  hires_lookup_misses :: u64
  hires_lookup_filtered :: u64
  descriptor_sampled_resolutions :: u64
  descriptor_native_checksum_resolutions :: u64
  descriptor_native_checksum_exact_resolutions :: u64
  descriptor_native_checksum_identity_assisted_resolutions :: u64
  descriptor_native_checksum_generic_fallback_resolutions :: u64
  descriptor_compat_resolutions :: u64

definition no_counters :: hires_counters where
  "no_counters = \<lparr>hires_lookup_total = 0, hires_lookup_hits = 0, hires_lookup_misses = 0,
     hires_lookup_filtered = 0, descriptor_sampled_resolutions = 0, descriptor_native_checksum_resolutions = 0,
     descriptor_native_checksum_exact_resolutions = 0,
     descriptor_native_checksum_identity_assisted_resolutions = 0,
     descriptor_native_checksum_generic_fallback_resolutions = 0, descriptor_compat_resolutions = 0\<rparr>"

text \<open>
  The provider is a member of the command processor; the renderer has a pointer to it or the null
  pointer (\<open>attached\<close>).
\<close>

record hires_renderer =
  attached :: bool
  hires_replacement_shader :: bool
  hires_resources :: hires_resources
  replacement_tiles :: "replacement_tile_state list"
  tile_metas :: "tile_meta list"
  tile_replacements :: "tile_replacement_meta list"
  tlut_shadow_valid :: bool
  counters :: hires_counters
  gliden64_compat_crc_enabled :: bool

definition set_hires_gpu_budget_bytes :: "u64 \<Rightarrow> hires_renderer \<Rightarrow> hires_renderer" where
  "set_hires_gpu_budget_bytes bytes s = s\<lparr>hires_resources := (hires_resources s)\<lparr>gpu_budget_bytes := bytes\<rparr>\<rparr>"

definition begin_frame_context :: "hires_renderer \<Rightarrow> hires_renderer" where
  "begin_frame_context s =
     s\<lparr>hires_resources := (hires_resources s)\<lparr>frame_tick := frame_tick (hires_resources s) + 1\<rparr>\<rparr>"

text \<open>All tile states, the state of the palette copy and the counters start afresh.\<close>

definition reset_hires_tracking_state :: "hires_renderer \<Rightarrow> hires_renderer" where
  "reset_hires_tracking_state s =
     s\<lparr>replacement_tiles := map (\<lambda>_. no_tile_state) (replacement_tiles s), tlut_shadow_valid := False,
       counters := (counters s)\<lparr>hires_lookup_total := 0, hires_lookup_hits := 0, hires_lookup_misses := 0\<rparr>\<rparr>"

text \<open>\<open>next_provider\<close> is \<open>None\<close> for the null pointer and else the number of entries.\<close>

definition set_replacement_provider :: "gpu_device \<Rightarrow> u64 option \<Rightarrow> hires_renderer \<Rightarrow> hires_renderer" where
  "set_replacement_provider gpu next_provider s =
     (let s = (if hires_provider_changed (attached s) (next_provider \<noteq> None)
               then s\<lparr>hires_resources := no_resources\<rparr> else s);
          s = reset_hires_tracking_state (s\<lparr>attached := next_provider \<noteq> None\<rparr>);
          s = s\<lparr>counters := no_counters\<rparr>
      in if hires_replacement_shader s then
           let requested_capacity = (case next_provider of None \<Rightarrow> 1 | Some n \<Rightarrow> ucast n + 1)
           in s\<lparr>hires_resources := snd (init_hires_resources gpu (max requested_capacity 1) (hires_resources s))\<rparr>
         else s)"

text \<open>The end of \<open>init_renderer\<close>.\<close>

definition init_hires_renderer :: "gpu_device \<Rightarrow> hires_renderer \<Rightarrow> hires_renderer" where
  "init_hires_renderer gpu s =
     (let s = s\<lparr>hires_replacement_shader := supports_descriptor_indexing gpu\<rparr>
      in if hires_replacement_shader s then
           let (ok, r) = init_hires_resources gpu 1 (hires_resources s)
           in s\<lparr>hires_resources := r, hires_replacement_shader := ok\<rparr>
         else s)"

section \<open>From a lookup to a descriptor\<close>

text \<open>What a member knows of the provider: how it decodes.\<close>

record decoders =
  decode_sampled :: "sampled_sig \<Rightarrow> u16 \<Rightarrow> u64 \<Rightarrow> replacement_image option"
  decode_native :: "u64 \<Rightarrow> u16 \<Rightarrow> u64 \<Rightarrow> replacement_image option"
  decode_compat :: "u64 \<Rightarrow> u16 \<Rightarrow> u64 \<Rightarrow> replacement_image option"

definition provider_decoders :: "uncompress_fn \<Rightarrow> file_system \<Rightarrow> provider \<Rightarrow> decoders" where
  "provider_decoders unz fs p =
     \<lparr>decode_sampled = (\<lambda>sg formatsize selector. map_option fst (decode_sampled_rgba8_with_selector unz fs p sg formatsize selector)),
      decode_native = decode_rgba8_native_with_selector unz fs p,
      decode_compat = decode_rgba8_compat_with_selector unz fs p\<rparr>"

datatype hires_native_checksum_detail_class = DetailExact | DetailIdentityAssisted | DetailGenericFallback

definition sampled_key :: "sampled_sig \<Rightarrow> u16 \<Rightarrow> u64 \<Rightarrow> hires_key" where
  "sampled_key sg formatsize selector =
     \<lparr>hk_checksum64 = 0, hk_formatsize = formatsize, hk_selector_checksum64 = selector,
      hk_source = NativeSampledKey, hk_sampled = sg\<rparr>"

definition checksum_key :: "hires_key_source \<Rightarrow> u64 \<Rightarrow> u16 \<Rightarrow> u64 \<Rightarrow> hires_key" where
  "checksum_key src checksum formatsize selector =
     \<lparr>hk_checksum64 = checksum, hk_formatsize = formatsize, hk_selector_checksum64 = selector,
      hk_source = src, hk_sampled = no_sampled\<rparr>"

text \<open>The result is whether there is a descriptor, and the meta data written back.\<close>

definition resolve_descriptor ::
    "gpu_device \<Rightarrow> walk_order \<Rightarrow> hires_key \<Rightarrow> replacement_image option \<Rightarrow> (hires_counters \<Rightarrow> hires_counters) \<Rightarrow>
     replacement_meta \<Rightarrow> hires_renderer \<Rightarrow> (bool \<times> replacement_meta) \<times> hires_renderer" where
  "resolve_descriptor gpu order key decoded record_detail m s =
     (let m = m\<lparr>vk_image_index := hires_invalid_descriptor_index\<rparr> in
      if \<not> attached s \<or> \<not> hires_replacement_shader s then ((False, m), s)
      else case find_or_upload gpu order key decoded (hires_resources s) of
        (None, r) \<Rightarrow> ((False, m), s\<lparr>hires_resources := r\<rparr>)
      | (Some (index, w, h), r) \<Rightarrow>
          ((True, m\<lparr>vk_image_index := index, repl_w := w, repl_h := h\<rparr>),
           s\<lparr>hires_resources := r, counters := record_detail (counters s)\<rparr>))"

definition resolve_hires_sampled_replacement_descriptor ::
    "gpu_device \<Rightarrow> walk_order \<Rightarrow> decoders \<Rightarrow> sampled_sig \<Rightarrow> u16 \<Rightarrow> u64 \<Rightarrow> replacement_meta \<Rightarrow> hires_renderer \<Rightarrow>
     (bool \<times> replacement_meta) \<times> hires_renderer" where
  "resolve_hires_sampled_replacement_descriptor gpu order dec sg formatsize selector m s =
     resolve_descriptor gpu order (sampled_key sg formatsize selector) (decode_sampled dec sg formatsize selector)
       (\<lambda>c. c\<lparr>descriptor_sampled_resolutions := descriptor_sampled_resolutions c + 1\<rparr>) m s"

definition record_native_checksum_detail ::
    "hires_native_checksum_detail_class \<Rightarrow> hires_counters \<Rightarrow> hires_counters" where
  "record_native_checksum_detail detail_class c =
     (let c = c\<lparr>descriptor_native_checksum_resolutions := descriptor_native_checksum_resolutions c + 1\<rparr>
      in case detail_class of
        DetailExact \<Rightarrow> c\<lparr>descriptor_native_checksum_exact_resolutions := descriptor_native_checksum_exact_resolutions c + 1\<rparr>
      | DetailIdentityAssisted \<Rightarrow> c\<lparr>descriptor_native_checksum_identity_assisted_resolutions :=
          descriptor_native_checksum_identity_assisted_resolutions c + 1\<rparr>
      | DetailGenericFallback \<Rightarrow> c\<lparr>descriptor_native_checksum_generic_fallback_resolutions :=
          descriptor_native_checksum_generic_fallback_resolutions c + 1\<rparr>)"

definition resolve_hires_native_checksum_replacement_descriptor ::
    "gpu_device \<Rightarrow> walk_order \<Rightarrow> decoders \<Rightarrow> u64 \<Rightarrow> u16 \<Rightarrow> u64 \<Rightarrow> hires_native_checksum_detail_class \<Rightarrow>
     replacement_meta \<Rightarrow> hires_renderer \<Rightarrow> (bool \<times> replacement_meta) \<times> hires_renderer" where
  "resolve_hires_native_checksum_replacement_descriptor gpu order dec checksum formatsize selector detail_class m s =
     resolve_descriptor gpu order (checksum_key NativeChecksumKey checksum formatsize selector)
       (decode_native dec checksum formatsize selector) (record_native_checksum_detail detail_class) m s"

definition resolve_hires_compat_replacement_descriptor ::
    "gpu_device \<Rightarrow> walk_order \<Rightarrow> decoders \<Rightarrow> u64 \<Rightarrow> u16 \<Rightarrow> u64 \<Rightarrow> replacement_meta \<Rightarrow> hires_renderer \<Rightarrow>
     (bool \<times> replacement_meta) \<times> hires_renderer" where
  "resolve_hires_compat_replacement_descriptor gpu order dec checksum formatsize selector m s =
     resolve_descriptor gpu order (checksum_key CompatKey checksum formatsize selector)
       (decode_compat dec checksum formatsize selector)
       (\<lambda>c. c\<lparr>descriptor_compat_resolutions := descriptor_compat_resolutions c + 1\<rparr>) m s"


datatype hires_provider_descriptor_path_kind = PathNone | PathSampled | PathNativeChecksum | PathCompat

text \<open>The path taken: its kind, the selector used and the name of the path.\<close>

type_synonym resolved_path = "hires_provider_descriptor_path_kind \<times> u64 \<times> string option"

definition try_sampled ::
    "gpu_device \<Rightarrow> walk_order \<Rightarrow> decoders \<Rightarrow> replacement_resolution \<Rightarrow> u64 \<Rightarrow> replacement_meta \<Rightarrow> hires_renderer \<Rightarrow>
     (bool \<times> replacement_meta) \<times> hires_renderer" where
  "try_sampled gpu order dec res selector m s =
     (if \<not> id_valid (identity res) then ((False, m), s)
      else resolve_hires_sampled_replacement_descriptor gpu order dec (id_sig (identity res))
             (id_formatsize (identity res)) selector m s)"

definition try_native_checksum ::
    "gpu_device \<Rightarrow> walk_order \<Rightarrow> decoders \<Rightarrow> replacement_resolution \<Rightarrow> u16 \<Rightarrow> u64 \<Rightarrow> hires_native_checksum_detail_class \<Rightarrow>
     replacement_meta \<Rightarrow> hires_renderer \<Rightarrow> (bool \<times> replacement_meta) \<times> hires_renderer" where
  "try_native_checksum gpu order dec res formatsize selector detail_class m s =
     resolve_hires_native_checksum_replacement_descriptor gpu order dec (resolved_checksum64 res) formatsize
       selector detail_class m s"

definition finish_path ::
    "hires_provider_descriptor_path_kind \<Rightarrow> string \<Rightarrow> u64 \<Rightarrow> (bool \<times> replacement_meta) \<times> hires_renderer \<Rightarrow>
     (replacement_meta \<times> resolved_path) option \<times> hires_renderer" where
  "finish_path path_kind path_class selector out =
     (case out of ((hit, m), s) \<Rightarrow> (if hit then Some (m, path_kind, selector, Some path_class) else None, s))"

definition resolve_hires_provider_resolution_descriptor ::
    "gpu_device \<Rightarrow> walk_order \<Rightarrow> decoders \<Rightarrow> replacement_resolution \<Rightarrow> u16 \<Rightarrow> u32 \<Rightarrow> u32 \<Rightarrow> replacement_meta \<Rightarrow>
     hires_renderer \<Rightarrow> (bool \<times> replacement_meta \<times> resolved_path) \<times> hires_renderer" where
  "resolve_hires_provider_resolution_descriptor gpu order dec res formatsize width height m s =
     (let m = m\<lparr>vk_image_index := hires_invalid_descriptor_index\<rparr>;
          none = (PathNone, resolved_selector_checksum64 res, None)
      in if \<not> attached s \<or> \<not> hires_replacement_shader s \<or> \<not> available res then ((False, m, none), s)
      else
        let rm = (meta res)\<lparr>orig_w := width, orig_h := height\<rparr>;
            sampled = (\<lambda>selector. finish_path PathSampled ''sampled'' selector
              (try_sampled gpu order dec res selector rm s));
            native = (\<lambda>selector detail_class m s. finish_path PathNativeChecksum ''native_checksum'' selector
              (try_native_checksum gpu order dec res formatsize selector detail_class m s));
            sampled_or_native = (\<lambda>selector detail_class.
              (case try_sampled gpu order dec res selector rm s of
                 ((True, m), s) \<Rightarrow> finish_path PathSampled ''sampled'' selector ((True, m), s)
               | ((False, m), s) \<Rightarrow> native selector detail_class m s));
            own = id_selector_checksum64 (identity res); given = resolved_selector_checksum64 res;
            out =
              (case kind res of
                 SampledExactSelector \<Rightarrow> sampled given
               | SampledOrderedSurfaceReservedSelector \<Rightarrow> sampled given
               | SampledFamilySingleton \<Rightarrow> sampled given
               | ExactNativeSampled \<Rightarrow>
                   if \<not> id_valid (identity res) then (None, s) else sampled_or_native own DetailExact
               | GenericNativeIdentity \<Rightarrow>
                   if \<not> id_valid (identity res) then (None, s) else sampled_or_native own DetailIdentityAssisted
               | GenericNativeChecksum \<Rightarrow> native given DetailGenericFallback rm s
               | NoResolution \<Rightarrow> (None, s)
               | _ \<Rightarrow> finish_path PathCompat ''compat'' given
                   (resolve_hires_compat_replacement_descriptor gpu order dec (resolved_checksum64 res) formatsize given rm s))
        in case out of
             (Some (m', path), s) \<Rightarrow> ((True, m'\<lparr>orig_w := width, orig_h := height\<rparr>, path), s)
           | (None, s) \<Rightarrow> ((False, m, none), s))"

section \<open>Tiles\<close>

definition clear_hires_tile_binding :: "nat \<Rightarrow> hires_renderer \<Rightarrow> hires_renderer" where
  "clear_hires_tile_binding tile s = s\<lparr>tile_replacements := (tile_replacements s)[tile := no_tile_replacement]\<rparr>"

definition apply_hires_tile_binding :: "nat \<Rightarrow> replacement_tile_state \<Rightarrow> hires_renderer \<Rightarrow> hires_renderer" where
  "apply_hires_tile_binding tile st s =
     (if \<not> ts_hit st \<or> \<not> hires_descriptor_index_valid (ts_vk_image_index st) \<or>
         ts_orig_w st = 0 \<or> ts_orig_h st = 0 \<or> ts_repl_w st = 0 \<or> ts_repl_h st = 0
      then clear_hires_tile_binding tile s
      else s\<lparr>tile_replacements := (tile_replacements s)[tile :=
             \<lparr>repl_orig_w = ts_orig_w st, repl_orig_h = ts_orig_h st, tr_repl_w = ts_repl_w st,
              tr_repl_h = ts_repl_h st, repl_desc_index = ts_vk_image_index st\<rparr>]\<rparr>)"

definition write_hires_lookup_tile_state ::
    "replacement_tile_state \<Rightarrow> bool \<Rightarrow> u64 \<Rightarrow> u64 \<Rightarrow> u64 \<Rightarrow> u16 \<Rightarrow> u32 \<Rightarrow> u32 \<Rightarrow> replacement_tile_state" where
  "write_hires_lookup_tile_state st hit checksum upload_checksum selector formatsize width height =
     st\<lparr>ts_valid := True, ts_hit := hit, ts_checksum64 := checksum, ts_upload_checksum64 := upload_checksum,
        ts_selector_checksum64 := selector, ts_formatsize := formatsize,
        ts_orig_w := clamp_hires_dimension_u16 width, ts_orig_h := clamp_hires_dimension_u16 height\<rparr>"

definition should_alias_hires_tile_binding :: "tile_meta \<Rightarrow> tile_meta \<Rightarrow> bool" where
  "should_alias_hires_tile_binding source_meta target_meta \<longleftrightarrow>
     tm_offset source_meta = tm_offset target_meta \<and> tm_stride source_meta = tm_stride target_meta \<and>
     tm_fmt source_meta = tm_fmt target_meta \<and> tm_size source_meta = tm_size target_meta \<and>
     tm_palette source_meta = tm_palette target_meta"

definition should_alias_hires_load_binding :: "tile_meta \<Rightarrow> tile_meta \<Rightarrow> bool" where
  "should_alias_hires_load_binding source_meta target_meta \<longleftrightarrow> tm_offset source_meta = tm_offset target_meta"

definition should_apply_hires_propagated_binding :: "tile_meta \<Rightarrow> tile_meta \<Rightarrow> bool" where
  "should_apply_hires_propagated_binding source_meta target_meta \<longleftrightarrow>
     should_alias_hires_tile_binding source_meta target_meta \<or> should_alias_hires_load_binding source_meta target_meta"

definition MaxNumTiles :: nat where "MaxNumTiles = 8"

text \<open>A load forgets what was bound to the tiles that start at the same place.\<close>

definition forget_loaded_bindings :: "nat \<Rightarrow> hires_renderer \<Rightarrow> hires_renderer" where
  "forget_loaded_bindings tile s =
     fold (\<lambda>i s. if should_alias_hires_load_binding (tile_metas s ! tile) (tile_metas s ! i)
                 then clear_hires_tile_binding i (s\<lparr>replacement_tiles := (replacement_tiles s)[i := no_tile_state]\<rparr>)
                 else s) [0..<MaxNumTiles] s"

text \<open>The result of a lookup is bound to the tile and to those that alias it.\<close>

definition bind_lookup_result ::
    "nat \<Rightarrow> bool \<Rightarrow> bool \<Rightarrow> u64 \<Rightarrow> u64 \<Rightarrow> u64 \<Rightarrow> u16 \<Rightarrow> u32 \<Rightarrow> u32 \<Rightarrow> replacement_meta \<Rightarrow> hires_renderer \<Rightarrow> hires_renderer" where
  "bind_lookup_result tile hit filtered checksum upload_checksum selector formatsize width height m s =
     (let st = write_hires_lookup_tile_state (replacement_tiles s ! tile) hit checksum upload_checksum selector
                 formatsize width height;
          st = st\<lparr>ts_repl_w := ucast (repl_w m), ts_repl_h := ucast (repl_h m), ts_vk_image_index := vk_image_index m\<rparr>;
          s = apply_hires_tile_binding tile st (s\<lparr>replacement_tiles := (replacement_tiles s)[tile := st]\<rparr>);
          s = fold (\<lambda>i s. if i = tile \<or> \<not> should_apply_hires_propagated_binding (tile_metas s ! tile) (tile_metas s ! i)
                          then s
                          else apply_hires_tile_binding i st (s\<lparr>replacement_tiles := (replacement_tiles s)[i := st]\<rparr>))
                [0..<MaxNumTiles] s;
          c = counters s; c = c\<lparr>hires_lookup_total := hires_lookup_total c + 1\<rparr>
      in s\<lparr>counters :=
            (if filtered then c\<lparr>hires_lookup_filtered := hires_lookup_filtered c + 1\<rparr>
             else if hit then c\<lparr>hires_lookup_hits := hires_lookup_hits c + 1\<rparr>
             else c\<lparr>hires_lookup_misses := hires_lookup_misses c + 1\<rparr>)\<rparr>)"

definition set_tile_meta :: "nat \<Rightarrow> tile_meta \<Rightarrow> hires_renderer \<Rightarrow> hires_renderer" where
  "set_tile_meta tile tm s = s\<lparr>tile_metas := (tile_metas s)[tile := tm]\<rparr>"

section \<open>Configuration\<close>

record hires_processor =
  replacement_provider :: provider
  hires_renderer :: hires_renderer
  gliden64_compat_crc_override :: "bool option"

definition configure_hires_replacement ::
    "gpu_device \<Rightarrow> file_system \<Rightarrow> (string \<Rightarrow> string list option) \<Rightarrow> bool \<Rightarrow> string option \<Rightarrow> hires_processor \<Rightarrow> hires_processor" where
  "configure_hires_replacement gpu fs listing enable cache_path c =
     (let p = set_enabled (clear_provider (replacement_provider c)) enable;
          s = (set_replacement_provider gpu None (hires_renderer c))\<lparr>gliden64_compat_crc_enabled := False\<rparr>;
          outcome = classify_hires_configure_outcome enable cache_path False
      in if outcome = Disabled \<or> outcome = MissingPath then c\<lparr>replacement_provider := p, hires_renderer := s\<rparr>
         else
           let (p, load_ok) = load_cache_dir fs listing (the cache_path) p;
               outcome = classify_hires_configure_outcome enable cache_path load_ok
           in if outcome = LoadFailed then c\<lparr>replacement_provider := p, hires_renderer := s\<rparr>
              else
                let s = (if should_attach_hires_provider outcome
                         then set_replacement_provider gpu (Some (of_nat (length (entries p)))) s else s);
                    auto = has_phrb_compat_entries p
                in c\<lparr>replacement_provider := p,
                     hires_renderer := s\<lparr>gliden64_compat_crc_enabled :=
                       (case gliden64_compat_crc_override c of Some e \<Rightarrow> e | None \<Rightarrow> auto)\<rparr>\<rparr>)"

end
