(* ===== verification/Hires_Properties.thy ===== *)
theory Hires_Properties
  imports Hires_Residency
begin

text \<open>
  What a descriptor shows. Descriptors are never shared or handed out beyond the pool; the shaders
  see under the descriptor of a resolution the replacement the key stands for; as long as nothing
  is evicted, the descriptors bound to tiles go on showing it, and nothing ever is, since the
  budget is lost when a pack is attached.
\<close>

section \<open>The invariant of the descriptors\<close>

definition held :: "hires_resources \<Rightarrow> u32 list" where
  "held r = map (\<lambda>x. descriptor_index (snd x)) (resident_images r)"

definition resources_ok :: "hires_resources \<Rightarrow> bool" where
  "resources_ok r \<longleftrightarrow> distinct (map fst (resident_images r)) \<and> distinct (held r @ recycled_descriptors r) \<and>
     (\<forall>d \<in> set (held r) \<union> set (recycled_descriptors r). 0 < d \<and> d < next_descriptor r) \<and>
     0 < next_descriptor r \<and> (next_descriptor r \<le> hr_capacity r \<or> next_descriptor r = 1)"

text \<open>The replacement a key stands for.\<close>

definition decode_key :: "decoders \<Rightarrow> hires_key \<Rightarrow> replacement_image option" where
  "decode_key dec k =
     (case hk_source k of
        NativeSampledKey \<Rightarrow> decode_sampled dec (hk_sampled k) (hk_formatsize k) (hk_selector_checksum64 k)
      | NativeChecksumKey \<Rightarrow> decode_native dec (hk_checksum64 k) (hk_formatsize k) (hk_selector_checksum64 k)
      | CompatKey \<Rightarrow> decode_compat dec (hk_checksum64 k) (hk_formatsize k) (hk_selector_checksum64 k)
      | _ \<Rightarrow> None)"

lemma decode_key_simps [simp]:
  "decode_key dec (sampled_key sg f sel) = decode_sampled dec sg f sel"
  "decode_key dec (checksum_key NativeChecksumKey c f sel) = decode_native dec c f sel"
  "decode_key dec (checksum_key CompatKey c f sel) = decode_compat dec c f sel"
  by (simp_all add: decode_key_def sampled_key_def checksum_key_def)

definition pool_shows :: "hires_resources \<Rightarrow> u32 \<Rightarrow> gpu_image \<Rightarrow> bool" where
  "pool_shows r d v \<longleftrightarrow> (\<exists>pool. bindless_pool r = Some pool \<and> pool d = Some v)"

definition resident_shown :: "decoders \<Rightarrow> hires_resources \<Rightarrow> bool" where
  "resident_shown dec r \<longleftrightarrow> (\<forall>(k, im) \<in> set (resident_images r). \<exists>img. decode_key dec k = Some img \<and>
     pool_shows r (descriptor_index im) (uploaded img) \<and>
     ri_repl_w im = ucast (repl_w (img_meta img)) \<and> ri_repl_h im = ucast (repl_h (img_meta img)))"

lemma resources_ok_start: "resources_ok no_resources" "resident_shown dec no_resources"
  by (simp_all add: resources_ok_def resident_shown_def no_resources_def held_def)

lemma no_resources_budget:
  "resources_ok (r\<lparr>gpu_budget_bytes := b\<rparr>) = resources_ok r" "resources_ok (r\<lparr>frame_tick := n\<rparr>) = resources_ok r"
  "resident_shown dec (r\<lparr>gpu_budget_bytes := b\<rparr>) = resident_shown dec r"
  "resident_shown dec (r\<lparr>frame_tick := n\<rparr>) = resident_shown dec r"
  "pool_shows (r\<lparr>gpu_budget_bytes := b\<rparr>) = pool_shows r" "pool_shows (r\<lparr>frame_tick := n\<rparr>) = pool_shows r"
  by (simp_all add: resources_ok_def resident_shown_def held_def pool_shows_def fun_eq_iff)

section \<open>Allocation\<close>

lemma find_lru_least:
  assumes "find_lru best its = Some x"
  shows "(x \<in> set its \<or> best = Some x) \<and> (\<forall>y \<in> set its \<union> set_option best. last_used_tick (snd x) \<le> last_used_tick (snd y))"
  using assms
proof (induction best its arbitrary: x rule: find_lru.induct)
  case (3 best it its)
  let ?b = "if last_used_tick (snd it) < last_used_tick (snd best) then it else best"
  from "3.IH" [of x] "3.prems" have "x \<in> set its \<or> ?b = x"
    "\<forall>y \<in> set its \<union> {?b}. last_used_tick (snd x) \<le> last_used_tick (snd y)" by auto
  then show ?case by (auto split: if_splits simp: not_less)
qed auto

lemma not_above_max: "\<not> (0xffffffff :: u32) < w"
  using unat_u32_less [of w] by (simp add: word_less_nat_alt)

text \<open>What an allocation leaves: a descriptor nothing else has, and some of the resident images.\<close>

definition allocates :: "hires_resources \<Rightarrow> u32 \<Rightarrow> hires_resources \<Rightarrow> bool" where
  "allocates r d r' \<longleftrightarrow> resources_ok r' \<and> d \<notin> set (held r') \<union> set (recycled_descriptors r') \<and> 0 < d \<and>
     d < next_descriptor r' \<and> set (resident_images r') \<subseteq> set (resident_images r) \<and> bindless_pool r' = bindless_pool r \<and>
     hr_capacity r' = hr_capacity r \<and> frame_tick r' = frame_tick r \<and> gpu_budget_bytes r' = gpu_budget_bytes r"

lemma take_descriptor_ok:
  assumes ok: "resources_ok r" and t: "take_descriptor n r = (d, r')"
  shows "if d = 0xffffffff then r' = r else allocates r d r' \<and> resident_images r' = resident_images r \<and>
    (recycled_descriptors r = [] \<longrightarrow> d = next_descriptor r)"
proof (cases "recycled_descriptors r = []")
  case False
  then have split: "recycled_descriptors r = butlast (recycled_descriptors r) @ [d]"
    using t by (auto simp: take_descriptor_def)
  have d: "0 < d" "d < next_descriptor r" "d \<noteq> 0xffffffff"
  proof -
    have "d \<in> set (recycled_descriptors r)" by (subst split) simp
    with ok show "0 < d" "d < next_descriptor r" by (auto simp: resources_ok_def)
    then show "d \<noteq> 0xffffffff" using not_above_max [of "next_descriptor r"] by auto
  qed
  have r': "r' = r\<lparr>recycled_descriptors := butlast (recycled_descriptors r), gpu_resident_bytes := gpu_resident_bytes r + n\<rparr>"
    using t False by (auto simp: take_descriptor_def)
  have "distinct (held r @ butlast (recycled_descriptors r) @ [d])" "\<forall>e \<in> set (butlast (recycled_descriptors r)). 0 < e \<and> e < next_descriptor r"
    using ok split by (auto simp: resources_ok_def dest: in_set_butlastD)
  then have "allocates r d r'" using ok d unfolding r' by (auto simp: allocates_def resources_ok_def held_def)
  with d(3) False show ?thesis by (simp add: r')
next
  case True
  show ?thesis
  proof (cases "next_descriptor r \<ge> hr_capacity r")
    case True
    then show ?thesis using t \<open>recycled_descriptors r = []\<close> by (auto simp: take_descriptor_def)
  next
    case False
    then have d: "d = next_descriptor r" "r' = r\<lparr>next_descriptor := next_descriptor r + 1, gpu_resident_bytes := gpu_resident_bytes r + n\<rparr>"
      using t True by (auto simp: take_descriptor_def)
    have less: "next_descriptor r < next_descriptor r + 1" "next_descriptor r + 1 \<le> hr_capacity r"
    proof -
      have n: "unat (next_descriptor r) < unat (hr_capacity r)" using False by (simp add: not_le word_less_nat_alt)
      then have "unat (next_descriptor r + 1) = unat (next_descriptor r) + 1"
        using unat_u32_less [of "hr_capacity r"] by (simp add: unat_word_ariths)
      with n show "next_descriptor r < next_descriptor r + 1" "next_descriptor r + 1 \<le> hr_capacity r"
        by (simp_all add: word_less_nat_alt word_le_nat_alt)
    qed
    have "d \<noteq> 0xffffffff" using False d(1) not_above_max [of "hr_capacity r"] by auto
    moreover have "allocates r d r'"
      using ok less True unfolding d by (fastforce simp: allocates_def resources_ok_def held_def)
    ultimately show ?thesis using d by simp
  qed
qed


lemma delete_filter: "AList.delete k xs = filter (\<lambda>x. fst x \<noteq> k) xs"
  by (auto simp: AList.delete_eq intro!: filter_cong)

lemma held_delete:
  assumes "distinct (map fst xs)" "distinct (map f xs)" "x \<in> set xs"
  shows "set (map f (AList.delete (fst x) xs)) = set (map f xs) - {f x}"
proof -
  have "y = x" if "y \<in> set xs" "fst y = fst x" for y
    using assms(1,3) that by (auto simp: distinct_map dest: inj_onD)
  then have "set (AList.delete (fst x) xs) = set xs - {x}" unfolding delete_filter by auto
  moreover have "inj_on f (set xs)" using assms(2) by (simp add: distinct_map)
  ultimately show ?thesis using assms(3) by (simp add: inj_on_image_set_diff [of f "set xs"])
qed

lemma evict_oldest_ok:
  assumes ok: "resources_ok r" and order: "set (order (resident_images r)) = set (resident_images r)"
  shows "resources_ok (evict_oldest order r)" "set (resident_images (evict_oldest order r)) \<subseteq> set (resident_images r)"
    "bindless_pool (evict_oldest order r) = bindless_pool r" "hr_capacity (evict_oldest order r) = hr_capacity r"
    "frame_tick (evict_oldest order r) = frame_tick r" "gpu_budget_bytes (evict_oldest order r) = gpu_budget_bytes r"
proof -
  show "resources_ok (evict_oldest order r)"
  proof (cases "find_lru None (order (resident_images r))")
    case (Some x)
    obtain k im where x: "x = (k, im)" by (cases x)
    have mem: "(k, im) \<in> set (resident_images r)" using find_lru_least [OF Some] order by (auto simp: x)
    let ?r = "evict_oldest order r"
    have fields: "resident_images ?r = AList.delete k (resident_images r)" "next_descriptor ?r = next_descriptor r"
      "recycled_descriptors ?r = recycled_descriptors r @ [descriptor_index im]" "hr_capacity ?r = hr_capacity r"
      by (simp_all add: evict_oldest_def Some x)
    have h: "set (held ?r) = set (held r) - {descriptor_index im}"
      using held_delete [of "resident_images r" "\<lambda>x. descriptor_index (snd x)" "(k, im)"] ok mem
      by (simp add: held_def fields resources_ok_def)
    have "distinct (held ?r)" using ok by (auto simp: resources_ok_def held_def fields delete_filter distinct_map_filter)
    moreover have "distinct (map fst (resident_images ?r))" using ok by (simp add: fields resources_ok_def distinct_delete)
    moreover have "descriptor_index im \<in> set (held r)" using mem by (force simp: held_def)
    ultimately show ?thesis using ok h by (auto simp: resources_ok_def fields)
  qed (simp add: evict_oldest_def ok)
qed (auto simp: evict_oldest_def delete_filter split: option.split prod.split)

definition walks_all :: "walk_order \<Rightarrow> bool" where
  "walks_all order \<longleftrightarrow> (\<forall>xs. set (order xs) = set xs)"

lemma allocate_ok:
  assumes ok: "resources_ok r" and order: "walks_all order" and a: "allocate_hires_descriptor order n r = (d, r')" and d: "d \<noteq> 0xffffffff"
  shows "allocates r d r'"
proof (cases "decide_hires_registry_budget (gpu_resident_bytes r) n (gpu_budget_bytes r) True (resident_images r \<noteq> [])")
  case Admit
  with a take_descriptor_ok [OF ok] d show ?thesis by (auto simp: allocate_hires_descriptor_def split: if_splits)
next
  case EvictOldestThenAdmit
  have o: "set (order (resident_images r)) = set (resident_images r)" using order by (simp add: walks_all_def)
  note e = evict_oldest_ok [OF ok, of order, OF o]
  have "allocates (evict_oldest order r) d r'"
    using a EvictOldestThenAdmit take_descriptor_ok [OF e(1)] d by (auto simp: allocate_hires_descriptor_def split: if_splits)
  with e(2-6) show ?thesis by (auto simp: allocates_def)
qed (use a d in \<open>simp add: allocate_hires_descriptor_def\<close>)

lemma allocate_fails:
  assumes ok: "resources_ok r" and order: "walks_all order" and a: "allocate_hires_descriptor order n r = (0xffffffff, r')"
  shows "resources_ok r'" "set (resident_images r') \<subseteq> set (resident_images r)" "bindless_pool r' = bindless_pool r"
    "frame_tick r' = frame_tick r" "gpu_budget_bytes r' = gpu_budget_bytes r"
proof -
  have o: "set (order (resident_images r)) = set (resident_images r)" using order by (simp add: walks_all_def)
  note e = evict_oldest_ok [OF ok, of order, OF o]
  have "r' = r \<or> r' = evict_oldest order r"
    using a take_descriptor_ok [OF ok, of n "0xffffffff" r'] take_descriptor_ok [OF e(1), of n "0xffffffff" r']
    by (auto simp: allocate_hires_descriptor_def split: hires_registry_budget_decision.splits)
  then show "resources_ok r'" "set (resident_images r') \<subseteq> set (resident_images r)" "bindless_pool r' = bindless_pool r"
    "frame_tick r' = frame_tick r" "gpu_budget_bytes r' = gpu_budget_bytes r"
    using ok e by (auto simp: )
qed


section \<open>Resolution\<close>

lemma resident_shown_subset:
  "resident_shown dec r \<Longrightarrow> set (resident_images r') \<subseteq> set (resident_images r) \<Longrightarrow> bindless_pool r' = bindless_pool r \<Longrightarrow>
   resident_shown dec r'"
  by (fastforce simp: resident_shown_def pool_shows_def)

definition gives :: "decoders \<Rightarrow> hires_resources \<Rightarrow> hires_key \<Rightarrow> u32 \<Rightarrow> u32 \<Rightarrow> u32 \<Rightarrow> bool" where
  "gives dec r key d w h \<longleftrightarrow> (\<exists>img. decode_key dec key = Some img \<and> pool_shows r d (uploaded img) \<and>
     ucast w = (ucast (repl_w (img_meta img)) :: u16) \<and> ucast h = (ucast (repl_h (img_meta img)) :: u16) \<and>
     0 < d \<and> d < next_descriptor r)"

lemma touch_resident_ok:
  assumes ok: "resources_ok r" and s: "resident_shown dec r" and k: "map_of (resident_images r) key = Some im"
  shows "resources_ok (touch_resident key im r)" "resident_shown dec (touch_resident key im r)"
proof -
  have mem: "(key, im) \<in> set (resident_images r)" using k by (rule map_of_SomeD)
  let ?im = "im\<lparr>last_used_tick := frame_tick r\<rparr>"
  have upd: "map f (AList.update key ?im xs) = map f xs"
    if "map_of xs key = Some im" "f (key, ?im) = f (key, im)" for f :: "hires_key \<times> hires_resident_image \<Rightarrow> 'c" and xs
    using that by (induction xs) auto
  have "held (touch_resident key im r) = held r" "map fst (resident_images (touch_resident key im r)) = map fst (resident_images r)"
    using upd [OF k, of "\<lambda>x. descriptor_index (snd x)"] upd [OF k, of fst] by (simp_all add: held_def touch_resident_def)
  then show "resources_ok (touch_resident key im r)" using ok by (simp add: resources_ok_def) (simp add: touch_resident_def)
  have "set (AList.update key ?im xs) \<subseteq> insert (key, ?im) (set xs)" for xs by (induction xs) auto
  then show "resident_shown dec (touch_resident key im r)"
    using s mem by (fastforce simp: resident_shown_def touch_resident_def pool_shows_def)
qed

lemma upload_ok:
  assumes ok: "resources_ok r" and s: "resident_shown dec r" and order: "walks_all order"
    and k: "map_of (resident_images r) key = None"
    and u: "upload_replacement gpu order key (decode_key dec key) r = (out, r')"
  shows "resources_ok r' \<and> resident_shown dec r' \<and> (\<forall>d w h. out = Some (d, w, h) \<longrightarrow> gives dec r' key d w h)"
proof (cases "bindless_pool r")
  case None
  with u ok s show ?thesis by (auto simp: upload_replacement_def)
next
  case (Some pool)
  show ?thesis
  proof (cases "\<exists>img. decode_key dec key = Some img \<and> \<not> (rgba8 img = [] \<or> repl_w (img_meta img) = 0 \<or> repl_h (img_meta img) = 0)")
    case False
    with u Some ok s show ?thesis by (auto simp: upload_replacement_def split: option.splits if_splits)
  next
    case True
    then obtain img where img: "decode_key dec key = Some img"
      "\<not> (rgba8 img = [] \<or> repl_w (img_meta img) = 0 \<or> repl_h (img_meta img) = 0)" by blast
    obtain d r1 where a: "allocate_hires_descriptor order (texture_bytes img) r = (d, r1)" by fastforce
    have u1: "(if d = 0xffffffff then (None, r1)
       else if \<not> image_created gpu (uploaded img) then (None, r1)
       else let r2 = set_texture d (uploaded img) r1;
                resident = \<lparr>ri_image = uploaded img, descriptor_index = d, ri_repl_w = ucast (repl_w (img_meta img)),
                  ri_repl_h = ucast (repl_h (img_meta img)), last_used_tick = frame_tick r2, resident_bytes = texture_bytes img\<rparr>
            in (Some (d, repl_w (img_meta img), repl_h (img_meta img)), emplace_resident key resident r2)) = (out, r')"
      using u Some img a by (simp add: upload_replacement_def)
    show ?thesis
    proof (cases "d = 0xffffffff")
      case True
      note f = allocate_fails [OF ok order a [unfolded True]]
      from u1 True have "r' = r1" "out = None" by auto
      with f resident_shown_subset [OF s f(2,3)] show ?thesis by simp
    next
      case False
      from allocate_ok [OF ok order a False] have al: "allocates r d r1" .
      have s1: "resident_shown dec r1" by (rule resident_shown_subset [OF s]) (use al in \<open>auto simp: allocates_def\<close>)
      show ?thesis
      proof (cases "image_created gpu (uploaded img)")
        case False
        with u1 \<open>d \<noteq> 0xffffffff\<close> s1 al show ?thesis by (auto simp: allocates_def)
      next
        case True
        let ?r2 = "set_texture d (uploaded img) r1"
        let ?im = "\<lparr>ri_image = uploaded img, descriptor_index = d, ri_repl_w = ucast (repl_w (img_meta img)),
          ri_repl_h = ucast (repl_h (img_meta img)), last_used_tick = frame_tick ?r2, resident_bytes = texture_bytes img\<rparr>"
        have out: "out = Some (d, repl_w (img_meta img), repl_h (img_meta img))" "r' = emplace_resident key ?im ?r2"
          using u1 True \<open>d \<noteq> 0xffffffff\<close> by (auto simp: Let_def)
        have "key \<notin> fst ` set (resident_images r)" using k by (simp add: map_of_eq_None_iff)
        then have new: "key \<notin> fst ` set (resident_images r1)" using al by (auto simp: allocates_def)
        then have fields: "resident_images r' = (key, ?im) # resident_images r1" "bindless_pool r' = Some (pool(d \<mapsto> uploaded img))"
          "next_descriptor r' = next_descriptor r1" "recycled_descriptors r' = recycled_descriptors r1" "hr_capacity r' = hr_capacity r1"
          using al Some by (simp_all add: out(2) emplace_resident_def set_texture_def map_of_eq_None_iff allocates_def)
        have "resources_ok r'" using al new by (auto simp: resources_ok_def held_def fields allocates_def)
        moreover have "descriptor_index im \<noteq> d" if "(k', im) \<in> set (resident_images r1)" for k' im
          using al that by (force simp: allocates_def held_def)
        then have "resident_shown dec r'"
          using s1 img(1) al Some by (fastforce simp: resident_shown_def fields pool_shows_def allocates_def)
        moreover have "gives dec r' key d (repl_w (img_meta img)) (repl_h (img_meta img))"
          using img(1) al by (simp add: gives_def pool_shows_def fields allocates_def)
        ultimately show ?thesis using out(1) by simp
      qed
    qed
  qed
qed

lemma find_or_upload_ok:
  assumes ok: "resources_ok r" and s: "resident_shown dec r" and order: "walks_all order"
    and u: "find_or_upload gpu order key (decode_key dec key) r = (out, r')"
  shows "resources_ok r' \<and> resident_shown dec r' \<and> (\<forall>d w h. out = Some (d, w, h) \<longrightarrow> gives dec r' key d w h)"
proof (cases "map_of (resident_images r) key")
  case None
  with upload_ok [OF ok s order None] u show ?thesis by (simp add: find_or_upload_def)
next
  case (Some im)
  then have mem: "(key, im) \<in> set (resident_images r)" by (rule map_of_SomeD)
  from u Some have r': "r' = touch_resident key im r" "out = Some (descriptor_index im, ucast (ri_repl_w im), ucast (ri_repl_h im))"
    by (auto simp: find_or_upload_def)
  obtain img where img: "decode_key dec key = Some img" "pool_shows r (descriptor_index im) (uploaded img)"
    "ri_repl_w im = ucast (repl_w (img_meta img))" "ri_repl_h im = ucast (repl_h (img_meta img))"
    using s mem by (fastforce simp: resident_shown_def)
  have "descriptor_index im \<in> set (held r)" using mem by (force simp: held_def)
  then have "0 < descriptor_index im" "descriptor_index im < next_descriptor r" using ok by (auto simp: resources_ok_def)
  then have "gives dec r' key (descriptor_index im) (ucast (ri_repl_w im)) (ucast (ri_repl_h im))"
    using img by (simp add: gives_def r'(1) touch_resident_def pool_shows_def ucast_up_ucast_id is_up)
  with touch_resident_ok [OF ok s Some] show ?thesis by (simp add: r')
qed


section \<open>The renderer\<close>

definition residency_ok :: "decoders \<Rightarrow> hires_renderer \<Rightarrow> bool" where
  "residency_ok dec s \<longleftrightarrow> resources_ok (hires_resources s) \<and> resident_shown dec (hires_resources s)"

text \<open>What a resolution may leave of the renderer.\<close>

definition only_resources :: "hires_renderer \<Rightarrow> hires_renderer \<Rightarrow> bool" where
  "only_resources s s' \<longleftrightarrow> (\<exists>r c. s' = s\<lparr>hires_resources := r, counters := c\<rparr>)"

lemma only_resources_refl: "only_resources s s"
  unfolding only_resources_def by (rule exI [of _ "hires_resources s"], rule exI [of _ "counters s"]) simp

lemma only_resources_trans: "only_resources s s' \<Longrightarrow> only_resources s' s'' \<Longrightarrow> only_resources s s''"
  by (force simp: only_resources_def)


text \<open>A resolution that finds a descriptor gives one that shows the replacement of its key.\<close>

definition resolution_good :: "decoders \<Rightarrow> hires_key \<Rightarrow> replacement_meta \<Rightarrow> hires_renderer \<Rightarrow>
    (bool \<times> replacement_meta) \<times> hires_renderer \<Rightarrow> bool" where
  "resolution_good dec key m s out \<longleftrightarrow>
     (case out of ((hit, m'), s') \<Rightarrow> residency_ok dec s' \<and> only_resources s s' \<and> orig_w m' = orig_w m \<and> orig_h m' = orig_h m \<and>
        (hit \<longrightarrow> gives dec (hires_resources s') key (vk_image_index m') (repl_w m') (repl_h m')))"

lemma resolve_descriptor_good:
  assumes ok: "residency_ok dec s" and order: "walks_all order"
  shows "resolution_good dec key m s (resolve_descriptor gpu order key (decode_key dec key) f m s)"
proof -
  obtain res r where u: "find_or_upload gpu order key (decode_key dec key) (hires_resources s) = (res, r)" by fastforce
  have r: "resources_ok r" "resident_shown dec r" "\<And>d w h. res = Some (d, w, h) \<Longrightarrow> gives dec r key d w h"
    using find_or_upload_ok [OF _ _ order u] ok by (auto simp: residency_ok_def)
  have "only_resources s (s\<lparr>hires_resources := r\<rparr>)" "only_resources s (s\<lparr>hires_resources := r, counters := c\<rparr>)" for c
    unfolding only_resources_def by (force intro: exI [of _ "counters s"])+
  with u r ok only_resources_refl show ?thesis
    by (cases res) (auto simp: resolve_descriptor_def resolution_good_def residency_ok_def Let_def)
qed

lemma try_sampled_good:
  assumes "residency_ok dec s" "walks_all order"
  shows "resolution_good dec (sampled_key (id_sig (identity res)) (id_formatsize (identity res)) selector) m s
    (try_sampled gpu order dec res selector m s)"
  using resolve_descriptor_good [OF assms, of "sampled_key (id_sig (identity res)) (id_formatsize (identity res)) selector"]
    assms(1) only_resources_refl
  by (auto simp: try_sampled_def resolve_hires_sampled_replacement_descriptor_def resolution_good_def)

lemma try_native_good:
  assumes "residency_ok dec s" "walks_all order"
  shows "resolution_good dec (checksum_key NativeChecksumKey (resolved_checksum64 res) formatsize selector) m s
    (try_native_checksum gpu order dec res formatsize selector detail_class m s)"
  using resolve_descriptor_good [OF assms, of "checksum_key NativeChecksumKey (resolved_checksum64 res) formatsize selector"]
  by (simp add: try_native_checksum_def resolve_hires_native_checksum_replacement_descriptor_def)

lemma try_compat_good:
  assumes "residency_ok dec s" "walks_all order"
  shows "resolution_good dec (checksum_key CompatKey (resolved_checksum64 res) formatsize selector) m s
    (resolve_hires_compat_replacement_descriptor gpu order dec (resolved_checksum64 res) formatsize selector m s)"
  using resolve_descriptor_good [OF assms, of "checksum_key CompatKey (resolved_checksum64 res) formatsize selector"]
  by (simp add: resolve_hires_compat_replacement_descriptor_def)

text \<open>The key of the path a resolution took.\<close>

definition key_of_path :: "replacement_resolution \<Rightarrow> u16 \<Rightarrow> resolved_path \<Rightarrow> hires_key option" where
  "key_of_path res formatsize path =
     (case path of (path_kind, selector, _) \<Rightarrow>
        (case path_kind of
           PathNone \<Rightarrow> None
         | PathSampled \<Rightarrow> Some (sampled_key (id_sig (identity res)) (id_formatsize (identity res)) selector)
         | PathNativeChecksum \<Rightarrow> Some (checksum_key NativeChecksumKey (resolved_checksum64 res) formatsize selector)
         | PathCompat \<Rightarrow> Some (checksum_key CompatKey (resolved_checksum64 res) formatsize selector)))"

definition path_good :: "decoders \<Rightarrow> replacement_resolution \<Rightarrow> u16 \<Rightarrow> hires_renderer \<Rightarrow>
    (replacement_meta \<times> resolved_path) option \<times> hires_renderer \<Rightarrow> bool" where
  "path_good dec res formatsize s out \<longleftrightarrow>
     (case out of (r, s') \<Rightarrow> residency_ok dec s' \<and> only_resources s s' \<and>
        (\<forall>m path. r = Some (m, path) \<longrightarrow> (\<exists>key. key_of_path res formatsize path = Some key \<and>
           gives dec (hires_resources s') key (vk_image_index m) (repl_w m) (repl_h m))))"

lemma finish_path_good:
  assumes "resolution_good dec key m s out" "key_of_path res formatsize (path_kind, selector, Some cls) = Some key"
  shows "path_good dec res formatsize s (finish_path path_kind cls selector out)"
  using assms by (auto simp: path_good_def finish_path_def resolution_good_def split: prod.splits)

lemma path_good_none: "residency_ok dec s \<Longrightarrow> path_good dec res formatsize s (None, s)"
  by (simp add: path_good_def only_resources_refl)


lemma sampled_path_good:
  assumes "residency_ok dec s" "walks_all order"
  shows "path_good dec res formatsize s (finish_path PathSampled cls selector (try_sampled gpu order dec res selector m s))"
  by (rule finish_path_good [OF try_sampled_good [OF assms]]) (simp add: key_of_path_def)

lemma native_path_good:
  assumes "residency_ok dec s" "walks_all order"
  shows "path_good dec res formatsize s (finish_path PathNativeChecksum cls selector
    (try_native_checksum gpu order dec res formatsize selector detail_class m s))"
  by (rule finish_path_good [OF try_native_good [OF assms]]) (simp add: key_of_path_def)

lemma compat_path_good:
  assumes "residency_ok dec s" "walks_all order"
  shows "path_good dec res formatsize s (finish_path PathCompat cls selector
    (resolve_hires_compat_replacement_descriptor gpu order dec (resolved_checksum64 res) formatsize selector m s))"
  by (rule finish_path_good [OF try_compat_good [OF assms]]) (simp add: key_of_path_def)

lemma sampled_or_native_good:
  assumes ok: "residency_ok dec s" and order: "walks_all order"
  shows "path_good dec res formatsize s
    (case try_sampled gpu order dec res selector m s of
       ((True, m), s) \<Rightarrow> finish_path PathSampled cls selector ((True, m), s)
     | ((False, m), s) \<Rightarrow> finish_path PathNativeChecksum cls' selector
         (try_native_checksum gpu order dec res formatsize selector detail_class m s))"
proof -
  obtain hit m' s' where t: "try_sampled gpu order dec res selector m s = ((hit, m'), s')" by (metis prod.exhaust)
  note sg = try_sampled_good [OF ok order, of res selector m gpu, unfolded t]
  show ?thesis
  proof (cases hit)
    case True
    with t sampled_path_good [OF ok order, of res formatsize cls selector gpu m] show ?thesis by simp
  next
    case False
    have "residency_ok dec s'" "only_resources s s'" using sg by (simp_all add: resolution_good_def)
    with native_path_good [of dec s' order res formatsize cls' selector gpu detail_class m'] order only_resources_trans
    show ?thesis using t False by (fastforce simp: path_good_def split: prod.splits)
  qed
qed

lemma provider_resolution_good:
  assumes ok: "residency_ok dec s" and order: "walks_all order"
    and r: "resolve_hires_provider_resolution_descriptor gpu order dec res formatsize width height m s = ((found, m', path), s')"
  shows "residency_ok dec s' \<and> only_resources s s' \<and> (found \<longrightarrow> orig_w m' = width \<and> orig_h m' = height \<and>
    (\<exists>key. key_of_path res formatsize path = Some key \<and> gives dec (hires_resources s') key (vk_image_index m') (repl_w m') (repl_h m')))"
proof (cases "\<not> attached s \<or> \<not> hires_replacement_shader s \<or> \<not> available res")
  case True
  then have "found = False" "s' = s"
    using r by (auto simp: resolve_hires_provider_resolution_descriptor_def Let_def)
  with ok show ?thesis by (simp add: only_resources_refl)
next
  case False
  let ?rm = "(meta res)\<lparr>orig_w := width, orig_h := height\<rparr>" and ?given = "resolved_selector_checksum64 res"
  let ?own = "id_selector_checksum64 (identity res)"
  let ?sampled = "finish_path PathSampled ''sampled'' ?given (try_sampled gpu order dec res ?given ?rm s)"
  let ?either = "\<lambda>detail. (case try_sampled gpu order dec res ?own ?rm s of
       ((True, m), s) \<Rightarrow> finish_path PathSampled ''sampled'' ?own ((True, m), s)
     | ((False, m), s) \<Rightarrow> finish_path PathNativeChecksum ''native_checksum'' ?own
         (try_native_checksum gpu order dec res formatsize ?own detail m s))"
  let ?compat = "finish_path PathCompat ''compat'' ?given
    (resolve_hires_compat_replacement_descriptor gpu order dec (resolved_checksum64 res) formatsize ?given ?rm s)"
  let ?native = "finish_path PathNativeChecksum ''native_checksum'' ?given
    (try_native_checksum gpu order dec res formatsize ?given DetailGenericFallback ?rm s)"
  define out where "out = (case kind res of
                 SampledExactSelector \<Rightarrow> ?sampled
               | SampledOrderedSurfaceReservedSelector \<Rightarrow> ?sampled
               | SampledFamilySingleton \<Rightarrow> ?sampled
               | ExactNativeSampled \<Rightarrow> if \<not> id_valid (identity res) then (None, s) else ?either DetailExact
               | GenericNativeIdentity \<Rightarrow> if \<not> id_valid (identity res) then (None, s) else ?either DetailIdentityAssisted
               | GenericNativeChecksum \<Rightarrow> ?native
               | NoResolution \<Rightarrow> (None, s)
               | _ \<Rightarrow> ?compat)"
  have good: "path_good dec res formatsize s out"
    unfolding out_def using sampled_path_good [OF ok order] native_path_good [OF ok order] compat_path_good [OF ok order]
      sampled_or_native_good [OF ok order] path_good_none [OF ok]
    by (cases "kind res") simp_all
  have "((found, m', path), s') = (case out of
      (Some (m', path), s) \<Rightarrow> ((True, m'\<lparr>orig_w := width, orig_h := height\<rparr>, path), s)
    | (None, s) \<Rightarrow> ((False, m\<lparr>vk_image_index := hires_invalid_descriptor_index\<rparr>, (PathNone, ?given, None)), s))"
    unfolding r [symmetric] out_def resolve_hires_provider_resolution_descriptor_def Let_def
    by (simp only: if_not_P [OF False])
  with good show ?thesis by (fastforce simp: path_good_def split: prod.splits option.splits)
qed


section \<open>Attaching a pack\<close>

lemma init_hires_resources_ok:
  assumes "resources_ok r" "resident_shown dec r"
  shows "resources_ok (snd (init_hires_resources gpu n r))" "resident_shown dec (snd (init_hires_resources gpu n r))"
  using assms by (auto simp: init_hires_resources_def Let_def resources_ok_def resident_shown_def held_def no_resources_def)

lemma init_hires_resources_fresh:
  "recycled_descriptors (snd (init_hires_resources gpu n no_resources)) = []"
  "gpu_budget_bytes (snd (init_hires_resources gpu n no_resources)) = 0"
  by (auto simp: init_hires_resources_def Let_def no_resources_def)

lemma attach_fields:
  assumes "\<not> attached s"
  shows "residency_ok dec (set_replacement_provider gpu (Some n) s)"
    "recycled_descriptors (hires_resources (set_replacement_provider gpu (Some n) s)) = []"
    "gpu_budget_bytes (hires_resources (set_replacement_provider gpu (Some n) s)) = 0"
    "tile_replacements (set_replacement_provider gpu (Some n) s) = tile_replacements s"
  using assms init_hires_resources_ok [OF resources_ok_start] init_hires_resources_fresh resources_ok_start
  by (auto simp: set_replacement_provider_def residency_ok_def hires_provider_changed_def reset_hires_tracking_state_def
    Let_def no_resources_def)

text \<open>What is done between two configurations, on the renderer.\<close>

inductive hires_step :: "gpu_device \<Rightarrow> walk_order \<Rightarrow> decoders \<Rightarrow> hires_renderer \<Rightarrow> hires_renderer \<Rightarrow> bool"
  for gpu order dec where
  frame: "hires_step gpu order dec s (begin_frame_context s)"
| set_tile: "hires_step gpu order dec s (set_tile_meta tile tm s)"
| load: "hires_step gpu order dec s (forget_loaded_bindings tile s)"
| probe: "resolve_hires_provider_resolution_descriptor gpu order dec res formatsize width height m s = (out, s') \<Longrightarrow>
    hires_step gpu order dec s s'"
| lookup: "resolve_hires_provider_resolution_descriptor gpu order dec res formatsize width height m s = ((found, m', path), s') \<Longrightarrow>
    (hit \<longrightarrow> found) \<Longrightarrow>
    hires_step gpu order dec s
      (bind_lookup_result tile hit filtered checksum upload_checksum selector formatsize' width' height' m' s')"
| miss: "vk_image_index m = 0xffffffff \<Longrightarrow>
    hires_step gpu order dec s
      (bind_lookup_result tile hit filtered checksum upload_checksum selector formatsize' width' height' m s)"

text \<open>With the budget, which the program changes before that only.\<close>

inductive served :: "gpu_device \<Rightarrow> walk_order \<Rightarrow> decoders \<Rightarrow> hires_renderer \<Rightarrow> bool" for gpu order dec where
  attach: "\<not> attached s \<Longrightarrow> served gpu order dec (set_replacement_provider gpu (Some n) s)"
| step: "served gpu order dec s \<Longrightarrow> hires_step gpu order dec s s' \<Longrightarrow> served gpu order dec s'"
| budget: "served gpu order dec s \<Longrightarrow> served gpu order dec (set_hires_gpu_budget_bytes b s)"

section \<open>Tiles\<close>

definition binding_ok :: "decoders \<Rightarrow> hires_resources \<Rightarrow> tile_replacement_meta \<Rightarrow> bool" where
  "binding_ok dec r b \<longleftrightarrow> repl_desc_index b = 0xffffffff \<or>
     (\<exists>key img. decode_key dec key = Some img \<and> pool_shows r (repl_desc_index b) (uploaded img) \<and>
        0 < repl_desc_index b \<and> repl_desc_index b < next_descriptor r \<and>
        tr_repl_w b = ucast (repl_w (img_meta img)) \<and> tr_repl_h b = ucast (repl_h (img_meta img)))"

definition bindings_ok :: "decoders \<Rightarrow> hires_renderer \<Rightarrow> bool" where
  "bindings_ok dec s \<longleftrightarrow> (\<forall>b \<in> set (tile_replacements s). binding_ok dec (hires_resources s) b)"

lemma clear_binding:
  "hires_resources (clear_hires_tile_binding i s) = hires_resources s"
  "bindings_ok dec s \<Longrightarrow> bindings_ok dec (clear_hires_tile_binding i s)"
  by (auto simp: clear_hires_tile_binding_def bindings_ok_def no_tile_replacement_def binding_ok_def
    dest!: set_update_subset_insert [THEN subsetD])

definition state_ok :: "decoders \<Rightarrow> hires_resources \<Rightarrow> replacement_tile_state \<Rightarrow> bool" where
  "state_ok dec r st \<longleftrightarrow> ts_hit st \<longrightarrow> ts_vk_image_index st = 0xffffffff \<or>
     (\<exists>key. gives dec r key (ts_vk_image_index st) (ucast (ts_repl_w st)) (ucast (ts_repl_h st)))"

lemma apply_binding:
  "hires_resources (apply_hires_tile_binding i st s) = hires_resources s"
  "bindings_ok dec s \<Longrightarrow> state_ok dec (hires_resources s) st \<Longrightarrow> bindings_ok dec (apply_hires_tile_binding i st s)"
proof -
  show "hires_resources (apply_hires_tile_binding i st s) = hires_resources s"
    by (simp add: apply_hires_tile_binding_def clear_binding)
  assume b: "bindings_ok dec s" "state_ok dec (hires_resources s) st"
  show "bindings_ok dec (apply_hires_tile_binding i st s)"
  proof (cases "\<not> ts_hit st \<or> ts_vk_image_index st = 0xffffffff")
    case True
    then show ?thesis using clear_binding(2) [OF b(1)]
      by (auto simp: apply_hires_tile_binding_def hires_descriptor_index_valid_def hires_invalid_descriptor_index_def)
  next
    case False
    then obtain key where "gives dec (hires_resources s) key (ts_vk_image_index st) (ucast (ts_repl_w st)) (ucast (ts_repl_h st))"
      using b(2) by (auto simp: state_ok_def)
    then have "binding_ok dec (hires_resources s) \<lparr>repl_orig_w = ts_orig_w st, repl_orig_h = ts_orig_h st,
        tr_repl_w = ts_repl_w st, tr_repl_h = ts_repl_h st, repl_desc_index = ts_vk_image_index st\<rparr>"
      by (auto simp: binding_ok_def gives_def ucast_up_ucast_id is_up)
    then show ?thesis using b(1) clear_binding(2) [OF b(1)]
      by (auto simp: apply_hires_tile_binding_def bindings_ok_def dest!: set_update_subset_insert [THEN subsetD])
  qed
qed


lemma fold_keeps:
  assumes "P s" "\<And>i s. P s \<Longrightarrow> P (f i s)"
  shows "P (fold f xs s)"
  using assms by (induction xs arbitrary: s) auto

lemma tiles_update [simp]:
  "hires_resources (s\<lparr>replacement_tiles := t\<rparr>) = hires_resources s" "hires_resources (s\<lparr>counters := c\<rparr>) = hires_resources s"
  "bindings_ok dec (s\<lparr>replacement_tiles := t\<rparr>) = bindings_ok dec s" "bindings_ok dec (s\<lparr>counters := c\<rparr>) = bindings_ok dec s"
  by (simp_all add: bindings_ok_def)

lemma forget_keeps:
  "hires_resources (forget_loaded_bindings tile s) = hires_resources s"
  "bindings_ok dec s \<Longrightarrow> bindings_ok dec (forget_loaded_bindings tile s)"
proof -
  show "hires_resources (forget_loaded_bindings tile s) = hires_resources s"
    unfolding forget_loaded_bindings_def by (rule fold_keeps) (simp_all add: clear_binding(1))
  show "bindings_ok dec s \<Longrightarrow> bindings_ok dec (forget_loaded_bindings tile s)"
    unfolding forget_loaded_bindings_def by (rule fold_keeps) (simp_all add: clear_binding(2))
qed

lemma bind_keeps:
  assumes "bindings_ok dec s"
    and "hit \<Longrightarrow> vk_image_index m \<noteq> 0xffffffff \<Longrightarrow> gives dec (hires_resources s) key (vk_image_index m) (repl_w m) (repl_h m)"
  shows "hires_resources (bind_lookup_result tile hit filtered checksum upload_checksum selector formatsize width height m s) = hires_resources s"
    "bindings_ok dec (bind_lookup_result tile hit filtered checksum upload_checksum selector formatsize width height m s)"
proof -
  let ?st = "(write_hires_lookup_tile_state (replacement_tiles s ! tile) hit checksum upload_checksum selector formatsize width height)
    \<lparr>ts_repl_w := ucast (repl_w m), ts_repl_h := ucast (repl_h m), ts_vk_image_index := vk_image_index m\<rparr>"
  have st: "state_ok dec (hires_resources s) ?st"
    using assms(2) by (auto simp: state_ok_def write_hires_lookup_tile_state_def gives_def ucast_up_ucast_id is_up)
  let ?P = "\<lambda>s'. hires_resources s' = hires_resources s \<and> bindings_ok dec s'"
  have a: "?P (apply_hires_tile_binding tile ?st (s\<lparr>replacement_tiles := (replacement_tiles s)[tile := ?st]\<rparr>))"
    using apply_binding st assms(1) by simp
  let ?f = "\<lambda>tm i s. if i = tile \<or> \<not> should_apply_hires_propagated_binding (tile_metas s ! tile) (tile_metas s ! i) then s
            else apply_hires_tile_binding i ?st (s\<lparr>replacement_tiles := (replacement_tiles s)[i := ?st]\<rparr>)"
  have "?P (fold (?f ()) [0..<MaxNumTiles] (apply_hires_tile_binding tile ?st (s\<lparr>replacement_tiles := (replacement_tiles s)[tile := ?st]\<rparr>)))"
    by (rule fold_keeps [where P = ?P, OF a]) (use apply_binding st in auto)
  then show "hires_resources (bind_lookup_result tile hit filtered checksum upload_checksum selector formatsize width height m s) = hires_resources s"
    "bindings_ok dec (bind_lookup_result tile hit filtered checksum upload_checksum selector formatsize width height m s)"
    by (simp_all add: bind_lookup_result_def Let_def)
qed


section \<open>Without a budget nothing is evicted\<close>

text \<open>What the pool showed it still shows.\<close>

definition keeps_showing :: "hires_resources \<Rightarrow> hires_resources \<Rightarrow> bool" where
  "keeps_showing r r' \<longleftrightarrow> gpu_budget_bytes r' = gpu_budget_bytes r \<and> recycled_descriptors r' = [] \<and> next_descriptor r \<le> next_descriptor r' \<and>
     (\<forall>d v. d < next_descriptor r \<longrightarrow> pool_shows r d v \<longrightarrow> pool_shows r' d v)"

lemma keeps_showing_refl: "recycled_descriptors r = [] \<Longrightarrow> keeps_showing r r"
  by (simp add: keeps_showing_def)

lemma keeps_showing_trans: "keeps_showing r r' \<Longrightarrow> keeps_showing r' r'' \<Longrightarrow> keeps_showing r r''"
  by (auto simp: keeps_showing_def dest: order_trans order_less_le_trans)

lemma find_or_upload_stable:
  assumes ok: "resources_ok r" and b: "gpu_budget_bytes r = 0" and e: "recycled_descriptors r = []"
    and u: "find_or_upload gpu order key decoded r = (out, r')"
  shows "keeps_showing r r'"
proof -
  have touch: "keeps_showing r (touch_resident key im r)" for im
    using e by (simp add: keeps_showing_def touch_resident_def pool_shows_def)
  have up: "keeps_showing r r'" if u: "upload_replacement gpu order key decoded r = (out, r')"
  proof (cases decoded)
    case None
    with u e keeps_showing_refl show ?thesis by (auto simp: upload_replacement_def split: if_splits)
  next
    case (Some img)
    obtain d r1 where a: "take_descriptor (texture_bytes img) r = (d, r1)" by fastforce
    have alloc: "allocate_hires_descriptor order (texture_bytes img) r = (d, r1)"
      using a b by (simp add: allocate_hires_descriptor_def decide_hires_registry_budget_def)
    have t: "keeps_showing r r1" "d \<noteq> 0xffffffff \<Longrightarrow> d = next_descriptor r"
    proof -
      have "next_descriptor r < hr_capacity r \<Longrightarrow> next_descriptor r \<le> next_descriptor r + 1"
        using unat_u32_less [of "hr_capacity r"] by (simp add: word_le_nat_alt word_less_nat_alt unat_word_ariths)
      then show "keeps_showing r r1" using a e by (auto simp: take_descriptor_def keeps_showing_def pool_shows_def not_le split: if_splits)
      show "d \<noteq> 0xffffffff \<Longrightarrow> d = next_descriptor r" using a e by (auto simp: take_descriptor_def split: if_splits)
    qed
    have keep: "keeps_showing r (emplace_resident k im (set_texture (next_descriptor r) v r1))" for k im v
    proof -
      have "pool_shows (set_texture (next_descriptor r) v r1) d x = pool_shows r1 d x" if "d < next_descriptor r" for d x
        using that by (cases "bindless_pool r1") (auto simp: set_texture_def pool_shows_def)
      moreover have "pool_shows (emplace_resident k im r2) = pool_shows r2" "next_descriptor (emplace_resident k im r2) = next_descriptor r2"
        "recycled_descriptors (emplace_resident k im r2) = recycled_descriptors r2"
        "gpu_budget_bytes (emplace_resident k im r2) = gpu_budget_bytes r2" for r2
        by (simp_all add: emplace_resident_def pool_shows_def fun_eq_iff)
      moreover have "next_descriptor (set_texture e v r1) = next_descriptor r1" "recycled_descriptors (set_texture e v r1) = recycled_descriptors r1"
        "gpu_budget_bytes (set_texture e v r1) = gpu_budget_bytes r1" for e by (simp_all add: set_texture_def)
      ultimately show ?thesis using t(1) by (simp add: keeps_showing_def)
    qed
    show ?thesis
    proof (cases "bindless_pool r = None \<or> rgba8 img = [] \<or> repl_w (img_meta img) = 0 \<or> repl_h (img_meta img) = 0")
      case True
      then have "r' = r" using u Some by (simp add: upload_replacement_def split: if_splits)
      with keeps_showing_refl [OF e] show ?thesis by simp
    next
      case False
      then obtain pool where pool: "bindless_pool r = Some pool"
        and img: "\<not> (rgba8 img = [] \<or> repl_w (img_meta img) = 0 \<or> repl_h (img_meta img) = 0)" by auto
      have "(if d = 0xffffffff then (None, r1)
       else if \<not> image_created gpu (uploaded img) then (None, r1)
       else let r2 = set_texture d (uploaded img) r1;
                resident = \<lparr>ri_image = uploaded img, descriptor_index = d, ri_repl_w = ucast (repl_w (img_meta img)),
                  ri_repl_h = ucast (repl_h (img_meta img)), last_used_tick = frame_tick r2, resident_bytes = texture_bytes img\<rparr>
            in (Some (d, repl_w (img_meta img), repl_h (img_meta img)), emplace_resident key resident r2)) = (out, r')"
        using u Some alloc pool img by (simp add: upload_replacement_def)
      with t keep show ?thesis by (auto simp: Let_def split: if_splits)
    qed
  qed
  show ?thesis
    using u touch up by (cases "map_of (resident_images r) key") (auto simp: find_or_upload_def)
qed


text \<open>A resolution is a sequence of searches in the map of resident images.\<close>

definition find_step :: "gpu_device \<Rightarrow> walk_order \<Rightarrow> decoders \<Rightarrow> hires_resources \<Rightarrow> hires_resources \<Rightarrow> bool" where
  "find_step gpu order dec r r' \<longleftrightarrow> (\<exists>key out. find_or_upload gpu order key (decode_key dec key) r = (out, r'))"

abbreviation "searches gpu order dec \<equiv> (find_step gpu order dec)\<^sup>*\<^sup>*"

lemma resolve_descriptor_steps:
  "searches gpu order dec (hires_resources s) (hires_resources (snd (resolve_descriptor gpu order key (decode_key dec key) f m s)))"
proof -
  obtain res r where "find_or_upload gpu order key (decode_key dec key) (hires_resources s) = (res, r)" by fastforce
  moreover from this have "find_step gpu order dec (hires_resources s) r" by (auto simp: find_step_def)
  ultimately show ?thesis by (cases res) (auto simp: resolve_descriptor_def Let_def)
qed

lemma path_steps:
  "searches gpu order dec (hires_resources s) (hires_resources (snd (try_sampled gpu order dec res selector m s)))"
  "searches gpu order dec (hires_resources s) (hires_resources (snd (try_native_checksum gpu order dec res formatsize selector detail_class m s)))"
  "searches gpu order dec (hires_resources s)
    (hires_resources (snd (resolve_hires_compat_replacement_descriptor gpu order dec (resolved_checksum64 res) formatsize selector m s)))"
  using resolve_descriptor_steps [of gpu order dec s "sampled_key (id_sig (identity res)) (id_formatsize (identity res)) selector"]
    resolve_descriptor_steps [of gpu order dec s "checksum_key NativeChecksumKey (resolved_checksum64 res) formatsize selector"]
    resolve_descriptor_steps [of gpu order dec s "checksum_key CompatKey (resolved_checksum64 res) formatsize selector"]
  by (auto simp: try_sampled_def resolve_hires_sampled_replacement_descriptor_def try_native_checksum_def
    resolve_hires_native_checksum_replacement_descriptor_def resolve_hires_compat_replacement_descriptor_def)

lemma finish_path_snd [simp]: "snd (finish_path path_kind cls selector out) = snd out"
  by (simp add: finish_path_def split: prod.split)

lemma sampled_or_native_steps:
  "searches gpu order dec (hires_resources s) (hires_resources (snd
    (case try_sampled gpu order dec res selector m s of
       ((True, m), s) \<Rightarrow> finish_path PathSampled cls selector ((True, m), s)
     | ((False, m), s) \<Rightarrow> finish_path PathNativeChecksum cls' selector
         (try_native_checksum gpu order dec res formatsize selector detail_class m s))))"
proof -
  obtain hit m' s' where t: "try_sampled gpu order dec res selector m s = ((hit, m'), s')" by (metis prod.exhaust)
  have "searches gpu order dec (hires_resources s) (hires_resources s')"
    using path_steps(1) [of gpu order dec s res selector m] by (simp add: t)
  moreover note path_steps(2) [of gpu order dec s' res formatsize selector detail_class m']
  ultimately show ?thesis by (cases hit) (auto simp: t intro: rtranclp_trans)
qed

lemma provider_resolution_steps:
  assumes r: "resolve_hires_provider_resolution_descriptor gpu order dec res formatsize width height m s = ((found, m', path), s')"
  shows "searches gpu order dec (hires_resources s) (hires_resources s')"
proof (cases "\<not> attached s \<or> \<not> hires_replacement_shader s \<or> \<not> available res")
  case True
  then show ?thesis using r by (auto simp: resolve_hires_provider_resolution_descriptor_def Let_def)
next
  case False
  define out where "out = snd (resolve_hires_provider_resolution_descriptor gpu order dec res formatsize width height m s)"
  have "searches gpu order dec (hires_resources s) (hires_resources out)"
    unfolding out_def resolve_hires_provider_resolution_descriptor_def Let_def if_not_P [OF False]
    using path_steps sampled_or_native_steps
    by (cases "kind res") (simp_all add: case_prod_unfold split: option.split)
  with r show ?thesis by (simp add: out_def)
qed


lemma searches_keep_showing:
  assumes "searches gpu order dec r r'" "walks_all order" "resources_ok r" "resident_shown dec r" "gpu_budget_bytes r = 0"
    "recycled_descriptors r = []"
  shows "keeps_showing r r' \<and> resources_ok r' \<and> resident_shown dec r'"
  using assms(1)
proof induction
  case base
  show ?case using assms keeps_showing_refl by simp
next
  case (step r1 r2)
  then obtain key out where u: "find_or_upload gpu order key (decode_key dec key) r1 = (out, r2)" by (auto simp: find_step_def)
  from step.IH assms(5,6) have "gpu_budget_bytes r1 = 0" "recycled_descriptors r1 = []" by (simp_all add: keeps_showing_def)
  with find_or_upload_stable [OF _ _ _ u] find_or_upload_ok [OF _ _ assms(2) u] step.IH show ?case
    by (blast intro: keeps_showing_trans)
qed

section \<open>Properties\<close>

text \<open>The states of a renderer with an attached pack, without a budget.\<close>

definition unlimited_ok :: "decoders \<Rightarrow> hires_renderer \<Rightarrow> bool" where
  "unlimited_ok dec s \<longleftrightarrow> residency_ok dec s \<and> gpu_budget_bytes (hires_resources s) = 0 \<and>
     recycled_descriptors (hires_resources s) = [] \<and> bindings_ok dec s"

lemma bindings_keep: "bindings_ok dec s \<Longrightarrow> only_resources s s' \<Longrightarrow> keeps_showing (hires_resources s) (hires_resources s') \<Longrightarrow> bindings_ok dec s'"
  by (fastforce simp: bindings_ok_def only_resources_def keeps_showing_def binding_ok_def)

lemma resolution_unlimited:
  assumes "unlimited_ok dec s" "walks_all order"
    and "resolve_hires_provider_resolution_descriptor gpu order dec res formatsize width height m s = ((found, m', path), s')"
  shows "unlimited_ok dec s' \<and> keeps_showing (hires_resources s) (hires_resources s')"
proof -
  have "keeps_showing (hires_resources s) (hires_resources s')"
    using searches_keep_showing [OF provider_resolution_steps [OF assms(3)] assms(2)] assms(1)
    by (simp add: unlimited_ok_def residency_ok_def)
  with provider_resolution_good [OF _ assms(2,3)] bindings_keep [of dec s s'] assms(1) show ?thesis
    by (auto simp: unlimited_ok_def keeps_showing_def)
qed

lemma unlimited_same:
  "hires_resources s' = hires_resources s \<Longrightarrow> bindings_ok dec s' \<Longrightarrow> unlimited_ok dec s \<Longrightarrow> unlimited_ok dec s'"
  by (simp add: unlimited_ok_def residency_ok_def)

lemma hires_step_unlimited:
  assumes "hires_step gpu order dec s s'" "walks_all order" "unlimited_ok dec s"
  shows "unlimited_ok dec s' \<and> keeps_showing (hires_resources s) (hires_resources s')"
  using assms(1)
proof cases
  case frame
  have "keeps_showing (hires_resources s) (hires_resources s')" "bindings_ok dec s'"
    using assms(3) unfolding frame begin_frame_context_def
    by (auto simp: keeps_showing_def unlimited_ok_def bindings_ok_def binding_ok_def no_resources_budget)
  then show ?thesis using assms(3)
    by (simp add: frame begin_frame_context_def unlimited_ok_def residency_ok_def no_resources_budget)
next
  case (set_tile tile tm)
  have "hires_resources s' = hires_resources s" "bindings_ok dec s'"
    using assms(3) by (simp_all add: set_tile set_tile_meta_def bindings_ok_def unlimited_ok_def)
  then show ?thesis using unlimited_same assms(3) keeps_showing_refl by (simp add: unlimited_ok_def)
next
  case (load tile)
  have "hires_resources s' = hires_resources s" "bindings_ok dec s'"
    using assms(3) forget_keeps by (simp_all add: load unlimited_ok_def)
  then show ?thesis using unlimited_same assms(3) keeps_showing_refl by (simp add: unlimited_ok_def)
next
  case (probe res formatsize width height m out)
  obtain found m' path where "out = (found, m', path)" by (cases out)
  with probe resolution_unlimited [OF assms(3,2)] show ?thesis by simp
next
  case (lookup res formatsize width height m found m' path s1 hit tile filtered checksum upload_checksum selector formatsize' width' height')
  have s1: "unlimited_ok dec s1" "keeps_showing (hires_resources s) (hires_resources s1)"
    using resolution_unlimited [OF assms(3,2) lookup(2)] by simp_all
  obtain key where "found \<Longrightarrow> gives dec (hires_resources s1) key (vk_image_index m') (repl_w m') (repl_h m')"
    using provider_resolution_good [OF _ assms(2) lookup(2)] assms(3) by (auto simp: unlimited_ok_def)
  with lookup(3) bind_keeps [of dec s1 hit m' key] s1(1)
  have "hires_resources s' = hires_resources s1" "bindings_ok dec s'" by (auto simp: lookup(1) unlimited_ok_def)
  then show ?thesis using unlimited_same s1 by simp
next
  case (miss m tile hit filtered checksum upload_checksum selector formatsize width height)
  have "hires_resources s' = hires_resources s" "bindings_ok dec s'"
    using bind_keeps [of dec s hit m] miss(2) assms(3) by (simp_all add: miss(1) unlimited_ok_def)
  then show ?thesis using unlimited_same assms(3) keeps_showing_refl by (simp add: unlimited_ok_def)
qed

lemma served_ok:
  assumes "served gpu order dec s" "walks_all order"
  shows "residency_ok dec s"
  using assms(1)
proof induction
  case (attach s n)
  then show ?case by (rule attach_fields(1))
next
  case (step s s')
  have bind: "hires_resources (bind_lookup_result t h f c u se fs w hh m s1) = hires_resources s1" for t h f c u se fs w hh m s1
  proof -
    let ?P = "\<lambda>s'. hires_resources s' = hires_resources s1"
    show ?thesis unfolding bind_lookup_result_def Let_def
      by (simp, rule fold_keeps [where P = ?P]) (simp_all add: apply_binding(1))
  qed
  from step.hyps(2) show ?case
  proof cases
    case (probe res formatsize width height m out)
    obtain found m' path where "out = (found, m', path)" by (cases out)
    with probe provider_resolution_good [OF step.IH assms(2)] show ?thesis by blast
  next
    case (lookup res formatsize width height m found m' path s1)
    with provider_resolution_good [OF step.IH assms(2) lookup(2)] show ?thesis by (simp add: residency_ok_def bind)
  qed (use step.IH in \<open>simp_all add: begin_frame_context_def set_tile_meta_def residency_ok_def no_resources_budget forget_keeps(1) bind\<close>)
next
  case (budget s b)
  then show ?case by (simp add: set_hires_gpu_budget_bytes_def residency_ok_def no_resources_budget)
qed


text \<open>
  C2. What a resolution means: while a pack is attached, whatever was looked up before and whatever
  the budget was set to, the descriptor a resolution returns lies in the pool and shows the shaders
  the replacement of the pack that the path taken stands for, be it resident already or uploaded now.
\<close>

theorem resolved_descriptor_shows_replacement:
  assumes "served gpu order (provider_decoders unz files p) s" "walks_all order"
    and "resolve_hires_provider_resolution_descriptor gpu order (provider_decoders unz files p) res formatsize width height m s =
      ((True, m', path), s')"
  shows "\<exists>key img. key_of_path res formatsize path = Some key \<and> decode_key (provider_decoders unz files p) key = Some img \<and>
    pool_shows (hires_resources s') (vk_image_index m') (uploaded img) \<and>
    0 < vk_image_index m' \<and> vk_image_index m' < hr_capacity (hires_resources s') \<and>
    ucast (repl_w m') = (ucast (repl_w (img_meta img)) :: u16) \<and> ucast (repl_h m') = (ucast (repl_h (img_meta img)) :: u16) \<and>
    orig_w m' = width \<and> orig_h m' = height"
proof -
  let ?dec = "provider_decoders unz files p" and ?d = "vk_image_index m'"
  from provider_resolution_good [OF served_ok [OF assms(1,2)] assms(2,3)] obtain key where
    ok: "residency_ok ?dec s'" and k: "key_of_path res formatsize path = Some key" "orig_w m' = width" "orig_h m' = height"
    and g: "gives ?dec (hires_resources s') key ?d (repl_w m') (repl_h m')" by auto
  have d: "0 < ?d" "?d < next_descriptor (hires_resources s')" using g by (auto simp: gives_def)
  have "next_descriptor (hires_resources s') \<noteq> 1" using d by (auto simp: word_less_nat_alt)
  then have "?d < hr_capacity (hires_resources s')"
    using ok d(2) by (auto simp: residency_ok_def resources_ok_def intro: order_less_le_trans)
  with g k show ?thesis by (auto simp: gives_def)
qed

text \<open>The states between attaching a pack and attaching another.\<close>

lemma attached_unlimited:
  assumes "(hires_step gpu order dec)\<^sup>*\<^sup>* (set_replacement_provider gpu (Some n) s0) s" "walks_all order" "\<not> attached s0"
    "\<forall>b \<in> set (tile_replacements s0). repl_desc_index b = 0xffffffff"
  shows "unlimited_ok dec s"
  using assms(1)
proof induction
  case base
  show ?case using attach_fields [OF assms(3)] assms(4) by (simp add: unlimited_ok_def bindings_ok_def binding_ok_def)
next
  case (step s1 s2)
  then show ?case using hires_step_unlimited assms(2) by blast
qed

lemma steps_keep_showing:
  assumes "(hires_step gpu order dec)\<^sup>*\<^sup>* s s'" "walks_all order" "unlimited_ok dec s"
  shows "unlimited_ok dec s' \<and> keeps_showing (hires_resources s) (hires_resources s')"
  using assms(1)
proof induction
  case base
  show ?case using assms(3) by (simp add: unlimited_ok_def keeps_showing_refl)
next
  case (step s1 s2)
  then show ?case using hires_step_unlimited [OF step.hyps(2) assms(2)] keeps_showing_trans by blast
qed

text \<open>
  C13. A descriptor stays what it was: from a resolution on, through whatever lookups, loads and
  frames follow, the descriptor it gave shows that replacement for as long as the pack is attached.
\<close>

theorem descriptor_stays_valid:
  assumes "\<not> attached s0" "\<forall>b \<in> set (tile_replacements s0). repl_desc_index b = 0xffffffff" "walks_all order"
    and "(hires_step gpu order dec)\<^sup>*\<^sup>* (set_replacement_provider gpu (Some n) s0) s"
    and "resolve_hires_provider_resolution_descriptor gpu order dec res formatsize width height m s = ((True, m', path), s1)"
    and "(hires_step gpu order dec)\<^sup>*\<^sup>* s1 s2"
  shows "\<exists>key img. key_of_path res formatsize path = Some key \<and> decode_key dec key = Some img \<and>
    pool_shows (hires_resources s2) (vk_image_index m') (uploaded img)"
proof -
  have s: "unlimited_ok dec s" by (rule attached_unlimited [OF assms(4,3,1,2)])
  have s1: "unlimited_ok dec s1" using resolution_unlimited [OF s assms(3,5)] by blast
  obtain key where k: "key_of_path res formatsize path = Some key"
    "gives dec (hires_resources s1) key (vk_image_index m') (repl_w m') (repl_h m')"
    using provider_resolution_good [OF _ assms(3,5)] s by (auto simp: unlimited_ok_def)
  moreover have "keeps_showing (hires_resources s1) (hires_resources s2)"
    using steps_keep_showing [OF assms(6,3) s1] by blast
  ultimately show ?thesis by (auto simp: gives_def keeps_showing_def)
qed


text \<open>
  C28. The budget for replacement images is lost: whatever was set before a configuration, if it
  attaches a pack there is no limit afterwards.
\<close>

theorem budget_lost_by_configuration:
  assumes "attached (hires_renderer (configure_hires_replacement gpu files listing enable cache_path c))"
  shows "gpu_budget_bytes (hires_resources (hires_renderer (configure_hires_replacement gpu files listing enable cache_path c))) = 0"
proof -
  have none: "\<not> attached (set_replacement_provider gpu None s)" for s
    by (simp add: set_replacement_provider_def reset_hires_tracking_state_def Let_def)
  have more: "gpu_budget_bytes (hires_resources (set_replacement_provider gpu (Some n)
      ((set_replacement_provider gpu None s)\<lparr>gliden64_compat_crc_enabled := f\<rparr>))) = 0" for n s f
    by (rule attach_fields(3)) (simp add: none)
  from assms none more show ?thesis
    by (auto simp: configure_hires_replacement_def Let_def split: prod.splits if_splits)
qed

text \<open>
  With a budget, one image is evicted however large the new one is: here 90 bytes stay resident,
  95 more are admitted, and the budget is 100.
\<close>

lemma eviction_exceeds_budget:
  fixes im :: hires_resident_image and k k' :: hires_key
  defines "small \<equiv> im\<lparr>descriptor_index := 1, resident_bytes := 10, last_used_tick := 1\<rparr>"
    and "large \<equiv> im\<lparr>descriptor_index := 2, resident_bytes := 90, last_used_tick := 2\<rparr>"
  assumes "k \<noteq> k'"
  shows "gpu_resident_bytes (snd (allocate_hires_descriptor id 95
    (no_resources\<lparr>resident_images := [(k, small), (k', large)], hr_capacity := 3, next_descriptor := 3,
      gpu_resident_bytes := 100, gpu_budget_bytes := 100\<rparr>))) = 185"
  using assms(3) by (simp add: allocate_hires_descriptor_def decide_hires_registry_budget_def evict_oldest_def
    take_descriptor_def small_def large_def no_resources_def)


section \<open>A pack with one picture\<close>

definition picture_entry :: entry where
  "picture_entry = \<lparr>source_path = ''p'', phrb_policy_key = '''', phrb_replacement_id = '''', phrb_sampled_object_id = '''',
     e_checksum64 = 7, data_offset = 0, data_size = 4, e_width = 1, e_height = 1, e_format = 0x8058,
     texture_format = GL_RGBA, pixel_type = GL_UNSIGNED_BYTE, e_formatsize = 0x102, e_selector = 0, e_sig = no_sampled,
     sampled_entry_pcrc = 0, sampled_sparse_pcrc = 0, has_native_sampled_identity = False, is_runtime_family_compat = False,
     is_hires = True, inline_blob = True, blob = [10, 20, 30, 255]\<rparr>"

definition picture_pack :: provider where
  "picture_pack = set_enabled (add_entry default_provider picture_entry) True"

definition picture :: replacement_image where
  "picture = \<lparr>img_meta = \<lparr>repl_w = 1, repl_h = 1, orig_w = 0, orig_h = 0, vk_image_index = 0xffffffff,
     has_mips = False, srgb = False\<rparr>, rgba8 = [10, 20, 30, 255]\<rparr>"

definition no_meta :: replacement_meta where
  "no_meta = \<lparr>repl_w = 0, repl_h = 0, orig_w = 0, orig_h = 0, vk_image_index = 0xffffffff, has_mips = False, srgb = False\<rparr>"

definition picture_resolution :: replacement_resolution where
  "picture_resolution = \<lparr>available = True, kind = GenericCompat, meta = no_meta,
     identity = \<lparr>id_valid = False, id_sig = no_sampled, id_formatsize = 0, id_selector_checksum64 = 0\<rparr>,
     source_class = CompatSource, resolved_checksum64 = 7, resolved_selector_checksum64 = 0,
     ordered_surface_singleton = False, matched_preferred_palette = False\<rparr>"

definition full_gpu :: gpu_device where
  "full_gpu = \<lparr>supports_descriptor_indexing = True, pool_created = \<lambda>_. True, image_created = \<lambda>_. True\<rparr>"

definition blank_renderer :: hires_renderer where
  "blank_renderer = \<lparr>attached = False, hires_replacement_shader = True, hires_resources = no_resources,
     replacement_tiles = replicate 8 no_tile_state,
     tile_metas = replicate 8 \<lparr>tm_offset = 0, tm_stride = 0, tm_fmt = 0, tm_size = Bpp16, tm_palette = 0, tm_mask_s = 0,
       tm_shift_s = 0, tm_mask_t = 0, tm_shift_t = 0, tm_flags = 0\<rparr>,
     tile_replacements = replicate 8 no_tile_replacement, tlut_shadow_valid = False, counters = no_counters,
     gliden64_compat_crc_enabled = False\<rparr>"

abbreviation "picture_decoders \<equiv> provider_decoders (\<lambda>_ _. None) (\<lambda>_. None) picture_pack"
abbreviation "attached_renderer \<equiv> set_replacement_provider full_gpu (Some 1) blank_renderer"

lemma picture_decodes: "decode_rgba8_compat_with_selector (\<lambda>_ _. None) (\<lambda>_. None) picture_pack 7 0x102 0 = Some picture"
  by code_simp

lemma picture_found:
  "\<exists>s'. resolve_hires_provider_resolution_descriptor full_gpu id picture_decoders picture_resolution 0x102 32 16 no_meta
     attached_renderer = ((True, no_meta\<lparr>repl_w := 1, repl_h := 1, orig_w := 32, orig_h := 16, vk_image_index := 1\<rparr>,
       (PathCompat, 0, Some ''compat'')), s')"
proof -
  have a: "attached attached_renderer" "hires_replacement_shader attached_renderer"
    "resident_images (hires_resources attached_renderer) = []" "recycled_descriptors (hires_resources attached_renderer) = []"
    "next_descriptor (hires_resources attached_renderer) = 1" "hr_capacity (hires_resources attached_renderer) = 2"
    "gpu_budget_bytes (hires_resources attached_renderer) = 0" "\<exists>pool. bindless_pool (hires_resources attached_renderer) = Some pool"
    by (simp_all add: set_replacement_provider_def blank_renderer_def full_gpu_def hires_provider_changed_def
      reset_hires_tracking_state_def init_hires_resources_def no_resources_def Let_def)
  have d: "decode_compat picture_decoders 7 0x102 0 = Some picture"
    by (simp add: provider_decoders_def picture_decodes)
  obtain pool where pool: "bindless_pool (hires_resources attached_renderer) = Some pool" using a(8) by blast
  have t: "allocate_hires_descriptor id (texture_bytes picture) (hires_resources attached_renderer) =
      (1, (hires_resources attached_renderer)\<lparr>next_descriptor := 2,
        gpu_resident_bytes := gpu_resident_bytes (hires_resources attached_renderer) + texture_bytes picture\<rparr>)"
    using a by (simp add: allocate_hires_descriptor_def decide_hires_registry_budget_def take_descriptor_def word_le_nat_alt)
  have "\<exists>r. find_or_upload full_gpu id (checksum_key CompatKey 7 0x102 0) (Some picture) (hires_resources attached_renderer) =
      (Some (1, 1, 1), r)"
    using a(3) pool t by (simp add: find_or_upload_def upload_replacement_def picture_def full_gpu_def Let_def)
  then obtain r where r: "find_or_upload full_gpu id (checksum_key CompatKey 7 0x102 0) (Some picture) (hires_resources attached_renderer) =
      (Some (1, 1, 1), r)" by blast
  then show ?thesis using a(1,2) d
    by (simp add: resolve_hires_provider_resolution_descriptor_def picture_resolution_def Let_def finish_path_def
      resolve_hires_compat_replacement_descriptor_def resolve_descriptor_def no_meta_def)
qed

lemma id_walks_all: "walks_all id"
  by (simp add: walks_all_def)

lemma blank_unbound: "\<not> attached blank_renderer" "\<forall>b \<in> set (tile_replacements blank_renderer). repl_desc_index b = 0xffffffff"
  by (auto simp: blank_renderer_def no_tile_replacement_def)

theorem resolved_descriptor_shows_replacement_witness:
  "\<exists>m' s' img. resolve_hires_provider_resolution_descriptor full_gpu id picture_decoders picture_resolution 0x102 32 16 no_meta
     attached_renderer = ((True, m', (PathCompat, 0, Some ''compat'')), s') \<and>
     pool_shows (hires_resources s') (vk_image_index m') (uploaded img) \<and> rgba8 img = [10, 20, 30, 255]"
proof -
  obtain s' where r: "resolve_hires_provider_resolution_descriptor full_gpu id picture_decoders picture_resolution 0x102 32 16 no_meta
     attached_renderer = ((True, no_meta\<lparr>repl_w := 1, repl_h := 1, orig_w := 32, orig_h := 16, vk_image_index := 1\<rparr>,
       (PathCompat, 0, Some ''compat'')), s')" using picture_found by blast
  have "served full_gpu id picture_decoders attached_renderer" by (rule served.attach [OF blank_unbound(1)])
  from resolved_descriptor_shows_replacement [OF this id_walks_all r] r show ?thesis
    by (auto simp: key_of_path_def picture_resolution_def provider_decoders_def picture_decodes picture_def)
qed


theorem descriptor_stays_valid_witness:
  "\<exists>m' s' img. resolve_hires_provider_resolution_descriptor full_gpu id picture_decoders picture_resolution 0x102 32 16 no_meta
     attached_renderer = ((True, m', (PathCompat, 0, Some ''compat'')), s') \<and>
     pool_shows (hires_resources (begin_frame_context s')) (vk_image_index m') (uploaded img) \<and> rgba8 img = [10, 20, 30, 255]"
proof -
  obtain s' where r: "resolve_hires_provider_resolution_descriptor full_gpu id picture_decoders picture_resolution 0x102 32 16 no_meta
     attached_renderer = ((True, no_meta\<lparr>repl_w := 1, repl_h := 1, orig_w := 32, orig_h := 16, vk_image_index := 1\<rparr>,
       (PathCompat, 0, Some ''compat'')), s')" using picture_found by blast
  have "(hires_step full_gpu id picture_decoders)\<^sup>*\<^sup>* s' (begin_frame_context s')" using hires_step.frame by blast
  from descriptor_stays_valid [OF blank_unbound id_walks_all rtranclp.rtrancl_refl r this] r show ?thesis
    by (auto simp: key_of_path_def picture_resolution_def provider_decoders_def picture_decodes picture_def)
qed


theorem budget_lost_by_configuration_witness:
  "gpu_budget_bytes (hires_resources (hires_renderer (configure_hires_replacement full_gpu sample_fs (\<lambda>_. None) True (Some ''a.phrb'')
     \<lparr>replacement_provider = default_provider, hires_renderer = set_hires_gpu_budget_bytes 1000 blank_renderer,
      gliden64_compat_crc_override = None\<rparr>))) = 0"
  (is "gpu_budget_bytes (hires_resources (hires_renderer ?c)) = 0")
proof -
  have "snd (load_cache_dir sample_fs (\<lambda>_. None) ''a.phrb'' (set_enabled (clear_provider default_provider) True))"
    by code_simp
  then obtain p where p: "load_cache_dir sample_fs (\<lambda>_. None) ''a.phrb'' (set_enabled (clear_provider default_provider) True) = (p, True)"
    by (metis prod.collapse)
  have "attached (hires_renderer ?c)"
    by (simp add: configure_hires_replacement_def p classify_hires_configure_outcome_def should_attach_hires_provider_def Let_def
      set_replacement_provider_def reset_hires_tracking_state_def)
  then show ?thesis by (rule budget_lost_by_configuration)
qed

end
