(* ===== verification/Spec2Isabelle.thy ===== *)
theory Spec2Isabelle
  imports Command_Pipeline Timeline_Worker Replacement_Diagnostics Pixel_Decode CI_Palette_Properties
    Render_Queue Framebuffer_Hazards VI_Properties Controller_Properties TLB_Properties Peripheral_Properties Hires_Properties
begin

text \<open>
  Parallel N64: the paraLLEl-RDP graphics plugin with its hi-res texture replacement, and the
  devices and interrupts of the emulator core. Paths are relative to \<open>src/\<close>; \<open>RDP\<close> stands for
  \<open>mupen64plus-video-paraLLEl/parallel-rdp/parallel-rdp\<close> and \<open>CORE\<close> for \<open>mupen64plus-core/src\<close>.

  \<^bold>\<open>The program.\<close> The emulated processor runs until the Count register reaches
  \<open>next_interrupt\<close>; then \<open>gen_interrupt\<close> takes the head of a queue of timed events and runs the
  handler of a device. A device register is written, a transfer is made at once, and an event for
  its end is queued. When the guest starts the RDP, \<open>process_commands\<close> copies the command list into
  a ring; a worker thread takes commands out of it and has the command processor decode them and
  call the renderer, which builds buffers for the GPU, watches frame buffers and memory pages, and
  looks textures up in a replacement pack. The video interface turns a frame buffer into an image.

  \<^bold>\<open>How it is modelled.\<close> Structures are records with the fields of the source, enumerations are
  datatypes, integers are words of their width (\<open>u8\<close>, \<open>u32\<close>, \<open>u64\<close> of \<open>RDP_Prelude\<close>), so that
  wrap-around is that of the C code. A function that changes state takes and returns the state. An
  access outside an array (\<open>rd\<close>, \<open>wr\<close>) has no value, and neither has what calls it: a theorem that
  says a function returns says that it stays inside its arrays. Calls that leave the model (GPU
  work, audio, files, invalidation of recompiled code) are entries of a log or the output of a
  step. Loops are recursion over what they run through; the loops over links of the event queue
  and over the pages of the TLB are partial functions, and that they end is proved
  (\<open>event_queue_refines_list\<close>) or characterised (\<open>tlb_write_returns_iff\<close>). No fuel is used. Threads
  are step relations over their critical sections (\<open>Command_Ring\<close>, \<open>Coherency_Properties\<close>,
  \<open>Timeline_Worker\<close>), with invariants by rule induction.

  \<^bold>\<open>Shared theories.\<close> \<open>RDP_Prelude\<close>: machine types, bounds-checked access, lemmas on words, lists
  and maps with their collections. \<open>Step_Machine\<close>: the contracts of components that consume inputs
  one at a time, as locales: \<open>step_machine\<close> (an invariant kept by every input, outputs well-formed),
  \<open>observed_machine\<close> (outputs of a run), \<open>monitored_machine\<close> (a run judged by an abstract monitor) and
  \<open>refined_machine\<close> (simulation by an abstract machine). They are interpreted on the command ingest
  (\<open>Command_Pipeline\<close>), twice on the command processor (\<open>Command_Properties\<close>), on the render queue
  and on the event queue. Other interfaces: \<open>fifo_channel\<close> (the ring), \<open>entry_index\<close> (four indices of
  the replacement table) and \<open>pod_codec\<close> (eight structures of the pack format).

  \<^bold>\<open>Texture replacement\<close> (\<open>RDP/texture_replacement.cpp\<close>, \<open>texture_keying.hpp\<close>,
  \<open>rdp_hires_ci_palette_policy.hpp\<close>).
  \<^item> \<open>Replacement_Entries\<close>, \<open>Replacement_Lookup\<close>: the entry table, its seven indices, every member that
    changes them and every lookup of \<open>ReplacementProvider\<close>. \<open>Replacement_Index\<close> says what an index
    holds; \<open>Replacement_Spec\<close> and \<open>Replacement_Diagnostics\<close> state the lookups as scans of the plain
    table and prove that on every provider the program can build the indexed lookups agree.
  \<^item> \<open>PHRB_Format\<close>, \<open>PHRB_Loader\<close>, \<open>PHRB_Properties\<close>: the pack format and its loader; every entry
    it makes lies inside its file, and a serialised pack reads back.
  \<^item> \<open>Pixel_Decode\<close>: decompression (zlib is a parameter with its documented contract) and the texel
    formats; sizes, bounds and the value of every pixel.
  \<^item> \<open>Texture_Keying\<close>, \<open>CI_Palette\<close>, \<open>CI_Palette_Properties\<close>: checksums of textures and palettes.
  \<^item> \<open>Hires_Residency\<close>, \<open>Hires_Properties\<close> (\<open>rdp_renderer.cpp\<close>, \<open>rdp_device.cpp\<close>, the
    \<open>rdp_hires_*_policy.hpp\<close> headers): the replacement images held on the GPU, their descriptors with
    budget and eviction, the binding of descriptors to tiles, attaching and configuring a pack. While
    a pack is attached a descriptor shows the replacement it was resolved to, and a bound tile shows
    a replacement of the pack. The order in which the hash map of images is walked is a parameter
    (\<open>walk_order\<close>); all that is assumed is that it walks the images in the map and no others
    (\<open>walks_all\<close>). A budget does not outlive \<open>configure_hires_replacement\<close>, so the later lookups run
    without one (\<open>budget_lost_by_configuration\<close>).

  \<^bold>\<open>Command path\<close> (\<open>mupen64plus-video-paraLLEl/rdp.cpp\<close>, \<open>rdp_command_ingest.hpp\<close>,
  \<open>RDP/command_ring.cpp\<close>, \<open>RDP/rdp_device.cpp\<close> and the \<open>*_policy.hpp\<close> headers).
  \<^item> \<open>Command_Ingest\<close>: \<open>process_command_ingest\<close> step by step, refined by the stream of complete
    commands it hands on. \<open>Command_Ring\<close>: the ring with its two threads; every word arrives once and
    in order, draining waits for all of them and makes progress.
  \<^item> \<open>Setup_Policy\<close>, \<open>Command_Processor\<close>, \<open>Command_Properties\<close>: decoding and dispatch of the commands;
    no command list takes the processor out of its tables. \<open>Command_Pipeline\<close> composes the three:
    the threaded path gives what the direct one does.
  \<^item> \<open>Timeline_Worker\<close>: the worker thread and the timeline; \<open>wait_for_timeline\<close> returns only when all
    earlier commands are done. \<open>Masked_Copy\<close>: the write-back of bytes the GPU produced.

  \<^bold>\<open>Renderer and video interface\<close> (\<open>RDP/rdp_renderer.cpp\<close>, \<open>video_interface.cpp\<close>, \<open>vi_*.hpp\<close>).
  \<^item> \<open>RDP_Common\<close>: structures, flags, the state cache. \<open>Bit_Ranges\<close>, \<open>Coherency_Pages\<close>,
    \<open>Coherency_Properties\<close>: tracking of memory pages the GPU cannot see, with the counters of copies
    in flight. \<open>Render_Queue\<close>: when the renderer submits and which buffers it may reuse.
    \<open>Framebuffer_Hazards\<close>: when a texture load has to wait for rendering.
  \<^item> \<open>Video_Interface\<close>, \<open>VI_Properties\<close>: register decoding, the memory a scanout reads, downscaling.

  \<^bold>\<open>Core\<close> (\<open>CORE\<close>).
  \<^item> \<open>Event_Pool\<close> (\<open>r4300/interrupt.c\<close>: nodes, free stack, links), \<open>Event_Queue\<close> (the same as a list of
    events, by refinement), \<open>Event_Order\<close> (events in the order they are due although Count wraps,
    while they stay within half its range; saving and loading).
  \<^item> \<open>Interrupts\<close> (\<open>check_interrupt\<close>, exceptions, \<open>r4300/mi_controller.c\<close>), \<open>Controllers\<close> (\<open>ai/\<close>, \<open>vi/\<close>, the
    ends of transfers, \<open>gen_interrupt\<close>), \<open>Controller_Properties\<close> (the vertical interrupt is always
    queued; when an interrupt is taken).
  \<^item> \<open>TLB\<close>, \<open>TLB_Properties\<close> (\<open>r4300/tlb.c\<close> and the TLB instructions): the page tables agree with the
    entries; when a TLB write ends.
  \<^item> \<open>Peripheral_Interface\<close>, \<open>Peripheral_Properties\<close> (\<open>pi/\<close>, \<open>ri/safe_rdram.h\<close>): transfers between main
    memory, cartridge, save memories and disk drive buffers. Main memory is 8 MiB of bytes in the
    order of a little-endian host (\<open>S8\<close> is 3); \<open>host\<close> is the place of a guest address.

  \<^bold>\<open>Bounds.\<close> The pool of events has 16 nodes and the theorems say what happens when it is full. The
  TLB has 32 entries and \<open>2^20\<close> pages. Ring, pages and buffers have the sizes of the source. Invariants
  about opened files and memories (\<open>pi_ok\<close>, the provider invariant, the sizes of RDRAM) are what the
  initialisation establishes, and every witness is a concrete state that has them.

  \<^bold>\<open>Not modelled.\<close> What runs on the GPU (shaders, Vulkan) and the building of its descriptor sets;
  the other graphics plugins; the RSP plugins; the instruction semantics of the processor and the
  dynamic recompilers; the serial interface, the disk drive and the Game Boy cartridges; savestates,
  cheats, configuration and the libretro front end, which are input and output. The code that only
  the recompilers run in modelled functions (\<open>pcaddr\<close>, invalidation) is left out where it says so.
  \<open>PROJECT.json\<close> lists these with reasons, and the places where the code does not do what it means to.
\<close>

end
